(* ===== verification/Prelude.thy ===== *)
theory Prelude
  imports Main "HOL-Library.Word" "HOL-Library.Multiset" "HOL-Library.Monad_Syntax"
begin

text \<open>
  Shared vocabulary of the development: the fixed-width integer types of \<open>src/src/basics.h\<close>,
  its macros, the named collections the component proofs draw on, and generic lemmas on lists and
  words. In the models a computation that the C program does not survive (a failed \<open>assert\<close>,
  \<open>NIBBLE_FATAL_EXIT\<close>, a read outside an array) is the value \<open>None\<close>.
\<close>

unbundle bit_operations_syntax

section \<open>Machine integers\<close>

type_synonym u8 = "8 word"
type_synonym u16 = "16 word"
type_synonym u32 = "32 word"
type_synonym u64 = "64 word"

text \<open>The two's complement values of the signed C types are read off the same words by \<open>sint\<close>.\<close>

type_synonym s32 = "32 word"
type_synonym s64 = "64 word"

text \<open>The kinds of floats of \<open>nibble.h\<close>.\<close>

datatype FloatKind = FLOAT_F64 | FLOAT_F32

section \<open>Collections of facts\<close>

named_theorems emit_simps \<open>rewrite rules for the byte buffer operations\<close>
named_theorems list_inv_simps \<open>rewrite rules for interval lists\<close>

section \<open>Macros of basics.h\<close>

definition ALIGN_UP :: "'a::len word \<Rightarrow> 'a word \<Rightarrow> 'a word" where
  "ALIGN_UP p a = (p + a - 1) AND NOT (a - 1)"

definition IS_POW2 :: "'a::len word \<Rightarrow> bool" where
  "IS_POW2 x \<longleftrightarrow> x AND (x - 1) = 0"

section \<open>Assertions\<close>

definition assert_opt :: "bool \<Rightarrow> unit option" where
  "assert_opt b = (if b then Some () else None)"

lemma assert_opt_simps [simp]:
  "assert_opt True = Some ()" "assert_opt False = None"
  by (simp_all add: assert_opt_def)

lemma assert_opt_Some [simp]: "assert_opt b = Some u \<longleftrightarrow> b"
  by (simp add: assert_opt_def)

section \<open>Lists\<close>

lemma sorted_map_append_last:
  "sorted (map f xs) \<Longrightarrow> xs \<noteq> [] \<Longrightarrow> f (last xs) \<le> f y \<Longrightarrow> sorted (map f (xs @ [y]))"
  for f :: "'a \<Rightarrow> 'b::linorder"
  by (induction xs) (auto simp: sorted_append split: if_splits, (metis last_in_set order_trans)+)

section \<open>Words\<close>

lemma u8_eqI:
  fixes a b :: u8
  assumes "bit a 0 = bit b 0" "bit a 1 = bit b 1" "bit a 2 = bit b 2" "bit a 3 = bit b 3"
    "bit a 4 = bit b 4" "bit a 5 = bit b 5" "bit a 6 = bit b 6" "bit a 7 = bit b 7"
  shows "a = b"
proof (rule bit_word_eqI)
  fix n :: nat assume n: "n < LENGTH(8)"
  then have "n \<in> {0, 1, 2, 3, 4, 5, 6, 7}" by auto
  then show "bit a n \<longleftrightarrow> bit b n" using assms by (elim insertE) simp_all
qed

lemma ucast_and_FF [simp]: "(ucast (v AND 0xFF) :: u8) = ucast v" for v :: "'a::len word"
  by (rule u8_eqI; auto simp: bit_simps dest: bit_imp_le_length)

lemma unat_and_mask: "c \<le> 63 \<Longrightarrow> unat (w AND mask c) = unat w mod 2 ^ c" for w :: u64
  unfolding take_bit_eq_mask[symmetric] unsigned_take_bit_eq by (simp add: take_bit_eq_mod)

lemma unat_step: "c \<le> 63 \<Longrightarrow> unat (w + 1) mod 2 ^ c = (unat w + 1) mod 2 ^ c" for w :: u64
proof -
  assume c: "c \<le> 63"
  have "unat (w + 1) = (unat w + 1) mod 2 ^ 64" by (simp add: unat_word_ariths)
  moreover have "(2 :: nat) ^ c dvd 2 ^ 64" using c by (intro le_imp_power_dvd) simp
  ultimately show ?thesis by (simp add: mod_mod_cancel)
qed

text \<open>The bytes of a word in memory order.\<close>

definition le_bytes :: "nat \<Rightarrow> 'a::len word \<Rightarrow> u8 list" where
  "le_bytes n v = map (\<lambda>i. ucast (drop_bit (8 * i) v)) [0..<n]"

lemma le_bytes_simps [simp]:
  "le_bytes 1 v = [ucast v]"
  "le_bytes (Suc 0) v = [ucast v]"
  "le_bytes 2 v = [ucast v, ucast (drop_bit 8 v)]"
  "le_bytes 4 v = [ucast v, ucast (drop_bit 8 v), ucast (drop_bit 16 v), ucast (drop_bit 24 v)]"
  "le_bytes 8 v = [ucast v, ucast (drop_bit 8 v), ucast (drop_bit 16 v), ucast (drop_bit 24 v),
     ucast (drop_bit 32 v), ucast (drop_bit 40 v), ucast (drop_bit 48 v), ucast (drop_bit 56 v)]"
  by (simp_all add: le_bytes_def upt_rec)

lemma length_le_bytes [simp]: "length (le_bytes n v) = n"
  by (simp add: le_bytes_def)

end
