(* ===== verification/Bits.thy ===== *)
theory Bits
  imports Prelude
begin

text \<open>
  Bit masks and bit arrays (\<open>src/src/cstring.c\<close>, lines 270-372, and \<open>BitArray\<close> of
  \<open>src/src/cstring.h\<close>). A \<open>u32\<close> mask holds a set of registers; a \<open>BitArray\<close> holds the set of
  initialised elements or fields. Both are instances of the interface \<open>bit_store\<close>, whose client
  lemma says what is in the store after a sequence of updates. Shift counts are below the width of
  the shifted integer (a larger count is undefined in C, and no caller passes one).
\<close>

section \<open>The interface: a store of bits\<close>

locale bit_store =
  fixes cap :: "'s \<Rightarrow> nat"
    and get :: "'s \<Rightarrow> nat \<Rightarrow> bool option"
    and upd :: "'s \<Rightarrow> nat \<Rightarrow> bool \<Rightarrow> 's option"
  assumes get_total: "i < cap s \<Longrightarrow> \<exists>b. get s i = Some b"
    and upd_total: "i < cap s \<Longrightarrow> \<exists>s'. upd s i v = Some s'"
    and upd_cap: "i < cap s \<Longrightarrow> upd s i v = Some s' \<Longrightarrow> cap s' = cap s"
    and get_upd: "i < cap s \<Longrightarrow> j < cap s \<Longrightarrow> upd s i v = Some s' \<Longrightarrow>
                    get s' j = (if j = i then Some v else get s j)"
begin

primrec set_all :: "nat list \<Rightarrow> 's \<Rightarrow> 's option" where
  "set_all [] s = Some s"
| "set_all (i # is) s = upd s i True \<bind> set_all is"

lemma set_all_total:
  "(\<And>i. i \<in> set is \<Longrightarrow> i < cap s) \<Longrightarrow> \<exists>s'. set_all is s = Some s' \<and> cap s' = cap s"
proof (induction "is" arbitrary: s)
  case (Cons i "is")
  obtain s1 where s1: "upd s i True = Some s1" using upd_total[of i s True] Cons.prems by auto
  have "cap s1 = cap s" using upd_cap[OF _ s1] Cons.prems by simp
  with s1 Cons show ?case by (metis bind.bind_lunit list.set_intros(2) set_all.simps(2))
qed simp

lemma get_set_all:
  "(\<And>i. i \<in> set is \<Longrightarrow> i < cap s) \<Longrightarrow> set_all is s = Some s' \<Longrightarrow> j < cap s \<Longrightarrow>
   get s' j = (if j \<in> set is then Some True else get s j)"
proof (induction "is" arbitrary: s)
  case (Cons i "is")
  obtain s1 where s1: "upd s i True = Some s1" using upd_total[of i s True] Cons.prems by auto
  have c: "cap s1 = cap s" using upd_cap[OF _ s1] Cons.prems by simp
  have "set_all is s1 = Some s'" using s1 Cons.prems by simp
  then have "get s' j = (if j \<in> set is then Some True else get s1 j)"
    using Cons.IH[of s1] Cons.prems c by auto
  moreover have "get s1 j = (if j = i then Some True else get s j)"
    using get_upd s1 Cons.prems by simp
  ultimately show ?case by auto
qed simp

end

section \<open>u32 masks\<close>

definition u32_set_bit :: "u32 \<Rightarrow> u8 \<Rightarrow> u32" where
  "u32_set_bit msk i = msk OR push_bit (unat i) 1"

definition u32_unset_bit :: "u32 \<Rightarrow> u8 \<Rightarrow> u32" where
  "u32_unset_bit msk i = msk AND NOT (push_bit (unat i) 1)"

definition u32_is_bit_set :: "u32 \<Rightarrow> u8 \<Rightarrow> bool" where
  "u32_is_bit_set msk i \<longleftrightarrow> msk AND push_bit (unat i) 1 \<noteq> 0"

lemma and_push_bit_1_nz: "w AND push_bit n 1 \<noteq> 0 \<longleftrightarrow> bit w n" for w :: "'a::len word"
proof -
  have "w AND push_bit n 1 = (if bit w n then push_bit n 1 else 0)"
    by (rule bit_word_eqI) (auto simp: bit_simps)
  moreover have "bit w n \<Longrightarrow> push_bit n (1 :: 'a word) \<noteq> 0"
    by (metis bit_imp_le_length bit_0_eq bit_1_iff bit_push_bit_iff bot_apply bot_bool_def cancel_comm_monoid_add_class.diff_cancel
        le_refl possible_bit_word)
  ultimately show ?thesis by auto
qed

lemma and_exp_nz [simp]: "w AND 2 ^ n \<noteq> 0 \<longleftrightarrow> bit w n" for w :: "'a::len word"
  using and_push_bit_1_nz[of w n] by simp

lemma and_exp_z [simp]: "w AND 2 ^ n = 0 \<longleftrightarrow> \<not> bit w n" for w :: "'a::len word"
  using and_exp_nz[of w n] by blast

lemma u32_is_bit_set_iff [simp]: "u32_is_bit_set msk i \<longleftrightarrow> bit msk (unat i)"
  by (simp add: u32_is_bit_set_def)

lemma bit_u32_set_bit:
  "n < 32 \<Longrightarrow> bit (u32_set_bit msk i) n \<longleftrightarrow> bit msk n \<or> n = unat i"
  by (auto simp: u32_set_bit_def bit_simps)

lemma bit_u32_unset_bit:
  "n < 32 \<Longrightarrow> bit (u32_unset_bit msk i) n \<longleftrightarrow> bit msk n \<and> n \<noteq> unat i"
  by (auto simp: u32_unset_bit_def bit_simps)

definition u32_upd :: "u32 \<Rightarrow> nat \<Rightarrow> bool \<Rightarrow> u32 option" where
  "u32_upd m i v = Some (if v then u32_set_bit m (of_nat i) else u32_unset_bit m (of_nat i))"

definition u32_get :: "u32 \<Rightarrow> nat \<Rightarrow> bool option" where
  "u32_get m i = Some (u32_is_bit_set m (of_nat i))"

lemma unat_of_nat_u8: "i < 256 \<Longrightarrow> unat (of_nat i :: u8) = i"
  by (simp add: unat_of_nat)

interpretation u32_mask: bit_store "\<lambda>_. 32" u32_get u32_upd
  by unfold_locales
    (auto simp: u32_get_def u32_upd_def bit_u32_set_bit bit_u32_unset_bit unat_of_nat_u8 split: if_splits)

section \<open>Bit arrays\<close>

record BitArray =
  len :: nat
  bits :: "u64 list"

record BitArrayLoc =
  loc_i :: nat
  loc_j :: nat

definition bit_arr_loc :: "BitArray \<Rightarrow> nat \<Rightarrow> BitArrayLoc option" where
  "bit_arr_loc barr index = do {
     let loc = \<lparr>loc_i = index div 64, loc_j = index mod 64\<rparr>;
     assert_opt (loc_i loc < len barr);
     Some loc }"

definition bit_arr_init :: "nat \<Rightarrow> BitArray" where
  "bit_arr_init num_bits =
     (let n = (num_bits + 64 - 1) div 64 in \<lparr>len = n, bits = replicate n 0\<rparr>)"

definition bit_arr_set :: "BitArray \<Rightarrow> nat \<Rightarrow> bool \<Rightarrow> BitArray option" where
  "bit_arr_set barr index val = do {
     loc \<leftarrow> bit_arr_loc barr index;
     let m = bits barr ! loc_i loc;
     let m' = (if val then m OR push_bit (loc_j loc) 1 else m AND NOT (push_bit (loc_j loc) 1));
     Some (barr\<lparr>bits := (bits barr)[loc_i loc := m']\<rparr>) }"

definition bit_arr_get :: "BitArray \<Rightarrow> nat \<Rightarrow> bool option" where
  "bit_arr_get barr index = do {
     loc \<leftarrow> bit_arr_loc barr index;
     Some (bits barr ! loc_i loc AND push_bit (loc_j loc) 1 \<noteq> 0) }"

definition bit_arr_or :: "BitArray \<Rightarrow> BitArray \<Rightarrow> BitArray option" where
  "bit_arr_or dst src = do {
     assert_opt (len dst = len src);
     Some (dst\<lparr>bits := map2 (OR) (bits dst) (bits src)\<rparr>) }"

definition bit_arr_and :: "BitArray \<Rightarrow> BitArray \<Rightarrow> BitArray option" where
  "bit_arr_and dst src = do {
     assert_opt (len dst = len src);
     Some (dst\<lparr>bits := map2 (AND) (bits dst) (bits src)\<rparr>) }"

definition bit_arr_and_inv :: "BitArray \<Rightarrow> BitArray \<Rightarrow> BitArray option" where
  "bit_arr_and_inv dst src = do {
     assert_opt (len dst = len src);
     Some (dst\<lparr>bits := map2 (\<lambda>d s. d AND NOT s) (bits dst) (bits src)\<rparr>) }"

definition bit_arr_inv :: "BitArray \<Rightarrow> BitArray" where
  "bit_arr_inv barr = barr\<lparr>bits := map (\<lambda>b. NOT b) (bits barr)\<rparr>"

text \<open>The struct invariant: \<open>len\<close> is the number of words the array really has.\<close>

definition bit_arr_wf :: "BitArray \<Rightarrow> bool" where
  "bit_arr_wf barr \<longleftrightarrow> length (bits barr) = len barr"

abbreviation bit_arr_cap :: "BitArray \<Rightarrow> nat" where
  "bit_arr_cap barr \<equiv> 64 * len barr"

lemma bit_arr_init_wf: "bit_arr_wf (bit_arr_init n)"
  and bit_arr_init_cap: "n \<le> bit_arr_cap (bit_arr_init n)"
  by (auto simp: bit_arr_wf_def bit_arr_init_def Let_def)

lemma bit_arr_loc_Some:
  "index < bit_arr_cap barr \<Longrightarrow> bit_arr_loc barr index = Some \<lparr>loc_i = index div 64, loc_j = index mod 64\<rparr>"
  by (simp add: bit_arr_loc_def less_mult_imp_div_less mult.commute)

lemma bit_arr_loc_None: "bit_arr_cap barr \<le> index \<Longrightarrow> bit_arr_loc barr index = None"
  by (simp add: bit_arr_loc_def assert_opt_def)

lemma bit_arr_get_Some:
  "index < bit_arr_cap barr \<Longrightarrow> bit_arr_get barr index = Some (bit (bits barr ! (index div 64)) (index mod 64))"
  by (simp add: bit_arr_get_def bit_arr_loc_Some)

lemma bit_arr_set_Some:
  "index < bit_arr_cap barr \<Longrightarrow> bit_arr_set barr index v =
     Some (barr\<lparr>bits := (bits barr)[index div 64 :=
       (if v then bits barr ! (index div 64) OR push_bit (index mod 64) 1
        else bits barr ! (index div 64) AND NOT (push_bit (index mod 64) 1))]\<rparr>)"
  by (simp add: bit_arr_set_def bit_arr_loc_Some Let_def)

lemma bit_arr_set_wf: "bit_arr_wf barr \<Longrightarrow> bit_arr_set barr i v = Some barr' \<Longrightarrow> bit_arr_wf barr'"
  by (auto simp: bit_arr_set_def bit_arr_wf_def Let_def split: bind_splits)

lemma bit_arr_get_set:
  assumes "bit_arr_wf barr" "i < bit_arr_cap barr" "j < bit_arr_cap barr" "bit_arr_set barr i v = Some barr'"
  shows "bit_arr_get barr' j = (if j = i then Some v else bit_arr_get barr j)"
proof -
  have l: "i div 64 < length (bits barr)" using assms by (auto simp: bit_arr_wf_def)
  have cap: "len barr' = len barr" using assms by (auto simp: bit_arr_set_Some)
  have ij: "i div 64 = j div 64 \<Longrightarrow> i mod 64 = j mod 64 \<Longrightarrow> i = j" by (metis div_mult_mod_eq)
  have m: "j mod 64 < 64" by simp
  show ?thesis
    using assms l m ij cap
    by (auto simp: bit_arr_get_Some bit_arr_set_Some nth_list_update bit_simps split: if_splits)
qed

interpretation bit_arr: bit_store
  "\<lambda>b. if bit_arr_wf b then bit_arr_cap b else 0" bit_arr_get bit_arr_set
proof (unfold_locales, goal_cases)
  case (1 i s) then show ?case by (auto simp: bit_arr_get_Some split: if_splits)
next
  case (2 i s v) then show ?case by (auto simp: bit_arr_set_Some split: if_splits)
next
  case (3 i s v s')
  then have "bit_arr_wf s" "i < bit_arr_cap s" by (auto split: if_splits)
  moreover from this 3 have "bit_arr_wf s'" using bit_arr_set_wf by blast
  ultimately show ?case using 3 by (auto simp: bit_arr_set_Some)
next
  case (4 i s j v s') then show ?case using bit_arr_get_set by (auto split: if_splits)
qed

text \<open>The whole-array operations, bit by bit.\<close>

lemma bit_arr_bulk_get:
  assumes "bit_arr_wf dst" "bit_arr_wf src" "len dst = len src" "i < bit_arr_cap dst"
  shows "bit_arr_or dst src \<bind> (\<lambda>r. bit_arr_get r i) =
           Some (bit_arr_get dst i = Some True \<or> bit_arr_get src i = Some True)"
    and "bit_arr_and dst src \<bind> (\<lambda>r. bit_arr_get r i) =
           Some (bit_arr_get dst i = Some True \<and> bit_arr_get src i = Some True)"
    and "bit_arr_and_inv dst src \<bind> (\<lambda>r. bit_arr_get r i) =
           Some (bit_arr_get dst i = Some True \<and> bit_arr_get src i = Some False)"
    and "bit_arr_get (bit_arr_inv dst) i = Some (bit_arr_get dst i = Some False)"
proof -
  have l: "i div 64 < length (bits dst)" "i div 64 < length (bits src)"
    using assms by (auto simp: bit_arr_wf_def)
  have m: "i mod 64 < 64" by simp
  show "bit_arr_or dst src \<bind> (\<lambda>r. bit_arr_get r i) =
           Some (bit_arr_get dst i = Some True \<or> bit_arr_get src i = Some True)"
    "bit_arr_and dst src \<bind> (\<lambda>r. bit_arr_get r i) =
           Some (bit_arr_get dst i = Some True \<and> bit_arr_get src i = Some True)"
    "bit_arr_and_inv dst src \<bind> (\<lambda>r. bit_arr_get r i) =
           Some (bit_arr_get dst i = Some True \<and> bit_arr_get src i = Some False)"
    "bit_arr_get (bit_arr_inv dst) i = Some (bit_arr_get dst i = Some False)"
    using assms l m
    by (auto simp: bit_arr_or_def bit_arr_and_def bit_arr_and_inv_def bit_arr_inv_def
        bit_arr_get_Some bit_simps)
qed

end
