(* ===== verification/Regs.thy ===== *)
theory Regs
  imports Bits
begin

text \<open>
  The register file and the calling convention tables of the x86-64 back end
  (\<open>src/src/x64_gen/regs.h\<close>, \<open>src/src/x64_gen/regs.c\<close>). \<open>X64_REG_COUNT\<close>, which the C code uses as
  "no register", is \<open>None\<close> wherever a register is optional. The lemmas relate the enum values, the
  scratch register arrays and the bit masks to each other.
\<close>

section \<open>Registers\<close>

datatype X64_Reg =
  X64_RAX | X64_RCX | X64_RDX | X64_RBX
  | X64_RSP | X64_RBP | X64_RSI | X64_RDI
  | X64_R8 | X64_R9 | X64_R10 | X64_R11
  | X64_R12 | X64_R13 | X64_R14 | X64_R15
  | X64_XMM0 | X64_XMM1 | X64_XMM2 | X64_XMM3
  | X64_XMM4 | X64_XMM5 | X64_XMM6 | X64_XMM7
  | X64_XMM8 | X64_XMM9 | X64_XMM10 | X64_XMM11
  | X64_XMM12 | X64_XMM13 | X64_XMM14 | X64_XMM15

text \<open>The value of the enumerator.\<close>

fun reg_num :: "X64_Reg \<Rightarrow> nat" where
  "reg_num X64_RAX = 0"
| "reg_num X64_RCX = 1"
| "reg_num X64_RDX = 2"
| "reg_num X64_RBX = 3"
| "reg_num X64_RSP = 4"
| "reg_num X64_RBP = 5"
| "reg_num X64_RSI = 6"
| "reg_num X64_RDI = 7"
| "reg_num X64_R8 = 8"
| "reg_num X64_R9 = 9"
| "reg_num X64_R10 = 10"
| "reg_num X64_R11 = 11"
| "reg_num X64_R12 = 12"
| "reg_num X64_R13 = 13"
| "reg_num X64_R14 = 14"
| "reg_num X64_R15 = 15"
| "reg_num X64_XMM0 = 16"
| "reg_num X64_XMM1 = 17"
| "reg_num X64_XMM2 = 18"
| "reg_num X64_XMM3 = 19"
| "reg_num X64_XMM4 = 20"
| "reg_num X64_XMM5 = 21"
| "reg_num X64_XMM6 = 22"
| "reg_num X64_XMM7 = 23"
| "reg_num X64_XMM8 = 24"
| "reg_num X64_XMM9 = 25"
| "reg_num X64_XMM10 = 26"
| "reg_num X64_XMM11 = 27"
| "reg_num X64_XMM12 = 28"
| "reg_num X64_XMM13 = 29"
| "reg_num X64_XMM14 = 30"
| "reg_num X64_XMM15 = 31"

definition all_regs :: "X64_Reg list" where
  "all_regs = [X64_RAX, X64_RCX, X64_RDX, X64_RBX, X64_RSP, X64_RBP, X64_RSI, X64_RDI,
    X64_R8, X64_R9, X64_R10, X64_R11, X64_R12, X64_R13, X64_R14, X64_R15,
    X64_XMM0, X64_XMM1, X64_XMM2, X64_XMM3, X64_XMM4, X64_XMM5, X64_XMM6, X64_XMM7,
    X64_XMM8, X64_XMM9, X64_XMM10, X64_XMM11, X64_XMM12, X64_XMM13, X64_XMM14, X64_XMM15]"

abbreviation (input) X64_REG_COUNT :: nat where
  "X64_REG_COUNT \<equiv> 32"

lemma reg_num_lt [simp]: "reg_num r < X64_REG_COUNT"
  by (cases r) simp_all

lemma all_regs_nth: "all_regs ! reg_num r = r"
  by (cases r) (simp_all add: all_regs_def)

lemma reg_num_inj [simp]: "reg_num a = reg_num b \<longleftrightarrow> a = b"
  using all_regs_nth[of a] all_regs_nth[of b] by metis

lemma set_all_regs [simp]: "r \<in> set all_regs"
  by (cases r) (simp_all add: all_regs_def)

lemma all_reg_iff: "(\<forall>r. P r) \<longleftrightarrow> list_all P all_regs"
  using set_all_regs by (auto simp: list_all_iff)

text \<open>Registers are ordered by their enum value, as the C comparisons do.\<close>

instantiation X64_Reg :: linorder
begin

definition less_eq_X64_Reg :: "X64_Reg \<Rightarrow> X64_Reg \<Rightarrow> bool" where
  "less_eq_X64_Reg a b \<longleftrightarrow> reg_num a \<le> reg_num b"

definition less_X64_Reg :: "X64_Reg \<Rightarrow> X64_Reg \<Rightarrow> bool" where
  "less_X64_Reg a b \<longleftrightarrow> reg_num a < reg_num b"

instance
  by standard (auto simp: less_eq_X64_Reg_def less_X64_Reg_def)

end

datatype X64_RegClass = X64_REG_CLASS_INT | X64_REG_CLASS_FLOAT

fun class_num :: "X64_RegClass \<Rightarrow> nat" where
  "class_num X64_REG_CLASS_INT = 0"
| "class_num X64_REG_CLASS_FLOAT = 1"

definition x64_reg_classes :: "X64_Reg \<Rightarrow> X64_RegClass" where
  "x64_reg_classes r = (if reg_num r < 16 then X64_REG_CLASS_INT else X64_REG_CLASS_FLOAT)"

section \<open>The Linux System V target\<close>

definition x64_linux_leaf_scratch_int_regs :: "X64_Reg list" where
  "x64_linux_leaf_scratch_int_regs =
    [X64_R10, X64_R11, X64_RAX, X64_RDI, X64_RSI, X64_RDX, X64_RCX, X64_R8, X64_R9,
     X64_R12, X64_R13, X64_R14, X64_R15, X64_RBX]"

definition x64_linux_leaf_scratch_flt_regs :: "X64_Reg list" where
  "x64_linux_leaf_scratch_flt_regs =
    [X64_XMM0, X64_XMM1, X64_XMM2, X64_XMM3, X64_XMM4, X64_XMM5, X64_XMM6, X64_XMM7, X64_XMM8, X64_XMM9,
     X64_XMM10, X64_XMM11, X64_XMM12, X64_XMM13, X64_XMM14, X64_XMM15]"

fun x64_linux_leaf_scratch_regs :: "X64_RegClass \<Rightarrow> X64_Reg list" where
  "x64_linux_leaf_scratch_regs X64_REG_CLASS_INT = x64_linux_leaf_scratch_int_regs"
| "x64_linux_leaf_scratch_regs X64_REG_CLASS_FLOAT = x64_linux_leaf_scratch_flt_regs"

definition x64_linux_nonleaf_scratch_int_regs :: "X64_Reg list" where
  "x64_linux_nonleaf_scratch_int_regs =
    [X64_R12, X64_R13, X64_R14, X64_R15, X64_RBX,
     X64_R10, X64_R11, X64_RAX, X64_RDI, X64_RSI, X64_RDX, X64_RCX, X64_R8, X64_R9]"

definition x64_linux_nonleaf_scratch_flt_regs :: "X64_Reg list" where
  "x64_linux_nonleaf_scratch_flt_regs =
    [X64_XMM10, X64_XMM11, X64_XMM12, X64_XMM13, X64_XMM14, X64_XMM15,
     X64_XMM0, X64_XMM1, X64_XMM2, X64_XMM3, X64_XMM4, X64_XMM5, X64_XMM6, X64_XMM7, X64_XMM8, X64_XMM9]"

fun x64_linux_nonleaf_scratch_regs :: "X64_RegClass \<Rightarrow> X64_Reg list" where
  "x64_linux_nonleaf_scratch_regs X64_REG_CLASS_INT = x64_linux_nonleaf_scratch_int_regs"
| "x64_linux_nonleaf_scratch_regs X64_REG_CLASS_FLOAT = x64_linux_nonleaf_scratch_flt_regs"

fun x64_linux_arg_regs :: "X64_RegClass \<Rightarrow> X64_Reg list" where
  "x64_linux_arg_regs X64_REG_CLASS_INT = [X64_RDI, X64_RSI, X64_RDX, X64_RCX, X64_R8, X64_R9]"
| "x64_linux_arg_regs X64_REG_CLASS_FLOAT =
    [X64_XMM0, X64_XMM1, X64_XMM2, X64_XMM3, X64_XMM4, X64_XMM5, X64_XMM6, X64_XMM7]"

fun x64_linux_ret_regs :: "X64_RegClass \<Rightarrow> X64_Reg list" where
  "x64_linux_ret_regs X64_REG_CLASS_INT = [X64_RAX, X64_RDX]"
| "x64_linux_ret_regs X64_REG_CLASS_FLOAT = [X64_XMM0, X64_XMM1]"

definition x64_linux_caller_saved_reg_mask :: u32 where
  "x64_linux_caller_saved_reg_mask = 0xFFFF0FC7"

definition x64_linux_arg_reg_mask :: u32 where
  "x64_linux_arg_reg_mask = 0x00FF03C6"

definition x64_linux_ret_reg_mask :: u32 where
  "x64_linux_ret_reg_mask = 0x00030005"

datatype OS = OS_INVALID | OS_LINUX

record X64_Target =
  arg_regs :: "X64_RegClass \<Rightarrow> X64_Reg list"
  ret_regs :: "X64_RegClass \<Rightarrow> X64_Reg list"
  leaf_scratch_regs :: "X64_RegClass \<Rightarrow> X64_Reg list"
  nonleaf_scratch_regs :: "X64_RegClass \<Rightarrow> X64_Reg list"
  caller_saved_reg_mask :: u32
  arg_reg_mask :: u32
  ret_reg_mask :: u32
  scratch_reg_mask :: u32
  target_os :: OS

text \<open>The startup code text of the target is assembler source and plays no part here.\<close>

fun x64_init_target :: "OS \<Rightarrow> X64_Target option" where
  "x64_init_target OS_LINUX = Some
    \<lparr>arg_regs = x64_linux_arg_regs, ret_regs = x64_linux_ret_regs,
     leaf_scratch_regs = x64_linux_leaf_scratch_regs,
     nonleaf_scratch_regs = x64_linux_nonleaf_scratch_regs,
     caller_saved_reg_mask = x64_linux_caller_saved_reg_mask,
     arg_reg_mask = x64_linux_arg_reg_mask, ret_reg_mask = x64_linux_ret_reg_mask,
     scratch_reg_mask = 0xFFCF, target_os = OS_LINUX\<rparr>"
| "x64_init_target OS_INVALID = None"

definition reg_bit :: "X64_Reg \<Rightarrow> u8" where
  "reg_bit r = of_nat (reg_num r)"

definition X64_is_caller_saved_reg :: "X64_Target \<Rightarrow> X64_Reg \<Rightarrow> bool" where
  "X64_is_caller_saved_reg t reg = u32_is_bit_set (caller_saved_reg_mask t) (reg_bit reg)"

definition X64_is_callee_saved_reg :: "X64_Target \<Rightarrow> X64_Reg \<Rightarrow> bool" where
  "X64_is_callee_saved_reg t reg = (\<not> u32_is_bit_set (caller_saved_reg_mask t) (reg_bit reg))"

definition X64_is_arg_reg :: "X64_Target \<Rightarrow> X64_Reg \<Rightarrow> bool" where
  "X64_is_arg_reg t reg = u32_is_bit_set (arg_reg_mask t) (reg_bit reg)"

lemma unat_reg_bit [simp]: "unat (reg_bit r) = reg_num r"
  unfolding reg_bit_def by (rule unat_of_nat_u8) (use reg_num_lt[of r] in linarith)

text \<open>A mask read as a set of registers.\<close>

definition regs_of_mask :: "u32 \<Rightarrow> X64_Reg set" where
  "regs_of_mask m = {r. u32_is_bit_set m (reg_bit r)}"

lemma regs_of_mask_0 [simp]: "regs_of_mask 0 = {}"
  by (simp add: regs_of_mask_def)

lemma regs_of_mask_set_bit [simp]: "regs_of_mask (u32_set_bit m (reg_bit r)) = insert r (regs_of_mask m)"
  by (auto simp: regs_of_mask_def bit_u32_set_bit)

lemma regs_of_mask_unset_bit [simp]: "regs_of_mask (u32_unset_bit m (reg_bit r)) = regs_of_mask m - {r}"
  by (auto simp: regs_of_mask_def bit_u32_unset_bit)

lemma regs_of_mask_code: "regs_of_mask m = set (filter (\<lambda>r. bit m (reg_num r)) all_regs)"
  by (auto simp: regs_of_mask_def)

end
