(* ===== verification/X64_Instrs.thy ===== *)
theory X64_Instrs
  imports Regs
begin

text \<open>
  The machine instructions of the x86-64 back end and the functions that append them to the basic
  blocks of a procedure (\<open>src/src/x64_gen/x64_instrs.h\<close>, \<open>src/src/x64_gen/x64_instrs.c\<close>).

  In \<open>X64_SIBD_ADDR_LOCAL base index scale disp\<close> the fields are those of \<open>X64_SIBD_Addr.local\<close>.
  \<open>X64_Instr\<close> has one constructor per shape of instruction: kinds of the C enum that differ in the
  operator only (\<open>ADD_RR\<close>, \<open>SUB_RR\<close>, ...) share a constructor that carries the operator, and the
  constructors are grouped by the section of the encoder that handles them, so that
  \<open>Bin (X64_BIN_RR X64_ADD s d r)\<close> is the C instruction with kind \<open>ADD_RR\<close> and the fields
  \<open>size\<close>, \<open>dst\<close>, \<open>src\<close>. The two instruction-specific flags are fields of the constructors that use
  them. The linked list of instructions of a block is a list.
\<close>

section \<open>Symbols, literals and addresses\<close>

text \<open>
  Of a \<open>Symbol\<close> the back end reads its kind, whether its declaration is foreign, and the index of a
  procedure; \<open>sym_id\<close> is the identity of the C pointer. A literal is identified by its index.
\<close>

datatype SymbolKind = SYMBOL_NONE | SYMBOL_VAR | SYMBOL_CONST | SYMBOL_PROC | SYMBOL_TYPE | SYMBOL_MODULE

record Symbol =
  sym_id :: nat
  sym_kind :: SymbolKind
  decl_is_foreign :: bool
  as_proc_index :: nat

datatype ConstAddr =
    CONST_ADDR_SYM Symbol
  | CONST_ADDR_STR_LIT nat
  | CONST_ADDR_FLOAT_LIT nat

datatype X64_SIBD_Addr =
    X64_SIBD_ADDR_GLOBAL Symbol
  | X64_SIBD_ADDR_LOCAL "X64_Reg option" "X64_Reg option" u8 s32
  | X64_SIBD_ADDR_STR_LIT nat
  | X64_SIBD_ADDR_FLOAT_LIT nat

datatype ConditionKind =
    COND_U_LT | COND_S_LT | COND_U_LTEQ | COND_S_LTEQ | COND_U_GT
  | COND_S_GT | COND_U_GTEQ | COND_S_GTEQ | COND_EQ | COND_NEQ

section \<open>Instructions\<close>

datatype X64_BinOp = X64_ADD | X64_SUB | X64_AND | X64_OR | X64_XOR | X64_CMP
datatype X64_RaxOp = X64_IMUL | X64_MUL | X64_DIV | X64_IDIV
datatype X64_FltOp = X64_ADD_FLT | X64_SUB_FLT | X64_MUL_FLT | X64_DIV_FLT
datatype X64_UnOp = X64_NEG | X64_NOT
datatype X64_ShiftOp = X64_SHL | X64_SAR

datatype X64_CtrlInstr =
    X64_NOOP
  | X64_PUSH X64_Reg
  | X64_POP X64_Reg
  | X64_JMP u32
  | X64_JMP_TO_RET u32
  | X64_JMPCC ConditionKind u32
  | X64_SETCC_R ConditionKind X64_Reg
  | X64_SETCC_M ConditionKind X64_SIBD_Addr
  | X64_RET
  | X64_CALL Symbol
  | X64_CALL_R X64_Reg
  | X64_CALL_M X64_SIBD_Addr
  | X64_REP_MOVSB
  | X64_REP_STOSB
  | X64_SYSCALL

datatype X64_BinInstr =
    X64_BIN_RR X64_BinOp u8 X64_Reg X64_Reg
  | X64_BIN_RM X64_BinOp u8 X64_Reg X64_SIBD_Addr
  | X64_BIN_MR X64_BinOp u8 X64_SIBD_Addr X64_Reg
  | X64_BIN_RI X64_BinOp u8 X64_Reg u32
  | X64_BIN_MI X64_BinOp u8 X64_SIBD_Addr u32

datatype X64_MulInstr =
    X64_IMUL_RR u8 X64_Reg X64_Reg
  | X64_IMUL_RM u8 X64_Reg X64_SIBD_Addr
  | X64_IMUL_RI u8 X64_Reg u32
  | X64_IMUL_MI u8 X64_SIBD_Addr u32
  | X64_RAX_R X64_RaxOp u8 X64_Reg
  | X64_RAX_M X64_RaxOp u8 X64_SIBD_Addr
  | X64_CWD
  | X64_CDQ
  | X64_CQO

datatype X64_ShiftInstr =
    X64_UN_R X64_UnOp u8 X64_Reg
  | X64_UN_M X64_UnOp u8 X64_SIBD_Addr
  | X64_SHIFT_RR X64_ShiftOp u8 X64_Reg
  | X64_SHIFT_MR X64_ShiftOp u8 X64_SIBD_Addr
  | X64_SHIFT_RI X64_ShiftOp u8 X64_Reg u8
  | X64_SHIFT_MI X64_ShiftOp u8 X64_SIBD_Addr u8

datatype X64_MovInstr =
    X64_MOV_RR bool u8 X64_Reg X64_Reg
  | X64_MOV_RM u8 X64_Reg X64_SIBD_Addr
  | X64_MOV_MR bool u8 X64_SIBD_Addr X64_Reg
  | X64_MOV_RI u8 X64_Reg u64
  | X64_MOV_MI u8 X64_SIBD_Addr u32
  | X64_MOVSX_RR u8 u8 X64_Reg X64_Reg
  | X64_MOVSX_RM u8 u8 X64_Reg X64_SIBD_Addr
  | X64_MOVSXD_RR u8 u8 X64_Reg X64_Reg
  | X64_MOVSXD_RM u8 u8 X64_Reg X64_SIBD_Addr
  | X64_MOVZX_RR u8 u8 X64_Reg X64_Reg
  | X64_MOVZX_RM u8 u8 X64_Reg X64_SIBD_Addr
  | X64_LEA X64_Reg X64_SIBD_Addr

datatype X64_FltInstr =
    X64_FLT_RR X64_FltOp FloatKind X64_Reg X64_Reg
  | X64_FLT_RM X64_FltOp FloatKind X64_Reg X64_SIBD_Addr
  | X64_MOV_FLT_RR FloatKind X64_Reg X64_Reg
  | X64_MOV_FLT_RM FloatKind X64_Reg X64_SIBD_Addr
  | X64_MOV_FLT_MR FloatKind X64_SIBD_Addr X64_Reg
  | X64_CVTFLT_RR FloatKind X64_Reg X64_Reg
  | X64_CVTFLT_RM FloatKind X64_Reg X64_SIBD_Addr
  | X64_CVTTFLT2SI_RR FloatKind bool X64_Reg X64_Reg
  | X64_CVTTFLT2SI_RM FloatKind bool X64_Reg X64_SIBD_Addr
  | X64_CVTSI2FLT_RR FloatKind bool X64_Reg X64_Reg
  | X64_CVTSI2FLT_RM FloatKind bool X64_Reg X64_SIBD_Addr
  | X64_MOVDQU_MR X64_SIBD_Addr X64_Reg
  | X64_MOVDQU_RM X64_Reg X64_SIBD_Addr
  | X64_UCOMIS_RR FloatKind X64_Reg X64_Reg
  | X64_UCOMIS_RM FloatKind X64_Reg X64_SIBD_Addr

datatype X64_Instr =
    Ctrl X64_CtrlInstr
  | Bin X64_BinInstr
  | Mul X64_MulInstr
  | Shift X64_ShiftInstr
  | Mov X64_MovInstr
  | Flt X64_FltInstr

fun is_jmp :: "X64_Instr \<Rightarrow> bool" where
  "is_jmp (Ctrl (X64_JMP _)) = True"
| "is_jmp (Ctrl (X64_JMP_TO_RET _)) = True"
| "is_jmp (Ctrl (X64_JMPCC _ _)) = True"
| "is_jmp _ = False"

end
