(* ===== verification/Machine_Code.thy ===== *)
theory Machine_Code
  imports X64_Instrs
begin

text \<open>
  The machine code emitter (\<open>src/src/x64_gen/machine_code.c\<close>, lines 1-886): register numbers and
  opcode tables, the computation of ModRM/SIB bytes from an address, the text generation state, and
  the helpers that write one family of instructions each. A helper threads the generation state
  through the sequence of \<open>array_push\<close> calls of the C function; \<open>None\<close> is an abort (a fatal exit, a
  failed assertion or a read outside a table).
\<close>

section \<open>Tables\<close>

fun x64_reg_val :: "X64_Reg \<Rightarrow> u8" where
  "x64_reg_val X64_RAX = 0"
| "x64_reg_val X64_RCX = 1"
| "x64_reg_val X64_RDX = 2"
| "x64_reg_val X64_RBX = 3"
| "x64_reg_val X64_RSP = 4"
| "x64_reg_val X64_RBP = 5"
| "x64_reg_val X64_RSI = 6"
| "x64_reg_val X64_RDI = 7"
| "x64_reg_val X64_R8 = 8"
| "x64_reg_val X64_R9 = 9"
| "x64_reg_val X64_R10 = 10"
| "x64_reg_val X64_R11 = 11"
| "x64_reg_val X64_R12 = 12"
| "x64_reg_val X64_R13 = 13"
| "x64_reg_val X64_R14 = 14"
| "x64_reg_val X64_R15 = 15"
| "x64_reg_val X64_XMM0 = 0"
| "x64_reg_val X64_XMM1 = 1"
| "x64_reg_val X64_XMM2 = 2"
| "x64_reg_val X64_XMM3 = 3"
| "x64_reg_val X64_XMM4 = 4"
| "x64_reg_val X64_XMM5 = 5"
| "x64_reg_val X64_XMM6 = 6"
| "x64_reg_val X64_XMM7 = 7"
| "x64_reg_val X64_XMM8 = 8"
| "x64_reg_val X64_XMM9 = 9"
| "x64_reg_val X64_XMM10 = 10"
| "x64_reg_val X64_XMM11 = 11"
| "x64_reg_val X64_XMM12 = 12"
| "x64_reg_val X64_XMM13 = 13"
| "x64_reg_val X64_XMM14 = 14"
| "x64_reg_val X64_XMM15 = 15"

fun x64_reg_8h_val :: "X64_Reg \<Rightarrow> u8" where
  "x64_reg_8h_val X64_RAX = 4"
| "x64_reg_8h_val X64_RCX = 5"
| "x64_reg_8h_val X64_RDX = 6"
| "x64_reg_8h_val X64_RBX = 7"
| "x64_reg_8h_val _ = 0"

definition X64_reg_aliased_8h :: "X64_Reg \<Rightarrow> bool" where
  "X64_reg_aliased_8h r =
     (let reg_val = x64_reg_val r in
      x64_reg_8h_val X64_RAX \<le> reg_val \<and> reg_val \<le> x64_reg_8h_val X64_RBX)"

fun x64_setcc_condition_opcodes :: "ConditionKind \<Rightarrow> u16" where
  "x64_setcc_condition_opcodes COND_U_LT = 0x920F"
| "x64_setcc_condition_opcodes COND_S_LT = 0x9C0F"
| "x64_setcc_condition_opcodes COND_U_LTEQ = 0x960F"
| "x64_setcc_condition_opcodes COND_S_LTEQ = 0x9E0F"
| "x64_setcc_condition_opcodes COND_U_GT = 0x970F"
| "x64_setcc_condition_opcodes COND_S_GT = 0x9F0F"
| "x64_setcc_condition_opcodes COND_U_GTEQ = 0x930F"
| "x64_setcc_condition_opcodes COND_S_GTEQ = 0x9D0F"
| "x64_setcc_condition_opcodes COND_EQ = 0x940F"
| "x64_setcc_condition_opcodes COND_NEQ = 0x950F"

fun x64_jmpcc_short_condition_opcodes :: "ConditionKind \<Rightarrow> u16" where
  "x64_jmpcc_short_condition_opcodes COND_U_LT = 0x72"
| "x64_jmpcc_short_condition_opcodes COND_S_LT = 0x7C"
| "x64_jmpcc_short_condition_opcodes COND_U_LTEQ = 0x76"
| "x64_jmpcc_short_condition_opcodes COND_S_LTEQ = 0x7E"
| "x64_jmpcc_short_condition_opcodes COND_U_GT = 0x77"
| "x64_jmpcc_short_condition_opcodes COND_S_GT = 0x7F"
| "x64_jmpcc_short_condition_opcodes COND_U_GTEQ = 0x73"
| "x64_jmpcc_short_condition_opcodes COND_S_GTEQ = 0x7D"
| "x64_jmpcc_short_condition_opcodes COND_EQ = 0x74"
| "x64_jmpcc_short_condition_opcodes COND_NEQ = 0x75"

fun x64_jmpcc_near_condition_opcodes :: "ConditionKind \<Rightarrow> u16" where
  "x64_jmpcc_near_condition_opcodes COND_U_LT = 0x820F"
| "x64_jmpcc_near_condition_opcodes COND_S_LT = 0x8C0F"
| "x64_jmpcc_near_condition_opcodes COND_U_LTEQ = 0x860F"
| "x64_jmpcc_near_condition_opcodes COND_S_LTEQ = 0x8E0F"
| "x64_jmpcc_near_condition_opcodes COND_U_GT = 0x870F"
| "x64_jmpcc_near_condition_opcodes COND_S_GT = 0x8F0F"
| "x64_jmpcc_near_condition_opcodes COND_U_GTEQ = 0x830F"
| "x64_jmpcc_near_condition_opcodes COND_S_GTEQ = 0x8D0F"
| "x64_jmpcc_near_condition_opcodes COND_EQ = 0x840F"
| "x64_jmpcc_near_condition_opcodes COND_NEQ = 0x850F"

section \<open>ModRM, REX and SIB bytes\<close>

definition X64_MOD_INDIRECT :: u8 where "X64_MOD_INDIRECT = 0"
definition X64_MOD_INDIRECT_DISP_U8 :: u8 where "X64_MOD_INDIRECT_DISP_U8 = 1"
definition X64_MOD_INDIRECT_DISP_U32 :: u8 where "X64_MOD_INDIRECT_DISP_U32 = 2"
definition X64_MOD_DIRECT :: u8 where "X64_MOD_DIRECT = 3"

lemmas mod_defs = X64_MOD_INDIRECT_def X64_MOD_INDIRECT_DISP_U8_def X64_MOD_INDIRECT_DISP_U32_def X64_MOD_DIRECT_def

definition X64_get_scale_mode :: "u8 \<Rightarrow> u8 option" where
  "X64_get_scale_mode scl =
     (if scl = 1 then Some 0 else if scl = 2 then Some 1 else if scl = 4 then Some 2
      else if scl = 8 then Some 3 else None)"

definition X64_modrm_byte :: "u8 \<Rightarrow> u8 \<Rightarrow> u8 \<Rightarrow> u8" where
  "X64_modrm_byte md reg rm = (rm AND 7) OR push_bit 3 (reg AND 7) OR push_bit 6 (md AND 3)"

definition X64_rex_prefix :: "u8 \<Rightarrow> u8 \<Rightarrow> u8 \<Rightarrow> u8 \<Rightarrow> u8" where
  "X64_rex_prefix w r x b =
     0x40 OR push_bit 3 (w AND 1) OR push_bit 2 (r AND 1) OR push_bit 1 (x AND 1) OR (b AND 1)"

definition X64_rex_nosib :: "u8 \<Rightarrow> u8 \<Rightarrow> u8 \<Rightarrow> u8" where
  "X64_rex_nosib w reg rm = X64_rex_prefix w (drop_bit 3 reg) 0 (drop_bit 3 rm)"

definition X64_rex_opcode_reg :: "u8 \<Rightarrow> u8 \<Rightarrow> u8" where
  "X64_rex_opcode_reg w reg = X64_rex_prefix w 0 0 (drop_bit 3 reg)"

record X64_AddrBytes =
  ab_mod :: u8
  ab_rm :: u8
  sib_byte :: u8
  ab_disp :: s32
  rex_b :: bool
  rex_x :: bool
  has_disp :: bool
  has_sib_byte :: bool
  patch_entity :: "ConstAddr option"

definition rip_addr_bytes :: "ConstAddr \<Rightarrow> X64_AddrBytes" where
  "rip_addr_bytes e =
     \<lparr>ab_mod = X64_MOD_INDIRECT, ab_rm = 5, sib_byte = 0, ab_disp = 0, rex_b = False, rex_x = False,
      has_disp = True, has_sib_byte = False, patch_entity = Some e\<rparr>"

text \<open>
  \<open>(u8)-1\<close> in a register field is \<open>None\<close>. Without a base register the C function reads
  \<open>x64_reg_val[255]\<close> when the displacement is zero, and exits with an error in every case.
\<close>

fun X64_get_addr_bytes :: "X64_SIBD_Addr \<Rightarrow> X64_AddrBytes option" where
  "X64_get_addr_bytes (X64_SIBD_ADDR_GLOBAL g) = Some (rip_addr_bytes (CONST_ADDR_SYM g))"
| "X64_get_addr_bytes (X64_SIBD_ADDR_STR_LIT s) = Some (rip_addr_bytes (CONST_ADDR_STR_LIT s))"
| "X64_get_addr_bytes (X64_SIBD_ADDR_FLOAT_LIT f) = Some (rip_addr_bytes (CONST_ADDR_FLOAT_LIT f))"
| "X64_get_addr_bytes (X64_SIBD_ADDR_LOCAL breg ireg scl dsp) = do {
     b \<leftarrow> breg;
     let base_reg = x64_reg_val b;
     let index_opt = (if scl \<noteq> 0 then map_option x64_reg_val ireg else None);
     let disp_is_imm8 = (sint dsp \<le> 127 \<and> sint dsp \<ge> -128);
     let hdisp = (dsp \<noteq> 0 \<or> base_reg AND 7 = 5);
     let disp_mod = (if \<not> hdisp then X64_MOD_INDIRECT
                     else if disp_is_imm8 then X64_MOD_INDIRECT_DISP_U8 else X64_MOD_INDIRECT_DISP_U32);
     if base_reg AND 7 = x64_reg_val X64_RSP then do {
       let index_reg = (case index_opt of Some i \<Rightarrow> i | None \<Rightarrow> x64_reg_val X64_RSP);
       scale_mode \<leftarrow> (case index_opt of Some _ \<Rightarrow> X64_get_scale_mode scl | None \<Rightarrow> Some 0);
       Some \<lparr>ab_mod = disp_mod, ab_rm = 4,
             sib_byte = X64_modrm_byte scale_mode (index_reg AND 7) (base_reg AND 7), ab_disp = dsp,
             rex_b = (base_reg > 7), rex_x = (index_reg > 7), has_disp = hdisp, has_sib_byte = True,
             patch_entity = None\<rparr> }
     else (case index_opt of
         None \<Rightarrow>
           Some \<lparr>ab_mod = disp_mod, ab_rm = base_reg AND 7, sib_byte = 0, ab_disp = dsp,
                 rex_b = (base_reg > 7), rex_x = False, has_disp = hdisp, has_sib_byte = False,
                 patch_entity = None\<rparr>
       | Some index_reg \<Rightarrow> do {
           scale_mode \<leftarrow> X64_get_scale_mode scl;
           Some \<lparr>ab_mod = disp_mod, ab_rm = 4,
                 sib_byte = X64_modrm_byte scale_mode (index_reg AND 7) (base_reg AND 7), ab_disp = dsp,
                 rex_b = (base_reg > 7), rex_x = (index_reg > 7), has_disp = hdisp, has_sib_byte = True,
                 patch_entity = None\<rparr> }) }"

section \<open>The text generation state\<close>

text \<open>
  \<open>jmp_opcode\<close> and \<open>jmp_offset\<close> are the integer views of the C unions; their \<open>bytes\<close> are read in
  little-endian order when a block is serialised.
\<close>

record X64_TextBBlock =
  bb_index :: u32
  final_offset :: s64
  buffer :: "u8 list"
  jmp_opcode :: u16
  jmp_opcode_len :: u8
  jmp_offset :: s32
  jmp_offset_len :: u8
  jmp_instr :: "X64_CtrlInstr option"

record X64_UsageLoc =
  bblock_index :: u32
  bblock_offset :: s32

record X64_InternalReloc =
  usage_loc :: X64_UsageLoc
  ir_bytes_to_next_ip :: s64
  ir_ref_addr :: ConstAddr

record X64_TextGenState =
  curr_bblock :: X64_TextBBlock
  proc_off_patches :: "X64_InternalReloc list"
  relocs :: "X64_InternalReloc list"

definition push_byte :: "u8 \<Rightarrow> X64_TextGenState \<Rightarrow> X64_TextGenState" where
  "push_byte b gs = gs\<lparr>curr_bblock := (curr_bblock gs)\<lparr>buffer := buffer (curr_bblock gs) @ [b]\<rparr>\<rparr>"

definition X64_write_imm16_bytes :: "u16 \<Rightarrow> X64_TextGenState \<Rightarrow> X64_TextGenState" where
  "X64_write_imm16_bytes val gs =
     (let gs = push_byte (ucast (val AND 0xFF)) gs;
          gs = push_byte (ucast (drop_bit 8 val AND 0xFF)) gs in gs)"

definition X64_write_imm32_bytes :: "u32 \<Rightarrow> X64_TextGenState \<Rightarrow> X64_TextGenState" where
  "X64_write_imm32_bytes val gs =
     (let gs = push_byte (ucast (val AND 0xFF)) gs;
          gs = push_byte (ucast (drop_bit 8 val AND 0xFF)) gs;
          gs = push_byte (ucast (drop_bit 16 val AND 0xFF)) gs;
          gs = push_byte (ucast (drop_bit 24 val AND 0xFF)) gs in gs)"

text \<open>The eight bytes are stored by one (little-endian) 64-bit write.\<close>

definition X64_write_imm64_bytes :: "u64 \<Rightarrow> X64_TextGenState \<Rightarrow> X64_TextGenState" where
  "X64_write_imm64_bytes val gs = fold (\<lambda>i. push_byte (ucast (drop_bit (8 * i) val))) [0..<8] gs"

definition X64_write_imm_bytes :: "u64 \<Rightarrow> u8 \<Rightarrow> X64_TextGenState \<Rightarrow> X64_TextGenState option" where
  "X64_write_imm_bytes val num_bytes gs =
     (if num_bytes = 1 then Some (push_byte (ucast val) gs)
      else if num_bytes = 2 then Some (X64_write_imm16_bytes (ucast val) gs)
      else if num_bytes = 4 then Some (X64_write_imm32_bytes (ucast val) gs)
      else do { assert_opt (num_bytes = 8); Some (X64_write_imm64_bytes val gs) })"

fun X64_record_global_entity_offset_usage :: "ConstAddr \<Rightarrow> X64_TextGenState \<Rightarrow> X64_TextGenState option" where
  "X64_record_global_entity_offset_usage entity gs =
     (let curr_loc = \<lparr>bblock_index = bb_index (curr_bblock gs),
                      bblock_offset = of_nat (length (buffer (curr_bblock gs)))\<rparr>;
          r = \<lparr>usage_loc = curr_loc, ir_bytes_to_next_ip = 4, ir_ref_addr = entity\<rparr> in
      case entity of
        CONST_ADDR_STR_LIT _ \<Rightarrow> Some (gs\<lparr>relocs := relocs gs @ [r]\<rparr>)
      | CONST_ADDR_FLOAT_LIT _ \<Rightarrow> Some (gs\<lparr>relocs := relocs gs @ [r]\<rparr>)
      | CONST_ADDR_SYM symb \<Rightarrow>
          if sym_kind symb = SYMBOL_VAR then Some (gs\<lparr>relocs := relocs gs @ [r]\<rparr>)
          else if sym_kind symb = SYMBOL_PROC \<and> decl_is_foreign symb then Some (gs\<lparr>relocs := relocs gs @ [r]\<rparr>)
          else do {
            assert_opt (sym_kind symb = SYMBOL_PROC);
            Some (gs\<lparr>proc_off_patches := proc_off_patches gs @ [r]\<rparr>) })"

definition X64_write_addr_disp :: "X64_AddrBytes \<Rightarrow> X64_TextGenState \<Rightarrow> X64_TextGenState option" where
  "X64_write_addr_disp addr gs =
     (if \<not> has_disp addr then Some gs
      else if ab_mod addr = X64_MOD_INDIRECT \<and> ab_rm addr = 5 then do {
        entity \<leftarrow> patch_entity addr;
        gs \<leftarrow> X64_record_global_entity_offset_usage entity gs;
        Some (X64_write_imm32_bytes 0 gs) }
      else if ab_mod addr = X64_MOD_INDIRECT_DISP_U8 then Some (push_byte (ucast (ab_disp addr)) gs)
      else do {
        assert_opt (ab_mod addr = X64_MOD_INDIRECT_DISP_U32);
        Some (X64_write_imm32_bytes (ab_disp addr) gs) })"

text \<open>A conditional \<open>array_push\<close>.\<close>

definition push_if :: "bool \<Rightarrow> u8 \<Rightarrow> X64_TextGenState \<Rightarrow> X64_TextGenState" where
  "push_if c b gs = (if c then push_byte b gs else gs)"

section \<open>Writers of one instruction family\<close>

text \<open>
  The bytes that open every memory operand instruction after its opcode: ModRM, the optional SIB byte
  and the displacement.
\<close>

definition write_modrm_addr :: "u8 \<Rightarrow> X64_AddrBytes \<Rightarrow> X64_TextGenState \<Rightarrow> X64_TextGenState option" where
  "write_modrm_addr reg addr gs =
     (let gs = push_byte (X64_modrm_byte (ab_mod addr) reg (ab_rm addr)) gs;
          gs = push_if (has_sib_byte addr) (sib_byte addr) gs in
      X64_write_addr_disp addr gs)"

definition X64_write_elf_binary_instr_rm ::
  "u8 \<Rightarrow> u8 \<Rightarrow> u8 \<Rightarrow> X64_Reg \<Rightarrow> X64_SIBD_Addr \<Rightarrow> X64_TextGenState \<Rightarrow> X64_TextGenState option" where
  "X64_write_elf_binary_instr_rm opcode_1byte opcode_large sz dst src gs = do {
     let dst_reg = x64_reg_val dst;
     src_addr \<leftarrow> X64_get_addr_bytes src;
     let dst_is_ext = dst_reg > 7;
     let use_ext_regs = dst_is_ext \<or> rex_b src_addr \<or> rex_x src_addr;
     let is_64_bit = (sz = 8);
     let opcode = (if sz = 1 then opcode_1byte else opcode_large);
     let gs = push_if (sz = 2) 0x66 gs;
     let gs = (if use_ext_regs \<or> is_64_bit
       then push_byte (X64_rex_prefix (of_bool is_64_bit) (drop_bit 3 dst_reg) (of_bool (rex_x src_addr)) (of_bool (rex_b src_addr))) gs
       else push_if (sz = 1 \<and> X64_reg_aliased_8h dst) (X64_rex_prefix 0 0 0 0) gs);
     let gs = push_byte opcode gs;
     write_modrm_addr dst_reg src_addr gs }"

definition X64_write_elf_binary_instr_mi ::
  "u8 \<Rightarrow> u8 \<Rightarrow> u8 \<Rightarrow> u8 \<Rightarrow> u8 \<Rightarrow> X64_SIBD_Addr \<Rightarrow> u32 \<Rightarrow> X64_TextGenState \<Rightarrow> X64_TextGenState option" where
  "X64_write_elf_binary_instr_mi opcode_instr_1byte opcode_imm_1byte opcode_imm_larger opcode_ext dst_size dst imm gs = do {
     dst_addr \<leftarrow> X64_get_addr_bytes dst;
     let is_64_bit = (dst_size = 8);
     let use_ext_regs = rex_b dst_addr \<or> rex_x dst_addr;
     let imm_is_byte = (sint imm \<le> 127 \<and> sint imm \<ge> -128);
     let opcode = (if dst_size = 1 then opcode_instr_1byte
                   else if imm_is_byte then opcode_imm_1byte else opcode_imm_larger);
     let gs = push_if (dst_size = 2) 0x66 gs;
     let gs = push_if (is_64_bit \<or> use_ext_regs)
       (X64_rex_prefix (of_bool is_64_bit) 0 (of_bool (rex_x dst_addr)) (of_bool (rex_b dst_addr))) gs;
     let gs = push_byte opcode gs;
     gs \<leftarrow> write_modrm_addr opcode_ext dst_addr gs;
     if imm_is_byte then Some (push_byte (ucast imm) gs)
     else X64_write_imm_bytes (ucast imm) (if is_64_bit then 4 else dst_size) gs }"

definition X64_write_elf_binary_instr_ri ::
  "u8 \<Rightarrow> u8 \<Rightarrow> u8 \<Rightarrow> u8 \<Rightarrow> u8 \<Rightarrow> X64_Reg \<Rightarrow> u32 \<Rightarrow> X64_TextGenState \<Rightarrow> X64_TextGenState option" where
  "X64_write_elf_binary_instr_ri opcode_instr_1byte opcode_imm_1byte opcode_imm_larger opcode_ext dst_size dst imm gs = do {
     let is_64_bit = (dst_size = 8);
     let dst_reg = x64_reg_val dst;
     let imm_is_byte = (sint imm \<le> 127 \<and> sint imm \<ge> -128);
     let reg_is_ext = dst_reg > 7;
     let opcode = (if dst_size = 1 then opcode_instr_1byte
                   else if imm_is_byte then opcode_imm_1byte else opcode_imm_larger);
     let gs = push_if (dst_size = 2) 0x66 gs;
     let gs = (if is_64_bit \<or> reg_is_ext then push_byte (X64_rex_nosib (of_bool is_64_bit) 0 dst_reg) gs
       else push_if (dst_size = 1 \<and> X64_reg_aliased_8h dst) (X64_rex_prefix 0 0 0 0) gs);
     let gs = push_byte opcode gs;
     let gs = push_byte (X64_modrm_byte X64_MOD_DIRECT opcode_ext dst_reg) gs;
     if imm_is_byte then Some (push_byte (ucast imm) gs)
     else X64_write_imm_bytes (ucast imm) (if is_64_bit then 4 else dst_size) gs }"

definition X64_write_elf_binary_instr_rr ::
  "u8 \<Rightarrow> u8 \<Rightarrow> u8 \<Rightarrow> X64_Reg \<Rightarrow> X64_Reg \<Rightarrow> X64_TextGenState \<Rightarrow> X64_TextGenState option" where
  "X64_write_elf_binary_instr_rr opcode_1byte opcode_multi_byte sz dst src gs = do {
     let src_reg = x64_reg_val src;
     let dst_reg = x64_reg_val dst;
     let src_is_ext = src_reg > 7;
     let dst_is_ext = dst_reg > 7;
     let is_64_bit = (sz = 8);
     let opcode = (if sz = 1 then opcode_1byte else opcode_multi_byte);
     let gs = push_if (sz = 2) 0x66 gs;
     let gs = (if is_64_bit \<or> src_is_ext \<or> dst_is_ext then push_byte (X64_rex_nosib (of_bool is_64_bit) src_reg dst_reg) gs
       else push_if (sz = 1 \<and> (X64_reg_aliased_8h dst \<or> X64_reg_aliased_8h src)) (X64_rex_prefix 0 0 0 0) gs);
     let gs = push_byte opcode gs;
     Some (push_byte (X64_modrm_byte X64_MOD_DIRECT src_reg dst_reg) gs) }"

definition X64_write_elf_binary_instr_mr ::
  "u8 \<Rightarrow> u8 \<Rightarrow> u8 \<Rightarrow> X64_SIBD_Addr \<Rightarrow> X64_Reg \<Rightarrow> X64_TextGenState \<Rightarrow> X64_TextGenState option" where
  "X64_write_elf_binary_instr_mr opcode_1byte opcode_multi_byte sz dst src gs = do {
     let src_reg = x64_reg_val src;
     dst_addr \<leftarrow> X64_get_addr_bytes dst;
     let src_is_ext = src_reg > 7;
     let use_ext_regs = src_is_ext \<or> rex_b dst_addr \<or> rex_x dst_addr;
     let is_64_bit = (sz = 8);
     let opcode = (if sz = 1 then opcode_1byte else opcode_multi_byte);
     let gs = push_if (sz = 2) 0x66 gs;
     let gs = (if use_ext_regs \<or> is_64_bit
       then push_byte (X64_rex_prefix (of_bool is_64_bit) (drop_bit 3 src_reg) (of_bool (rex_x dst_addr)) (of_bool (rex_b dst_addr))) gs
       else push_if (sz = 1 \<and> X64_reg_aliased_8h src) (X64_rex_prefix 0 0 0 0) gs);
     let gs = push_byte opcode gs;
     write_modrm_addr src_reg dst_addr gs }"

definition X64_write_elf_binary_rax_instr_r ::
  "u8 \<Rightarrow> u8 \<Rightarrow> u8 \<Rightarrow> u8 \<Rightarrow> X64_Reg \<Rightarrow> X64_TextGenState \<Rightarrow> X64_TextGenState option" where
  "X64_write_elf_binary_rax_instr_r opcode_instr_1byte opcode_multi_byte opcode_ext sz src gs = do {
     let src_reg = x64_reg_val src;
     let src_is_ext = src_reg > 7;
     let is_64_bit = (sz = 8);
     let opcode = (if sz = 1 then opcode_instr_1byte else opcode_multi_byte);
     let gs = push_if (sz = 2) 0x66 gs;
     let gs = (if is_64_bit \<or> src_is_ext then push_byte (X64_rex_nosib (of_bool is_64_bit) 0 src_reg) gs
       else push_if (sz = 1 \<and> X64_reg_aliased_8h src) (X64_rex_prefix 0 0 0 0) gs);
     let gs = push_byte opcode gs;
     Some (push_byte (X64_modrm_byte X64_MOD_DIRECT opcode_ext src_reg) gs) }"

definition X64_write_elf_binary_rax_instr_m ::
  "u8 \<Rightarrow> u8 \<Rightarrow> u8 \<Rightarrow> u8 \<Rightarrow> X64_SIBD_Addr \<Rightarrow> X64_TextGenState \<Rightarrow> X64_TextGenState option" where
  "X64_write_elf_binary_rax_instr_m opcode_1byte opcode_large opcode_ext sz src gs = do {
     src_addr \<leftarrow> X64_get_addr_bytes src;
     let use_ext_regs = rex_b src_addr \<or> rex_x src_addr;
     let is_64_bit = (sz = 8);
     let opcode = (if sz = 1 then opcode_1byte else opcode_large);
     let gs = push_if (sz = 2) 0x66 gs;
     let gs = push_if (use_ext_regs \<or> is_64_bit)
       (X64_rex_prefix (of_bool is_64_bit) 0 (of_bool (rex_x src_addr)) (of_bool (rex_b src_addr))) gs;
     let gs = push_byte opcode gs;
     write_modrm_addr opcode_ext src_addr gs }"

definition X64_write_elf_shift_mi ::
  "u8 \<Rightarrow> u8 \<Rightarrow> X64_SIBD_Addr \<Rightarrow> u8 \<Rightarrow> X64_TextGenState \<Rightarrow> X64_TextGenState option" where
  "X64_write_elf_shift_mi opcode_ext dst_size dst imm gs = do {
     dst_addr \<leftarrow> X64_get_addr_bytes dst;
     let use_ext_regs = rex_b dst_addr \<or> rex_x dst_addr;
     let is_64_bit = (dst_size = 8);
     let gs = push_if (dst_size = 2) 0x66 gs;
     let gs = push_if (is_64_bit \<or> use_ext_regs)
       (X64_rex_prefix (of_bool is_64_bit) 0 (of_bool (rex_x dst_addr)) (of_bool (rex_b dst_addr))) gs;
     let is_shift_1 = (imm = 1);
     let is_dst_1_byte = (dst_size = 1);
     let opcode = (if is_shift_1 then (if is_dst_1_byte then 0xD0 else 0xD1)
                   else (if is_dst_1_byte then 0xC0 else 0xC1));
     let gs = push_byte opcode gs;
     gs \<leftarrow> write_modrm_addr opcode_ext dst_addr gs;
     Some (push_if (\<not> is_shift_1) imm gs) }"

definition X64_write_elf_shift_ri ::
  "u8 \<Rightarrow> u8 \<Rightarrow> X64_Reg \<Rightarrow> u8 \<Rightarrow> X64_TextGenState \<Rightarrow> X64_TextGenState option" where
  "X64_write_elf_shift_ri opcode_ext dst_size dst imm gs = do {
     let dst_reg = x64_reg_val dst;
     let is_64_bit = (dst_size = 8);
     let reg_is_ext = dst_reg > 7;
     let gs = push_if (dst_size = 2) 0x66 gs;
     let gs = (if is_64_bit \<or> reg_is_ext then push_byte (X64_rex_nosib (of_bool is_64_bit) 0 dst_reg) gs
       else push_if (dst_size = 1 \<and> X64_reg_aliased_8h dst) (X64_rex_prefix 0 0 0 0) gs);
     Some (if imm = 1 then
        (let gs = push_byte (if dst_size = 1 then 0xD0 else 0xD1) gs in
         push_byte (X64_modrm_byte X64_MOD_DIRECT opcode_ext dst_reg) gs)
      else
        (let gs = push_byte (if dst_size = 1 then 0xC0 else 0xC1) gs;
             gs = push_byte (X64_modrm_byte X64_MOD_DIRECT opcode_ext dst_reg) gs in
         push_byte imm gs)) }"

definition X64_write_elf_shift_r :: "u8 \<Rightarrow> u8 \<Rightarrow> X64_Reg \<Rightarrow> X64_TextGenState \<Rightarrow> X64_TextGenState option" where
  "X64_write_elf_shift_r opcode_ext dst_size dst gs = do {
     let dst_reg = x64_reg_val dst;
     let is_64_bit = (dst_size = 8);
     let reg_is_ext = dst_reg > 7;
     let gs = push_if (dst_size = 2) 0x66 gs;
     let gs = (if is_64_bit \<or> reg_is_ext then push_byte (X64_rex_nosib (of_bool is_64_bit) 0 dst_reg) gs
       else push_if (dst_size = 1 \<and> X64_reg_aliased_8h dst) (X64_rex_prefix 0 0 0 0) gs);
     let gs = push_byte (if dst_size = 1 then 0xD2 else 0xD3) gs;
     Some (push_byte (X64_modrm_byte X64_MOD_DIRECT opcode_ext dst_reg) gs) }"

definition X64_write_elf_shift_m :: "u8 \<Rightarrow> u8 \<Rightarrow> X64_SIBD_Addr \<Rightarrow> X64_TextGenState \<Rightarrow> X64_TextGenState option" where
  "X64_write_elf_shift_m opcode_ext dst_size dst gs = do {
     dst_addr \<leftarrow> X64_get_addr_bytes dst;
     let use_ext_regs = rex_b dst_addr \<or> rex_x dst_addr;
     let is_64_bit = (dst_size = 8);
     let gs = push_if (dst_size = 2) 0x66 gs;
     let gs = push_if (is_64_bit \<or> use_ext_regs)
       (X64_rex_prefix (of_bool is_64_bit) 0 (of_bool (rex_x dst_addr)) (of_bool (rex_b dst_addr))) gs;
     let gs = push_byte (if dst_size = 1 then 0xD2 else 0xD3) gs;
     write_modrm_addr opcode_ext dst_addr gs }"

definition X64_write_elf_unary_neg_r :: "u8 \<Rightarrow> u8 \<Rightarrow> X64_Reg \<Rightarrow> X64_TextGenState \<Rightarrow> X64_TextGenState option" where
  "X64_write_elf_unary_neg_r opcode_ext sz dst gs = do {
     let dst_reg = x64_reg_val dst;
     let dst_is_ext = dst_reg > 7;
     let is_64_bit = (sz = 8);
     let opcode = (if sz = 1 then 0xF6 else 0xF7);
     let gs = push_if (sz = 2) 0x66 gs;
     let gs = (if is_64_bit \<or> dst_is_ext then push_byte (X64_rex_nosib (of_bool is_64_bit) 0 dst_reg) gs
       else push_if (sz = 1 \<and> X64_reg_aliased_8h dst) (X64_rex_prefix 0 0 0 0) gs);
     let gs = push_byte opcode gs;
     Some (push_byte (X64_modrm_byte X64_MOD_DIRECT opcode_ext dst_reg) gs) }"

definition X64_write_elf_unary_neg_m :: "u8 \<Rightarrow> u8 \<Rightarrow> X64_SIBD_Addr \<Rightarrow> X64_TextGenState \<Rightarrow> X64_TextGenState option" where
  "X64_write_elf_unary_neg_m opcode_ext sz dst gs = do {
     dst_addr \<leftarrow> X64_get_addr_bytes dst;
     let use_ext_regs = rex_b dst_addr \<or> rex_x dst_addr;
     let is_64_bit = (sz = 8);
     let gs = push_if (sz = 2) 0x66 gs;
     let gs = push_if (is_64_bit \<or> use_ext_regs)
       (X64_rex_prefix (of_bool is_64_bit) 0 (of_bool (rex_x dst_addr)) (of_bool (rex_b dst_addr))) gs;
     let gs = push_byte (if sz = 1 then 0xF6 else 0xF7) gs;
     write_modrm_addr opcode_ext dst_addr gs }"

definition flt_prefix :: "FloatKind \<Rightarrow> u8" where
  "flt_prefix fkind = (if fkind = FLOAT_F32 then 0xF3 else 0xF2)"

definition X64_write_elf_binary_flt_rr ::
  "FloatKind \<Rightarrow> u8 \<Rightarrow> X64_Reg \<Rightarrow> X64_Reg \<Rightarrow> X64_TextGenState \<Rightarrow> X64_TextGenState option" where
  "X64_write_elf_binary_flt_rr fkind opcode_suffix dst src gs = do {
     let src_reg = x64_reg_val src;
     let dst_reg = x64_reg_val dst;
     let gs = push_byte (flt_prefix fkind) gs;
     let gs = push_if (src_reg > 7 \<or> dst_reg > 7) (X64_rex_nosib 0 dst_reg src_reg) gs;
     let gs = push_byte 0x0F gs;
     let gs = push_byte opcode_suffix gs;
     Some (push_byte (X64_modrm_byte X64_MOD_DIRECT dst_reg src_reg) gs) }"

definition X64_write_elf_binary_flt_rm ::
  "FloatKind \<Rightarrow> u8 \<Rightarrow> X64_Reg \<Rightarrow> X64_SIBD_Addr \<Rightarrow> X64_TextGenState \<Rightarrow> X64_TextGenState option" where
  "X64_write_elf_binary_flt_rm fkind opcode_suffix dst src gs = do {
     let dst_reg = x64_reg_val dst;
     src_addr \<leftarrow> X64_get_addr_bytes src;
     let use_ext_regs = dst_reg > 7 \<or> rex_b src_addr \<or> rex_x src_addr;
     let gs = push_byte (flt_prefix fkind) gs;
     let gs = push_if use_ext_regs
       (X64_rex_prefix 0 (drop_bit 3 dst_reg) (of_bool (rex_x src_addr)) (of_bool (rex_b src_addr))) gs;
     let gs = push_byte 0x0F gs;
     let gs = push_byte opcode_suffix gs;
     write_modrm_addr dst_reg src_addr gs }"

definition X64_write_elf_binary_flt_mr ::
  "FloatKind \<Rightarrow> u8 \<Rightarrow> X64_SIBD_Addr \<Rightarrow> X64_Reg \<Rightarrow> X64_TextGenState \<Rightarrow> X64_TextGenState option" where
  "X64_write_elf_binary_flt_mr fkind opcode_suffix dst src gs = do {
     dst_addr \<leftarrow> X64_get_addr_bytes dst;
     let src_reg = x64_reg_val src;
     let use_ext_regs = src_reg > 7 \<or> rex_b dst_addr \<or> rex_x dst_addr;
     let gs = push_byte (flt_prefix fkind) gs;
     let gs = push_if use_ext_regs
       (X64_rex_prefix 0 (drop_bit 3 src_reg) (of_bool (rex_x dst_addr)) (of_bool (rex_b dst_addr))) gs;
     let gs = push_byte 0x0F gs;
     let gs = push_byte opcode_suffix gs;
     write_modrm_addr src_reg dst_addr gs }"

definition X64_write_elf_cmp_flt_rr ::
  "FloatKind \<Rightarrow> u8 \<Rightarrow> X64_Reg \<Rightarrow> X64_Reg \<Rightarrow> X64_TextGenState \<Rightarrow> X64_TextGenState option" where
  "X64_write_elf_cmp_flt_rr fkind opcode_suffix dst src gs = do {
     let src_reg = x64_reg_val src;
     let dst_reg = x64_reg_val dst;
     let gs = push_if (fkind = FLOAT_F64) 0x66 gs;
     let gs = push_if (src_reg > 7 \<or> dst_reg > 7) (X64_rex_nosib 0 dst_reg src_reg) gs;
     let gs = push_byte 0x0F gs;
     let gs = push_byte opcode_suffix gs;
     Some (push_byte (X64_modrm_byte X64_MOD_DIRECT dst_reg src_reg) gs) }"

definition X64_write_elf_cmp_flt_rm ::
  "FloatKind \<Rightarrow> u8 \<Rightarrow> X64_Reg \<Rightarrow> X64_SIBD_Addr \<Rightarrow> X64_TextGenState \<Rightarrow> X64_TextGenState option" where
  "X64_write_elf_cmp_flt_rm fkind opcode_suffix dst src gs = do {
     let dst_reg = x64_reg_val dst;
     src_addr \<leftarrow> X64_get_addr_bytes src;
     let use_ext_regs = dst_reg > 7 \<or> rex_b src_addr \<or> rex_x src_addr;
     let gs = push_if (fkind = FLOAT_F64) 0x66 gs;
     let gs = push_if use_ext_regs
       (X64_rex_prefix 0 (drop_bit 3 dst_reg) (of_bool (rex_x src_addr)) (of_bool (rex_b src_addr))) gs;
     let gs = push_byte 0x0F gs;
     let gs = push_byte opcode_suffix gs;
     write_modrm_addr dst_reg src_addr gs }"

definition X64_write_elf_flt_int_cvt_rr ::
  "FloatKind \<Rightarrow> u8 \<Rightarrow> u8 \<Rightarrow> X64_Reg \<Rightarrow> X64_Reg \<Rightarrow> X64_TextGenState \<Rightarrow> X64_TextGenState option" where
  "X64_write_elf_flt_int_cvt_rr fkind int_size opcode_suffix dst src gs = do {
     let src_reg = x64_reg_val src;
     let dst_reg = x64_reg_val dst;
     let int_is_64bit = (int_size = 8);
     let gs = push_byte (flt_prefix fkind) gs;
     let gs = push_if (int_is_64bit \<or> src_reg > 7 \<or> dst_reg > 7) (X64_rex_nosib (of_bool int_is_64bit) dst_reg src_reg) gs;
     let gs = push_byte 0x0F gs;
     let gs = push_byte opcode_suffix gs;
     Some (push_byte (X64_modrm_byte X64_MOD_DIRECT dst_reg src_reg) gs) }"

definition X64_write_elf_flt_int_cvt_rm ::
  "FloatKind \<Rightarrow> u8 \<Rightarrow> u8 \<Rightarrow> X64_Reg \<Rightarrow> X64_SIBD_Addr \<Rightarrow> X64_TextGenState \<Rightarrow> X64_TextGenState option" where
  "X64_write_elf_flt_int_cvt_rm fkind int_size opcode_suffix dst src gs = do {
     let dst_reg = x64_reg_val dst;
     src_addr \<leftarrow> X64_get_addr_bytes src;
     let use_ext_regs = dst_reg > 7 \<or> rex_b src_addr \<or> rex_x src_addr;
     let int_is_64bit = (int_size = 8);
     let gs = push_byte (flt_prefix fkind) gs;
     let gs = push_if (int_is_64bit \<or> use_ext_regs)
       (X64_rex_prefix (of_bool int_is_64bit) (drop_bit 3 dst_reg) (of_bool (rex_x src_addr)) (of_bool (rex_b src_addr))) gs;
     let gs = push_byte 0x0F gs;
     let gs = push_byte opcode_suffix gs;
     write_modrm_addr dst_reg src_addr gs }"

end
