(* ===== verification/Elf_Gen_Instr.thy ===== *)
theory Elf_Gen_Instr
  imports Machine_Code
begin

text \<open>
  \<open>X64_elf_gen_instr\<close> (\<open>src/src/x64_gen/machine_code.c\<close>, lines 1000-2121), one function per group of
  cases of its switch. Jumps are not encoded here: the block remembers its jump, which is encoded
  once all block sizes are known (theory \<open>Jump_Relax\<close>). \<open>IMUL_MI\<close> has no case in the C switch and ends
  in the fatal default branch.
\<close>

section \<open>Stack, control flow, strings, SETcc\<close>

definition X64_elf_gen_setcc_r :: "ConditionKind \<Rightarrow> X64_Reg \<Rightarrow> X64_TextGenState \<Rightarrow> X64_TextGenState option" where
  "X64_elf_gen_setcc_r cond dst gs = do {
     let dst_reg = x64_reg_val dst;
     let opcode = x64_setcc_condition_opcodes cond;
     let gs = (if dst_reg > 7 then push_byte (X64_rex_nosib 0 0 dst_reg) gs
               else push_if (X64_reg_aliased_8h dst) (X64_rex_prefix 0 0 0 0) gs);
     let gs = push_byte (ucast (opcode AND 0x00FF)) gs;
     let gs = push_byte (ucast (drop_bit 8 opcode AND 0x00FF)) gs;
     Some (push_byte (X64_modrm_byte X64_MOD_DIRECT 0 dst_reg) gs) }"

definition X64_elf_gen_setcc_m :: "ConditionKind \<Rightarrow> X64_SIBD_Addr \<Rightarrow> X64_TextGenState \<Rightarrow> X64_TextGenState option" where
  "X64_elf_gen_setcc_m cond dst gs = do {
     dst_addr \<leftarrow> X64_get_addr_bytes dst;
     let opcode = x64_setcc_condition_opcodes cond;
     let gs = push_if (rex_b dst_addr \<or> rex_x dst_addr)
       (X64_rex_prefix 0 0 (of_bool (rex_x dst_addr)) (of_bool (rex_b dst_addr))) gs;
     let gs = push_byte (ucast (opcode AND 0x00FF)) gs;
     let gs = push_byte (ucast (drop_bit 8 opcode AND 0x00FF)) gs;
     write_modrm_addr 0 dst_addr gs }"

fun X64_elf_gen_ctrl :: "X64_CtrlInstr \<Rightarrow> X64_TextGenState \<Rightarrow> X64_TextGenState option" where
  "X64_elf_gen_ctrl X64_NOOP gs = Some gs"
| "X64_elf_gen_ctrl (X64_PUSH reg) gs = do {
     let reg_val = x64_reg_val reg;
     let opcode = 0x50 + (reg_val AND 7);
     let gs = push_if (reg_val > 7) (X64_rex_opcode_reg 0 reg_val) gs;
     Some (push_byte opcode gs) }"
| "X64_elf_gen_ctrl (X64_POP reg) gs = do {
     let reg_val = x64_reg_val reg;
     let opcode = 0x58 + (reg_val AND 7);
     let gs = push_if (reg_val > 7) (X64_rex_opcode_reg 0 reg_val) gs;
     Some (push_byte opcode gs) }"
| "X64_elf_gen_ctrl (X64_JMP t) gs = do {
     assert_opt (jmp_instr (curr_bblock gs) = None);
     Some (gs\<lparr>curr_bblock := (curr_bblock gs)\<lparr>jmp_instr := Some (X64_JMP t)\<rparr>\<rparr>) }"
| "X64_elf_gen_ctrl (X64_JMP_TO_RET t) gs = do {
     assert_opt (jmp_instr (curr_bblock gs) = None);
     Some (gs\<lparr>curr_bblock := (curr_bblock gs)\<lparr>jmp_instr := Some (X64_JMP_TO_RET t)\<rparr>\<rparr>) }"
| "X64_elf_gen_ctrl (X64_JMPCC c t) gs = do {
     assert_opt (jmp_instr (curr_bblock gs) = None);
     Some (gs\<lparr>curr_bblock := (curr_bblock gs)\<lparr>jmp_instr := Some (X64_JMPCC c t)\<rparr>\<rparr>) }"
| "X64_elf_gen_ctrl X64_RET gs = Some (push_byte 0xC3 gs)"
| "X64_elf_gen_ctrl (X64_CALL proc_sym) gs = do {
     let gs = push_byte 0xE8 gs;
     gs \<leftarrow> X64_record_global_entity_offset_usage (CONST_ADDR_SYM proc_sym) gs;
     Some (X64_write_imm32_bytes 0 gs) }"
| "X64_elf_gen_ctrl (X64_CALL_R reg) gs = do {
     let arg_reg = x64_reg_val reg;
     let gs = push_if (arg_reg > 7) (X64_rex_nosib 0 0 arg_reg) gs;
     let gs = push_byte 0xFF gs;
     Some (push_byte (X64_modrm_byte X64_MOD_DIRECT 2 arg_reg) gs) }"
| "X64_elf_gen_ctrl (X64_CALL_M mem) gs = do {
     addr \<leftarrow> X64_get_addr_bytes mem;
     let gs = push_if (rex_b addr \<or> rex_x addr) (X64_rex_prefix 0 0 (of_bool (rex_x addr)) (of_bool (rex_b addr))) gs;
     let gs = push_byte 0xFF gs;
     write_modrm_addr 2 addr gs }"
| "X64_elf_gen_ctrl X64_REP_MOVSB gs = do {
     let gs = push_byte 0xF3 gs;
     Some (push_byte 0xA4 gs) }"
| "X64_elf_gen_ctrl X64_REP_STOSB gs = do {
     let gs = push_byte 0xF3 gs;
     Some (push_byte 0xAA gs) }"
| "X64_elf_gen_ctrl X64_SYSCALL gs = do {
     let gs = push_byte 0x0F gs;
     Some (push_byte 0x05 gs) }"
| "X64_elf_gen_ctrl (X64_SETCC_R cond dst) gs = X64_elf_gen_setcc_r cond dst gs"
| "X64_elf_gen_ctrl (X64_SETCC_M cond dst) gs = X64_elf_gen_setcc_m cond dst gs"

section \<open>ADD, SUB, AND, OR, XOR, CMP\<close>

text \<open>The opcode of the \<open>r/m8, r8\<close> form and the extension of the immediate form, as written in the cases.\<close>

fun bin_opcode :: "X64_BinOp \<Rightarrow> u8" where
  "bin_opcode X64_ADD = 0x00"
| "bin_opcode X64_SUB = 0x28"
| "bin_opcode X64_AND = 0x20"
| "bin_opcode X64_OR = 0x08"
| "bin_opcode X64_XOR = 0x30"
| "bin_opcode X64_CMP = 0x38"

fun bin_opcode_ext :: "X64_BinOp \<Rightarrow> u8" where
  "bin_opcode_ext X64_ADD = 0"
| "bin_opcode_ext X64_SUB = 5"
| "bin_opcode_ext X64_AND = 4"
| "bin_opcode_ext X64_OR = 1"
| "bin_opcode_ext X64_XOR = 6"
| "bin_opcode_ext X64_CMP = 7"

fun X64_elf_gen_bin :: "X64_BinInstr \<Rightarrow> X64_TextGenState \<Rightarrow> X64_TextGenState option" where
  "X64_elf_gen_bin (X64_BIN_RR op sz dst src) gs =
     X64_write_elf_binary_instr_rr (bin_opcode op) (bin_opcode op + 1) sz dst src gs"
| "X64_elf_gen_bin (X64_BIN_RM op sz dst src) gs =
     X64_write_elf_binary_instr_rm (bin_opcode op + 2) (bin_opcode op + 3) sz dst src gs"
| "X64_elf_gen_bin (X64_BIN_MR op sz dst src) gs =
     X64_write_elf_binary_instr_mr (bin_opcode op) (bin_opcode op + 1) sz dst src gs"
| "X64_elf_gen_bin (X64_BIN_RI op sz dst imm) gs =
     X64_write_elf_binary_instr_ri 0x80 0x83 0x81 (bin_opcode_ext op) sz dst imm gs"
| "X64_elf_gen_bin (X64_BIN_MI op sz dst imm) gs =
     X64_write_elf_binary_instr_mi 0x80 0x83 0x81 (bin_opcode_ext op) sz dst imm gs"

section \<open>Multiplication, division, sign extension into dx\<close>

fun rax_opcode_ext :: "X64_RaxOp \<Rightarrow> u8" where
  "rax_opcode_ext X64_IMUL = 5"
| "rax_opcode_ext X64_MUL = 4"
| "rax_opcode_ext X64_DIV = 6"
| "rax_opcode_ext X64_IDIV = 7"

text \<open>
  \<open>IMUL_RI\<close> compares the unsigned immediate with 127, so a negative immediate never takes the short
  form (its second comparison is then vacuous).
\<close>

fun X64_elf_gen_mul :: "X64_MulInstr \<Rightarrow> X64_TextGenState \<Rightarrow> X64_TextGenState option" where
  "X64_elf_gen_mul (X64_IMUL_RI dst_size dst imm) gs = do {
     assert_opt (dst_size \<noteq> 1);
     let dst_reg = x64_reg_val dst;
     let is_64_bit = (dst_size = 8);
     let reg_is_ext = dst_reg > 7;
     let imm_is_byte = (imm \<le> 127 \<and> sint imm \<ge> -128);
     let opcode = (if imm_is_byte then 0x6B else 0x69);
     let gs = push_if (dst_size = 2) 0x66 gs;
     let gs = push_if (is_64_bit \<or> reg_is_ext) (X64_rex_nosib (of_bool is_64_bit) dst_reg dst_reg) gs;
     let gs = push_byte opcode gs;
     let gs = push_byte (X64_modrm_byte X64_MOD_DIRECT dst_reg dst_reg) gs;
     if imm_is_byte then Some (push_byte (ucast imm) gs)
     else X64_write_imm_bytes (ucast imm) (if is_64_bit then 4 else dst_size) gs }"
| "X64_elf_gen_mul (X64_IMUL_RR sz dst src) gs = do {
     let dst_reg = x64_reg_val dst;
     let src_reg = x64_reg_val src;
     let is_64_bit = (sz = 8);
     assert_opt (sz > 1);
     let gs = push_if (sz = 2) 0x66 gs;
     let gs = push_if (is_64_bit \<or> src_reg > 7 \<or> dst_reg > 7) (X64_rex_nosib (of_bool is_64_bit) dst_reg src_reg) gs;
     let gs = push_byte 0x0F gs;
     let gs = push_byte 0xAF gs;
     Some (push_byte (X64_modrm_byte X64_MOD_DIRECT dst_reg src_reg) gs) }"
| "X64_elf_gen_mul (X64_IMUL_RM sz dst src) gs = do {
     let dst_reg = x64_reg_val dst;
     src_addr \<leftarrow> X64_get_addr_bytes src;
     let use_ext_regs = dst_reg > 7 \<or> rex_b src_addr \<or> rex_x src_addr;
     let is_64_bit = (sz = 8);
     let gs = push_if (sz = 2) 0x66 gs;
     let gs = push_if (use_ext_regs \<or> is_64_bit)
       (X64_rex_prefix (of_bool is_64_bit) (drop_bit 3 dst_reg) (of_bool (rex_x src_addr)) (of_bool (rex_b src_addr))) gs;
     let gs = push_byte 0x0F gs;
     let gs = push_byte 0xAF gs;
     write_modrm_addr dst_reg src_addr gs }"
| "X64_elf_gen_mul (X64_IMUL_MI sz dst imm) gs = None"
| "X64_elf_gen_mul (X64_RAX_R op sz src) gs =
     X64_write_elf_binary_rax_instr_r 0xF6 0xF7 (rax_opcode_ext op) sz src gs"
| "X64_elf_gen_mul (X64_RAX_M op sz src) gs =
     X64_write_elf_binary_rax_instr_m 0xF6 0xF7 (rax_opcode_ext op) sz src gs"
| "X64_elf_gen_mul X64_CWD gs = do {
     let gs = push_byte 0x66 gs;
     Some (push_byte 0x99 gs) }"
| "X64_elf_gen_mul X64_CDQ gs = Some (push_byte 0x99 gs)"
| "X64_elf_gen_mul X64_CQO gs = do {
     let gs = push_byte (X64_rex_nosib 1 0 0) gs;
     Some (push_byte 0x99 gs) }"

section \<open>Shifts, NEG, NOT\<close>

fun shift_opcode_ext :: "X64_ShiftOp \<Rightarrow> u8" where
  "shift_opcode_ext X64_SHL = 4"
| "shift_opcode_ext X64_SAR = 7"

fun un_opcode_ext :: "X64_UnOp \<Rightarrow> u8" where
  "un_opcode_ext X64_NEG = 3"
| "un_opcode_ext X64_NOT = 2"

fun X64_elf_gen_shift :: "X64_ShiftInstr \<Rightarrow> X64_TextGenState \<Rightarrow> X64_TextGenState option" where
  "X64_elf_gen_shift (X64_SHIFT_RR op sz dst) gs = X64_write_elf_shift_r (shift_opcode_ext op) sz dst gs"
| "X64_elf_gen_shift (X64_SHIFT_MR op sz dst) gs = X64_write_elf_shift_m (shift_opcode_ext op) sz dst gs"
| "X64_elf_gen_shift (X64_SHIFT_RI op sz dst imm) gs = X64_write_elf_shift_ri (shift_opcode_ext op) sz dst imm gs"
| "X64_elf_gen_shift (X64_SHIFT_MI op sz dst imm) gs = X64_write_elf_shift_mi (shift_opcode_ext op) sz dst imm gs"
| "X64_elf_gen_shift (X64_UN_R op sz dst) gs = X64_write_elf_unary_neg_r (un_opcode_ext op) sz dst gs"
| "X64_elf_gen_shift (X64_UN_M op sz dst) gs = X64_write_elf_unary_neg_m (un_opcode_ext op) sz dst gs"

section \<open>Moves, extensions, LEA\<close>

text \<open>The two-byte opcode of \<open>MOVSX\<close> and \<open>MOVZX\<close>, written low byte first.\<close>

definition X64_write_movx_rr ::
  "u16 \<Rightarrow> u8 \<Rightarrow> u8 \<Rightarrow> X64_Reg \<Rightarrow> X64_Reg \<Rightarrow> X64_TextGenState \<Rightarrow> X64_TextGenState option" where
  "X64_write_movx_rr opcode dst_size src_size dst src gs = do {
     let need_rex_w = (dst_size = 8);
     let dst_reg = x64_reg_val dst;
     let src_reg = x64_reg_val src;
     let gs = push_if (dst_size = 2) 0x66 gs;
     let gs = (if need_rex_w \<or> src_reg > 7 \<or> dst_reg > 7 then push_byte (X64_rex_nosib (of_bool need_rex_w) dst_reg src_reg) gs
       else push_if (src_size = 1 \<and> X64_reg_aliased_8h src) (X64_rex_prefix 0 0 0 0) gs);
     let gs = push_byte (ucast (opcode AND 0x00FF)) gs;
     let gs = push_byte (ucast (drop_bit 8 opcode AND 0x00FF)) gs;
     Some (push_byte (X64_modrm_byte X64_MOD_DIRECT dst_reg src_reg) gs) }"

definition X64_write_movx_rm ::
  "u16 \<Rightarrow> u8 \<Rightarrow> X64_Reg \<Rightarrow> X64_SIBD_Addr \<Rightarrow> X64_TextGenState \<Rightarrow> X64_TextGenState option" where
  "X64_write_movx_rm opcode dst_size dst src gs = do {
     let need_rex_w = (dst_size = 8);
     let dst_reg = x64_reg_val dst;
     src_addr \<leftarrow> X64_get_addr_bytes src;
     let use_ext_regs = dst_reg > 7 \<or> rex_b src_addr \<or> rex_x src_addr;
     let gs = push_if (dst_size = 2) 0x66 gs;
     let gs = push_if (need_rex_w \<or> use_ext_regs)
       (X64_rex_prefix (of_bool need_rex_w) (drop_bit 3 dst_reg) (of_bool (rex_x src_addr)) (of_bool (rex_b src_addr))) gs;
     let gs = push_byte (ucast (opcode AND 0x00FF)) gs;
     let gs = push_byte (ucast (drop_bit 8 opcode AND 0x00FF)) gs;
     write_modrm_addr dst_reg src_addr gs }"

fun X64_elf_gen_movx :: "X64_MovInstr \<Rightarrow> X64_TextGenState \<Rightarrow> X64_TextGenState option" where
  "X64_elf_gen_movx (X64_MOVSX_RR dst_size src_size dst src) gs =
     X64_write_movx_rr (if src_size = 1 then 0xBE0F else 0xBF0F) dst_size src_size dst src gs"
| "X64_elf_gen_movx (X64_MOVSX_RM dst_size src_size dst src) gs =
     X64_write_movx_rm (if src_size = 1 then 0xBE0F else 0xBF0F) dst_size dst src gs"
| "X64_elf_gen_movx (X64_MOVSXD_RR dst_size src_size dst src) gs = do {
     assert_opt (dst_size = 8 \<and> src_size = 4);
     let dst_reg = x64_reg_val dst;
     let src_reg = x64_reg_val src;
     let gs = push_byte (X64_rex_nosib 1 dst_reg src_reg) gs;
     let gs = push_byte 0x63 gs;
     Some (push_byte (X64_modrm_byte X64_MOD_DIRECT dst_reg src_reg) gs) }"
| "X64_elf_gen_movx (X64_MOVSXD_RM dst_size src_size dst src) gs = do {
     assert_opt (dst_size = 8 \<and> src_size = 4);
     let dst_reg = x64_reg_val dst;
     src_addr \<leftarrow> X64_get_addr_bytes src;
     let gs = push_byte (X64_rex_prefix 1 (drop_bit 3 dst_reg) (of_bool (rex_x src_addr)) (of_bool (rex_b src_addr))) gs;
     let gs = push_byte 0x63 gs;
     write_modrm_addr dst_reg src_addr gs }"
| "X64_elf_gen_movx (X64_MOVZX_RR dst_size src_size dst src) gs =
     X64_write_movx_rr (if src_size = 1 then 0xB60F else 0xB70F) dst_size src_size dst src gs"
| "X64_elf_gen_movx (X64_MOVZX_RM dst_size src_size dst src) gs =
     X64_write_movx_rm (if src_size = 1 then 0xB60F else 0xB70F) dst_size dst src gs"
| "X64_elf_gen_movx _ gs = None"

text \<open>The first argument of \<open>X64_MOV_RR\<close> and \<open>X64_MOV_MR\<close> is the flag \<open>X64_INSTR_MOV_SRC_RH_MASK\<close>.\<close>

fun X64_elf_gen_mov :: "X64_MovInstr \<Rightarrow> X64_TextGenState \<Rightarrow> X64_TextGenState option" where
  "X64_elf_gen_mov (X64_MOV_RR src_rh sz dst src) gs = do {
     let is_src_8h = (sz = 1 \<and> src_rh);
     let src_reg = (if is_src_8h then x64_reg_8h_val src else x64_reg_val src);
     let dst_reg = x64_reg_val dst;
     let src_is_ext = src_reg > 7;
     let dst_is_ext = dst_reg > 7;
     let is_64_bit = (sz = 8);
     let opcode = (if sz = 1 then 0x88 else 0x89);
     let gs = push_if (sz = 2) 0x66 gs;
     let gs = (if is_64_bit \<or> src_is_ext \<or> dst_is_ext then push_byte (X64_rex_nosib (of_bool is_64_bit) src_reg dst_reg) gs
       else push_if (sz = 1 \<and> \<not> is_src_8h \<and> X64_reg_aliased_8h src) (X64_rex_prefix 0 0 0 0) gs);
     let gs = push_byte opcode gs;
     Some (push_byte (X64_modrm_byte X64_MOD_DIRECT src_reg dst_reg) gs) }"
| "X64_elf_gen_mov (X64_MOV_MR src_rh sz dst src) gs = do {
     let is_src_8h = (sz = 1 \<and> src_rh);
     let src_reg = (if is_src_8h then x64_reg_8h_val src else x64_reg_val src);
     dst_addr \<leftarrow> X64_get_addr_bytes dst;
     let src_is_ext = src_reg > 7;
     let use_ext_regs = src_is_ext \<or> rex_b dst_addr \<or> rex_x dst_addr;
     let is_64_bit = (sz = 8);
     let opcode = (if sz = 1 then 0x88 else 0x89);
     let gs = push_if (sz = 2) 0x66 gs;
     let gs = (if use_ext_regs \<or> is_64_bit
       then push_byte (X64_rex_prefix (of_bool is_64_bit) (drop_bit 3 src_reg) (of_bool (rex_x dst_addr)) (of_bool (rex_b dst_addr))) gs
       else push_if (sz = 1 \<and> \<not> is_src_8h \<and> X64_reg_aliased_8h src) (X64_rex_prefix 0 0 0 0) gs);
     let gs = push_byte opcode gs;
     write_modrm_addr src_reg dst_addr gs }"
| "X64_elf_gen_mov (X64_MOV_RM sz dst src) gs = do {
     let dst_reg = x64_reg_val dst;
     src_addr \<leftarrow> X64_get_addr_bytes src;
     let dst_is_ext = dst_reg > 7;
     let use_ext_regs = dst_is_ext \<or> rex_b src_addr \<or> rex_x src_addr;
     let is_64_bit = (sz = 8);
     let opcode = (if sz = 1 then 0x8A else 0x8B);
     let gs = push_if (sz = 2) 0x66 gs;
     let gs = (if use_ext_regs \<or> is_64_bit
       then push_byte (X64_rex_prefix (of_bool is_64_bit) (drop_bit 3 dst_reg) (of_bool (rex_x src_addr)) (of_bool (rex_b src_addr))) gs
       else push_if (sz = 1 \<and> X64_reg_aliased_8h dst) (X64_rex_prefix 0 0 0 0) gs);
     let gs = push_byte opcode gs;
     write_modrm_addr dst_reg src_addr gs }"
| "X64_elf_gen_mov (X64_MOV_MI sz dst imm) gs = do {
     addr_bytes \<leftarrow> X64_get_addr_bytes dst;
     let use_ext_regs = rex_b addr_bytes \<or> rex_x addr_bytes;
     let is_64_bit = (sz = 8);
     let opcode = (if sz = 1 then 0xC6 else 0xC7);
     let gs = push_if (sz = 2) 0x66 gs;
     let gs = push_if (is_64_bit \<or> use_ext_regs)
       (X64_rex_prefix (of_bool is_64_bit) 0 (of_bool (rex_x addr_bytes)) (of_bool (rex_b addr_bytes))) gs;
     let gs = push_byte opcode gs;
     gs \<leftarrow> write_modrm_addr 0 addr_bytes gs;
     X64_write_imm_bytes (ucast imm) (if is_64_bit then 4 else sz) gs }"
| "X64_elf_gen_mov (X64_MOV_RI sz dst imm) gs = do {
     let dst_reg = x64_reg_val dst;
     let use_ext_regs = dst_reg > 7;
     let is_64_bit = (sz = 8);
     if is_64_bit \<and> sint imm \<ge> 0 \<and> sint imm \<le> 2147483647 then do {
       let gs = push_if use_ext_regs (X64_rex_opcode_reg 0 dst_reg) gs;
       let gs = push_byte (0xB8 + (dst_reg AND 7)) gs;
       X64_write_imm_bytes imm 4 gs }
     else if is_64_bit \<and> sint imm \<ge> -2147483648 \<and> sint imm \<le> 2147483647 then do {
       let gs = push_byte (X64_rex_nosib 1 0 dst_reg) gs;
       let gs = push_byte 0xC7 gs;
       let gs = push_byte (X64_modrm_byte X64_MOD_DIRECT 0 dst_reg) gs;
       X64_write_imm_bytes imm 4 gs }
     else do {
       let base_opcode = (if sz = 1 then 0xB0 else 0xB8);
       let gs = push_if (sz = 2) 0x66 gs;
       let gs = (if is_64_bit \<or> use_ext_regs then push_byte (X64_rex_opcode_reg (of_bool is_64_bit) dst_reg) gs
         else push_if (sz = 1 \<and> X64_reg_aliased_8h dst) (X64_rex_prefix 0 0 0 0) gs);
       let gs = push_byte (base_opcode + (dst_reg AND 7)) gs;
       X64_write_imm_bytes imm sz gs } }"
| "X64_elf_gen_mov (X64_LEA dst src) gs = do {
     let dst_reg = x64_reg_val dst;
     src_addr \<leftarrow> X64_get_addr_bytes src;
     let gs = push_byte (X64_rex_prefix 1 (drop_bit 3 dst_reg) (of_bool (rex_x src_addr)) (of_bool (rex_b src_addr))) gs;
     let gs = push_byte 0x8D gs;
     write_modrm_addr (dst_reg AND 7) src_addr gs }"
| "X64_elf_gen_mov i gs = X64_elf_gen_movx i gs"

section \<open>Floating point\<close>

fun flt_opcode :: "X64_FltOp \<Rightarrow> u8" where
  "flt_opcode X64_ADD_FLT = 0x58"
| "flt_opcode X64_SUB_FLT = 0x5C"
| "flt_opcode X64_MUL_FLT = 0x59"
| "flt_opcode X64_DIV_FLT = 0x5E"

text \<open>
  The kind carried by \<open>X64_CVTFLT\<close> is the kind of its source: \<open>FLOAT_F32\<close> is \<open>CVTSS2SD\<close>. The flag of the
  integer conversions is \<open>X64_INSTR_CVT_FLT_SI_INT64_MASK\<close>.
\<close>

fun X64_elf_gen_flt :: "X64_FltInstr \<Rightarrow> X64_TextGenState \<Rightarrow> X64_TextGenState option" where
  "X64_elf_gen_flt (X64_FLT_RR op kind dst src) gs = X64_write_elf_binary_flt_rr kind (flt_opcode op) dst src gs"
| "X64_elf_gen_flt (X64_FLT_RM op kind dst src) gs = X64_write_elf_binary_flt_rm kind (flt_opcode op) dst src gs"
| "X64_elf_gen_flt (X64_UCOMIS_RR kind dst src) gs = X64_write_elf_cmp_flt_rr kind 0x2E dst src gs"
| "X64_elf_gen_flt (X64_UCOMIS_RM kind dst src) gs = X64_write_elf_cmp_flt_rm kind 0x2E dst src gs"
| "X64_elf_gen_flt (X64_MOV_FLT_RR kind dst src) gs = X64_write_elf_binary_flt_rr kind 0x10 dst src gs"
| "X64_elf_gen_flt (X64_MOV_FLT_RM kind dst src) gs = X64_write_elf_binary_flt_rm kind 0x10 dst src gs"
| "X64_elf_gen_flt (X64_MOV_FLT_MR kind dst src) gs = X64_write_elf_binary_flt_mr kind 0x11 dst src gs"
| "X64_elf_gen_flt (X64_MOVDQU_RM dst src) gs = do {
     let dst_reg = x64_reg_val dst;
     src_addr \<leftarrow> X64_get_addr_bytes src;
     let use_ext_regs = dst_reg > 7 \<or> rex_b src_addr \<or> rex_x src_addr;
     let gs = push_byte 0xF3 gs;
     let gs = push_if use_ext_regs
       (X64_rex_prefix 0 (drop_bit 3 dst_reg) (of_bool (rex_x src_addr)) (of_bool (rex_b src_addr))) gs;
     let gs = push_byte 0x0F gs;
     let gs = push_byte 0x6F gs;
     write_modrm_addr dst_reg src_addr gs }"
| "X64_elf_gen_flt (X64_MOVDQU_MR dst src) gs = do {
     dst_addr \<leftarrow> X64_get_addr_bytes dst;
     let src_reg = x64_reg_val src;
     let use_ext_regs = src_reg > 7 \<or> rex_b dst_addr \<or> rex_x dst_addr;
     let gs = push_byte 0xF3 gs;
     let gs = push_if use_ext_regs
       (X64_rex_prefix 0 (drop_bit 3 src_reg) (of_bool (rex_x dst_addr)) (of_bool (rex_b dst_addr))) gs;
     let gs = push_byte 0x0F gs;
     let gs = push_byte 0x7F gs;
     write_modrm_addr src_reg dst_addr gs }"
| "X64_elf_gen_flt (X64_CVTFLT_RR kind dst src) gs = X64_write_elf_binary_flt_rr kind 0x5A dst src gs"
| "X64_elf_gen_flt (X64_CVTFLT_RM kind dst src) gs = X64_write_elf_binary_flt_rm kind 0x5A dst src gs"
| "X64_elf_gen_flt (X64_CVTTFLT2SI_RR kind is8 dst src) gs =
     X64_write_elf_flt_int_cvt_rr kind (if is8 then 8 else 4) 0x2C dst src gs"
| "X64_elf_gen_flt (X64_CVTTFLT2SI_RM kind is8 dst src) gs =
     X64_write_elf_flt_int_cvt_rm kind (if is8 then 8 else 4) 0x2C dst src gs"
| "X64_elf_gen_flt (X64_CVTSI2FLT_RR kind is8 dst src) gs =
     X64_write_elf_flt_int_cvt_rr kind (if is8 then 8 else 4) 0x2A dst src gs"
| "X64_elf_gen_flt (X64_CVTSI2FLT_RM kind is8 dst src) gs =
     X64_write_elf_flt_int_cvt_rm kind (if is8 then 8 else 4) 0x2A dst src gs"

section \<open>The whole switch\<close>

fun X64_elf_gen_instr :: "X64_Instr \<Rightarrow> X64_TextGenState \<Rightarrow> X64_TextGenState option" where
  "X64_elf_gen_instr (Ctrl i) gs = X64_elf_gen_ctrl i gs"
| "X64_elf_gen_instr (Bin i) gs = X64_elf_gen_bin i gs"
| "X64_elf_gen_instr (Mul i) gs = X64_elf_gen_mul i gs"
| "X64_elf_gen_instr (Shift i) gs = X64_elf_gen_shift i gs"
| "X64_elf_gen_instr (Mov i) gs = X64_elf_gen_mov i gs"
| "X64_elf_gen_instr (Flt i) gs = X64_elf_gen_flt i gs"

end
