(* ===== verification/Jump_Relax.thy ===== *)
theory Jump_Relax
  imports Elf_Gen_Instr
begin

text \<open>
  The encoding of jumps and the generation of the code of a procedure
  (\<open>src/src/x64_gen/machine_code.c\<close>, lines 888-993 and 2123-2227): the sizes of blocks, the update of
  one jump, the loop that repeats the updates until no jump changes size, the serialisation of the
  blocks and the patching of calls.

  Signed 32-bit arithmetic is done on integers; where the result is stored, a value that does not fit
  an \<open>s32\<close> (undefined behaviour in C) is an abort. All sums here only move away from zero, so an
  intermediate overflow is an overflow of the result.
\<close>

section \<open>Sizes and offsets\<close>

definition s32_of :: "int \<Rightarrow> s32 option" where
  "s32_of v = (if - (2 ^ 31) \<le> v \<and> v < 2 ^ 31 then Some (word_of_int v) else None)"

definition X64_get_bblock_best_case_size :: "X64_TextBBlock \<Rightarrow> int" where
  "X64_get_bblock_best_case_size bblock =
     (let base_size = int (length (buffer bblock));
          opcode_len = uint (jmp_opcode_len bblock);
          opcode_len = (if opcode_len = 0 \<and> jmp_instr bblock \<noteq> None then 1 else opcode_len);
          offset_len = uint (jmp_offset_len bblock);
          offset_len = (if offset_len = 0 \<and> jmp_instr bblock \<noteq> None then 1 else offset_len) in
      base_size + opcode_len + offset_len)"

fun jmp_target :: "X64_CtrlInstr \<Rightarrow> nat option" where
  "jmp_target (X64_JMP t) = Some (unat t)"
| "jmp_target (X64_JMP_TO_RET t) = Some (unat t)"
| "jmp_target (X64_JMPCC _ t) = Some (unat t)"
| "jmp_target _ = None"

fun is_jmpcc :: "X64_CtrlInstr \<Rightarrow> bool" where
  "is_jmpcc (X64_JMPCC _ _) = True"
| "is_jmpcc _ = False"

text \<open>The sum of the best-case sizes of the blocks \<open>a, ..., b - 1\<close>.\<close>

definition blocks_size :: "X64_TextBBlock list \<Rightarrow> nat \<Rightarrow> nat \<Rightarrow> int" where
  "blocks_size bblocks a b = (\<Sum>bb \<leftarrow> [a..<b]. X64_get_bblock_best_case_size (bblocks ! bb))"

definition jmp_rel_offset :: "X64_TextBBlock list \<Rightarrow> X64_TextBBlock \<Rightarrow> X64_CtrlInstr \<Rightarrow> nat \<Rightarrow> nat \<Rightarrow> int option" where
  "jmp_rel_offset bblocks bblock instr src_index dst_index =
     (if dst_index > src_index then do {
        assert_opt (dst_index \<le> length bblocks);
        Some (blocks_size bblocks (src_index + 1) dst_index) }
      else do {
        let offset = - blocks_size bblocks dst_index src_index - int (length (buffer bblock));
        assert_opt (offset \<le> 0);
        Some (if offset \<ge> -128 + 2 then offset - 2
              else offset - (if is_jmpcc instr then 6 else 5)) })"

fun encode_jmp :: "X64_CtrlInstr \<Rightarrow> bool \<Rightarrow> s32 \<Rightarrow> X64_TextBBlock \<Rightarrow> X64_TextBBlock option" where
  "encode_jmp (X64_JMP _) fits off b = Some (b\<lparr>jmp_opcode_len := 1, jmp_opcode := (if fits then 0xEB else 0xE9),
     jmp_offset_len := (if fits then 1 else 4), jmp_offset := off\<rparr>)"
| "encode_jmp (X64_JMP_TO_RET _) fits off b = Some (b\<lparr>jmp_opcode_len := 1, jmp_opcode := (if fits then 0xEB else 0xE9),
     jmp_offset_len := (if fits then 1 else 4), jmp_offset := off\<rparr>)"
| "encode_jmp (X64_JMPCC cond _) fits off b = Some (b\<lparr>jmp_opcode_len := (if fits then 1 else 2),
     jmp_opcode := (if fits then x64_jmpcc_short_condition_opcodes cond else x64_jmpcc_near_condition_opcodes cond),
     jmp_offset_len := (if fits then 1 else 4), jmp_offset := off\<rparr>)"
| "encode_jmp _ fits off b = None"

definition X64_update_jmp :: "nat \<Rightarrow> X64_TextBBlock list \<Rightarrow> (bool \<times> X64_TextBBlock list) option" where
  "X64_update_jmp bb bblocks =
     (let bblock = bblocks ! bb in
      case jmp_instr bblock of
        None \<Rightarrow> Some (False, bblocks[bb := bblock\<lparr>jmp_opcode_len := 0, jmp_offset_len := 0\<rparr>])
      | Some instr \<Rightarrow> do {
          let src_index = unat (bb_index bblock);
          dst_index \<leftarrow> jmp_target instr;
          offset \<leftarrow> jmp_rel_offset bblocks bblock instr src_index dst_index;
          if jmp_opcode_len bblock = 0 \<or> jmp_offset_len bblock = 0 \<or> sint (jmp_offset bblock) \<noteq> offset then do {
            let old_offset_fits_in_byte = (jmp_offset_len bblock \<le> 1);
            assert_opt (\<not> old_offset_fits_in_byte \<or> (sint (jmp_offset bblock) \<ge> -128 \<and> sint (jmp_offset bblock) \<le> 127));
            let new_offset_fits_in_byte = (offset \<ge> -128 \<and> offset \<le> 127);
            off \<leftarrow> s32_of offset;
            bblock' \<leftarrow> encode_jmp instr new_offset_fits_in_byte off bblock;
            Some (old_offset_fits_in_byte \<noteq> new_offset_fits_in_byte, bblocks[bb := bblock']) }
          else Some (False, bblocks) })"

section \<open>The relaxation loop\<close>

text \<open>One pass over the blocks: the disjunction of the results, and the updated blocks.\<close>

fun X64_update_jmps_from :: "nat list \<Rightarrow> X64_TextBBlock list \<Rightarrow> (bool \<times> X64_TextBBlock list) option" where
  "X64_update_jmps_from [] bblocks = Some (False, bblocks)"
| "X64_update_jmps_from (bb # bbs) bblocks = do {
     (c, bblocks) \<leftarrow> X64_update_jmp bb bblocks;
     (cs, bblocks) \<leftarrow> X64_update_jmps_from bbs bblocks;
     Some (c \<or> cs, bblocks) }"

text \<open>\<open>None\<close> is an abort or a loop that never ends.\<close>

partial_function (option) X64_relax_jmps :: "X64_TextBBlock list \<Rightarrow> X64_TextBBlock list option" where
  "X64_relax_jmps bblocks = do {
     (update_jmps, bblocks) \<leftarrow> X64_update_jmps_from [0..<length bblocks] bblocks;
     if update_jmps then X64_relax_jmps bblocks else Some bblocks }"

section \<open>Serialisation\<close>

definition jmp_bytes :: "X64_TextBBlock \<Rightarrow> u8 list" where
  "jmp_bytes b = le_bytes (unat (jmp_opcode_len b)) (jmp_opcode b) @ le_bytes (unat (jmp_offset_len b)) (jmp_offset b)"

definition X64_serialize_bblock :: "X64_TextBBlock \<Rightarrow> u8 list \<Rightarrow> (X64_TextBBlock \<times> u8 list) option" where
  "X64_serialize_bblock b buf = do {
     let b = b\<lparr>final_offset := of_nat (length buf)\<rparr>;
     let buf = buf @ buffer b;
     if jmp_instr b \<noteq> None then do {
       assert_opt (jmp_opcode_len b > 0 \<and> jmp_offset_len b > 0);
       Some (b, buf @ jmp_bytes b) }
     else Some (b, buf) }"

fun X64_serialize_bblocks :: "X64_TextBBlock list \<Rightarrow> u8 list \<Rightarrow> (X64_TextBBlock list \<times> u8 list) option" where
  "X64_serialize_bblocks [] buf = Some ([], buf)"
| "X64_serialize_bblocks (b # bs) buf = do {
     (b, buf) \<leftarrow> X64_serialize_bblock b buf;
     (bs, buf) \<leftarrow> X64_serialize_bblocks bs buf;
     Some (b # bs, buf) }"

section \<open>The code of a procedure\<close>

record X64_TextReloc =
  usage_off :: s64
  bytes_to_next_ip :: s64
  ref_addr :: ConstAddr

definition text_reloc :: "X64_TextBBlock list \<Rightarrow> X64_InternalReloc \<Rightarrow> X64_TextReloc" where
  "text_reloc bblocks r =
     (let loc = usage_loc r; b = bblocks ! unat (bblock_index loc) in
      \<lparr>usage_off = final_offset b + scast (bblock_offset loc), bytes_to_next_ip = ir_bytes_to_next_ip r,
       ref_addr = ir_ref_addr r\<rparr>)"

fun gen_bblock_instrs :: "X64_Instr list \<Rightarrow> X64_TextGenState \<Rightarrow> X64_TextGenState option" where
  "gen_bblock_instrs [] gs = Some gs"
| "gen_bblock_instrs (i # is) gs = X64_elf_gen_instr i gs \<bind> gen_bblock_instrs is"

text \<open>The zero-initialised text block number \<open>bb\<close>.\<close>

definition new_text_bblock :: "nat \<Rightarrow> X64_TextBBlock" where
  "new_text_bblock bb =
     \<lparr>bb_index = of_nat bb, final_offset = 0, buffer = [], jmp_opcode = 0, jmp_opcode_len = 0,
      jmp_offset = 0, jmp_offset_len = 0, jmp_instr = None\<rparr>"

fun gen_bblocks :: "nat \<Rightarrow> X64_Instr list list \<Rightarrow> X64_InternalReloc list \<Rightarrow> X64_InternalReloc list \<Rightarrow>
    (X64_TextBBlock list \<times> X64_InternalReloc list \<times> X64_InternalReloc list) option" where
  "gen_bblocks bb [] rs ps = Some ([], rs, ps)"
| "gen_bblocks bb (instrs # bblocks) rs ps = do {
     gs \<leftarrow> gen_bblock_instrs instrs \<lparr>curr_bblock = new_text_bblock bb, proc_off_patches = ps, relocs = rs\<rparr>;
     (text_bblocks, rs, ps) \<leftarrow> gen_bblocks (bb + 1) bblocks (relocs gs) (proc_off_patches gs);
     Some (curr_bblock gs # text_bblocks, rs, ps) }"

definition X64_elf_gen_instrs ::
  "X64_Instr list list \<Rightarrow> u8 list \<times> X64_TextReloc list \<times> X64_TextReloc list \<Rightarrow>
   (u8 list \<times> X64_TextReloc list \<times> X64_TextReloc list) option" where
  "X64_elf_gen_instrs bblocks out = do {
     let (buf, rels, patches) = out;
     (text_bblocks, rs, ps) \<leftarrow> gen_bblocks 0 bblocks [] [];
     text_bblocks \<leftarrow> X64_relax_jmps text_bblocks;
     (text_bblocks, buf) \<leftarrow> X64_serialize_bblocks text_bblocks buf;
     Some (buf, rels @ map (text_reloc text_bblocks) rs, patches @ map (text_reloc text_bblocks) ps) }"

section \<open>Patching calls\<close>

text \<open>A 32-bit write through a pointer into the buffer; a write outside the buffer is an abort.\<close>

definition write_s32 :: "u8 list \<Rightarrow> int \<Rightarrow> s32 \<Rightarrow> u8 list option" where
  "write_s32 buf off v = do {
     assert_opt (0 \<le> off \<and> off + 4 \<le> int (length buf));
     Some (take (nat off) buf @ le_bytes 4 v @ drop (nat off + 4) buf) }"

definition patch_value :: "(nat \<Rightarrow> u64) \<Rightarrow> X64_TextReloc \<Rightarrow> Symbol \<Rightarrow> s32" where
  "patch_value proc_offsets p proc_sym =
     scast (proc_offsets (as_proc_index proc_sym) - (usage_off p + bytes_to_next_ip p))"

fun X64_patch_proc_uses :: "X64_TextReloc list \<Rightarrow> (nat \<Rightarrow> u64) \<Rightarrow> u8 list \<Rightarrow> u8 list option" where
  "X64_patch_proc_uses [] proc_offsets buf = Some buf"
| "X64_patch_proc_uses (p # ps) proc_offsets buf =
     (case ref_addr p of
        CONST_ADDR_SYM proc_sym \<Rightarrow>
          write_s32 buf (sint (usage_off p)) (patch_value proc_offsets p proc_sym) \<bind>
          X64_patch_proc_uses ps proc_offsets
      | _ \<Rightarrow> None)"

end
