(* ===== verification/X64_Decode.thy ===== *)
theory X64_Decode
  imports Regs
begin

text \<open>
  A reference decoder for the x86-64 instructions the back end can produce, written from the
  instruction format of the architecture manuals and independent of the encoder: legacy prefixes, the
  REX prefix, the one-byte and two-byte opcode maps, ModRM/SIB/displacement, immediates, and the
  byte registers that change meaning when a REX prefix is present. It is the specification the
  emitter of \<open>src/src/x64_gen/machine_code.c\<close> is proved against; it models no code of the repository.
\<close>

section \<open>Decoded instructions\<close>

datatype x86_mem =
    MemBase X64_Reg "(X64_Reg \<times> nat) option" s32
  | MemRip s32

datatype x86_opd =
    Gpr nat X64_Reg
  | GprHigh X64_Reg
  | Xmm X64_Reg
  | Mem nat x86_mem
  | Imm u64
  | Rel s32

datatype x86_mnemonic =
    M_ADD | M_OR | M_ADC | M_SBB | M_AND | M_SUB | M_XOR | M_CMP
  | M_PUSH | M_POP | M_CALL | M_RET | M_JMP | M_JCC nat | M_SETCC nat
  | M_REP_MOVSB | M_REP_STOSB | M_SYSCALL
  | M_NOT | M_NEG | M_MUL | M_IMUL | M_DIV | M_IDIV | M_CWD | M_CDQ | M_CQO
  | M_ROL | M_ROR | M_RCL | M_RCR | M_SHL | M_SHR | M_SAL | M_SAR
  | M_MOV | M_MOVSX | M_MOVSXD | M_MOVZX | M_LEA

datatype x86_flt_mnemonic =
    M_ADDS | M_SUBS | M_MULS | M_DIVS | M_MOVS | M_UCOMIS | M_CVTS2S | M_CVTTS2SI | M_CVTSI2S | M_MOVDQU

text \<open>A scalar floating point instruction carries the size in bytes of its floating point format.\<close>

datatype x86_insn =
    Insn x86_mnemonic "x86_opd list"
  | FInsn x86_flt_mnemonic nat "x86_opd list"

section \<open>Prefixes\<close>

datatype x86_ctx = Ctx (c66: bool) (cF2: bool) (cF3: bool) (has_rex: bool) (cW: bool) (cR: bool) (cX: bool) (cB: bool)

fun dec_legacy :: "bool \<Rightarrow> bool \<Rightarrow> bool \<Rightarrow> u8 list \<Rightarrow> bool \<times> bool \<times> bool \<times> u8 list" where
  "dec_legacy p66 pF2 pF3 [] = (p66, pF2, pF3, [])"
| "dec_legacy p66 pF2 pF3 (b # bs) =
     (if b = 0x66 then dec_legacy True pF2 pF3 bs
      else if b = 0xF2 then dec_legacy p66 True pF3 bs
      else if b = 0xF3 then dec_legacy p66 pF2 True bs
      else (p66, pF2, pF3, b # bs))"

fun dec_rex :: "bool \<times> bool \<times> bool \<times> u8 list \<Rightarrow> x86_ctx \<times> u8 list" where
  "dec_rex (p66, pF2, pF3, []) = (Ctx p66 pF2 pF3 False False False False False, [])"
| "dec_rex (p66, pF2, pF3, b # bs) =
     (if b AND 0xF0 = 0x40 then (Ctx p66 pF2 pF3 True (bit b 3) (bit b 2) (bit b 1) (bit b 0), bs)
      else (Ctx p66 pF2 pF3 False False False False False, b # bs))"

definition dec_ctx :: "u8 list \<Rightarrow> x86_ctx \<times> u8 list" where
  "dec_ctx bs = dec_rex (dec_legacy False False False bs)"

section \<open>Little-endian integers\<close>

definition le16 :: "u8 \<Rightarrow> u8 \<Rightarrow> u16" where
  "le16 b0 b1 = ucast b0 OR push_bit 8 (ucast b1)"

definition le32 :: "u8 \<Rightarrow> u8 \<Rightarrow> u8 \<Rightarrow> u8 \<Rightarrow> u32" where
  "le32 b0 b1 b2 b3 = ucast b0 OR push_bit 8 (ucast b1) OR push_bit 16 (ucast b2) OR push_bit 24 (ucast b3)"

definition le64 :: "u8 \<Rightarrow> u8 \<Rightarrow> u8 \<Rightarrow> u8 \<Rightarrow> u8 \<Rightarrow> u8 \<Rightarrow> u8 \<Rightarrow> u8 \<Rightarrow> u64" where
  "le64 b0 b1 b2 b3 b4 b5 b6 b7 = ucast (le32 b0 b1 b2 b3) OR push_bit 32 (ucast (le32 b4 b5 b6 b7))"

fun read32 :: "u8 list \<Rightarrow> (u32 \<times> u8 list) option" where
  "read32 (b0 # b1 # b2 # b3 # bs) = Some (le32 b0 b1 b2 b3, bs)"
| "read32 _ = None"

text \<open>Immediates, sign-extended to 64 bits and cut to the operand size.\<close>

fun read_imm8 :: "nat \<Rightarrow> u8 list \<Rightarrow> (x86_opd \<times> u8 list) option" where
  "read_imm8 sz (b # bs) = Some (Imm (take_bit (8 * sz) (scast b)), bs)"
| "read_imm8 _ [] = None"

fun read_imm16 :: "u8 list \<Rightarrow> (x86_opd \<times> u8 list) option" where
  "read_imm16 (b0 # b1 # bs) = Some (Imm (take_bit 16 (scast (le16 b0 b1))), bs)"
| "read_imm16 _ = None"

definition read_imm32 :: "nat \<Rightarrow> u8 list \<Rightarrow> (x86_opd \<times> u8 list) option" where
  "read_imm32 sz bs = do { (v, bs) \<leftarrow> read32 bs; Some (Imm (take_bit (8 * sz) (scast v)), bs) }"

fun read_imm64 :: "u8 list \<Rightarrow> (x86_opd \<times> u8 list) option" where
  "read_imm64 (b0 # b1 # b2 # b3 # b4 # b5 # b6 # b7 # bs) = Some (Imm (le64 b0 b1 b2 b3 b4 b5 b6 b7), bs)"
| "read_imm64 _ = None"

text \<open>\<open>immz\<close> has at most four bytes; \<open>immv\<close> (only \<open>mov r, imm\<close>) has as many bytes as the operand.\<close>

definition read_immz :: "nat \<Rightarrow> u8 list \<Rightarrow> (x86_opd \<times> u8 list) option" where
  "read_immz sz bs = (if sz = 1 then read_imm8 1 bs else if sz = 2 then read_imm16 bs else read_imm32 sz bs)"

definition read_immv :: "nat \<Rightarrow> u8 list \<Rightarrow> (x86_opd \<times> u8 list) option" where
  "read_immv sz bs = (if sz = 8 then read_imm64 bs else read_immz sz bs)"

section \<open>ModRM and SIB\<close>

datatype x86_rm = RM_Reg nat | RM_Mem x86_mem

definition gpr64 :: "nat \<Rightarrow> X64_Reg" where
  "gpr64 n = all_regs ! n"

definition ext_num :: "bool \<Rightarrow> u8 \<Rightarrow> nat" where
  "ext_num hi v = (if hi then 8 else 0) + unat v"

definition dec_disp :: "u8 \<Rightarrow> u8 list \<Rightarrow> (s32 \<times> u8 list) option" where
  "dec_disp md bs =
     (if md = 0 then Some (0, bs)
      else if md = 1 then (case bs of b # bs \<Rightarrow> Some (scast b, bs) | [] \<Rightarrow> None)
      else read32 bs)"

definition dec_mem :: "bool \<Rightarrow> bool \<Rightarrow> u8 \<Rightarrow> u8 \<Rightarrow> u8 list \<Rightarrow> (x86_mem \<times> u8 list) option" where
  "dec_mem X B md rm bs =
     (if rm = 4 then
        (case bs of [] \<Rightarrow> None
         | s # bs \<Rightarrow>
           if s AND 7 = 5 \<and> md = 0 then None
           else do {
             let idx = ext_num X (drop_bit 3 s AND 7);
             let sc = 2 ^ unat (drop_bit 6 s);
             (d, bs) \<leftarrow> dec_disp md bs;
             Some (MemBase (gpr64 (ext_num B (s AND 7))) (if idx = 4 then None else Some (gpr64 idx, sc)) d, bs) })
      else if rm = 5 \<and> md = 0 then do { (d, bs) \<leftarrow> read32 bs; Some (MemRip d, bs) }
      else do { (d, bs) \<leftarrow> dec_disp md bs; Some (MemBase (gpr64 (ext_num B rm)) None d, bs) })"

definition dec_modrm :: "x86_ctx \<Rightarrow> u8 list \<Rightarrow> (nat \<times> x86_rm \<times> u8 list) option" where
  "dec_modrm c bs =
     (case bs of [] \<Rightarrow> None
      | m # bs \<Rightarrow> do {
          let md = drop_bit 6 m;
          let reg = ext_num (cR c) (drop_bit 3 m AND 7);
          let rm = m AND 7;
          if md = 3 then Some (reg, RM_Reg (ext_num (cB c) rm), bs)
          else do { (mem, bs) \<leftarrow> dec_mem (cX c) (cB c) md rm bs; Some (reg, RM_Mem mem, bs) } })"

section \<open>Operands\<close>

text \<open>Without a REX prefix the byte registers 4 to 7 are AH, CH, DH and BH.\<close>

definition gpr :: "x86_ctx \<Rightarrow> nat \<Rightarrow> nat \<Rightarrow> x86_opd" where
  "gpr c sz n = (if sz = 1 \<and> \<not> has_rex c \<and> 4 \<le> n \<and> n < 8 then GprHigh (gpr64 (n - 4)) else Gpr sz (gpr64 n))"

definition xmm :: "nat \<Rightarrow> x86_opd" where
  "xmm n = Xmm (all_regs ! (16 + n))"

fun rm_gpr :: "x86_ctx \<Rightarrow> nat \<Rightarrow> x86_rm \<Rightarrow> x86_opd" where
  "rm_gpr c sz (RM_Reg n) = gpr c sz n"
| "rm_gpr c sz (RM_Mem m) = Mem sz m"

fun rm_xmm :: "nat \<Rightarrow> x86_rm \<Rightarrow> x86_opd" where
  "rm_xmm sz (RM_Reg n) = xmm n"
| "rm_xmm sz (RM_Mem m) = Mem sz m"

definition opsize :: "x86_ctx \<Rightarrow> bool \<Rightarrow> nat" where
  "opsize c byte_op = (if byte_op then 1 else if cW c then 8 else if c66 c then 2 else 4)"

definition alu_mnemonics :: "x86_mnemonic list" where
  "alu_mnemonics = [M_ADD, M_OR, M_ADC, M_SBB, M_AND, M_SUB, M_XOR, M_CMP]"

definition shift_mnemonics :: "x86_mnemonic list" where
  "shift_mnemonics = [M_ROL, M_ROR, M_RCL, M_RCR, M_SHL, M_SHR, M_SAL, M_SAR]"

definition grp3_mnemonics :: "x86_mnemonic option list" where
  "grp3_mnemonics = [None, None, Some M_NOT, Some M_NEG, Some M_MUL, Some M_IMUL, Some M_DIV, Some M_IDIV]"

section \<open>The one-byte opcode map\<close>

text \<open>In the group opcodes the \<open>reg\<close> field selects the operation; REX.R is ignored there.\<close>

definition dec_one_a :: "x86_ctx \<Rightarrow> u8 \<Rightarrow> u8 list \<Rightarrow> (x86_insn \<times> u8 list) option" where
  "dec_one_a c opc bs =
     (if opc AND 0xC4 = 0 then do {
        (r, rm, bs) \<leftarrow> dec_modrm c bs;
        let sz = opsize c (opc AND 1 = 0);
        let m = alu_mnemonics ! unat (drop_bit 3 opc);
        Some (Insn m (if opc AND 2 = 0 then [rm_gpr c sz rm, gpr c sz r] else [gpr c sz r, rm_gpr c sz rm]), bs) }
      else if opc = 0x63 then do {
        (r, rm, bs) \<leftarrow> dec_modrm c bs;
        if cW c then Some (Insn M_MOVSXD [gpr c 8 r, rm_gpr c 4 rm], bs) else None }
      else if opc = 0x69 \<or> opc = 0x6B then do {
        (r, rm, bs) \<leftarrow> dec_modrm c bs;
        let sz = opsize c False;
        (i, bs) \<leftarrow> (if opc = 0x69 then read_immz sz bs else read_imm8 sz bs);
        Some (Insn M_IMUL [gpr c sz r, rm_gpr c sz rm, i], bs) }
      else if opc = 0x80 \<or> opc = 0x81 \<or> opc = 0x83 then do {
        (r, rm, bs) \<leftarrow> dec_modrm c bs;
        let sz = opsize c (opc = 0x80);
        (i, bs) \<leftarrow> (if opc = 0x81 then read_immz sz bs else read_imm8 sz bs);
        Some (Insn (alu_mnemonics ! (r mod 8)) [rm_gpr c sz rm, i], bs) }
      else if opc AND 0xFC = 0x88 then do {
        (r, rm, bs) \<leftarrow> dec_modrm c bs;
        let sz = opsize c (opc AND 1 = 0);
        Some (Insn M_MOV (if opc AND 2 = 0 then [rm_gpr c sz rm, gpr c sz r] else [gpr c sz r, rm_gpr c sz rm]), bs) }
      else if opc = 0x8D then do {
        (r, rm, bs) \<leftarrow> dec_modrm c bs;
        let sz = opsize c False;
        (case rm of RM_Mem m \<Rightarrow> Some (Insn M_LEA [gpr c sz r, Mem sz m], bs) | RM_Reg _ \<Rightarrow> None) }
      else if opc = 0xC6 \<or> opc = 0xC7 then do {
        (r, rm, bs) \<leftarrow> dec_modrm c bs;
        let sz = opsize c (opc = 0xC6);
        (i, bs) \<leftarrow> read_immz sz bs;
        if r mod 8 = 0 then Some (Insn M_MOV [rm_gpr c sz rm, i], bs) else None }
      else None)"

definition dec_one_b :: "x86_ctx \<Rightarrow> u8 \<Rightarrow> u8 list \<Rightarrow> (x86_insn \<times> u8 list) option" where
  "dec_one_b c opc bs =
     (if opc AND 0xF8 = 0x50 then Some (Insn M_PUSH [Gpr 8 (gpr64 (ext_num (cB c) (opc AND 7)))], bs)
      else if opc AND 0xF8 = 0x58 then Some (Insn M_POP [Gpr 8 (gpr64 (ext_num (cB c) (opc AND 7)))], bs)
      else if opc AND 0xF8 = 0xB0 then do {
        (i, bs) \<leftarrow> read_immv 1 bs;
        Some (Insn M_MOV [gpr c 1 (ext_num (cB c) (opc AND 7)), i], bs) }
      else if opc AND 0xF8 = 0xB8 then do {
        let sz = opsize c False;
        (i, bs) \<leftarrow> read_immv sz bs;
        Some (Insn M_MOV [gpr c sz (ext_num (cB c) (opc AND 7)), i], bs) }
      else if opc AND 0xF0 = 0x70 then
        (case bs of b # bs \<Rightarrow> Some (Insn (M_JCC (unat (opc AND 15))) [Rel (scast b)], bs) | [] \<Rightarrow> None)
      else if opc = 0xEB then (case bs of b # bs \<Rightarrow> Some (Insn M_JMP [Rel (scast b)], bs) | [] \<Rightarrow> None)
      else if opc = 0xE9 then do { (v, bs) \<leftarrow> read32 bs; Some (Insn M_JMP [Rel v], bs) }
      else if opc = 0xE8 then do { (v, bs) \<leftarrow> read32 bs; Some (Insn M_CALL [Rel v], bs) }
      else if opc = 0xC3 then Some (Insn M_RET [], bs)
      else if opc = 0x99 then
        Some (Insn (if cW c then M_CQO else if c66 c then M_CWD else M_CDQ) [], bs)
      else if opc = 0xA4 \<and> cF3 c then Some (Insn M_REP_MOVSB [], bs)
      else if opc = 0xAA \<and> cF3 c then Some (Insn M_REP_STOSB [], bs)
      else if opc AND 0xFE = 0xC0 \<or> opc AND 0xFC = 0xD0 then do {
        (r, rm, bs) \<leftarrow> dec_modrm c bs;
        let sz = opsize c (opc AND 1 = 0);
        (i, bs) \<leftarrow> (if opc AND 0xFE = 0xC0 then read_imm8 1 bs
                    else if opc AND 0xFE = 0xD0 then Some (Imm 1, bs)
                    else Some (Gpr 1 X64_RCX, bs));
        Some (Insn (shift_mnemonics ! (r mod 8)) [rm_gpr c sz rm, i], bs) }
      else if opc AND 0xFE = 0xF6 then do {
        (r, rm, bs) \<leftarrow> dec_modrm c bs;
        let sz = opsize c (opc = 0xF6);
        m \<leftarrow> grp3_mnemonics ! (r mod 8);
        Some (Insn m [rm_gpr c sz rm], bs) }
      else if opc = 0xFF then do {
        (r, rm, bs) \<leftarrow> dec_modrm c bs;
        if r mod 8 = 2 then Some (Insn M_CALL [rm_gpr c 8 rm], bs) else None }
      else None)"

section \<open>The two-byte opcode map\<close>

definition flt_size :: "x86_ctx \<Rightarrow> nat option" where
  "flt_size c = (if cF3 c then Some 4 else if cF2 c then Some 8 else None)"

definition dec_flt :: "x86_flt_mnemonic \<Rightarrow> x86_ctx \<Rightarrow> u8 list \<Rightarrow> (x86_insn \<times> u8 list) option" where
  "dec_flt m c bs = do {
     (r, rm, bs) \<leftarrow> dec_modrm c bs;
     sz \<leftarrow> flt_size c;
     Some (FInsn m sz [xmm r, rm_xmm sz rm], bs) }"

definition dec_two :: "x86_ctx \<Rightarrow> u8 \<Rightarrow> u8 list \<Rightarrow> (x86_insn \<times> u8 list) option" where
  "dec_two c opc bs =
     (if opc = 0x05 then Some (Insn M_SYSCALL [], bs)
      else if opc AND 0xF0 = 0x80 then do {
        (v, bs) \<leftarrow> read32 bs;
        Some (Insn (M_JCC (unat (opc AND 15))) [Rel v], bs) }
      else if opc AND 0xF0 = 0x90 then do {
        (r, rm, bs) \<leftarrow> dec_modrm c bs;
        Some (Insn (M_SETCC (unat (opc AND 15))) [rm_gpr c 1 rm], bs) }
      else if opc = 0xAF then do {
        (r, rm, bs) \<leftarrow> dec_modrm c bs;
        let sz = opsize c False;
        Some (Insn M_IMUL [gpr c sz r, rm_gpr c sz rm], bs) }
      else if opc AND 0xFE = 0xB6 \<or> opc AND 0xFE = 0xBE then do {
        (r, rm, bs) \<leftarrow> dec_modrm c bs;
        let sz = opsize c False;
        Some (Insn (if opc AND 0xFE = 0xB6 then M_MOVZX else M_MOVSX)
               [gpr c sz r, rm_gpr c (if opc AND 1 = 0 then 1 else 2) rm], bs) }
      else if opc = 0x10 then dec_flt M_MOVS c bs
      else if opc = 0x11 then do {
        (r, rm, bs) \<leftarrow> dec_modrm c bs;
        sz \<leftarrow> flt_size c;
        Some (FInsn M_MOVS sz [rm_xmm sz rm, xmm r], bs) }
      else if opc = 0x2A then do {
        (r, rm, bs) \<leftarrow> dec_modrm c bs;
        sz \<leftarrow> flt_size c;
        Some (FInsn M_CVTSI2S sz [xmm r, rm_gpr c (if cW c then 8 else 4) rm], bs) }
      else if opc = 0x2C then do {
        (r, rm, bs) \<leftarrow> dec_modrm c bs;
        sz \<leftarrow> flt_size c;
        Some (FInsn M_CVTTS2SI sz [gpr c (if cW c then 8 else 4) r, rm_xmm sz rm], bs) }
      else if opc = 0x2E then do {
        (r, rm, bs) \<leftarrow> dec_modrm c bs;
        let sz = (if c66 c then 8 else 4);
        Some (FInsn M_UCOMIS sz [xmm r, rm_xmm sz rm], bs) }
      else if opc = 0x58 then dec_flt M_ADDS c bs
      else if opc = 0x59 then dec_flt M_MULS c bs
      else if opc = 0x5A then dec_flt M_CVTS2S c bs
      else if opc = 0x5C then dec_flt M_SUBS c bs
      else if opc = 0x5E then dec_flt M_DIVS c bs
      else if opc = 0x6F \<and> cF3 c then do {
        (r, rm, bs) \<leftarrow> dec_modrm c bs;
        Some (FInsn M_MOVDQU 16 [xmm r, rm_xmm 16 rm], bs) }
      else if opc = 0x7F \<and> cF3 c then do {
        (r, rm, bs) \<leftarrow> dec_modrm c bs;
        Some (FInsn M_MOVDQU 16 [rm_xmm 16 rm, xmm r], bs) }
      else None)"

section \<open>Decoding one instruction and a sequence\<close>

definition dec_body :: "x86_ctx \<Rightarrow> u8 list \<Rightarrow> (x86_insn \<times> u8 list) option" where
  "dec_body c bs =
     (case bs of [] \<Rightarrow> None
      | opc # bs \<Rightarrow>
          if opc = 0x0F then (case bs of [] \<Rightarrow> None | opc2 # bs \<Rightarrow> dec_two c opc2 bs)
          else (case dec_one_a c opc bs of Some r \<Rightarrow> Some r | None \<Rightarrow> dec_one_b c opc bs))"

definition x86_decode :: "u8 list \<Rightarrow> (x86_insn \<times> u8 list) option" where
  "x86_decode bs = (case dec_ctx bs of (c, bs) \<Rightarrow> dec_body c bs)"

text \<open>Decode exactly \<open>n\<close> instructions, with nothing left over.\<close>

fun x86_decode_n :: "nat \<Rightarrow> u8 list \<Rightarrow> x86_insn list option" where
  "x86_decode_n 0 bs = (if bs = [] then Some [] else None)"
| "x86_decode_n (Suc n) bs = do {
     (i, bs) \<leftarrow> x86_decode bs;
     is \<leftarrow> x86_decode_n n bs;
     Some (i # is) }"

end
