(* ===== verification/Encode_Addr.thy ===== *)
theory Encode_Addr
  imports Elf_Gen_Instr X64_Decode
begin

text \<open>
  The emitter of \<open>src/src/x64_gen/machine_code.c\<close> at the level of bytes: how the writers extend the
  state, the fields of ModRM, SIB and REX bytes, relocations, and the encoding of memory operands,
  which is shown to be read back by the reference decoder as the operand that was meant.
\<close>

section \<open>Bytes of a word\<close>

lemma le16_bytes [emit_simps]: "le16 (ucast v) (ucast (drop_bit 8 v)) = v"
  by (rule bit_word_eqI) (auto simp: le16_def bit_simps)

lemma le32_bytes [emit_simps]: "le32 (ucast v) (ucast (drop_bit 8 v)) (ucast (drop_bit 16 v)) (ucast (drop_bit 24 v)) = v"
proof (rule bit_word_eqI)
  fix n assume "n < LENGTH(32)"
  then consider "n < 8" | "8 \<le> n" "n < 16" | "16 \<le> n" "n < 24" | "24 \<le> n" "n < 32" by fastforce
  then show "bit (le32 (ucast v) (ucast (drop_bit 8 v)) (ucast (drop_bit 16 v)) (ucast (drop_bit 24 v))) n = bit v n"
    by cases (auto simp: le32_def bit_simps)
qed

lemma le64_bytes [emit_simps]:
  "le64 (ucast v) (ucast (drop_bit 8 v)) (ucast (drop_bit 16 v)) (ucast (drop_bit 24 v))
     (ucast (drop_bit 32 v)) (ucast (drop_bit 40 v)) (ucast (drop_bit 48 v)) (ucast (drop_bit 56 v)) = v"
proof -
  have 1: "(ucast (drop_bit k v) :: u8) = ucast (drop_bit k (ucast v :: u32))" if "k \<le> 24" for k
    using that by (auto intro!: bit_word_eqI simp: bit_simps)
  have 2: "(ucast (drop_bit (32 + k) v) :: u8) = ucast (drop_bit k (ucast (drop_bit 32 v) :: u32))" if "k \<le> 24" for k
    using that by (auto intro!: bit_word_eqI simp: bit_simps ac_simps)
  have lo: "le32 (ucast v) (ucast (drop_bit 8 v)) (ucast (drop_bit 16 v)) (ucast (drop_bit 24 v)) = ucast v"
    using le32_bytes[of "ucast v"] 1[of 0] 1[of 8] 1[of 16] 1[of 24] by simp
  have hi: "le32 (ucast (drop_bit 32 v)) (ucast (drop_bit 40 v)) (ucast (drop_bit 48 v)) (ucast (drop_bit 56 v)) = ucast (drop_bit 32 v)"
    using le32_bytes[of "ucast (drop_bit 32 v)"] 2[of 0] 2[of 8] 2[of 16] 2[of 24] by simp
  show ?thesis unfolding le64_def lo hi
    by (rule bit_word_eqI) (auto simp: bit_simps)
qed

lemma scast_ucast_small:
  fixes v :: "'a::len word"
  assumes "- 128 \<le> sint v" "sint v \<le> 127" "8 \<le> LENGTH('a)"
  shows "(scast (ucast v :: u8) :: 'b::len word) = scast v"
proof -
  have "sint (ucast v :: u8) = signed_take_bit 7 (sint v)"
    using assms(3)
    by (simp add: sint_uint signed_take_bit_signed_take_bit unsigned_ucast_eq unsigned_take_bit_eq signed_take_bit_take_bit)
  also have "\<dots> = sint v" using assms by (simp add: signed_take_bit_int_eq_self)
  finally show ?thesis by (metis of_int_sint)
qed

section \<open>Fields of ModRM, SIB and REX bytes\<close>

lemma modrm_mod: "drop_bit 6 (X64_modrm_byte md reg rm) = md AND 3"
  by (rule u8_eqI; simp add: X64_modrm_byte_def bit_simps)

lemma modrm_reg: "drop_bit 3 (X64_modrm_byte md reg rm) AND 7 = reg AND 7"
  by (rule u8_eqI; simp add: X64_modrm_byte_def bit_simps)

lemma modrm_rm: "X64_modrm_byte md reg rm AND 7 = rm AND 7"
  by (rule u8_eqI; simp add: X64_modrm_byte_def bit_simps)

lemma modrm_and_7 [simp]: "X64_modrm_byte md (reg AND 7) rm = X64_modrm_byte md reg rm"
  "X64_modrm_byte md reg (rm AND 7) = X64_modrm_byte md reg rm"
  by (simp_all add: X64_modrm_byte_def)

lemma modrm_rm_cong: "v AND 7 = 4 \<Longrightarrow> X64_modrm_byte md reg 4 = X64_modrm_byte md reg v"
  by (simp add: X64_modrm_byte_def)

lemma rex_hi: "X64_rex_prefix w r x b AND 0xF0 = 0x40"
  by (rule u8_eqI; unfold X64_rex_prefix_def bit_simps; simp add: bit_simps)

lemma rex_bits: "bit (X64_rex_prefix w r x b) 3 = bit w 0" "bit (X64_rex_prefix w r x b) 2 = bit r 0"
  "bit (X64_rex_prefix w r x b) 1 = bit x 0" "bit (X64_rex_prefix w r x b) 0 = bit b 0"
  by (unfold X64_rex_prefix_def bit_simps; simp add: bit_simps)+

lemma rex_not_legacy: "X64_rex_prefix w r x b \<noteq> 0x66" "X64_rex_prefix w r x b \<noteq> 0xF2" "X64_rex_prefix w r x b \<noteq> 0xF3"
  using rex_hi[of w r x b] by auto

lemma reg_val_lt [simp]: "x64_reg_val r < 16"
  by (cases r) simp_all

lemma reg_val_bit3: "bit (x64_reg_val r) 3 \<longleftrightarrow> x64_reg_val r > 7"
  by (cases r) (simp_all add: bit_simps)

lemma drop_bit_reg_val: "bit (drop_bit 3 (x64_reg_val r)) 0 \<longleftrightarrow> x64_reg_val r > 7"
  using reg_val_bit3[of r] by (simp add: bit_drop_bit_eq)

lemma ext_num_reg [simp]: "ext_num (x64_reg_val r > 7) (x64_reg_val r AND 7) = unat (x64_reg_val r)"
  by (cases r) (simp_all add: ext_num_def)

lemma gpr64_reg [simp]: "x64_reg_classes r = X64_REG_CLASS_INT \<Longrightarrow> gpr64 (unat (x64_reg_val r)) = r"
  by (cases r) (simp_all add: x64_reg_classes_def gpr64_def all_regs_def)

lemma xmm_reg [simp]: "x64_reg_classes r = X64_REG_CLASS_FLOAT \<Longrightarrow> xmm (unat (x64_reg_val r)) = Xmm r"
  by (cases r) (simp_all add: x64_reg_classes_def xmm_def all_regs_def)

lemma gpr_reg:
  "x64_reg_classes r = X64_REG_CLASS_INT \<Longrightarrow> (sz = 1 \<and> X64_reg_aliased_8h r \<longrightarrow> has_rex c) \<Longrightarrow>
   gpr c sz (unat (x64_reg_val r)) = Gpr sz r"
  by (cases r) (auto simp: gpr_def X64_reg_aliased_8h_def Let_def gpr64_def all_regs_def x64_reg_classes_def)

section \<open>What the state accumulates\<close>

definition gs_ext :: "X64_TextGenState \<Rightarrow> u8 list \<Rightarrow> X64_InternalReloc list \<Rightarrow> X64_InternalReloc list \<Rightarrow> X64_TextGenState" where
  "gs_ext gs bs rs ps =
     gs\<lparr>curr_bblock := (curr_bblock gs)\<lparr>buffer := buffer (curr_bblock gs) @ bs\<rparr>,
        relocs := relocs gs @ rs, proc_off_patches := proc_off_patches gs @ ps\<rparr>"

lemma gs_ext_gs_ext [emit_simps]: "gs_ext (gs_ext gs a b c) a' b' c' = gs_ext gs (a @ a') (b @ b') (c @ c')"
  by (simp add: gs_ext_def)

lemma gs_ext_if [emit_simps]:
  "(if q then gs_ext gs a r p else gs_ext gs a' r' p') =
   gs_ext gs (if q then a else a') (if q then r else r') (if q then p else p')"
  by simp

lemma push_byte_extend [emit_simps]: "push_byte b gs = gs_ext gs [b] [] []"
  by (simp add: push_byte_def gs_ext_def)

lemma push_if_extend [emit_simps]: "push_if q b gs = gs_ext gs (if q then [b] else []) [] []"
  by (simp add: push_if_def push_byte_def gs_ext_def)

lemma write_imm16_extend [emit_simps]: "X64_write_imm16_bytes v gs = gs_ext gs (le_bytes 2 v) [] []"
  by (simp add: X64_write_imm16_bytes_def emit_simps)

lemma write_imm32_extend [emit_simps]: "X64_write_imm32_bytes v gs = gs_ext gs (le_bytes 4 v) [] []"
  by (simp add: X64_write_imm32_bytes_def emit_simps)

lemma write_imm64_extend [emit_simps]: "X64_write_imm64_bytes v gs = gs_ext gs (le_bytes 8 v) [] []"
  by (simp add: X64_write_imm64_bytes_def emit_simps upt_rec)

lemma le_bytes_ucast:
  "n \<le> 4 \<Longrightarrow> le_bytes n (ucast v :: u64) = le_bytes n (v :: u32)"
  by (auto simp: le_bytes_def intro!: bit_word_eqI simp: bit_simps)

lemma le_bytes_ucast_down:
  "le_bytes 2 (ucast v :: u16) = le_bytes 2 v" "le_bytes 4 (ucast v :: u32) = le_bytes 4 v" for v :: u64
  by (auto simp: le_bytes_def intro!: bit_word_eqI simp: bit_simps)

lemma write_imm_extend:
  "num_bytes \<in> {1, 2, 4, 8} \<Longrightarrow>
   X64_write_imm_bytes v num_bytes gs = Some (gs_ext gs (le_bytes (unat num_bytes) v) [] [])"
  by (auto simp: X64_write_imm_bytes_def emit_simps le_bytes_ucast_down[symmetric] simp del: le_bytes_simps(3-5))

section \<open>Relocations\<close>

definition reloc_at :: "X64_TextGenState \<Rightarrow> nat \<Rightarrow> ConstAddr \<Rightarrow> X64_InternalReloc" where
  "reloc_at gs n e =
     \<lparr>usage_loc = \<lparr>bblock_index = bb_index (curr_bblock gs),
                   bblock_offset = of_nat (length (buffer (curr_bblock gs)) + n)\<rparr>,
      ir_bytes_to_next_ip = 4, ir_ref_addr = e\<rparr>"

text \<open>The addresses of procedures defined in the program are patched by the compiler, all others by the linker.\<close>

fun patched_by_compiler :: "ConstAddr \<Rightarrow> bool" where
  "patched_by_compiler (CONST_ADDR_SYM s) \<longleftrightarrow> sym_kind s = SYMBOL_PROC \<and> \<not> decl_is_foreign s"
| "patched_by_compiler _ \<longleftrightarrow> False"

fun wf_entity :: "ConstAddr \<Rightarrow> bool" where
  "wf_entity (CONST_ADDR_SYM s) \<longleftrightarrow> sym_kind s = SYMBOL_VAR \<or> sym_kind s = SYMBOL_PROC"
| "wf_entity _ \<longleftrightarrow> True"

definition ent_relocs :: "X64_TextGenState \<Rightarrow> nat \<Rightarrow> ConstAddr option \<Rightarrow> X64_InternalReloc list" where
  "ent_relocs gs n e = (case e of None \<Rightarrow> [] | Some e \<Rightarrow> if patched_by_compiler e then [] else [reloc_at gs n e])"

definition ent_patches :: "X64_TextGenState \<Rightarrow> nat \<Rightarrow> ConstAddr option \<Rightarrow> X64_InternalReloc list" where
  "ent_patches gs n e = (case e of None \<Rightarrow> [] | Some e \<Rightarrow> if patched_by_compiler e then [reloc_at gs n e] else [])"

lemma ent_None [simp]: "ent_relocs gs n None = []" "ent_patches gs n None = []"
  by (simp_all add: ent_relocs_def ent_patches_def)

lemma ent_gs_ext [emit_simps]:
  "ent_relocs (gs_ext gs bs rs ps) n e = ent_relocs gs (length bs + n) e"
  "ent_patches (gs_ext gs bs rs ps) n e = ent_patches gs (length bs + n) e"
  by (auto simp: ent_relocs_def ent_patches_def reloc_at_def gs_ext_def algebra_simps split: option.splits)

lemma record_usage_extend:
  "wf_entity e \<Longrightarrow> X64_record_global_entity_offset_usage e (gs_ext gs bs rs ps) =
     Some (gs_ext gs bs (rs @ ent_relocs gs (length bs) (Some e)) (ps @ ent_patches gs (length bs) (Some e)))"
  by (cases e) (auto simp: Let_def gs_ext_def ent_relocs_def ent_patches_def reloc_at_def)

section \<open>Memory operands\<close>

fun wf_addr :: "X64_SIBD_Addr \<Rightarrow> bool" where
  "wf_addr (X64_SIBD_ADDR_LOCAL None ireg scl d) \<longleftrightarrow> False"
| "wf_addr (X64_SIBD_ADDR_LOCAL (Some b) ireg scl d) \<longleftrightarrow>
     x64_reg_classes b = X64_REG_CLASS_INT \<and>
     (scl = 0 \<or> (case ireg of None \<Rightarrow> True
                 | Some i \<Rightarrow> x64_reg_classes i = X64_REG_CLASS_INT \<and> i \<noteq> X64_RSP \<and> scl \<in> {1, 2, 4, 8}))"
| "wf_addr (X64_SIBD_ADDR_GLOBAL g) \<longleftrightarrow> wf_entity (CONST_ADDR_SYM g)"
| "wf_addr _ \<longleftrightarrow> True"

text \<open>The operand an address denotes, and the entity it refers to.\<close>

fun mem_of :: "X64_SIBD_Addr \<Rightarrow> x86_mem" where
  "mem_of (X64_SIBD_ADDR_LOCAL breg ireg scl d) =
     MemBase (case breg of Some b \<Rightarrow> b | None \<Rightarrow> X64_RAX)
       (if scl = 0 then None else map_option (\<lambda>i. (i, unat scl)) ireg) d"
| "mem_of _ = MemRip 0"

fun entity_of :: "X64_SIBD_Addr \<Rightarrow> ConstAddr option" where
  "entity_of (X64_SIBD_ADDR_LOCAL _ _ _ _) = None"
| "entity_of (X64_SIBD_ADDR_GLOBAL g) = Some (CONST_ADDR_SYM g)"
| "entity_of (X64_SIBD_ADDR_STR_LIT s) = Some (CONST_ADDR_STR_LIT s)"
| "entity_of (X64_SIBD_ADDR_FLOAT_LIT f) = Some (CONST_ADDR_FLOAT_LIT f)"

definition addr_bytes :: "X64_SIBD_Addr \<Rightarrow> X64_AddrBytes" where
  "addr_bytes a = the (X64_get_addr_bytes a)"

definition enc_disp :: "X64_AddrBytes \<Rightarrow> u8 list" where
  "enc_disp ab =
     (if \<not> has_disp ab then []
      else if ab_mod ab = 0 \<and> ab_rm ab = 5 then [0, 0, 0, 0]
      else if ab_mod ab = 1 then [ucast (ab_disp ab)]
      else le_bytes 4 (ab_disp ab))"

definition enc_addr :: "u8 \<Rightarrow> X64_AddrBytes \<Rightarrow> u8 list" where
  "enc_addr reg ab =
     X64_modrm_byte (ab_mod ab) reg (ab_rm ab) # (if has_sib_byte ab then [sib_byte ab] else []) @ enc_disp ab"

lemma enc_addr_and_7 [simp]: "enc_addr (reg AND 7) ab = enc_addr reg ab"
  by (simp add: enc_addr_def)

text \<open>The address bytes of a local address in closed form, without and with an index register.\<close>

definition disp_mod :: "u8 \<Rightarrow> s32 \<Rightarrow> u8" where
  "disp_mod v d = (if d = 0 \<and> v AND 7 \<noteq> 5 then 0 else if sint d \<le> 127 \<and> sint d \<ge> -128 then 1 else 2)"

lemma get_local_noindex:
  "scl = 0 \<or> ireg = None \<Longrightarrow>
   X64_get_addr_bytes (X64_SIBD_ADDR_LOCAL (Some b) ireg scl d) =
     Some \<lparr>ab_mod = disp_mod (x64_reg_val b) d, ab_rm = x64_reg_val b AND 7,
           sib_byte = (if x64_reg_val b AND 7 = 4 then X64_modrm_byte 0 4 (x64_reg_val b) else 0), ab_disp = d,
           rex_b = (x64_reg_val b > 7), rex_x = False, has_disp = (d \<noteq> 0 \<or> x64_reg_val b AND 7 = 5),
           has_sib_byte = (x64_reg_val b AND 7 = 4), patch_entity = None\<rparr>"
  by (auto simp: Let_def disp_mod_def mod_defs modrm_rm_cong)

lemma get_local_index:
  "scl \<noteq> 0 \<Longrightarrow> X64_get_scale_mode scl = Some sm \<Longrightarrow>
   X64_get_addr_bytes (X64_SIBD_ADDR_LOCAL (Some b) (Some i) scl d) =
     Some \<lparr>ab_mod = disp_mod (x64_reg_val b) d, ab_rm = 4,
           sib_byte = X64_modrm_byte sm (x64_reg_val i) (x64_reg_val b), ab_disp = d,
           rex_b = (x64_reg_val b > 7), rex_x = (x64_reg_val i > 7), has_disp = (d \<noteq> 0 \<or> x64_reg_val b AND 7 = 5),
           has_sib_byte = True, patch_entity = None\<rparr>"
  by (auto simp: Let_def disp_mod_def mod_defs modrm_rm_cong)

lemma X64_get_scale_mode_Some:
  "scl \<in> {1, 2, 4, 8} \<Longrightarrow> \<exists>m. X64_get_scale_mode scl = Some m \<and> 2 ^ unat (m AND 3) = unat scl"
  by (auto simp: X64_get_scale_mode_def)

lemma wf_local_cases:
  assumes "wf_addr (X64_SIBD_ADDR_LOCAL breg ireg scl d)"
  obtains (noindex) b where "breg = Some b" "x64_reg_classes b = X64_REG_CLASS_INT" "scl = 0 \<or> ireg = None"
  | (index) b i sm where "breg = Some b" "x64_reg_classes b = X64_REG_CLASS_INT"
      "scl \<noteq> 0" "ireg = Some i" "x64_reg_classes i = X64_REG_CLASS_INT" "i \<noteq> X64_RSP"
      "X64_get_scale_mode scl = Some sm" "2 ^ unat (sm AND 3) = unat scl"
proof -
  obtain b where b: "breg = Some b" "x64_reg_classes b = X64_REG_CLASS_INT" using assms by (cases breg) auto
  show thesis
  proof (cases "scl = 0 \<or> ireg = None")
    case True then show thesis using b noindex by blast
  next
    case False
    then obtain i where i: "ireg = Some i" "x64_reg_classes i = X64_REG_CLASS_INT" "i \<noteq> X64_RSP" "scl \<in> {1, 2, 4, 8}"
      using assms b by auto
    then show thesis using X64_get_scale_mode_Some[OF i(4)] b index False by blast
  qed
qed

lemma get_addr_bytes_wf:
  assumes "wf_addr a"
  shows "X64_get_addr_bytes a = Some (addr_bytes a)"
proof (cases a)
  case (X64_SIBD_ADDR_LOCAL breg ireg scl d)
  with assms have "wf_addr (X64_SIBD_ADDR_LOCAL breg ireg scl d)" by simp
  then show ?thesis unfolding X64_SIBD_ADDR_LOCAL addr_bytes_def
    by (cases rule: wf_local_cases) (simp_all add: get_local_noindex get_local_index del: X64_get_addr_bytes.simps)
qed (simp_all add: addr_bytes_def)

lemma disp_mod_cases: "disp_mod v d = 0 \<or> disp_mod v d = 1 \<or> disp_mod v d = 2"
  by (simp add: disp_mod_def)

lemma disp_mod_0: "disp_mod v d = 0 \<longleftrightarrow> d = 0 \<and> v AND 7 \<noteq> 5"
  by (simp add: disp_mod_def)

lemma write_modrm_addr_local:
  assumes "ab_mod ab = disp_mod v (ab_disp ab)" "has_disp ab = (ab_disp ab \<noteq> 0 \<or> v AND 7 = 5)"
  shows "write_modrm_addr reg ab (gs_ext gs bs rs ps) = Some (gs_ext gs (bs @ enc_addr reg ab) rs ps)"
  using assms disp_mod_cases[of v "ab_disp ab"] disp_mod_0[of v "ab_disp ab"]
  by (auto simp: write_modrm_addr_def emit_simps X64_write_addr_disp_def enc_addr_def enc_disp_def mod_defs)

lemma write_modrm_addr_extend:
  assumes "wf_addr a"
  shows "write_modrm_addr reg (addr_bytes a) (gs_ext gs bs rs ps) =
    Some (gs_ext gs (bs @ enc_addr reg (addr_bytes a))
      (rs @ ent_relocs gs (length bs + 1) (entity_of a)) (ps @ ent_patches gs (length bs + 1) (entity_of a)))"
proof (cases a)
  case (X64_SIBD_ADDR_LOCAL breg ireg scl d)
  with assms have "wf_addr (X64_SIBD_ADDR_LOCAL breg ireg scl d)" by simp
  then show ?thesis unfolding X64_SIBD_ADDR_LOCAL addr_bytes_def
  proof (cases rule: wf_local_cases)
    case (noindex b) then show "write_modrm_addr reg (the (X64_get_addr_bytes (X64_SIBD_ADDR_LOCAL breg ireg scl d))) (gs_ext gs bs rs ps) =
        Some (gs_ext gs (bs @ enc_addr reg (the (X64_get_addr_bytes (X64_SIBD_ADDR_LOCAL breg ireg scl d))))
          (rs @ ent_relocs gs (length bs + 1) (entity_of (X64_SIBD_ADDR_LOCAL breg ireg scl d)))
          (ps @ ent_patches gs (length bs + 1) (entity_of (X64_SIBD_ADDR_LOCAL breg ireg scl d))))"
      by (subst write_modrm_addr_local[of _ "x64_reg_val b"]) (simp_all add: get_local_noindex del: X64_get_addr_bytes.simps)
  next
    case (index b i sm) then show "write_modrm_addr reg (the (X64_get_addr_bytes (X64_SIBD_ADDR_LOCAL breg ireg scl d))) (gs_ext gs bs rs ps) =
        Some (gs_ext gs (bs @ enc_addr reg (the (X64_get_addr_bytes (X64_SIBD_ADDR_LOCAL breg ireg scl d))))
          (rs @ ent_relocs gs (length bs + 1) (entity_of (X64_SIBD_ADDR_LOCAL breg ireg scl d)))
          (ps @ ent_patches gs (length bs + 1) (entity_of (X64_SIBD_ADDR_LOCAL breg ireg scl d))))"
      by (subst write_modrm_addr_local[of _ "x64_reg_val b"]) (simp_all add: get_local_index del: X64_get_addr_bytes.simps)
  qed
qed (use assms in \<open>auto simp: write_modrm_addr_def Let_def emit_simps X64_write_addr_disp_def enc_addr_def enc_disp_def
       addr_bytes_def rip_addr_bytes_def mod_defs record_usage_extend simp del: X64_record_global_entity_offset_usage.simps\<close>)

text \<open>
  The central lemma: whatever the address, the ModRM byte, SIB byte and displacement the emitter
  writes are read back as the operand the address denotes.
\<close>

lemma dec_disp_enc:
  assumes "ab_mod ab = disp_mod v (ab_disp ab)" "has_disp ab = (ab_disp ab \<noteq> 0 \<or> v AND 7 = 5)"
  shows "dec_disp (ab_mod ab) (enc_disp ab @ rest) = Some (ab_disp ab, rest)"
  using assms
  by (auto simp: disp_mod_def enc_disp_def dec_disp_def scast_ucast_small le32_bytes)

lemma disp_mod_and_3: "disp_mod v d AND 3 = disp_mod v d" "disp_mod v d \<noteq> 3"
  by (simp_all add: disp_mod_def)

lemma ext_num_ne_4: "x64_reg_classes i = X64_REG_CLASS_INT \<Longrightarrow> i \<noteq> X64_RSP \<Longrightarrow> unat (x64_reg_val i) \<noteq> 4"
  by (cases i) (simp_all add: x64_reg_classes_def)

lemma ext_num_4:
  "x64_reg_classes b = X64_REG_CLASS_INT \<Longrightarrow> x64_reg_val b AND 7 = 4 \<Longrightarrow> gpr64 (ext_num (x64_reg_val b > 7) 4) = b"
  using ext_num_reg[of b] gpr64_reg[of b] by simp

lemma dec_modrm_noindex:
  assumes "x64_reg_classes b = X64_REG_CLASS_INT" "cX c = False" "cB c = (x64_reg_val b > 7)"
    "ab_mod ab = disp_mod (x64_reg_val b) (ab_disp ab)"
    "has_disp ab = (ab_disp ab \<noteq> 0 \<or> x64_reg_val b AND 7 = 5)"
    "ab_rm ab = x64_reg_val b AND 7" "has_sib_byte ab = (x64_reg_val b AND 7 = 4)"
    "x64_reg_val b AND 7 = 4 \<longrightarrow> sib_byte ab = X64_modrm_byte 0 4 (x64_reg_val b)"
  shows "dec_modrm c (enc_addr reg ab @ rest) =
    Some (ext_num (cR c) (reg AND 7), RM_Mem (MemBase b None (ab_disp ab)), rest)"
  using dec_disp_enc[OF assms(4,5), of rest] disp_mod_0[of "x64_reg_val b" "ab_disp ab"]
  by (cases "x64_reg_val b AND 7 = 4")
    (auto simp: Let_def assms dec_modrm_def enc_addr_def modrm_mod modrm_reg modrm_rm dec_mem_def disp_mod_and_3
      ext_num_def[of False 4] ext_num_4)

lemma dec_modrm_index:
  assumes "x64_reg_classes b = X64_REG_CLASS_INT" "x64_reg_classes i = X64_REG_CLASS_INT" "i \<noteq> X64_RSP"
    "cX c = (x64_reg_val i > 7)" "cB c = (x64_reg_val b > 7)"
    "ab_mod ab = disp_mod (x64_reg_val b) (ab_disp ab)"
    "has_disp ab = (ab_disp ab \<noteq> 0 \<or> x64_reg_val b AND 7 = 5)"
    "ab_rm ab = 4" "has_sib_byte ab" "sib_byte ab = X64_modrm_byte sm (x64_reg_val i) (x64_reg_val b)"
  shows "dec_modrm c (enc_addr reg ab @ rest) =
    Some (ext_num (cR c) (reg AND 7), RM_Mem (MemBase b (Some (i, 2 ^ unat (sm AND 3))) (ab_disp ab)), rest)"
  using dec_disp_enc[OF assms(6,7), of rest] disp_mod_0[of "x64_reg_val b" "ab_disp ab"] ext_num_ne_4[OF assms(2,3)]
  by (simp add: Let_def assms dec_modrm_def enc_addr_def modrm_mod modrm_reg modrm_rm dec_mem_def disp_mod_and_3)

lemma dec_modrm_addr:
  assumes "wf_addr a" "cX c = rex_x (addr_bytes a)" "cB c = rex_b (addr_bytes a)"
  shows "dec_modrm c (enc_addr reg (addr_bytes a) @ rest) =
    Some (ext_num (cR c) (reg AND 7), RM_Mem (mem_of a), rest)"
proof (cases a)
  case (X64_SIBD_ADDR_LOCAL breg ireg scl d)
  with assms(1) have "wf_addr (X64_SIBD_ADDR_LOCAL breg ireg scl d)" by simp
  then show ?thesis
  proof (cases rule: wf_local_cases)
    case (noindex b)
    then show ?thesis using assms(2,3) X64_SIBD_ADDR_LOCAL
      by (subst dec_modrm_noindex[of b])
        (auto simp: addr_bytes_def get_local_noindex simp del: X64_get_addr_bytes.simps)
  next
    case (index b i sm)
    then show ?thesis using assms(2,3) X64_SIBD_ADDR_LOCAL
      by (subst dec_modrm_index[of b i _ _ sm])
        (auto simp: addr_bytes_def get_local_index simp del: X64_get_addr_bytes.simps)
  qed
qed (use assms in \<open>auto simp: enc_addr_def enc_disp_def addr_bytes_def rip_addr_bytes_def mod_defs dec_modrm_def
       modrm_mod modrm_reg modrm_rm dec_mem_def le32_def\<close>)

end
