(* ===== verification/Instr_Meaning.thy ===== *)
theory Instr_Meaning
  imports Encode_Addr
begin

text \<open>
  What an instruction of the back end is meant to be on the machine: its mnemonic and operands as the
  reference decoder names them, the entity its address refers to, how many immediate bytes follow its
  displacement, and which instructions have an encoding at all (\<open>wf_instr\<close>). This is the
  specification of \<open>X64_elf_gen_instr\<close>.
\<close>

definition wf_reg :: "X64_Reg \<Rightarrow> bool" where
  "wf_reg r \<longleftrightarrow> x64_reg_classes r = X64_REG_CLASS_INT"

definition wf_freg :: "X64_Reg \<Rightarrow> bool" where
  "wf_freg r \<longleftrightarrow> x64_reg_classes r = X64_REG_CLASS_FLOAT"

definition wf_size :: "u8 \<Rightarrow> bool" where
  "wf_size sz \<longleftrightarrow> sz \<in> {1, 2, 4, 8}"

text \<open>Immediates are sign-extended to the operand size.\<close>

definition imm_val :: "u8 \<Rightarrow> u32 \<Rightarrow> u64" where
  "imm_val sz imm = take_bit (8 * unat sz) (scast imm)"

definition imm_is_byte :: "u32 \<Rightarrow> bool" where
  "imm_is_byte imm \<longleftrightarrow> sint imm \<le> 127 \<and> sint imm \<ge> -128"

section \<open>Meaning\<close>

fun cond_code :: "ConditionKind \<Rightarrow> nat" where
  "cond_code COND_U_LT = 2"
| "cond_code COND_U_GTEQ = 3"
| "cond_code COND_EQ = 4"
| "cond_code COND_NEQ = 5"
| "cond_code COND_U_LTEQ = 6"
| "cond_code COND_U_GT = 7"
| "cond_code COND_S_LT = 12"
| "cond_code COND_S_GTEQ = 13"
| "cond_code COND_S_LTEQ = 14"
| "cond_code COND_S_GT = 15"

fun ctrl_meaning :: "X64_CtrlInstr \<Rightarrow> x86_insn option" where
  "ctrl_meaning X64_NOOP = None"
| "ctrl_meaning (X64_PUSH r) = Some (Insn M_PUSH [Gpr 8 r])"
| "ctrl_meaning (X64_POP r) = Some (Insn M_POP [Gpr 8 r])"
| "ctrl_meaning (X64_JMP _) = None"
| "ctrl_meaning (X64_JMP_TO_RET _) = None"
| "ctrl_meaning (X64_JMPCC _ _) = None"
| "ctrl_meaning (X64_SETCC_R c r) = Some (Insn (M_SETCC (cond_code c)) [Gpr 1 r])"
| "ctrl_meaning (X64_SETCC_M c a) = Some (Insn (M_SETCC (cond_code c)) [Mem 1 (mem_of a)])"
| "ctrl_meaning X64_RET = Some (Insn M_RET [])"
| "ctrl_meaning (X64_CALL s) = Some (Insn M_CALL [Rel 0])"
| "ctrl_meaning (X64_CALL_R r) = Some (Insn M_CALL [Gpr 8 r])"
| "ctrl_meaning (X64_CALL_M a) = Some (Insn M_CALL [Mem 8 (mem_of a)])"
| "ctrl_meaning X64_REP_MOVSB = Some (Insn M_REP_MOVSB [])"
| "ctrl_meaning X64_REP_STOSB = Some (Insn M_REP_STOSB [])"
| "ctrl_meaning X64_SYSCALL = Some (Insn M_SYSCALL [])"

fun bin_mnemonic :: "X64_BinOp \<Rightarrow> x86_mnemonic" where
  "bin_mnemonic X64_ADD = M_ADD"
| "bin_mnemonic X64_SUB = M_SUB"
| "bin_mnemonic X64_AND = M_AND"
| "bin_mnemonic X64_OR = M_OR"
| "bin_mnemonic X64_XOR = M_XOR"
| "bin_mnemonic X64_CMP = M_CMP"

fun bin_meaning :: "X64_BinInstr \<Rightarrow> x86_insn" where
  "bin_meaning (X64_BIN_RR op sz d s) = Insn (bin_mnemonic op) [Gpr (unat sz) d, Gpr (unat sz) s]"
| "bin_meaning (X64_BIN_RM op sz d a) = Insn (bin_mnemonic op) [Gpr (unat sz) d, Mem (unat sz) (mem_of a)]"
| "bin_meaning (X64_BIN_MR op sz a s) = Insn (bin_mnemonic op) [Mem (unat sz) (mem_of a), Gpr (unat sz) s]"
| "bin_meaning (X64_BIN_RI op sz d imm) = Insn (bin_mnemonic op) [Gpr (unat sz) d, Imm (imm_val sz imm)]"
| "bin_meaning (X64_BIN_MI op sz a imm) = Insn (bin_mnemonic op) [Mem (unat sz) (mem_of a), Imm (imm_val sz imm)]"

fun rax_mnemonic :: "X64_RaxOp \<Rightarrow> x86_mnemonic" where
  "rax_mnemonic X64_IMUL = M_IMUL"
| "rax_mnemonic X64_MUL = M_MUL"
| "rax_mnemonic X64_DIV = M_DIV"
| "rax_mnemonic X64_IDIV = M_IDIV"

fun mul_meaning :: "X64_MulInstr \<Rightarrow> x86_insn" where
  "mul_meaning (X64_IMUL_RR sz d s) = Insn M_IMUL [Gpr (unat sz) d, Gpr (unat sz) s]"
| "mul_meaning (X64_IMUL_RM sz d a) = Insn M_IMUL [Gpr (unat sz) d, Mem (unat sz) (mem_of a)]"
| "mul_meaning (X64_IMUL_RI sz d imm) = Insn M_IMUL [Gpr (unat sz) d, Gpr (unat sz) d, Imm (imm_val sz imm)]"
| "mul_meaning (X64_IMUL_MI sz a imm) = Insn M_IMUL [Mem (unat sz) (mem_of a), Imm (imm_val sz imm)]"
| "mul_meaning (X64_RAX_R op sz s) = Insn (rax_mnemonic op) [Gpr (unat sz) s]"
| "mul_meaning (X64_RAX_M op sz a) = Insn (rax_mnemonic op) [Mem (unat sz) (mem_of a)]"
| "mul_meaning X64_CWD = Insn M_CWD []"
| "mul_meaning X64_CDQ = Insn M_CDQ []"
| "mul_meaning X64_CQO = Insn M_CQO []"

fun shift_mnemonic :: "X64_ShiftOp \<Rightarrow> x86_mnemonic" where
  "shift_mnemonic X64_SHL = M_SHL"
| "shift_mnemonic X64_SAR = M_SAR"

fun un_mnemonic :: "X64_UnOp \<Rightarrow> x86_mnemonic" where
  "un_mnemonic X64_NEG = M_NEG"
| "un_mnemonic X64_NOT = M_NOT"

fun shift_meaning :: "X64_ShiftInstr \<Rightarrow> x86_insn" where
  "shift_meaning (X64_UN_R op sz d) = Insn (un_mnemonic op) [Gpr (unat sz) d]"
| "shift_meaning (X64_UN_M op sz a) = Insn (un_mnemonic op) [Mem (unat sz) (mem_of a)]"
| "shift_meaning (X64_SHIFT_RR op sz d) = Insn (shift_mnemonic op) [Gpr (unat sz) d, Gpr 1 X64_RCX]"
| "shift_meaning (X64_SHIFT_MR op sz a) = Insn (shift_mnemonic op) [Mem (unat sz) (mem_of a), Gpr 1 X64_RCX]"
| "shift_meaning (X64_SHIFT_RI op sz d imm) = Insn (shift_mnemonic op) [Gpr (unat sz) d, Imm (ucast imm)]"
| "shift_meaning (X64_SHIFT_MI op sz a imm) = Insn (shift_mnemonic op) [Mem (unat sz) (mem_of a), Imm (ucast imm)]"

text \<open>
  A 64-bit move of a non-negative 31-bit constant is a 32-bit move, which clears the upper half of the
  register; every other 64-bit constant is moved by an instruction with a 64-bit operand.
\<close>

fun mov_meaning :: "X64_MovInstr \<Rightarrow> x86_insn" where
  "mov_meaning (X64_MOV_RR rh sz d s) =
     Insn M_MOV [Gpr (unat sz) d, if sz = 1 \<and> rh then GprHigh s else Gpr (unat sz) s]"
| "mov_meaning (X64_MOV_RM sz d a) = Insn M_MOV [Gpr (unat sz) d, Mem (unat sz) (mem_of a)]"
| "mov_meaning (X64_MOV_MR rh sz a s) =
     Insn M_MOV [Mem (unat sz) (mem_of a), if sz = 1 \<and> rh then GprHigh s else Gpr (unat sz) s]"
| "mov_meaning (X64_MOV_RI sz d imm) =
     (if sz = 8 \<and> sint imm \<ge> 0 \<and> sint imm \<le> 2147483647 then Insn M_MOV [Gpr 4 d, Imm imm]
      else Insn M_MOV [Gpr (unat sz) d, Imm (take_bit (8 * unat sz) imm)])"
| "mov_meaning (X64_MOV_MI sz a imm) = Insn M_MOV [Mem (unat sz) (mem_of a), Imm (imm_val sz imm)]"
| "mov_meaning (X64_MOVSX_RR ds ss d s) = Insn M_MOVSX [Gpr (unat ds) d, Gpr (unat ss) s]"
| "mov_meaning (X64_MOVSX_RM ds ss d a) = Insn M_MOVSX [Gpr (unat ds) d, Mem (unat ss) (mem_of a)]"
| "mov_meaning (X64_MOVSXD_RR ds ss d s) = Insn M_MOVSXD [Gpr (unat ds) d, Gpr (unat ss) s]"
| "mov_meaning (X64_MOVSXD_RM ds ss d a) = Insn M_MOVSXD [Gpr (unat ds) d, Mem (unat ss) (mem_of a)]"
| "mov_meaning (X64_MOVZX_RR ds ss d s) = Insn M_MOVZX [Gpr (unat ds) d, Gpr (unat ss) s]"
| "mov_meaning (X64_MOVZX_RM ds ss d a) = Insn M_MOVZX [Gpr (unat ds) d, Mem (unat ss) (mem_of a)]"
| "mov_meaning (X64_LEA d a) = Insn M_LEA [Gpr 8 d, Mem 8 (mem_of a)]"

fun fsize :: "FloatKind \<Rightarrow> nat" where
  "fsize FLOAT_F64 = 8"
| "fsize FLOAT_F32 = 4"

fun flt_mnemonic :: "X64_FltOp \<Rightarrow> x86_flt_mnemonic" where
  "flt_mnemonic X64_ADD_FLT = M_ADDS"
| "flt_mnemonic X64_SUB_FLT = M_SUBS"
| "flt_mnemonic X64_MUL_FLT = M_MULS"
| "flt_mnemonic X64_DIV_FLT = M_DIVS"

fun flt_meaning :: "X64_FltInstr \<Rightarrow> x86_insn" where
  "flt_meaning (X64_FLT_RR op k d s) = FInsn (flt_mnemonic op) (fsize k) [Xmm d, Xmm s]"
| "flt_meaning (X64_FLT_RM op k d a) = FInsn (flt_mnemonic op) (fsize k) [Xmm d, Mem (fsize k) (mem_of a)]"
| "flt_meaning (X64_MOV_FLT_RR k d s) = FInsn M_MOVS (fsize k) [Xmm d, Xmm s]"
| "flt_meaning (X64_MOV_FLT_RM k d a) = FInsn M_MOVS (fsize k) [Xmm d, Mem (fsize k) (mem_of a)]"
| "flt_meaning (X64_MOV_FLT_MR k a s) = FInsn M_MOVS (fsize k) [Mem (fsize k) (mem_of a), Xmm s]"
| "flt_meaning (X64_CVTFLT_RR k d s) = FInsn M_CVTS2S (fsize k) [Xmm d, Xmm s]"
| "flt_meaning (X64_CVTFLT_RM k d a) = FInsn M_CVTS2S (fsize k) [Xmm d, Mem (fsize k) (mem_of a)]"
| "flt_meaning (X64_CVTTFLT2SI_RR k is8 d s) = FInsn M_CVTTS2SI (fsize k) [Gpr (if is8 then 8 else 4) d, Xmm s]"
| "flt_meaning (X64_CVTTFLT2SI_RM k is8 d a) =
     FInsn M_CVTTS2SI (fsize k) [Gpr (if is8 then 8 else 4) d, Mem (fsize k) (mem_of a)]"
| "flt_meaning (X64_CVTSI2FLT_RR k is8 d s) = FInsn M_CVTSI2S (fsize k) [Xmm d, Gpr (if is8 then 8 else 4) s]"
| "flt_meaning (X64_CVTSI2FLT_RM k is8 d a) =
     FInsn M_CVTSI2S (fsize k) [Xmm d, Mem (if is8 then 8 else 4) (mem_of a)]"
| "flt_meaning (X64_MOVDQU_MR a s) = FInsn M_MOVDQU 16 [Mem 16 (mem_of a), Xmm s]"
| "flt_meaning (X64_MOVDQU_RM d a) = FInsn M_MOVDQU 16 [Xmm d, Mem 16 (mem_of a)]"
| "flt_meaning (X64_UCOMIS_RR k d s) = FInsn M_UCOMIS (fsize k) [Xmm d, Xmm s]"
| "flt_meaning (X64_UCOMIS_RM k d a) = FInsn M_UCOMIS (fsize k) [Xmm d, Mem (fsize k) (mem_of a)]"

fun instr_meaning :: "X64_Instr \<Rightarrow> x86_insn option" where
  "instr_meaning (Ctrl i) = ctrl_meaning i"
| "instr_meaning (Bin i) = Some (bin_meaning i)"
| "instr_meaning (Mul i) = Some (mul_meaning i)"
| "instr_meaning (Shift i) = Some (shift_meaning i)"
| "instr_meaning (Mov i) = Some (mov_meaning i)"
| "instr_meaning (Flt i) = Some (flt_meaning i)"

section \<open>Encodable instructions\<close>

text \<open>
  The byte moves need care: the emitter adds the REX prefix that selects SPL, BPL, SIL and DIL on
  account of the source register only, and a source in AH..BH cannot be combined with a REX prefix.
\<close>

fun wf_ctrl :: "X64_CtrlInstr \<Rightarrow> bool" where
  "wf_ctrl (X64_PUSH r) = wf_reg r"
| "wf_ctrl (X64_POP r) = wf_reg r"
| "wf_ctrl (X64_SETCC_R c r) = wf_reg r"
| "wf_ctrl (X64_SETCC_M c a) = wf_addr a"
| "wf_ctrl (X64_CALL s) = (sym_kind s = SYMBOL_PROC)"
| "wf_ctrl (X64_CALL_R r) = wf_reg r"
| "wf_ctrl (X64_CALL_M a) = wf_addr a"
| "wf_ctrl _ = True"

fun wf_bin :: "X64_BinInstr \<Rightarrow> bool" where
  "wf_bin (X64_BIN_RR op sz d s) = (wf_size sz \<and> wf_reg d \<and> wf_reg s)"
| "wf_bin (X64_BIN_RM op sz d a) = (wf_size sz \<and> wf_reg d \<and> wf_addr a)"
| "wf_bin (X64_BIN_MR op sz a s) = (wf_size sz \<and> wf_addr a \<and> wf_reg s)"
| "wf_bin (X64_BIN_RI op sz d imm) = (wf_size sz \<and> wf_reg d)"
| "wf_bin (X64_BIN_MI op sz a imm) = (wf_size sz \<and> wf_addr a)"

fun wf_mul :: "X64_MulInstr \<Rightarrow> bool" where
  "wf_mul (X64_IMUL_RR sz d s) = (wf_size sz \<and> sz \<noteq> 1 \<and> wf_reg d \<and> wf_reg s)"
| "wf_mul (X64_IMUL_RM sz d a) = (wf_size sz \<and> sz \<noteq> 1 \<and> wf_reg d \<and> wf_addr a)"
| "wf_mul (X64_IMUL_RI sz d imm) = (wf_size sz \<and> sz \<noteq> 1 \<and> wf_reg d)"
| "wf_mul (X64_IMUL_MI sz a imm) = False"
| "wf_mul (X64_RAX_R op sz s) = (wf_size sz \<and> wf_reg s)"
| "wf_mul (X64_RAX_M op sz a) = (wf_size sz \<and> wf_addr a)"
| "wf_mul _ = True"

fun wf_shift :: "X64_ShiftInstr \<Rightarrow> bool" where
  "wf_shift (X64_UN_R op sz d) = (wf_size sz \<and> wf_reg d)"
| "wf_shift (X64_UN_M op sz a) = (wf_size sz \<and> wf_addr a)"
| "wf_shift (X64_SHIFT_RR op sz d) = (wf_size sz \<and> wf_reg d)"
| "wf_shift (X64_SHIFT_MR op sz a) = (wf_size sz \<and> wf_addr a)"
| "wf_shift (X64_SHIFT_RI op sz d imm) = (wf_size sz \<and> wf_reg d)"
| "wf_shift (X64_SHIFT_MI op sz a imm) = (wf_size sz \<and> wf_addr a)"

definition has_8h :: "X64_Reg \<Rightarrow> bool" where
  "has_8h r \<longleftrightarrow> r \<in> {X64_RAX, X64_RCX, X64_RDX, X64_RBX}"

fun wf_mov :: "X64_MovInstr \<Rightarrow> bool" where
  "wf_mov (X64_MOV_RR rh sz d s) =
     (wf_size sz \<and> wf_reg d \<and> wf_reg s \<and>
      (if sz = 1 \<and> rh then has_8h s \<and> has_8h d
       else sz = 1 \<and> X64_reg_aliased_8h d \<longrightarrow> X64_reg_aliased_8h s \<or> x64_reg_val s > 7))"
| "wf_mov (X64_MOV_RM sz d a) = (wf_size sz \<and> wf_reg d \<and> wf_addr a)"
| "wf_mov (X64_MOV_MR rh sz a s) =
     (wf_size sz \<and> wf_addr a \<and> wf_reg s \<and>
      (sz = 1 \<and> rh \<longrightarrow> has_8h s \<and> \<not> rex_b (addr_bytes a) \<and> \<not> rex_x (addr_bytes a)))"
| "wf_mov (X64_MOV_RI sz d imm) = (wf_size sz \<and> wf_reg d)"
| "wf_mov (X64_MOV_MI sz a imm) = (wf_size sz \<and> wf_addr a)"
| "wf_mov (X64_MOVSX_RR ds ss d s) = (wf_size ds \<and> ds \<noteq> 1 \<and> (ss = 1 \<or> ss = 2) \<and> wf_reg d \<and> wf_reg s)"
| "wf_mov (X64_MOVSX_RM ds ss d a) = (wf_size ds \<and> ds \<noteq> 1 \<and> (ss = 1 \<or> ss = 2) \<and> wf_reg d \<and> wf_addr a)"
| "wf_mov (X64_MOVSXD_RR ds ss d s) = (ds = 8 \<and> ss = 4 \<and> wf_reg d \<and> wf_reg s)"
| "wf_mov (X64_MOVSXD_RM ds ss d a) = (ds = 8 \<and> ss = 4 \<and> wf_reg d \<and> wf_addr a)"
| "wf_mov (X64_MOVZX_RR ds ss d s) = (wf_size ds \<and> ds \<noteq> 1 \<and> (ss = 1 \<or> ss = 2) \<and> wf_reg d \<and> wf_reg s)"
| "wf_mov (X64_MOVZX_RM ds ss d a) = (wf_size ds \<and> ds \<noteq> 1 \<and> (ss = 1 \<or> ss = 2) \<and> wf_reg d \<and> wf_addr a)"
| "wf_mov (X64_LEA d a) = (wf_reg d \<and> wf_addr a)"

fun wf_flt :: "X64_FltInstr \<Rightarrow> bool" where
  "wf_flt (X64_FLT_RR op k d s) = (wf_freg d \<and> wf_freg s)"
| "wf_flt (X64_FLT_RM op k d a) = (wf_freg d \<and> wf_addr a)"
| "wf_flt (X64_MOV_FLT_RR k d s) = (wf_freg d \<and> wf_freg s)"
| "wf_flt (X64_MOV_FLT_RM k d a) = (wf_freg d \<and> wf_addr a)"
| "wf_flt (X64_MOV_FLT_MR k a s) = (wf_addr a \<and> wf_freg s)"
| "wf_flt (X64_CVTFLT_RR k d s) = (wf_freg d \<and> wf_freg s)"
| "wf_flt (X64_CVTFLT_RM k d a) = (wf_freg d \<and> wf_addr a)"
| "wf_flt (X64_CVTTFLT2SI_RR k is8 d s) = (wf_reg d \<and> wf_freg s)"
| "wf_flt (X64_CVTTFLT2SI_RM k is8 d a) = (wf_reg d \<and> wf_addr a)"
| "wf_flt (X64_CVTSI2FLT_RR k is8 d s) = (wf_freg d \<and> wf_reg s)"
| "wf_flt (X64_CVTSI2FLT_RM k is8 d a) = (wf_freg d \<and> wf_addr a)"
| "wf_flt (X64_MOVDQU_MR a s) = (wf_addr a \<and> wf_freg s)"
| "wf_flt (X64_MOVDQU_RM d a) = (wf_freg d \<and> wf_addr a)"
| "wf_flt (X64_UCOMIS_RR k d s) = (wf_freg d \<and> wf_freg s)"
| "wf_flt (X64_UCOMIS_RM k d a) = (wf_freg d \<and> wf_addr a)"

fun wf_instr :: "X64_Instr \<Rightarrow> bool" where
  "wf_instr (Ctrl i) = wf_ctrl i"
| "wf_instr (Bin i) = wf_bin i"
| "wf_instr (Mul i) = wf_mul i"
| "wf_instr (Shift i) = wf_shift i"
| "wf_instr (Mov i) = wf_mov i"
| "wf_instr (Flt i) = wf_flt i"

section \<open>Entities and trailing immediates\<close>

fun instr_entity :: "X64_Instr \<Rightarrow> ConstAddr option" where
  "instr_entity (Ctrl (X64_SETCC_M c a)) = entity_of a"
| "instr_entity (Ctrl (X64_CALL s)) = Some (CONST_ADDR_SYM s)"
| "instr_entity (Ctrl (X64_CALL_M a)) = entity_of a"
| "instr_entity (Ctrl _) = None"
| "instr_entity (Bin (X64_BIN_RM op sz d a)) = entity_of a"
| "instr_entity (Bin (X64_BIN_MR op sz a s)) = entity_of a"
| "instr_entity (Bin (X64_BIN_MI op sz a imm)) = entity_of a"
| "instr_entity (Bin _) = None"
| "instr_entity (Mul (X64_IMUL_RM sz d a)) = entity_of a"
| "instr_entity (Mul (X64_IMUL_MI sz a imm)) = entity_of a"
| "instr_entity (Mul (X64_RAX_M op sz a)) = entity_of a"
| "instr_entity (Mul _) = None"
| "instr_entity (Shift (X64_UN_M op sz a)) = entity_of a"
| "instr_entity (Shift (X64_SHIFT_MR op sz a)) = entity_of a"
| "instr_entity (Shift (X64_SHIFT_MI op sz a imm)) = entity_of a"
| "instr_entity (Shift _) = None"
| "instr_entity (Mov (X64_MOV_RM sz d a)) = entity_of a"
| "instr_entity (Mov (X64_MOV_MR rh sz a s)) = entity_of a"
| "instr_entity (Mov (X64_MOV_MI sz a imm)) = entity_of a"
| "instr_entity (Mov (X64_MOVSX_RM ds ss d a)) = entity_of a"
| "instr_entity (Mov (X64_MOVSXD_RM ds ss d a)) = entity_of a"
| "instr_entity (Mov (X64_MOVZX_RM ds ss d a)) = entity_of a"
| "instr_entity (Mov (X64_LEA d a)) = entity_of a"
| "instr_entity (Mov _) = None"
| "instr_entity (Flt (X64_FLT_RM op k d a)) = entity_of a"
| "instr_entity (Flt (X64_MOV_FLT_RM k d a)) = entity_of a"
| "instr_entity (Flt (X64_MOV_FLT_MR k a s)) = entity_of a"
| "instr_entity (Flt (X64_CVTFLT_RM k d a)) = entity_of a"
| "instr_entity (Flt (X64_CVTTFLT2SI_RM k is8 d a)) = entity_of a"
| "instr_entity (Flt (X64_CVTSI2FLT_RM k is8 d a)) = entity_of a"
| "instr_entity (Flt (X64_MOVDQU_MR a s)) = entity_of a"
| "instr_entity (Flt (X64_MOVDQU_RM d a)) = entity_of a"
| "instr_entity (Flt (X64_UCOMIS_RM k d a)) = entity_of a"
| "instr_entity (Flt _) = None"

definition immz_len :: "u8 \<Rightarrow> nat" where
  "immz_len sz = (if sz = 8 then 4 else unat sz)"

fun trailing_imm :: "X64_Instr \<Rightarrow> nat" where
  "trailing_imm (Bin (X64_BIN_MI op sz a imm)) = (if imm_is_byte imm then 1 else immz_len sz)"
| "trailing_imm (Shift (X64_SHIFT_MI op sz a imm)) = (if imm = 1 then 0 else 1)"
| "trailing_imm (Mov (X64_MOV_MI sz a imm)) = immz_len sz"
| "trailing_imm _ = 0"

end
