(* ===== verification/Encode_Correct.thy ===== *)
theory Encode_Correct
  imports Instr_Meaning
begin

text \<open>
  Correctness of the machine code emitter of \<open>src/src/x64_gen/machine_code.c\<close> against the reference
  decoder: what each writer appends to the state, what the appended bytes decode to, and where a
  relocation points.
\<close>

section \<open>Prefixes and the emission predicate\<close>

definition rexl :: "bool \<Rightarrow> u8 \<Rightarrow> u8 \<Rightarrow> u8 \<Rightarrow> u8 \<Rightarrow> bool \<Rightarrow> u8 list" where
  "rexl q w r x b h = (if q then [X64_rex_prefix w r x b] else if h then [X64_rex_prefix 0 0 0 0] else [])"

definition pfx66 :: "bool \<Rightarrow> u8 list" where
  "pfx66 p = (if p then [0x66] else [])"

definition plain_opc :: "u8 \<Rightarrow> bool" where
  "plain_opc opc \<longleftrightarrow> opc \<noteq> 0x66 \<and> opc \<noteq> 0xF2 \<and> opc \<noteq> 0xF3 \<and> opc AND 0xF0 \<noteq> 0x40"

lemma dec_rex_rexl:
  assumes "plain_opc opc" "bit w 0 \<or> bit r 0 \<or> bit x 0 \<or> bit b 0 \<longrightarrow> q"
  shows "dec_rex (dec_legacy p p2 p3 (rexl q w r x b h @ opc # t)) =
    (Ctx p p2 p3 (q \<or> h) (bit w 0) (bit r 0) (bit x 0) (bit b 0), opc # t)"
  using assms by (auto simp: rexl_def plain_opc_def rex_not_legacy rex_hi rex_bits rex_bits(3)[unfolded One_nat_def])

lemma dec_ctx_66:
  assumes "plain_opc opc" "bit w 0 \<or> bit r 0 \<or> bit x 0 \<or> bit b 0 \<longrightarrow> q"
  shows "dec_ctx (pfx66 p @ rexl q w r x b h @ opc # t) =
    (Ctx p False False (q \<or> h) (bit w 0) (bit r 0) (bit x 0) (bit b 0), opc # t)"
  using dec_rex_rexl[OF assms] by (simp add: dec_ctx_def pfx66_def)

lemma dec_ctx_flt:
  assumes "plain_opc opc" "bit w 0 \<or> bit r 0 \<or> bit x 0 \<or> bit b 0 \<longrightarrow> q"
  shows "dec_ctx (flt_prefix k # rexl q w r x b h @ opc # t) =
    (Ctx False (k = FLOAT_F64) (k = FLOAT_F32) (q \<or> h) (bit w 0) (bit r 0) (bit x 0) (bit b 0), opc # t)"
  using dec_rex_rexl[OF assms] by (cases k) (simp_all add: dec_ctx_def flt_prefix_def)

text \<open>
  \<open>emits gs r insn e t\<close>: the writer returned normally, appended bytes that decode to exactly \<open>insn\<close>
  whatever follows them, and recorded one usage of the entity \<open>e\<close> (if any) at the displacement field
  that ends \<open>t\<close> bytes before the end of the instruction.
\<close>

definition emits :: "X64_TextGenState \<Rightarrow> X64_TextGenState option \<Rightarrow> x86_insn \<Rightarrow> ConstAddr option \<Rightarrow> nat \<Rightarrow> bool" where
  "emits gs r insn e t \<longleftrightarrow>
     (\<exists>bs. r = Some (gs_ext gs bs (ent_relocs gs (length bs - (4 + t)) e) (ent_patches gs (length bs - (4 + t)) e)) \<and>
           (\<forall>rest. x86_decode (bs @ rest) = Some (insn, rest)) \<and>
           (e \<noteq> None \<longrightarrow> 4 + t \<le> length bs))"

lemma length_enc_addr_rip: "entity_of a \<noteq> None \<Longrightarrow> length (enc_addr reg (addr_bytes a)) = 5"
  by (cases a) (simp_all add: enc_addr_def enc_disp_def addr_bytes_def rip_addr_bytes_def mod_defs)

definition mem_result :: "X64_TextGenState \<Rightarrow> u8 list \<Rightarrow> X64_SIBD_Addr \<Rightarrow> u8 \<Rightarrow> u8 list \<Rightarrow> X64_TextGenState option" where
  "mem_result gs pre a reg imm =
     Some (gs_ext gs (pre @ enc_addr reg (addr_bytes a) @ imm)
       (ent_relocs gs (length pre + 1) (entity_of a)) (ent_patches gs (length pre + 1) (entity_of a)))"

lemma write_modrm_addr_result:
  "wf_addr a \<Longrightarrow> write_modrm_addr reg (addr_bytes a) (gs_ext gs pre [] []) = mem_result gs pre a reg []"
  by (simp add: write_modrm_addr_extend mem_result_def)

lemma mem_result_bind:
  assumes "\<And>s. f s = Some (gs_ext s bs [] [])"
  shows "mem_result gs pre a reg imm \<bind> f = mem_result gs pre a reg (imm @ bs)"
  by (simp add: mem_result_def assms emit_simps)

lemma emitsI_mem:
  assumes "r = mem_result gs pre a reg imm"
    and "\<And>rest. x86_decode (pre @ enc_addr reg (addr_bytes a) @ imm @ rest) = Some (insn, rest)"
    and "t = length imm"
  shows "emits gs r insn (entity_of a) t"
  using assms length_enc_addr_rip[of a reg] unfolding emits_def mem_result_def
  by (cases "entity_of a") (auto intro!: exI[of _ "pre @ enc_addr reg (addr_bytes a) @ imm"])

lemma emitsI_reg:
  assumes "r = Some (gs_ext gs bs [] [])" "\<And>rest. x86_decode (bs @ rest) = Some (insn, rest)"
  shows "emits gs r insn None t"
  using assms unfolding emits_def by auto

lemma take_bit_scast_down:
  "take_bit 8 (scast (ucast v :: u8)) = (take_bit 8 (scast v) :: u64)"
  "take_bit 16 (scast (ucast v :: u16)) = (take_bit 16 (scast v) :: u64)" for v :: u32
  by (auto intro!: bit_word_eqI simp: bit_simps)

lemma take_bit_scast_u8: "take_bit 8 (scast b) = (ucast b :: u64)" for b :: u8
proof (rule bit_word_eqI)
  fix n show "bit (take_bit 8 (scast b) :: u64) n \<longleftrightarrow> bit (ucast b :: u64) n" if "n < LENGTH(64)"
    by (cases "n < 8") (auto simp: bit_simps min_absorb2 dest: bit_imp_le_length)
qed

lemma le16_bytes_u32: "le16 (ucast v) (ucast (drop_bit 8 v)) = (ucast v :: u16)" for v :: u32
  by (rule bit_word_eqI) (auto simp: le16_def bit_simps)

lemma wf_size_cases: "wf_size sz \<Longrightarrow> (sz = 1 \<Longrightarrow> P) \<Longrightarrow> (sz = 2 \<Longrightarrow> P) \<Longrightarrow> (sz = 4 \<Longrightarrow> P) \<Longrightarrow> (sz = 8 \<Longrightarrow> P) \<Longrightarrow> P"
  by (auto simp: wf_size_def)

lemma dec_modrm_direct:
  "dec_modrm c (X64_modrm_byte 3 reg rm # t) =
     Some (ext_num (cR c) (reg AND 7), RM_Reg (ext_num (cB c) (rm AND 7)), t)"
  by (simp add: dec_modrm_def modrm_mod modrm_reg modrm_rm)

text \<open>The immediate field of the \<open>ri\<close> and \<open>mi\<close> forms.\<close>

definition imm_field :: "u8 \<Rightarrow> u32 \<Rightarrow> u8 list" where
  "imm_field sz imm = (if imm_is_byte imm then [ucast imm] else le_bytes (immz_len sz) imm)"

lemma length_imm_field: "length (imm_field sz imm) = (if imm_is_byte imm then 1 else immz_len sz)"
  by (simp add: imm_field_def)

lemma write_immz:
  "wf_size sz \<Longrightarrow> X64_write_imm_bytes (ucast (imm :: u32)) (if sz = 8 then 4 else sz) gs =
     Some (gs_ext gs (le_bytes (immz_len sz) imm) [] [])"
  by (erule wf_size_cases) (simp_all add: write_imm_extend le_bytes_ucast immz_len_def del: le_bytes_simps)

lemma imm_is_byte_scast: "imm_is_byte imm \<Longrightarrow> (scast (ucast imm :: u8) :: u64) = scast imm"
  by (simp add: imm_is_byte_def scast_ucast_small)

lemma read_imm8_byte:
  "imm_is_byte imm \<Longrightarrow> read_imm8 n (ucast imm # rest) = Some (Imm (take_bit (8 * n) (scast imm)), rest)"
  by (simp add: imm_is_byte_def scast_ucast_small)

lemma read_immz_le:
  "wf_size sz \<Longrightarrow> read_immz (unat sz) (le_bytes (immz_len sz) imm @ rest) = Some (Imm (imm_val sz imm), rest)"
  by (erule wf_size_cases)
    (simp_all add: read_immz_def immz_len_def imm_val_def read_imm32_def take_bit_scast_down emit_simps le16_bytes_u32)

lemma read_imm_field:
  "imm_is_byte imm \<Longrightarrow> read_imm8 1 (imm_field 1 imm @ rest) = Some (Imm (imm_val 1 imm), rest)"
  "imm_is_byte imm \<Longrightarrow> read_imm8 2 (imm_field 2 imm @ rest) = Some (Imm (imm_val 2 imm), rest)"
  "imm_is_byte imm \<Longrightarrow> read_imm8 4 (imm_field 4 imm @ rest) = Some (Imm (imm_val 4 imm), rest)"
  "imm_is_byte imm \<Longrightarrow> read_imm8 8 (imm_field 8 imm @ rest) = Some (Imm (imm_val 8 imm), rest)"
  "\<not> imm_is_byte imm \<Longrightarrow> read_imm8 1 (imm_field 1 imm @ rest) = Some (Imm (imm_val 1 imm), rest)"
  "\<not> imm_is_byte imm \<Longrightarrow> read_immz 2 (imm_field 2 imm @ rest) = Some (Imm (imm_val 2 imm), rest)"
  "\<not> imm_is_byte imm \<Longrightarrow> read_immz 4 (imm_field 4 imm @ rest) = Some (Imm (imm_val 4 imm), rest)"
  "\<not> imm_is_byte imm \<Longrightarrow> read_immz 8 (imm_field 8 imm @ rest) = Some (Imm (imm_val 8 imm), rest)"
  using read_immz_le[of 1 imm rest] read_immz_le[of 2 imm rest]
    read_immz_le[of 4 imm rest] read_immz_le[of 8 imm rest]
  by (auto simp: imm_field_def imm_val_def wf_size_def read_immz_def[of "Suc 0"] imm_is_byte_scast simp del: le_bytes_simps)

lemmas read_imm_field_Suc = read_imm_field[unfolded One_nat_def]

lemma bin_ext: "alu_mnemonics ! (ext_num False (bin_opcode_ext op AND 7) mod 8) = bin_mnemonic op"
  by (cases op) (simp_all add: ext_num_def alu_mnemonics_def)

lemmas dec_simps = x86_decode_def dec_ctx_66 dec_ctx_flt plain_opc_def dec_body_def dec_modrm_direct dec_modrm_addr
  drop_bit_reg_val gpr_reg opsize_def wf_reg_def wf_freg_def

text \<open>The writers normalise to the prefix bytes, the opcode and the operand bytes.\<close>

lemma rex_folds:
  "push_if p 0x66 gs = gs_ext gs (pfx66 p) [] []"
  "push_if q (X64_rex_prefix w r x b) gs = gs_ext gs (rexl q w r x b False) [] []"
  "push_if q (X64_rex_nosib w reg rm) gs = gs_ext gs (rexl q w (drop_bit 3 reg) 0 (drop_bit 3 rm) False) [] []"
  "push_if q (X64_rex_opcode_reg w reg) gs = gs_ext gs (rexl q w 0 0 (drop_bit 3 reg) False) [] []"
  "(if q then push_byte (X64_rex_prefix w r x b) gs else push_if h (X64_rex_prefix 0 0 0 0) gs) =
     gs_ext gs (rexl q w r x b h) [] []"
  "(if q then push_byte (X64_rex_nosib w reg rm) gs else push_if h (X64_rex_prefix 0 0 0 0) gs) =
     gs_ext gs (rexl q w (drop_bit 3 reg) 0 (drop_bit 3 rm) h) [] []"
  "(if q then push_byte (X64_rex_opcode_reg w reg) gs else push_if h (X64_rex_prefix 0 0 0 0) gs) =
     gs_ext gs (rexl q w 0 0 (drop_bit 3 reg) h) [] []"
  by (simp_all add: emit_simps pfx66_def rexl_def X64_rex_nosib_def X64_rex_opcode_reg_def)

lemma mem_result_gs_ext: "mem_result (gs_ext gs bs [] []) pre a reg imm = mem_result gs (bs @ pre) a reg imm"
  by (simp add: mem_result_def emit_simps)

lemmas writer_simps = Let_def rex_folds push_byte_extend gs_ext_gs_ext mod_defs
  get_addr_bytes_wf write_modrm_addr_result mem_result_gs_ext

section \<open>ADD, SUB, AND, OR, XOR, CMP\<close>

lemma instr_rr_eq:
  "X64_write_elf_binary_instr_rr o1 o2 sz dst src gs =
    Some (gs_ext gs (pfx66 (sz = 2) @ rexl (sz = 8 \<or> x64_reg_val src > 7 \<or> x64_reg_val dst > 7) (of_bool (sz = 8))
        (drop_bit 3 (x64_reg_val src)) 0 (drop_bit 3 (x64_reg_val dst))
        (sz = 1 \<and> (X64_reg_aliased_8h dst \<or> X64_reg_aliased_8h src)) @
      (if sz = 1 then o1 else o2) # [X64_modrm_byte 3 (x64_reg_val src) (x64_reg_val dst)]) [] [])"
  by (simp add: X64_write_elf_binary_instr_rr_def writer_simps)

lemma instr_rm_eq:
  "wf_addr src \<Longrightarrow> X64_write_elf_binary_instr_rm o1 o2 sz dst src gs =
    mem_result gs (pfx66 (sz = 2) @ rexl (x64_reg_val dst > 7 \<or> rex_b (addr_bytes src) \<or> rex_x (addr_bytes src) \<or> sz = 8)
        (of_bool (sz = 8)) (drop_bit 3 (x64_reg_val dst)) (of_bool (rex_x (addr_bytes src))) (of_bool (rex_b (addr_bytes src)))
        (sz = 1 \<and> X64_reg_aliased_8h dst) @ [if sz = 1 then o1 else o2]) src (x64_reg_val dst) []"
  by (simp add: X64_write_elf_binary_instr_rm_def writer_simps disj_ac)

lemma instr_mr_eq:
  "wf_addr dst \<Longrightarrow> X64_write_elf_binary_instr_mr o1 o2 sz dst src gs =
    mem_result gs (pfx66 (sz = 2) @ rexl (x64_reg_val src > 7 \<or> rex_b (addr_bytes dst) \<or> rex_x (addr_bytes dst) \<or> sz = 8)
        (of_bool (sz = 8)) (drop_bit 3 (x64_reg_val src)) (of_bool (rex_x (addr_bytes dst))) (of_bool (rex_b (addr_bytes dst)))
        (sz = 1 \<and> X64_reg_aliased_8h src) @ [if sz = 1 then o1 else o2]) dst (x64_reg_val src) []"
  by (simp add: X64_write_elf_binary_instr_mr_def writer_simps disj_ac)

lemma instr_ri_eq:
  "wf_size sz \<Longrightarrow> X64_write_elf_binary_instr_ri o1 oi8 oi ext sz dst imm gs =
    Some (gs_ext gs (pfx66 (sz = 2) @ rexl (sz = 8 \<or> x64_reg_val dst > 7) (of_bool (sz = 8)) 0 0 (drop_bit 3 (x64_reg_val dst))
        (sz = 1 \<and> X64_reg_aliased_8h dst) @
      (if sz = 1 then o1 else if imm_is_byte imm then oi8 else oi) #
      X64_modrm_byte 3 ext (x64_reg_val dst) # imm_field sz imm) [] [])"
  by (simp add: X64_write_elf_binary_instr_ri_def writer_simps write_immz imm_field_def flip: imm_is_byte_def)

lemma instr_mi_eq:
  assumes "wf_size sz" "wf_addr dst"
  shows "X64_write_elf_binary_instr_mi o1 oi8 oi ext sz dst imm gs =
    mem_result gs (pfx66 (sz = 2) @ rexl (sz = 8 \<or> rex_b (addr_bytes dst) \<or> rex_x (addr_bytes dst))
        (of_bool (sz = 8)) 0 (of_bool (rex_x (addr_bytes dst))) (of_bool (rex_b (addr_bytes dst))) False @
      [if sz = 1 then o1 else if imm_is_byte imm then oi8 else oi]) dst ext (imm_field sz imm)"
proof -
  have "(if imm_is_byte imm then Some (push_byte (ucast imm) s)
         else X64_write_imm_bytes (ucast imm) (if sz = 8 then 4 else sz) s) = Some (gs_ext s (imm_field sz imm) [] [])" for s
    using assms(1) by (simp add: emit_simps write_immz imm_field_def)
  then show ?thesis using assms
    by (simp add: X64_write_elf_binary_instr_mi_def writer_simps mem_result_bind[where bs = "imm_field sz imm"]
        flip: imm_is_byte_def)
qed

lemma emits_bin:
  assumes "wf_bin i"
  shows "emits gs (X64_elf_gen_bin i gs) (bin_meaning i) (instr_entity (Bin i)) (trailing_imm (Bin i))"
proof (cases i)
  case (X64_BIN_RR op sz d s)
  show ?thesis unfolding X64_BIN_RR X64_elf_gen_bin.simps bin_meaning.simps instr_entity.simps
    by (rule emitsI_reg[OF instr_rr_eq], insert assms X64_BIN_RR, cases op)
      (auto simp: dec_simps dec_one_a_def alu_mnemonics_def elim!: wf_size_cases)
next
  case (X64_BIN_RM op sz d a)
  show ?thesis unfolding X64_BIN_RM X64_elf_gen_bin.simps bin_meaning.simps instr_entity.simps
    by (rule emitsI_mem[OF instr_rm_eq], insert assms X64_BIN_RM, simp, cases op)
      (auto simp: dec_simps dec_one_a_def alu_mnemonics_def elim!: wf_size_cases)
next
  case (X64_BIN_MR op sz a s)
  show ?thesis unfolding X64_BIN_MR X64_elf_gen_bin.simps bin_meaning.simps instr_entity.simps
    by (rule emitsI_mem[OF instr_mr_eq], insert assms X64_BIN_MR, simp, cases op)
      (auto simp: dec_simps dec_one_a_def alu_mnemonics_def elim!: wf_size_cases)
next
  case (X64_BIN_RI op sz d imm)
  show ?thesis unfolding X64_BIN_RI X64_elf_gen_bin.simps bin_meaning.simps instr_entity.simps
    by (rule emitsI_reg[OF instr_ri_eq], insert assms X64_BIN_RI, simp, cases "imm_is_byte imm")
      (auto simp: dec_simps dec_one_a_def read_imm_field_Suc bin_ext elim!: wf_size_cases)
next
  case (X64_BIN_MI op sz a imm)
  show ?thesis unfolding X64_BIN_MI X64_elf_gen_bin.simps bin_meaning.simps instr_entity.simps trailing_imm.simps
    by (rule emitsI_mem[OF instr_mi_eq], insert assms X64_BIN_MI, simp, simp, cases "imm_is_byte imm")
      (auto simp: dec_simps dec_one_a_def read_imm_field_Suc bin_ext length_imm_field elim!: wf_size_cases)
qed

section \<open>Multiplication and division\<close>

lemma rax_ext: "grp3_mnemonics ! (ext_num False (rax_opcode_ext op AND 7) mod 8) = Some (rax_mnemonic op)"
  by (cases op) (simp_all add: ext_num_def grp3_mnemonics_def)

lemma rax_r_eq:
  "X64_write_elf_binary_rax_instr_r o1 o2 ext sz src gs =
    Some (gs_ext gs (pfx66 (sz = 2) @ rexl (sz = 8 \<or> x64_reg_val src > 7) (of_bool (sz = 8)) 0 0 (drop_bit 3 (x64_reg_val src))
        (sz = 1 \<and> X64_reg_aliased_8h src) @
      (if sz = 1 then o1 else o2) # [X64_modrm_byte 3 ext (x64_reg_val src)]) [] [])"
  by (simp add: X64_write_elf_binary_rax_instr_r_def writer_simps)

lemma rax_m_eq:
  "wf_addr src \<Longrightarrow> X64_write_elf_binary_rax_instr_m o1 o2 ext sz src gs =
    mem_result gs (pfx66 (sz = 2) @ rexl (rex_b (addr_bytes src) \<or> rex_x (addr_bytes src) \<or> sz = 8)
        (of_bool (sz = 8)) 0 (of_bool (rex_x (addr_bytes src))) (of_bool (rex_b (addr_bytes src))) False @
      [if sz = 1 then o1 else o2]) src ext []"
  by (simp add: X64_write_elf_binary_rax_instr_m_def writer_simps)

text \<open>\<open>IMUL_RI\<close> uses the short form for the immediates 0 to 127 only.\<close>

lemma imul_small_imm: "imm \<le> 127 \<Longrightarrow> imm_is_byte imm" for imm :: u32
proof -
  assume "imm \<le> 127"
  then have u: "0 \<le> uint imm" "uint imm \<le> 127" by (simp_all add: word_le_def)
  have "-2147483648 \<le> uint imm" using u(1) by linarith
  then have "sint imm = uint imm" unfolding sint_uint
    using u(2) by (intro signed_take_bit_int_eq_self) simp_all
  moreover have "-128 \<le> uint imm" using u(1) by linarith
  ultimately show ?thesis using u(2) by (simp add: imm_is_byte_def)
qed

lemma imul_imm_test: "imm \<le> 127 \<and> sint imm \<ge> -128 \<longleftrightarrow> imm \<le> 127" for imm :: u32
  using imul_small_imm[of imm] by (auto simp: imm_is_byte_def)

definition imul_field :: "u8 \<Rightarrow> u32 \<Rightarrow> u8 list" where
  "imul_field sz imm = (if imm \<le> 127 then [ucast imm] else le_bytes (immz_len sz) imm)"

lemma imul_ri_eq:
  "wf_size sz \<Longrightarrow> sz \<noteq> 1 \<Longrightarrow> X64_elf_gen_mul (X64_IMUL_RI sz d imm) gs =
    Some (gs_ext gs (pfx66 (sz = 2) @ rexl (sz = 8 \<or> x64_reg_val d > 7) (of_bool (sz = 8)) (drop_bit 3 (x64_reg_val d)) 0
        (drop_bit 3 (x64_reg_val d)) False @
      (if imm \<le> 127 then 0x6B else 0x69) # X64_modrm_byte 3 (x64_reg_val d) (x64_reg_val d) # imul_field sz imm) [] [])"
  by (simp add: writer_simps write_immz imul_field_def imul_imm_test del: X64_elf_gen_mul.simps(2-))

lemma read_imul_field:
  "imm \<le> 127 \<Longrightarrow> read_imm8 2 (imul_field 2 imm @ rest) = Some (Imm (imm_val 2 imm), rest)"
  "imm \<le> 127 \<Longrightarrow> read_imm8 4 (imul_field 4 imm @ rest) = Some (Imm (imm_val 4 imm), rest)"
  "imm \<le> 127 \<Longrightarrow> read_imm8 8 (imul_field 8 imm @ rest) = Some (Imm (imm_val 8 imm), rest)"
  "\<not> imm \<le> 127 \<Longrightarrow> read_immz 2 (imul_field 2 imm @ rest) = Some (Imm (imm_val 2 imm), rest)"
  "\<not> imm \<le> 127 \<Longrightarrow> read_immz 4 (imul_field 4 imm @ rest) = Some (Imm (imm_val 4 imm), rest)"
  "\<not> imm \<le> 127 \<Longrightarrow> read_immz 8 (imul_field 8 imm @ rest) = Some (Imm (imm_val 8 imm), rest)"
  using read_immz_le[of 2 imm rest] read_immz_le[of 4 imm rest] read_immz_le[of 8 imm rest]
  by (auto simp: imul_field_def imm_val_def wf_size_def imm_is_byte_scast imul_small_imm simp del: le_bytes_simps)

lemma emits_mul:
  assumes "wf_mul i"
  shows "emits gs (X64_elf_gen_mul i gs) (mul_meaning i) (instr_entity (Mul i)) (trailing_imm (Mul i))"
proof (cases i)
  case (X64_IMUL_RR sz d s)
  have eq: "X64_elf_gen_mul i gs = Some (gs_ext gs (pfx66 (sz = 2) @
      rexl (sz = 8 \<or> x64_reg_val s > 7 \<or> x64_reg_val d > 7) (of_bool (sz = 8)) (drop_bit 3 (x64_reg_val d)) 0
        (drop_bit 3 (x64_reg_val s)) False @ 0x0F # [0xAF, X64_modrm_byte 3 (x64_reg_val d) (x64_reg_val s)]) [] [])"
    using assms X64_IMUL_RR by (auto simp: writer_simps elim: wf_size_cases)
  show ?thesis using assms unfolding X64_IMUL_RR mul_meaning.simps instr_entity.simps
    by (intro emitsI_reg[OF eq[unfolded X64_IMUL_RR]])
      (auto simp: dec_simps dec_two_def elim!: wf_size_cases)
next
  case (X64_IMUL_RM sz d a)
  have eq: "X64_elf_gen_mul i gs = mem_result gs (pfx66 (sz = 2) @
      rexl (x64_reg_val d > 7 \<or> rex_b (addr_bytes a) \<or> rex_x (addr_bytes a) \<or> sz = 8) (of_bool (sz = 8)) (drop_bit 3 (x64_reg_val d))
        (of_bool (rex_x (addr_bytes a))) (of_bool (rex_b (addr_bytes a))) False @ 0x0F # [0xAF]) a (x64_reg_val d) []"
    using assms X64_IMUL_RM by (simp add: writer_simps disj_ac)
  show ?thesis using assms unfolding X64_IMUL_RM mul_meaning.simps instr_entity.simps
    by (intro emitsI_mem[OF eq[unfolded X64_IMUL_RM]])
      (auto simp: dec_simps dec_two_def elim!: wf_size_cases)
next
  case (X64_IMUL_RI sz d imm)
  show ?thesis unfolding X64_IMUL_RI mul_meaning.simps instr_entity.simps
    by (rule emitsI_reg[OF imul_ri_eq], insert assms X64_IMUL_RI, simp, simp, cases "imm \<le> 127")
      (auto simp: dec_simps dec_one_a_def read_imul_field elim!: wf_size_cases)
next
  case (X64_RAX_R op sz s)
  show ?thesis unfolding X64_RAX_R X64_elf_gen_mul.simps mul_meaning.simps instr_entity.simps
    by (rule emitsI_reg[OF rax_r_eq], insert assms X64_RAX_R)
      (auto simp: dec_simps dec_one_a_def dec_one_b_def rax_ext elim!: wf_size_cases)
next
  case (X64_RAX_M op sz a)
  show ?thesis unfolding X64_RAX_M X64_elf_gen_mul.simps mul_meaning.simps instr_entity.simps
    by (rule emitsI_mem[OF rax_m_eq], insert assms X64_RAX_M, simp)
      (auto simp: dec_simps dec_one_a_def dec_one_b_def rax_ext elim!: wf_size_cases)
next
  case X64_CWD
  show ?thesis unfolding X64_CWD instr_entity.simps
    by (rule emitsI_reg[where bs = "[0x66, 0x99]"])
      (simp_all add: writer_simps x86_decode_def dec_ctx_def dec_body_def dec_one_a_def dec_one_b_def)
next
  case X64_CDQ
  show ?thesis unfolding X64_CDQ instr_entity.simps
    by (rule emitsI_reg[where bs = "[0x99]"])
      (simp_all add: writer_simps x86_decode_def dec_ctx_def dec_body_def dec_one_a_def dec_one_b_def)
next
  case X64_CQO
  show ?thesis unfolding X64_CQO instr_entity.simps
    by (rule emitsI_reg[where bs = "[0x48, 0x99]"])
      (simp_all add: writer_simps x86_decode_def dec_ctx_def dec_body_def dec_one_a_def dec_one_b_def
        X64_rex_nosib_def X64_rex_prefix_def)
qed (use assms in simp_all)

section \<open>Shifts, NEG, NOT\<close>

lemma shift_ext: "shift_mnemonics ! (ext_num False (shift_opcode_ext op AND 7) mod 8) = shift_mnemonic op"
  by (cases op) (simp_all add: ext_num_def shift_mnemonics_def)

lemma un_ext: "grp3_mnemonics ! (ext_num False (un_opcode_ext op AND 7) mod 8) = Some (un_mnemonic op)"
  by (cases op) (simp_all add: ext_num_def grp3_mnemonics_def)

lemma shift_ri_eq:
  "X64_write_elf_shift_ri ext sz dst imm gs =
    Some (gs_ext gs (pfx66 (sz = 2) @ rexl (sz = 8 \<or> x64_reg_val dst > 7) (of_bool (sz = 8)) 0 0 (drop_bit 3 (x64_reg_val dst))
        (sz = 1 \<and> X64_reg_aliased_8h dst) @
      (if imm = 1 then (if sz = 1 then 0xD0 else 0xD1) else (if sz = 1 then 0xC0 else 0xC1)) #
      X64_modrm_byte 3 ext (x64_reg_val dst) # (if imm = 1 then [] else [imm])) [] [])"
  by (simp add: X64_write_elf_shift_ri_def writer_simps)

lemma shift_r_eq:
  "X64_write_elf_shift_r ext sz dst gs =
    Some (gs_ext gs (pfx66 (sz = 2) @ rexl (sz = 8 \<or> x64_reg_val dst > 7) (of_bool (sz = 8)) 0 0 (drop_bit 3 (x64_reg_val dst))
        (sz = 1 \<and> X64_reg_aliased_8h dst) @
      (if sz = 1 then 0xD2 else 0xD3) # [X64_modrm_byte 3 ext (x64_reg_val dst)]) [] [])"
  by (simp add: X64_write_elf_shift_r_def writer_simps)

lemma unary_r_eq:
  "X64_write_elf_unary_neg_r ext sz dst gs =
    Some (gs_ext gs (pfx66 (sz = 2) @ rexl (sz = 8 \<or> x64_reg_val dst > 7) (of_bool (sz = 8)) 0 0 (drop_bit 3 (x64_reg_val dst))
        (sz = 1 \<and> X64_reg_aliased_8h dst) @
      (if sz = 1 then 0xF6 else 0xF7) # [X64_modrm_byte 3 ext (x64_reg_val dst)]) [] [])"
  by (simp add: X64_write_elf_unary_neg_r_def writer_simps)

abbreviation pre_m :: "u8 \<Rightarrow> X64_SIBD_Addr \<Rightarrow> u8 list" where
  "pre_m sz a \<equiv> pfx66 (sz = 2) @ rexl (sz = 8 \<or> rex_b (addr_bytes a) \<or> rex_x (addr_bytes a)) (of_bool (sz = 8)) 0
     (of_bool (rex_x (addr_bytes a))) (of_bool (rex_b (addr_bytes a))) False"

lemma shift_m_eq:
  "wf_addr dst \<Longrightarrow> X64_write_elf_shift_m ext sz dst gs =
    mem_result gs (pre_m sz dst @ [if sz = 1 then 0xD2 else 0xD3]) dst ext []"
  by (simp add: X64_write_elf_shift_m_def writer_simps)

lemma unary_m_eq:
  "wf_addr dst \<Longrightarrow> X64_write_elf_unary_neg_m ext sz dst gs =
    mem_result gs (pre_m sz dst @ [if sz = 1 then 0xF6 else 0xF7]) dst ext []"
  by (simp add: X64_write_elf_unary_neg_m_def writer_simps)

lemma shift_mi_eq:
  assumes "wf_addr dst"
  shows "X64_write_elf_shift_mi ext sz dst imm gs =
    mem_result gs (pre_m sz dst @ [if imm = 1 then (if sz = 1 then 0xD0 else 0xD1) else (if sz = 1 then 0xC0 else 0xC1)])
      dst ext (if imm = 1 then [] else [imm])"
proof -
  have "Some (push_if (imm \<noteq> 1) imm s) = Some (gs_ext s (if imm = 1 then [] else [imm]) [] [])" for s
    by (simp add: push_if_extend)
  then show ?thesis using assms
    by (simp add: X64_write_elf_shift_mi_def writer_simps mem_result_bind[where bs = "if imm = 1 then [] else [imm]"])
qed

lemma emits_shift:
  assumes "wf_shift i"
  shows "emits gs (X64_elf_gen_shift i gs) (shift_meaning i) (instr_entity (Shift i)) (trailing_imm (Shift i))"
proof (cases i)
  case (X64_UN_R op sz d)
  show ?thesis unfolding X64_UN_R X64_elf_gen_shift.simps shift_meaning.simps instr_entity.simps
    by (rule emitsI_reg[OF unary_r_eq], insert assms X64_UN_R)
      (auto simp: dec_simps dec_one_a_def dec_one_b_def un_ext elim!: wf_size_cases)
next
  case (X64_UN_M op sz a)
  show ?thesis unfolding X64_UN_M X64_elf_gen_shift.simps shift_meaning.simps instr_entity.simps
    by (rule emitsI_mem[OF unary_m_eq], insert assms X64_UN_M, simp)
      (auto simp: dec_simps dec_one_a_def dec_one_b_def un_ext elim!: wf_size_cases)
next
  case (X64_SHIFT_RR op sz d)
  show ?thesis unfolding X64_SHIFT_RR X64_elf_gen_shift.simps shift_meaning.simps instr_entity.simps
    by (rule emitsI_reg[OF shift_r_eq], insert assms X64_SHIFT_RR)
      (auto simp: dec_simps dec_one_a_def dec_one_b_def shift_ext elim!: wf_size_cases)
next
  case (X64_SHIFT_MR op sz a)
  show ?thesis unfolding X64_SHIFT_MR X64_elf_gen_shift.simps shift_meaning.simps instr_entity.simps
    by (rule emitsI_mem[OF shift_m_eq], insert assms X64_SHIFT_MR, simp)
      (auto simp: dec_simps dec_one_a_def dec_one_b_def shift_ext elim!: wf_size_cases)
next
  case (X64_SHIFT_RI op sz d imm)
  show ?thesis unfolding X64_SHIFT_RI X64_elf_gen_shift.simps shift_meaning.simps instr_entity.simps
    by (rule emitsI_reg[OF shift_ri_eq], insert assms X64_SHIFT_RI, cases "imm = 1")
      (auto simp: dec_simps dec_one_a_def dec_one_b_def shift_ext take_bit_scast_u8 elim!: wf_size_cases)
next
  case (X64_SHIFT_MI op sz a imm)
  show ?thesis unfolding X64_SHIFT_MI X64_elf_gen_shift.simps shift_meaning.simps instr_entity.simps trailing_imm.simps
    by (rule emitsI_mem[OF shift_mi_eq], insert assms X64_SHIFT_MI, simp, cases "imm = 1")
      (auto simp: dec_simps dec_one_a_def dec_one_b_def shift_ext take_bit_scast_u8 elim!: wf_size_cases)
qed

end
