(* ===== verification/Encode_Mov.thy ===== *)
theory Encode_Mov
  imports Encode_Correct
begin

text \<open>
  Correctness of the emitter for moves, extensions, LEA, floating point, stack and control
  instructions, and the theorem on the whole of \<open>X64_elf_gen_instr\<close>.
\<close>

section \<open>Sign and zero extension\<close>

lemma movx_rr_eq:
  "X64_write_movx_rr opc ds ss d s gs =
    Some (gs_ext gs (pfx66 (ds = 2) @ rexl (ds = 8 \<or> x64_reg_val s > 7 \<or> x64_reg_val d > 7) (of_bool (ds = 8))
        (drop_bit 3 (x64_reg_val d)) 0 (drop_bit 3 (x64_reg_val s)) (ss = 1 \<and> X64_reg_aliased_8h s) @
      ucast opc # [ucast (drop_bit 8 opc), X64_modrm_byte 3 (x64_reg_val d) (x64_reg_val s)]) [] [])"
  by (simp add: X64_write_movx_rr_def writer_simps)

lemma movx_rm_eq:
  "wf_addr a \<Longrightarrow> X64_write_movx_rm opc ds d a gs =
    mem_result gs (pfx66 (ds = 2) @ rexl (ds = 8 \<or> x64_reg_val d > 7 \<or> rex_b (addr_bytes a) \<or> rex_x (addr_bytes a))
        (of_bool (ds = 8)) (drop_bit 3 (x64_reg_val d)) (of_bool (rex_x (addr_bytes a))) (of_bool (rex_b (addr_bytes a))) False @
      ucast opc # [ucast (drop_bit 8 opc)]) a (x64_reg_val d) []"
  by (simp add: X64_write_movx_rm_def writer_simps)

lemma emits_movsx_rr:
  "wf_size ds \<Longrightarrow> ds \<noteq> 1 \<Longrightarrow> ss = 1 \<or> ss = 2 \<Longrightarrow> wf_reg d \<Longrightarrow> wf_reg s \<Longrightarrow>
   emits gs (X64_write_movx_rr (if ss = 1 then 0xBE0F else 0xBF0F) ds ss d s gs)
     (Insn M_MOVSX [Gpr (unat ds) d, Gpr (unat ss) s]) None 0"
  by (rule emitsI_reg[OF movx_rr_eq]) (auto simp: dec_simps dec_two_def elim!: wf_size_cases)

lemma emits_movsx_rm:
  "wf_size ds \<Longrightarrow> ds \<noteq> 1 \<Longrightarrow> ss = 1 \<or> ss = (2 :: u8) \<Longrightarrow> wf_reg d \<Longrightarrow> wf_addr a \<Longrightarrow>
   emits gs (X64_write_movx_rm (if ss = 1 then 0xBE0F else 0xBF0F) ds d a gs)
     (Insn M_MOVSX [Gpr (unat ds) d, Mem (unat ss) (mem_of a)]) (entity_of a) 0"
  by (rule emitsI_mem[OF movx_rm_eq]) (auto simp: dec_simps dec_two_def elim!: wf_size_cases)

lemma emits_movzx_rr:
  "wf_size ds \<Longrightarrow> ds \<noteq> 1 \<Longrightarrow> ss = 1 \<or> ss = 2 \<Longrightarrow> wf_reg d \<Longrightarrow> wf_reg s \<Longrightarrow>
   emits gs (X64_write_movx_rr (if ss = 1 then 0xB60F else 0xB70F) ds ss d s gs)
     (Insn M_MOVZX [Gpr (unat ds) d, Gpr (unat ss) s]) None 0"
  by (rule emitsI_reg[OF movx_rr_eq]) (auto simp: dec_simps dec_two_def elim!: wf_size_cases)

lemma emits_movzx_rm:
  "wf_size ds \<Longrightarrow> ds \<noteq> 1 \<Longrightarrow> ss = 1 \<or> ss = (2 :: u8) \<Longrightarrow> wf_reg d \<Longrightarrow> wf_addr a \<Longrightarrow>
   emits gs (X64_write_movx_rm (if ss = 1 then 0xB60F else 0xB70F) ds d a gs)
     (Insn M_MOVZX [Gpr (unat ds) d, Mem (unat ss) (mem_of a)]) (entity_of a) 0"
  by (rule emitsI_mem[OF movx_rm_eq]) (auto simp: dec_simps dec_two_def elim!: wf_size_cases)

lemma emits_movsxd_rr:
  assumes "wf_reg d" "wf_reg s"
  shows "emits gs (X64_elf_gen_movx (X64_MOVSXD_RR 8 4 d s) gs) (Insn M_MOVSXD [Gpr 8 d, Gpr 4 s]) None 0"
proof (rule emitsI_reg[where bs = "pfx66 False @ rexl True 1 (drop_bit 3 (x64_reg_val d)) 0 (drop_bit 3 (x64_reg_val s)) False @
    0x63 # [X64_modrm_byte 3 (x64_reg_val d) (x64_reg_val s)]"])
qed (simp add: writer_simps pfx66_def rexl_def X64_rex_nosib_def, use assms in \<open>auto simp: dec_simps dec_one_a_def\<close>)

lemma emits_movsxd_rm:
  assumes "wf_reg d" "wf_addr a"
  shows "emits gs (X64_elf_gen_movx (X64_MOVSXD_RM 8 4 d a) gs) (Insn M_MOVSXD [Gpr 8 d, Mem 4 (mem_of a)]) (entity_of a) 0"
proof (rule emitsI_mem[where imm = "[]" and pre = "pfx66 False @ rexl True 1 (drop_bit 3 (x64_reg_val d))
    (of_bool (rex_x (addr_bytes a))) (of_bool (rex_b (addr_bytes a))) False @ [0x63]" and reg = "x64_reg_val d"])
qed (use assms in \<open>simp add: writer_simps pfx66_def rexl_def\<close>, use assms in \<open>auto simp: dec_simps dec_one_a_def\<close>)

section \<open>Moves and LEA\<close>

lemma mov_rr_eq:
  "\<not> (sz = 1 \<and> rh) \<Longrightarrow> X64_elf_gen_mov (X64_MOV_RR rh sz d s) gs =
    Some (gs_ext gs (pfx66 (sz = 2) @ rexl (sz = 8 \<or> x64_reg_val s > 7 \<or> x64_reg_val d > 7) (of_bool (sz = 8))
        (drop_bit 3 (x64_reg_val s)) 0 (drop_bit 3 (x64_reg_val d)) (sz = 1 \<and> X64_reg_aliased_8h s) @
      (if sz = 1 then 0x88 else 0x89) # [X64_modrm_byte 3 (x64_reg_val s) (x64_reg_val d)]) [] [])"
  by (simp add: writer_simps conj_ac del: X64_elf_gen_mov.simps(2-) cong: conj_cong)

lemma emits_mov_rr:
  assumes "wf_mov (X64_MOV_RR rh sz d s)"
  shows "emits gs (X64_elf_gen_mov (X64_MOV_RR rh sz d s) gs) (mov_meaning (X64_MOV_RR rh sz d s)) None 0"
proof (cases "sz = 1 \<and> rh")
  case False
  show ?thesis
    by (rule emitsI_reg[OF mov_rr_eq[OF False]], insert assms False)
      (auto simp: dec_simps dec_one_a_def elim!: wf_size_cases)
next
  case True
  then have "X64_elf_gen_mov (X64_MOV_RR rh sz d s) gs = Some (gs_ext gs (pfx66 False @ rexl False 0 0 0 0 False @
      0x88 # [X64_modrm_byte 3 (x64_reg_8h_val s) (x64_reg_val d)]) [] [])"
    using assms by (auto simp: has_8h_def writer_simps push_if_extend pfx66_def rexl_def X64_reg_aliased_8h_def)
  then show ?thesis
    by (rule emitsI_reg, insert assms True)
      (auto simp: has_8h_def dec_simps dec_one_a_def ext_num_def gpr_def gpr64_def all_regs_def)
qed

lemma mov_mr_eq:
  "\<not> (sz = 1 \<and> rh) \<Longrightarrow> wf_addr a \<Longrightarrow> X64_elf_gen_mov (X64_MOV_MR rh sz a s) gs =
    mem_result gs (pfx66 (sz = 2) @ rexl (x64_reg_val s > 7 \<or> rex_b (addr_bytes a) \<or> rex_x (addr_bytes a) \<or> sz = 8)
        (of_bool (sz = 8)) (drop_bit 3 (x64_reg_val s)) (of_bool (rex_x (addr_bytes a))) (of_bool (rex_b (addr_bytes a)))
        (sz = 1 \<and> X64_reg_aliased_8h s) @ [if sz = 1 then 0x88 else 0x89]) a (x64_reg_val s) []"
  by (simp add: writer_simps disj_ac conj_ac del: X64_elf_gen_mov.simps(1,3-) cong: conj_cong)

lemma emits_mov_mr:
  assumes "wf_mov (X64_MOV_MR rh sz a s)"
  shows "emits gs (X64_elf_gen_mov (X64_MOV_MR rh sz a s) gs) (mov_meaning (X64_MOV_MR rh sz a s)) (entity_of a) 0"
proof (cases "sz = 1 \<and> rh")
  case False
  show ?thesis
    by (rule emitsI_mem[OF mov_mr_eq[OF False]], insert assms False)
      (auto simp: dec_simps dec_one_a_def elim!: wf_size_cases)
next
  case True
  then have "X64_elf_gen_mov (X64_MOV_MR rh sz a s) gs = mem_result gs (pfx66 False @ rexl False 0 0
      (of_bool (rex_x (addr_bytes a))) (of_bool (rex_b (addr_bytes a))) False @ [0x88]) a (x64_reg_8h_val s) []"
    using assms by (auto simp: has_8h_def writer_simps push_if_extend pfx66_def rexl_def X64_reg_aliased_8h_def)
  then show ?thesis
    by (rule emitsI_mem, insert assms True)
      (auto simp: has_8h_def dec_simps dec_one_a_def ext_num_def gpr_def gpr64_def all_regs_def)
qed

lemma mov_rm_eq:
  "wf_addr a \<Longrightarrow> X64_elf_gen_mov (X64_MOV_RM sz d a) gs =
    mem_result gs (pfx66 (sz = 2) @ rexl (x64_reg_val d > 7 \<or> rex_b (addr_bytes a) \<or> rex_x (addr_bytes a) \<or> sz = 8)
        (of_bool (sz = 8)) (drop_bit 3 (x64_reg_val d)) (of_bool (rex_x (addr_bytes a))) (of_bool (rex_b (addr_bytes a)))
        (sz = 1 \<and> X64_reg_aliased_8h d) @ [if sz = 1 then 0x8A else 0x8B]) a (x64_reg_val d) []"
  by (simp add: writer_simps disj_ac)

lemma mov_mi_eq:
  assumes "wf_size sz" "wf_addr a"
  shows "X64_elf_gen_mov (X64_MOV_MI sz a imm) gs =
    mem_result gs (pre_m sz a @ [if sz = 1 then 0xC6 else 0xC7]) a 0 (le_bytes (immz_len sz) imm)"
  using assms mem_result_bind[where f = "X64_write_imm_bytes (ucast imm) (if sz = 8 then 4 else sz)", OF write_immz[OF assms(1)]]
  by (simp add: writer_simps)

lemma read_immz_num:
  "read_immz (Suc 0) (le_bytes (immz_len 1) imm @ rest) = Some (Imm (imm_val 1 imm), rest)"
  "read_immz 2 (le_bytes (immz_len 2) imm @ rest) = Some (Imm (imm_val 2 imm), rest)"
  "read_immz 4 (le_bytes (immz_len 4) imm @ rest) = Some (Imm (imm_val 4 imm), rest)"
  "read_immz 8 (le_bytes (immz_len 8) imm @ rest) = Some (Imm (imm_val 8 imm), rest)"
  using read_immz_le[of 1 imm rest] read_immz_le[of 2 imm rest] read_immz_le[of 4 imm rest] read_immz_le[of 8 imm rest]
  by (auto simp: wf_size_def simp del: le_bytes_simps)

lemma emits_mov_mi:
  "wf_size sz \<Longrightarrow> wf_addr a \<Longrightarrow>
   emits gs (X64_elf_gen_mov (X64_MOV_MI sz a imm) gs) (mov_meaning (X64_MOV_MI sz a imm)) (entity_of a) (immz_len sz)"
  by (rule emitsI_mem[OF mov_mi_eq])
    (auto simp: dec_simps dec_one_a_def read_immz_num ext_num_def simp del: le_bytes_simps elim!: wf_size_cases)

lemma emits_mov_rm:
  "wf_size sz \<Longrightarrow> wf_reg d \<Longrightarrow> wf_addr a \<Longrightarrow>
   emits gs (X64_elf_gen_mov (X64_MOV_RM sz d a) gs) (mov_meaning (X64_MOV_RM sz d a)) (entity_of a) 0"
  by (rule emitsI_mem[OF mov_rm_eq]) (auto simp: dec_simps dec_one_a_def elim!: wf_size_cases)

lemma emits_lea:
  assumes "wf_reg d" "wf_addr a"
  shows "emits gs (X64_elf_gen_mov (X64_LEA d a) gs) (mov_meaning (X64_LEA d a)) (entity_of a) 0"
proof -
  have "X64_elf_gen_mov (X64_LEA d a) gs = mem_result gs (pfx66 False @ rexl True 1 (drop_bit 3 (x64_reg_val d))
      (of_bool (rex_x (addr_bytes a))) (of_bool (rex_b (addr_bytes a))) False @ [0x8D]) a (x64_reg_val d) []"
    using assms by (simp add: writer_simps mem_result_def pfx66_def rexl_def)
  then show ?thesis
    by (rule emitsI_mem) (use assms in \<open>auto simp: dec_simps dec_one_a_def\<close>)
qed

section \<open>Moves of constants\<close>

lemma low3_opcodes:
  "plain_opc (0x50 + (x64_reg_val r AND 7))" "plain_opc (0x58 + (x64_reg_val r AND 7))"
  "plain_opc (0xB0 + (x64_reg_val r AND 7))" "plain_opc (0xB8 + (x64_reg_val r AND 7))"
  "0x50 + (x64_reg_val r AND 7) \<noteq> 0x0F" "0x58 + (x64_reg_val r AND 7) \<noteq> 0x0F"
  "0xB0 + (x64_reg_val r AND 7) \<noteq> 0x0F" "0xB8 + (x64_reg_val r AND 7) \<noteq> 0x0F"
  by (cases r; simp add: plain_opc_def)+

lemma low3_fields:
  "(0x50 + (x64_reg_val r AND 7)) AND 0xF8 = 0x50" "(0x58 + (x64_reg_val r AND 7)) AND 0xF8 = 0x58"
  "(0xB0 + (x64_reg_val r AND 7)) AND 0xF8 = 0xB0" "(0xB8 + (x64_reg_val r AND 7)) AND 0xF8 = 0xB8"
  "(0x50 + (x64_reg_val r AND 7)) AND 7 = x64_reg_val r AND 7" "(0x58 + (x64_reg_val r AND 7)) AND 7 = x64_reg_val r AND 7"
  "(0xB0 + (x64_reg_val r AND 7)) AND 7 = x64_reg_val r AND 7" "(0xB8 + (x64_reg_val r AND 7)) AND 7 = x64_reg_val r AND 7"
  by (cases r; simp)+

lemma low3_dec_one_a:
  "dec_one_a c (0x50 + (x64_reg_val r AND 7)) bs = None" "dec_one_a c (0x58 + (x64_reg_val r AND 7)) bs = None"
  "dec_one_a c (0xB0 + (x64_reg_val r AND 7)) bs = None" "dec_one_a c (0xB8 + (x64_reg_val r AND 7)) bs = None"
  by (cases r; simp add: dec_one_a_def)+

lemma low3_dec_one_b:
  "dec_one_b c (0x50 + (x64_reg_val r AND 7)) bs =
     Some (Insn M_PUSH [Gpr 8 (gpr64 (ext_num (cB c) (x64_reg_val r AND 7)))], bs)"
  "dec_one_b c (0x58 + (x64_reg_val r AND 7)) bs =
     Some (Insn M_POP [Gpr 8 (gpr64 (ext_num (cB c) (x64_reg_val r AND 7)))], bs)"
  "dec_one_b c (0xB0 + (x64_reg_val r AND 7)) bs =
     read_immv 1 bs \<bind> (\<lambda>(i, bs). Some (Insn M_MOV [gpr c 1 (ext_num (cB c) (x64_reg_val r AND 7)), i], bs))"
  "dec_one_b c (0xB8 + (x64_reg_val r AND 7)) bs =
     read_immv (opsize c False) bs \<bind>
       (\<lambda>(i, bs). Some (Insn M_MOV [gpr c (opsize c False) (ext_num (cB c) (x64_reg_val r AND 7)), i], bs))"
  by (simp_all add: dec_one_b_def low3_fields Let_def)

lemma scast_ucast_32:
  fixes v :: u64
  assumes "- 2147483648 \<le> sint v" "sint v \<le> 2147483647"
  shows "(scast (ucast v :: u32) :: u64) = v"
proof -
  have "sint (ucast v :: u32) = signed_take_bit 31 (sint v)"
    by (simp add: sint_uint signed_take_bit_signed_take_bit unsigned_ucast_eq unsigned_take_bit_eq signed_take_bit_take_bit)
  also have "\<dots> = sint v" using assms by (intro signed_take_bit_int_eq_self) simp_all
  finally show ?thesis by (metis of_int_sint scast_id)
qed

lemma take_bit_scast_down64:
  "take_bit 8 (scast (ucast v :: u8)) = (take_bit 8 v :: u64)"
  "take_bit 16 (scast (ucast v :: u16)) = (take_bit 16 v :: u64)"
  "take_bit 32 (scast (ucast v :: u32)) = (take_bit 32 v :: u64)" for v :: u64
  by (auto intro!: bit_word_eqI simp: bit_simps)

lemma le_down64: "le16 (ucast v) (ucast (drop_bit 8 v)) = (ucast v :: u16)"
  "le32 (ucast v) (ucast (drop_bit 8 v)) (ucast (drop_bit 16 v)) (ucast (drop_bit 24 v)) = (ucast v :: u32)" for v :: u64
proof -
  show "le16 (ucast v) (ucast (drop_bit 8 v)) = (ucast v :: u16)"
    by (rule bit_word_eqI) (auto simp: le16_def bit_simps)
  have "(ucast (drop_bit k v) :: u8) = ucast (drop_bit k (ucast v :: u32))" if "k \<le> 24" for k
    using that by (auto intro!: bit_word_eqI simp: bit_simps)
  from this[of 0] this[of 8] this[of 16] this[of 24]
  show "le32 (ucast v) (ucast (drop_bit 8 v)) (ucast (drop_bit 16 v)) (ucast (drop_bit 24 v)) = (ucast v :: u32)"
    using le32_bytes[of "ucast v"] by simp
qed

lemma read_immv_le:
  "read_immv (Suc 0) (le_bytes (Suc 0) imm @ rest) = Some (Imm (take_bit 8 imm), rest)"
  "read_immv 2 (le_bytes 2 imm @ rest) = Some (Imm (take_bit 16 imm), rest)"
  "read_immv 4 (le_bytes 4 imm @ rest) = Some (Imm (take_bit 32 imm), rest)"
  "read_immv 8 (le_bytes 8 imm @ rest) = Some (Imm (take_bit 64 imm), rest)" for imm :: u64
  by (simp_all add: read_immv_def read_immz_def read_imm32_def take_bit_scast_down64 le_down64 le64_bytes take_bit_word_eq_self)

lemma take_bit_32_small:
  fixes v :: u64
  assumes "0 \<le> sint v" "sint v \<le> 2147483647"
  shows "take_bit 32 v = v"
proof -
  have "uint v = sint v" using assms by (simp add: uint_sint take_bit_int_eq_self)
  then have "uint (take_bit 32 v) = uint v"
    using assms by (simp add: unsigned_take_bit_eq take_bit_int_eq_self)
  then show ?thesis by (rule unsigned_word_eqI)
qed

end
