(* ===== verification/Encode_Flt.thy ===== *)
theory Encode_Flt
  imports Encode_Mov
begin

text \<open>
  Correctness of the emitter for constant moves, floating point, stack and control instructions, and
  the theorem on the whole of \<open>X64_elf_gen_instr\<close>.
\<close>

section \<open>MOV with a constant\<close>

lemma mov_ri_eq32:
  "0 \<le> sint imm \<Longrightarrow> sint imm \<le> 2147483647 \<Longrightarrow> X64_elf_gen_mov (X64_MOV_RI 8 d imm) gs =
    Some (gs_ext gs (pfx66 False @ rexl (x64_reg_val d > 7) 0 0 0 (drop_bit 3 (x64_reg_val d)) False @
      (0xB8 + (x64_reg_val d AND 7)) # le_bytes 4 imm) [] [])"
  by (simp add: writer_simps write_imm_extend pfx66_def)

lemma mov_ri_eqC7:
  "\<not> (0 \<le> sint imm \<and> sint imm \<le> 2147483647) \<Longrightarrow> -2147483648 \<le> sint imm \<Longrightarrow> sint imm \<le> 2147483647 \<Longrightarrow>
   X64_elf_gen_mov (X64_MOV_RI 8 d imm) gs =
    Some (gs_ext gs (pfx66 False @ rexl True 1 0 0 (drop_bit 3 (x64_reg_val d)) False @
      0xC7 # X64_modrm_byte 3 0 (x64_reg_val d) # le_bytes 4 imm) [] [])"
  by (simp add: writer_simps write_imm_extend pfx66_def rexl_def X64_rex_nosib_def)

lemma mov_ri_eq:
  "wf_size sz \<Longrightarrow> \<not> (sz = 8 \<and> -2147483648 \<le> sint imm \<and> sint imm \<le> 2147483647) \<Longrightarrow>
   X64_elf_gen_mov (X64_MOV_RI sz d imm) gs =
    Some (gs_ext gs (pfx66 (sz = 2) @ rexl (sz = 8 \<or> x64_reg_val d > 7) (of_bool (sz = 8)) 0 0 (drop_bit 3 (x64_reg_val d))
        (sz = 1 \<and> X64_reg_aliased_8h d) @
      ((if sz = 1 then 0xB0 else 0xB8) + (x64_reg_val d AND 7)) # le_bytes (unat sz) imm) [] [])"
  by (auto simp: writer_simps write_imm_extend wf_size_def simp del: le_bytes_simps)

lemma emits_mov_ri:
  assumes "wf_size sz" "wf_reg d"
  shows "emits gs (X64_elf_gen_mov (X64_MOV_RI sz d imm) gs) (mov_meaning (X64_MOV_RI sz d imm)) None 0"
proof (cases "sz = 8 \<and> -2147483648 \<le> sint imm \<and> sint imm \<le> 2147483647")
  case False
  show ?thesis
    by (rule emitsI_reg[OF mov_ri_eq[OF assms(1) False]], insert assms False)
      (auto simp: dec_simps low3_opcodes[unfolded plain_opc_def] low3_dec_one_a low3_dec_one_b read_immv_le
        simp del: le_bytes_simps elim!: wf_size_cases)
next
  case True
  show ?thesis
  proof (cases "0 \<le> sint imm")
    case nonneg: True
    have v: "take_bit 32 (scast (ucast imm :: u32)) = imm"
      using take_bit_32_small[OF nonneg] True by (simp add: take_bit_scast_down64)
    have "emits gs (X64_elf_gen_mov (X64_MOV_RI 8 d imm) gs) (Insn M_MOV [Gpr 4 d, Imm imm]) None 0"
      by (rule emitsI_reg[OF mov_ri_eq32], insert assms nonneg True)
        (auto simp: dec_simps low3_opcodes[unfolded plain_opc_def] low3_dec_one_a low3_dec_one_b
          read_immv_def read_immz_def read_imm32_def le_down64 v)
    then show ?thesis using True nonneg by simp
  next
    case neg: False
    have v: "scast (ucast imm :: u32) = imm" using scast_ucast_32 True by blast
    have "emits gs (X64_elf_gen_mov (X64_MOV_RI 8 d imm) gs) (Insn M_MOV [Gpr 8 d, Imm (take_bit 64 imm)]) None 0"
      by (rule emitsI_reg[OF mov_ri_eqC7], insert assms neg True)
        (auto simp: dec_simps dec_one_a_def ext_num_def[of False 0] read_immz_def read_imm32_def le_down64 v)
    then show ?thesis using True neg by simp
  qed
qed

lemma emits_mov:
  assumes "wf_mov i"
  shows "emits gs (X64_elf_gen_mov i gs) (mov_meaning i) (instr_entity (Mov i)) (trailing_imm (Mov i))"
proof (cases i)
  case X64_MOV_RR then show ?thesis using assms emits_mov_rr by simp
next
  case X64_MOV_RM then show ?thesis using assms emits_mov_rm by simp
next
  case X64_MOV_MR then show ?thesis using assms emits_mov_mr by simp
next
  case X64_MOV_RI then show ?thesis using assms emits_mov_ri by simp
next
  case X64_MOV_MI then show ?thesis using assms emits_mov_mi by simp
next
  case X64_MOVSX_RR then show ?thesis using assms emits_movsx_rr by (simp del: One_nat_def)
next
  case X64_MOVSX_RM then show ?thesis using assms emits_movsx_rm by (simp del: One_nat_def)
next
  case X64_MOVSXD_RR then show ?thesis using assms emits_movsxd_rr by (simp del: X64_elf_gen_movx.simps)
next
  case X64_MOVSXD_RM then show ?thesis using assms emits_movsxd_rm by (simp del: X64_elf_gen_movx.simps)
next
  case X64_MOVZX_RR then show ?thesis using assms emits_movzx_rr by (simp del: One_nat_def)
next
  case X64_MOVZX_RM then show ?thesis using assms emits_movzx_rm by (simp del: One_nat_def)
next
  case X64_LEA then show ?thesis using assms emits_lea by simp
qed

section \<open>Floating point\<close>

abbreviation rex_rr :: "bool \<Rightarrow> X64_Reg \<Rightarrow> X64_Reg \<Rightarrow> u8 list" where
  "rex_rr W d s \<equiv> rexl (W \<or> x64_reg_val s > 7 \<or> x64_reg_val d > 7) (of_bool W) (drop_bit 3 (x64_reg_val d)) 0
     (drop_bit 3 (x64_reg_val s)) False"

abbreviation rex_rm :: "bool \<Rightarrow> X64_Reg \<Rightarrow> X64_SIBD_Addr \<Rightarrow> u8 list" where
  "rex_rm W d a \<equiv> rexl (W \<or> x64_reg_val d > 7 \<or> rex_b (addr_bytes a) \<or> rex_x (addr_bytes a)) (of_bool W)
     (drop_bit 3 (x64_reg_val d)) (of_bool (rex_x (addr_bytes a))) (of_bool (rex_b (addr_bytes a))) False"

lemma flt_rr_eq:
  "X64_write_elf_binary_flt_rr k opc d s gs =
    Some (gs_ext gs (flt_prefix k # rex_rr False d s @ 0x0F # [opc, X64_modrm_byte 3 (x64_reg_val d) (x64_reg_val s)]) [] [])"
  by (simp add: X64_write_elf_binary_flt_rr_def writer_simps)

lemma flt_rm_eq:
  "wf_addr a \<Longrightarrow> X64_write_elf_binary_flt_rm k opc d a gs =
    mem_result gs (flt_prefix k # rex_rm False d a @ 0x0F # [opc]) a (x64_reg_val d) []"
  by (simp add: X64_write_elf_binary_flt_rm_def writer_simps)

lemma flt_mr_eq:
  "wf_addr a \<Longrightarrow> X64_write_elf_binary_flt_mr k opc a s gs =
    mem_result gs (flt_prefix k # rex_rm False s a @ 0x0F # [opc]) a (x64_reg_val s) []"
  by (simp add: X64_write_elf_binary_flt_mr_def writer_simps)

lemma cmp_rr_eq:
  "X64_write_elf_cmp_flt_rr k opc d s gs =
    Some (gs_ext gs (pfx66 (k = FLOAT_F64) @ rex_rr False d s @ 0x0F # [opc, X64_modrm_byte 3 (x64_reg_val d) (x64_reg_val s)]) [] [])"
  by (simp add: X64_write_elf_cmp_flt_rr_def writer_simps)

lemma cmp_rm_eq:
  "wf_addr a \<Longrightarrow> X64_write_elf_cmp_flt_rm k opc d a gs =
    mem_result gs (pfx66 (k = FLOAT_F64) @ rex_rm False d a @ 0x0F # [opc]) a (x64_reg_val d) []"
  by (simp add: X64_write_elf_cmp_flt_rm_def writer_simps)

lemma cvt_rr_eq:
  "X64_write_elf_flt_int_cvt_rr k n opc d s gs =
    Some (gs_ext gs (flt_prefix k # rex_rr (n = 8) d s @ 0x0F # [opc, X64_modrm_byte 3 (x64_reg_val d) (x64_reg_val s)]) [] [])"
  by (simp add: X64_write_elf_flt_int_cvt_rr_def writer_simps)

lemma cvt_rm_eq:
  "wf_addr a \<Longrightarrow> X64_write_elf_flt_int_cvt_rm k n opc d a gs =
    mem_result gs (flt_prefix k # rex_rm (n = 8) d a @ 0x0F # [opc]) a (x64_reg_val d) []"
  by (simp add: X64_write_elf_flt_int_cvt_rm_def writer_simps)

lemma flt_size_fsize: "flt_size (Ctx p (k = FLOAT_F64) (k = FLOAT_F32) h W R X B) = Some (fsize k)"
  by (cases k) (simp_all add: flt_size_def)

lemmas flt_simps = dec_simps dec_two_def dec_flt_def flt_size_fsize

lemma emits_flt:
  assumes "wf_flt i"
  shows "emits gs (X64_elf_gen_flt i gs) (flt_meaning i) (instr_entity (Flt i)) (trailing_imm (Flt i))"
proof (cases i)
  case (X64_FLT_RR op k d s)
  show ?thesis unfolding X64_FLT_RR X64_elf_gen_flt.simps flt_meaning.simps instr_entity.simps
    by (rule emitsI_reg[OF flt_rr_eq], insert assms X64_FLT_RR, cases op) (auto simp: flt_simps)
next
  case (X64_FLT_RM op k d a)
  show ?thesis unfolding X64_FLT_RM X64_elf_gen_flt.simps flt_meaning.simps instr_entity.simps
    by (rule emitsI_mem[OF flt_rm_eq], insert assms X64_FLT_RM, simp, cases op) (auto simp: flt_simps)
next
  case (X64_MOV_FLT_RR k d s)
  show ?thesis unfolding X64_MOV_FLT_RR X64_elf_gen_flt.simps flt_meaning.simps instr_entity.simps
    by (rule emitsI_reg[OF flt_rr_eq], insert assms X64_MOV_FLT_RR) (auto simp: flt_simps)
next
  case (X64_MOV_FLT_RM k d a)
  show ?thesis unfolding X64_MOV_FLT_RM X64_elf_gen_flt.simps flt_meaning.simps instr_entity.simps
    by (rule emitsI_mem[OF flt_rm_eq], insert assms X64_MOV_FLT_RM, simp) (auto simp: flt_simps)
next
  case (X64_MOV_FLT_MR k a s)
  show ?thesis unfolding X64_MOV_FLT_MR X64_elf_gen_flt.simps flt_meaning.simps instr_entity.simps
    by (rule emitsI_mem[OF flt_mr_eq], insert assms X64_MOV_FLT_MR, simp) (auto simp: flt_simps)
next
  case (X64_CVTFLT_RR k d s)
  show ?thesis unfolding X64_CVTFLT_RR X64_elf_gen_flt.simps flt_meaning.simps instr_entity.simps
    by (rule emitsI_reg[OF flt_rr_eq], insert assms X64_CVTFLT_RR) (auto simp: flt_simps)
next
  case (X64_CVTFLT_RM k d a)
  show ?thesis unfolding X64_CVTFLT_RM X64_elf_gen_flt.simps flt_meaning.simps instr_entity.simps
    by (rule emitsI_mem[OF flt_rm_eq], insert assms X64_CVTFLT_RM, simp) (auto simp: flt_simps)
next
  case (X64_CVTTFLT2SI_RR k is8 d s)
  show ?thesis unfolding X64_CVTTFLT2SI_RR X64_elf_gen_flt.simps flt_meaning.simps instr_entity.simps
    by (rule emitsI_reg[OF cvt_rr_eq], insert assms X64_CVTTFLT2SI_RR, cases is8) (auto simp: flt_simps)
next
  case (X64_CVTTFLT2SI_RM k is8 d a)
  show ?thesis unfolding X64_CVTTFLT2SI_RM X64_elf_gen_flt.simps flt_meaning.simps instr_entity.simps
    by (rule emitsI_mem[OF cvt_rm_eq], insert assms X64_CVTTFLT2SI_RM, simp, cases is8) (auto simp: flt_simps)
next
  case (X64_CVTSI2FLT_RR k is8 d s)
  show ?thesis unfolding X64_CVTSI2FLT_RR X64_elf_gen_flt.simps flt_meaning.simps instr_entity.simps
    by (rule emitsI_reg[OF cvt_rr_eq], insert assms X64_CVTSI2FLT_RR, cases is8) (auto simp: flt_simps)
next
  case (X64_CVTSI2FLT_RM k is8 d a)
  show ?thesis unfolding X64_CVTSI2FLT_RM X64_elf_gen_flt.simps flt_meaning.simps instr_entity.simps
    by (rule emitsI_mem[OF cvt_rm_eq], insert assms X64_CVTSI2FLT_RM, simp, cases is8) (auto simp: flt_simps)
next
  case (X64_MOVDQU_MR a s)
  have "X64_elf_gen_flt i gs = mem_result gs (flt_prefix FLOAT_F32 # rex_rm False s a @ 0x0F # [0x7F]) a (x64_reg_val s) []"
    using assms X64_MOVDQU_MR by (simp add: writer_simps flt_prefix_def)
  then show ?thesis unfolding X64_MOVDQU_MR flt_meaning.simps instr_entity.simps
    by (rule emitsI_mem) (use assms X64_MOVDQU_MR in \<open>auto simp: flt_simps\<close>)
next
  case (X64_MOVDQU_RM d a)
  have "X64_elf_gen_flt i gs = mem_result gs (flt_prefix FLOAT_F32 # rex_rm False d a @ 0x0F # [0x6F]) a (x64_reg_val d) []"
    using assms X64_MOVDQU_RM by (simp add: writer_simps flt_prefix_def)
  then show ?thesis unfolding X64_MOVDQU_RM flt_meaning.simps instr_entity.simps
    by (rule emitsI_mem) (use assms X64_MOVDQU_RM in \<open>auto simp: flt_simps\<close>)
next
  case (X64_UCOMIS_RR k d s)
  show ?thesis unfolding X64_UCOMIS_RR X64_elf_gen_flt.simps flt_meaning.simps instr_entity.simps
    by (rule emitsI_reg[OF cmp_rr_eq], insert assms X64_UCOMIS_RR, cases k) (auto simp: flt_simps)
next
  case (X64_UCOMIS_RM k d a)
  show ?thesis unfolding X64_UCOMIS_RM X64_elf_gen_flt.simps flt_meaning.simps instr_entity.simps
    by (rule emitsI_mem[OF cmp_rm_eq], insert assms X64_UCOMIS_RM, simp, cases k) (auto simp: flt_simps)
qed

end
