(* ===== verification/Encode_Main.thy ===== *)
theory Encode_Main
  imports Encode_Flt
begin

text \<open>
  Stack and control instructions, and the properties of the whole of \<open>X64_elf_gen_instr\<close>
  (\<open>src/src/x64_gen/machine_code.c\<close>): the emitted bytes decode to the instruction that was meant, and
  the recorded relocation covers the displacement field.
\<close>

section \<open>Stack and control\<close>

lemma push_pop_eq:
  "X64_elf_gen_ctrl (X64_PUSH r) gs =
    Some (gs_ext gs (pfx66 False @ rexl (x64_reg_val r > 7) 0 0 0 (drop_bit 3 (x64_reg_val r)) False @
      (0x50 + (x64_reg_val r AND 7)) # []) [] [])"
  "X64_elf_gen_ctrl (X64_POP r) gs =
    Some (gs_ext gs (pfx66 False @ rexl (x64_reg_val r > 7) 0 0 0 (drop_bit 3 (x64_reg_val r)) False @
      (0x58 + (x64_reg_val r AND 7)) # []) [] [])"
  by (simp_all add: writer_simps pfx66_def)

lemma emits_push: "wf_reg r \<Longrightarrow> emits gs (X64_elf_gen_ctrl (X64_PUSH r) gs) (Insn M_PUSH [Gpr 8 r]) None 0"
  by (rule emitsI_reg[OF push_pop_eq(1)])
    (auto simp: dec_simps low3_opcodes[unfolded plain_opc_def] low3_dec_one_a low3_dec_one_b)

lemma emits_pop: "wf_reg r \<Longrightarrow> emits gs (X64_elf_gen_ctrl (X64_POP r) gs) (Insn M_POP [Gpr 8 r]) None 0"
  by (rule emitsI_reg[OF push_pop_eq(2)])
    (auto simp: dec_simps low3_opcodes[unfolded plain_opc_def] low3_dec_one_a low3_dec_one_b)

lemma emits_call_r: "wf_reg r \<Longrightarrow> emits gs (X64_elf_gen_ctrl (X64_CALL_R r) gs) (Insn M_CALL [Gpr 8 r]) None 0"
proof (rule emitsI_reg[where bs = "pfx66 False @ rexl (x64_reg_val r > 7) 0 0 0 (drop_bit 3 (x64_reg_val r)) False @
    0xFF # [X64_modrm_byte 3 2 (x64_reg_val r)]"])
qed (simp add: writer_simps pfx66_def, auto simp: dec_simps dec_one_a_def dec_one_b_def ext_num_def[of False 2])

lemma emits_call_m: "wf_addr a \<Longrightarrow> emits gs (X64_elf_gen_ctrl (X64_CALL_M a) gs) (Insn M_CALL [Mem 8 (mem_of a)]) (entity_of a) 0"
proof (rule emitsI_mem[where imm = "[]" and reg = 2 and pre = "pfx66 False @ rexl (rex_b (addr_bytes a) \<or> rex_x (addr_bytes a)) 0 0
    (of_bool (rex_x (addr_bytes a))) (of_bool (rex_b (addr_bytes a))) False @ [0xFF]"])
qed (simp add: writer_simps pfx66_def, auto simp: dec_simps dec_one_a_def dec_one_b_def ext_num_def[of False 2])

lemma emits_call:
  assumes "sym_kind s = SYMBOL_PROC"
  shows "emits gs (X64_elf_gen_ctrl (X64_CALL s) gs) (Insn M_CALL [Rel 0]) (Some (CONST_ADDR_SYM s)) 0"
proof -
  have "X64_elf_gen_ctrl (X64_CALL s) gs = Some (gs_ext gs [0xE8, 0, 0, 0, 0]
      (ent_relocs gs 1 (Some (CONST_ADDR_SYM s))) (ent_patches gs 1 (Some (CONST_ADDR_SYM s))))"
    using record_usage_extend[of "CONST_ADDR_SYM s" gs "[0xE8]" "[]" "[]"] assms
    by (simp add: Let_def emit_simps del: X64_record_global_entity_offset_usage.simps)
  then show ?thesis unfolding emits_def
    by (auto intro!: exI[of _ "[0xE8, 0, 0, 0, 0]"]
        simp: x86_decode_def dec_ctx_def dec_body_def dec_one_a_def dec_one_b_def le32_def)
qed

lemma setcc_opcode:
  "ucast (x64_setcc_condition_opcodes c) = (0x0F :: u8)"
  "ucast (drop_bit 8 (x64_setcc_condition_opcodes c)) AND 0xF0 = (0x90 :: u8)"
  "unat (ucast (drop_bit 8 (x64_setcc_condition_opcodes c)) AND (15 :: u8)) = cond_code c"
  "ucast (drop_bit 8 (x64_setcc_condition_opcodes c)) \<noteq> (5 :: u8)"
  by (cases c; simp)+

lemma emits_setcc_r:
  "wf_reg r \<Longrightarrow> emits gs (X64_elf_gen_ctrl (X64_SETCC_R c r) gs) (Insn (M_SETCC (cond_code c)) [Gpr 1 r]) None 0"
proof (rule emitsI_reg[where bs = "pfx66 False @ rexl (x64_reg_val r > 7) 0 0 0 (drop_bit 3 (x64_reg_val r)) (X64_reg_aliased_8h r) @
    0x0F # [ucast (drop_bit 8 (x64_setcc_condition_opcodes c)), X64_modrm_byte 3 0 (x64_reg_val r)]"])
qed (simp add: X64_elf_gen_setcc_r_def X64_elf_gen_setcc_m_def writer_simps pfx66_def setcc_opcode, auto simp: dec_simps dec_two_def setcc_opcode)

lemma emits_setcc_m:
  "wf_addr a \<Longrightarrow> emits gs (X64_elf_gen_ctrl (X64_SETCC_M c a) gs) (Insn (M_SETCC (cond_code c)) [Mem 1 (mem_of a)]) (entity_of a) 0"
proof (rule emitsI_mem[where imm = "[]" and reg = 0 and pre = "pfx66 False @ rexl (rex_b (addr_bytes a) \<or> rex_x (addr_bytes a)) 0 0
    (of_bool (rex_x (addr_bytes a))) (of_bool (rex_b (addr_bytes a))) False @
    0x0F # [ucast (drop_bit 8 (x64_setcc_condition_opcodes c))]"])
qed (simp add: X64_elf_gen_setcc_r_def X64_elf_gen_setcc_m_def writer_simps pfx66_def setcc_opcode, auto simp: dec_simps dec_two_def setcc_opcode)

lemma emits_ctrl:
  assumes "wf_ctrl i" "ctrl_meaning i = Some insn"
  shows "emits gs (X64_elf_gen_ctrl i gs) insn (instr_entity (Ctrl i)) (trailing_imm (Ctrl i))"
proof (cases i)
  case X64_PUSH then show ?thesis using assms emits_push by (auto simp del: X64_elf_gen_ctrl.simps)
next
  case X64_POP then show ?thesis using assms emits_pop by (auto simp del: X64_elf_gen_ctrl.simps)
next
  case X64_SETCC_R then show ?thesis using assms emits_setcc_r by (auto simp del: X64_elf_gen_ctrl.simps One_nat_def)
next
  case X64_SETCC_M then show ?thesis using assms emits_setcc_m by (auto simp del: X64_elf_gen_ctrl.simps One_nat_def)
next
  case X64_CALL then show ?thesis using assms emits_call by (auto simp del: X64_elf_gen_ctrl.simps)
next
  case X64_CALL_R then show ?thesis using assms emits_call_r by (auto simp del: X64_elf_gen_ctrl.simps)
next
  case X64_CALL_M then show ?thesis using assms emits_call_m by (auto simp del: X64_elf_gen_ctrl.simps)
next
  case X64_RET
  then show ?thesis using assms
    by (auto intro!: emitsI_reg[where bs = "[0xC3]"] simp: emit_simps x86_decode_def dec_ctx_def dec_body_def dec_one_a_def dec_one_b_def)
next
  case X64_REP_MOVSB
  then show ?thesis using assms
    by (auto intro!: emitsI_reg[where bs = "[0xF3, 0xA4]"] simp: Let_def emit_simps x86_decode_def dec_ctx_def dec_body_def dec_one_a_def dec_one_b_def)
next
  case X64_REP_STOSB
  then show ?thesis using assms
    by (auto intro!: emitsI_reg[where bs = "[0xF3, 0xAA]"] simp: Let_def emit_simps x86_decode_def dec_ctx_def dec_body_def dec_one_a_def dec_one_b_def)
next
  case X64_SYSCALL
  then show ?thesis using assms
    by (auto intro!: emitsI_reg[where bs = "[0x0F, 0x05]"] simp: Let_def emit_simps x86_decode_def dec_ctx_def dec_body_def dec_two_def)
qed (use assms in simp_all)

section \<open>Every instruction\<close>

lemma emits_instr:
  assumes "wf_instr i" "instr_meaning i = Some insn"
  shows "emits gs (X64_elf_gen_instr i gs) insn (instr_entity i) (trailing_imm i)"
  using assms emits_ctrl emits_bin emits_mul emits_shift emits_mov emits_flt by (cases i) auto

section \<open>Properties\<close>

lemma gs_ext_fields:
  "buffer (curr_bblock (gs_ext gs bs rs ps)) = buffer (curr_bblock gs) @ bs"
  "relocs (gs_ext gs bs rs ps) = relocs gs @ rs"
  "proc_off_patches (gs_ext gs bs rs ps) = proc_off_patches gs @ ps"
  by (simp_all add: gs_ext_def)

lemma gs_ext_inj: "gs_ext gs a r p = gs_ext gs a' r' p' \<longleftrightarrow> a = a' \<and> r = r' \<and> p = p'"
  using gs_ext_fields[of gs a r p] gs_ext_fields[of gs a' r' p'] by (metis same_append_eq)

text \<open>
  C3. The bytes emitted for an encodable instruction decode, whatever follows them, to exactly the
  machine instruction that was meant, and emitting them touches nothing but the end of the block's
  buffer and the two relocation lists.
\<close>

theorem instr_bytes_decode:
  assumes "wf_instr i" "instr_meaning i = Some insn"
  shows "\<exists>bs rs ps. X64_elf_gen_instr i gs =
           Some (gs\<lparr>curr_bblock := (curr_bblock gs)\<lparr>buffer := buffer (curr_bblock gs) @ bs\<rparr>,
                    relocs := relocs gs @ rs, proc_off_patches := proc_off_patches gs @ ps\<rparr>) \<and>
         (\<forall>rest. x86_decode (bs @ rest) = Some (insn, rest))"
  using emits_instr[OF assms, of gs] unfolding emits_def gs_ext_def by blast

definition sample_gs :: X64_TextGenState where
  "sample_gs =
     \<lparr>curr_bblock = \<lparr>bb_index = 0, final_offset = 0, buffer = [], jmp_opcode = 0, jmp_opcode_len = 0,
        jmp_offset = 0, jmp_offset_len = 0, jmp_instr = None\<rparr>,
      proc_off_patches = [], relocs = []\<rparr>"

lemma instr_bytes_decode_witness:
  "\<exists>bs rs ps. X64_elf_gen_instr (Bin (X64_BIN_RM X64_ADD 4 X64_R9
        (X64_SIBD_ADDR_LOCAL (Some X64_RBP) (Some X64_R12) 4 (-8)))) sample_gs =
      Some (sample_gs\<lparr>curr_bblock := (curr_bblock sample_gs)\<lparr>buffer := buffer (curr_bblock sample_gs) @ bs\<rparr>,
                      relocs := relocs sample_gs @ rs, proc_off_patches := proc_off_patches sample_gs @ ps\<rparr>) \<and>
    (\<forall>rest. x86_decode (bs @ rest) =
       Some (Insn M_ADD [Gpr 4 X64_R9, Mem 4 (MemBase X64_RBP (Some (X64_R12, 4)) (-8))], rest))"
  by (rule instr_bytes_decode) (simp_all add: wf_size_def wf_reg_def x64_reg_classes_def)

text \<open>
  C4. An instruction whose operand names a global entity appends exactly one usage record, to the list
  the entity belongs to (compiler-patched procedures apart from everything the linker resolves), and
  the record points at the four displacement bytes: they end where the instruction's trailing
  immediate bytes begin.
\<close>

theorem instr_usage_at_displacement:
  assumes "wf_instr i" "instr_meaning i = Some insn" "instr_entity i = Some e"
  shows "\<exists>bs gs' r. X64_elf_gen_instr i gs = Some gs' \<and>
     buffer (curr_bblock gs') = buffer (curr_bblock gs) @ bs \<and>
     relocs gs' = relocs gs @ (if patched_by_compiler e then [] else [r]) \<and>
     proc_off_patches gs' = proc_off_patches gs @ (if patched_by_compiler e then [r] else []) \<and>
     ir_ref_addr r = e \<and> ir_bytes_to_next_ip r = 4 \<and>
     bblock_index (usage_loc r) = bb_index (curr_bblock gs) \<and>
     4 + trailing_imm i \<le> length bs \<and>
     bblock_offset (usage_loc r) = of_nat (length (buffer (curr_bblock gs')) - trailing_imm i - 4)"
proof -
  obtain bs where bs: "X64_elf_gen_instr i gs = Some (gs_ext gs bs
      (ent_relocs gs (length bs - (4 + trailing_imm i)) (Some e)) (ent_patches gs (length bs - (4 + trailing_imm i)) (Some e)))"
    "4 + trailing_imm i \<le> length bs"
    using emits_instr[OF assms(1,2), of gs] assms(3) unfolding emits_def by auto
  have "length (buffer (curr_bblock gs)) + (length bs - (4 + trailing_imm i)) =
      length (buffer (curr_bblock gs) @ bs) - trailing_imm i - 4"
    using bs(2) by simp
  then show ?thesis using bs
    by (intro exI[of _ bs] exI[of _ "the (X64_elf_gen_instr i gs)"] exI[of _ "reloc_at gs (length bs - (4 + trailing_imm i)) e"])
      (simp add: gs_ext_fields ent_relocs_def ent_patches_def reloc_at_def)
qed

abbreviation sample_var :: Symbol where
  "sample_var \<equiv> \<lparr>sym_id = 1, sym_kind = SYMBOL_VAR, decl_is_foreign = False, as_proc_index = 0\<rparr>"

lemma instr_usage_at_displacement_witness:
  "\<exists>bs gs' r. X64_elf_gen_instr (Mov (X64_LEA X64_RAX (X64_SIBD_ADDR_GLOBAL sample_var))) sample_gs = Some gs' \<and>
     buffer (curr_bblock gs') = buffer (curr_bblock sample_gs) @ bs \<and>
     relocs gs' = relocs sample_gs @ (if patched_by_compiler (CONST_ADDR_SYM sample_var) then [] else [r]) \<and>
     proc_off_patches gs' = proc_off_patches sample_gs @ (if patched_by_compiler (CONST_ADDR_SYM sample_var) then [r] else []) \<and>
     ir_ref_addr r = CONST_ADDR_SYM sample_var \<and> ir_bytes_to_next_ip r = 4 \<and>
     bblock_index (usage_loc r) = bb_index (curr_bblock sample_gs) \<and>
     4 + trailing_imm (Mov (X64_LEA X64_RAX (X64_SIBD_ADDR_GLOBAL sample_var))) \<le> length bs \<and>
     bblock_offset (usage_loc r) =
       of_nat (length (buffer (curr_bblock gs')) - trailing_imm (Mov (X64_LEA X64_RAX (X64_SIBD_ADDR_GLOBAL sample_var))) - 4)"
  by (rule instr_usage_at_displacement) (simp_all add: wf_reg_def x64_reg_classes_def)

text \<open>
  What the processor leaves in the 64-bit register \<open>d\<close> when it moves a constant to it: all of a 64-bit operand, and for
  a 32-bit operand the low half, with the upper half cleared. (Smaller operands keep the rest of the register.)
\<close>

fun loads :: "X64_Reg \<Rightarrow> x86_insn \<Rightarrow> u64 option" where
  "loads d (Insn M_MOV [Gpr n r, Imm v]) =
     (if r \<noteq> d then None else if n = 8 then Some v else if n = 4 then Some (ucast (ucast v :: u32)) else None)"
| "loads d _ = None"

text \<open>
  C8. Moving a 64-bit constant picks one of three encodings, and each of them leaves the constant in the register,
  whatever follows it. A constant from 0 to 2^31 - 1 is moved in the 32-bit form (opcode B8 and the register, with a
  REX prefix only for R8 to R15), whose result is extended with zeros; a negative one from -2^31 on in the form whose
  32-bit immediate is extended with its sign (REX.W C7 /0, seven bytes); any other with its full eight bytes (REX.W B8
  and the register, ten bytes).
\<close>

theorem mov_const64_loads_constant:
  assumes "x64_reg_classes d = X64_REG_CLASS_INT"
  shows "\<exists>bs insn. X64_elf_gen_instr (Mov (X64_MOV_RI 8 d imm)) gs = Some (gs_ext gs bs [] []) \<and>
     bs = (if 0 \<le> sint imm \<and> sint imm < 2 ^ 31 then
             (if x64_reg_val d > 7 then [0x41] else []) @ [0xB8 + (x64_reg_val d AND 7)] @ le_bytes 4 imm
           else if - (2 ^ 31) \<le> sint imm \<and> sint imm < 2 ^ 31 then
             [if x64_reg_val d > 7 then 0x49 else 0x48, 0xC7, 0xC0 + (x64_reg_val d AND 7)] @ le_bytes 4 imm
           else [if x64_reg_val d > 7 then 0x49 else 0x48, 0xB8 + (x64_reg_val d AND 7)] @ le_bytes 8 imm) \<and>
     (\<forall>rest. x86_decode (bs @ rest) = Some (insn, rest)) \<and> loads d insn = Some imm"
proof -
  have d: "wf_reg d" using assms by (simp add: wf_reg_def)
  define insn where "insn = mov_meaning (X64_MOV_RI 8 d imm)"
  obtain bs where bs: "X64_elf_gen_instr (Mov (X64_MOV_RI 8 d imm)) gs = Some (gs_ext gs bs [] [])"
    "\<forall>rest. x86_decode (bs @ rest) = Some (insn, rest)"
    using emits_mov_ri[of 8 d gs imm] d by (auto simp: insn_def emits_def wf_size_def simp del: mov_meaning.simps)
  have "ucast (ucast imm :: u32) = take_bit 32 imm" by (rule bit_word_eqI) (auto simp: bit_simps)
  then have "ucast (ucast imm :: u32) = imm" if "0 \<le> sint imm" "sint imm \<le> 2147483647"
    using take_bit_32_small[OF that] by simp
  then have loads: "loads d insn = Some imm" by (simp add: insn_def take_bit_word_eq_self)
  have rex: "rexl (x64_reg_val d > 7) 0 0 0 (drop_bit 3 (x64_reg_val d)) False = (if x64_reg_val d > 7 then [0x41] else [])"
    "rexl True 1 0 0 (drop_bit 3 (x64_reg_val d)) False = [if x64_reg_val d > 7 then 0x49 else 0x48]"
    "X64_modrm_byte 3 0 (x64_reg_val d) = 0xC0 + (x64_reg_val d AND 7)"
    using assms by (cases d; simp add: rexl_def X64_rex_prefix_def X64_modrm_byte_def)+
  have "bs = (if 0 \<le> sint imm \<and> sint imm < 2 ^ 31 then
             (if x64_reg_val d > 7 then [0x41] else []) @ [0xB8 + (x64_reg_val d AND 7)] @ le_bytes 4 imm
           else if - (2 ^ 31) \<le> sint imm \<and> sint imm < 2 ^ 31 then
             [if x64_reg_val d > 7 then 0x49 else 0x48, 0xC7, 0xC0 + (x64_reg_val d AND 7)] @ le_bytes 4 imm
           else [if x64_reg_val d > 7 then 0x49 else 0x48, 0xB8 + (x64_reg_val d AND 7)] @ le_bytes 8 imm)"
    using bs(1) mov_ri_eq32[of imm d gs] mov_ri_eqC7[of imm d gs] mov_ri_eq[of 8 imm d gs]
    by (cases "sint imm \<le> 2147483647"; cases "0 \<le> sint imm"; cases "-2147483648 \<le> sint imm")
      (auto simp: wf_size_def gs_ext_inj pfx66_def rex simp del: X64_elf_gen_mov.simps)
  then show ?thesis using bs loads by blast
qed

lemma mov_const64_loads_constant_witness:
  "\<exists>insn. X64_elf_gen_instr (Mov (X64_MOV_RI 8 X64_R10 (-5))) sample_gs =
       Some (gs_ext sample_gs [0x49, 0xC7, 0xC2, 0xFB, 0xFF, 0xFF, 0xFF] [] []) \<and>
     x86_decode [0x49, 0xC7, 0xC2, 0xFB, 0xFF, 0xFF, 0xFF, 0x90] = Some (insn, [0x90]) \<and> loads X64_R10 insn = Some (-5)"
proof -
  have v: "sint (- 5 :: u64) = - 5" "le_bytes 4 (- 5 :: u64) = [0xFB, 0xFF, 0xFF, 0xFF]" by code_simp+
  obtain bs insn where bs: "X64_elf_gen_instr (Mov (X64_MOV_RI 8 X64_R10 (- 5))) sample_gs = Some (gs_ext sample_gs bs [] [])"
      "bs = [0x49, 0xC7, 0xC0 + (x64_reg_val X64_R10 AND 7)] @ le_bytes 4 (- 5 :: u64)"
      "\<forall>rest. x86_decode (bs @ rest) = Some (insn, rest)" "loads X64_R10 insn = Some (- 5)"
    using mov_const64_loads_constant[of X64_R10 "- 5" sample_gs] unfolding v(1) by (auto simp: x64_reg_classes_def)
  have "bs = [0x49, 0xC7, 0xC2, 0xFB, 0xFF, 0xFF, 0xFF]" using bs(2) v(2) by simp
  then show ?thesis using bs(1,4) bs(3)[rule_format, of "[0x90]"] by (intro exI[of _ insn]) simp
qed

text \<open>
  C10. A byte move between registers is emitted for all integer registers, and its bytes decode to the move that was
  meant, except when the target is SPL, BPL, SIL or DIL and the source one of AL, CL, DL, BL: the REX prefix those
  targets need is added on account of the source only, so it is missing, and the machine moves the byte into AH, CH,
  DH or BH (bits 8 to 15 of the register with the number of the target less 4) instead. \<open>mov dil, al\<close> is \<open>mov bh, al\<close>.
\<close>

theorem mov_byte_hits_high_byte:
  assumes "x64_reg_classes d = X64_REG_CLASS_INT" "x64_reg_classes s = X64_REG_CLASS_INT"
  shows "\<exists>bs. X64_elf_gen_instr (Mov (X64_MOV_RR False 1 d s)) gs = Some (gs_ext gs bs [] []) \<and>
     (\<forall>rest. x86_decode (bs @ rest) =
        Some (if X64_reg_aliased_8h d \<and> has_8h s
              then Insn M_MOV [GprHigh (gpr64 (unat (x64_reg_val d) - 4)), Gpr 1 s]
              else mov_meaning (X64_MOV_RR False 1 d s), rest)) \<and>
     (X64_reg_aliased_8h d \<longleftrightarrow> d \<in> {X64_RSP, X64_RBP, X64_RSI, X64_RDI})"
proof -
  have al: "X64_reg_aliased_8h d \<longleftrightarrow> d \<in> {X64_RSP, X64_RBP, X64_RSI, X64_RDI}"
    using assms(1) by (cases d) (simp_all add: X64_reg_aliased_8h_def x64_reg_classes_def word_le_nat_alt)
  show ?thesis
  proof (cases "X64_reg_aliased_8h d \<and> has_8h s")
    case False
    then have "wf_mov (X64_MOV_RR False 1 d s)"
      using assms by (cases s) (auto simp: wf_size_def wf_reg_def has_8h_def X64_reg_aliased_8h_def x64_reg_classes_def)
    from emits_mov_rr[OF this, of gs] show ?thesis using False al by (auto simp: emits_def)
  next
    case True
    then have d: "d \<in> {X64_RSP, X64_RBP, X64_RSI, X64_RDI}" and s: "s \<in> {X64_RAX, X64_RCX, X64_RDX, X64_RBX}"
      using al by (auto simp: has_8h_def)
    have eq: "X64_elf_gen_instr (Mov (X64_MOV_RR False 1 d s)) gs =
        Some (gs_ext gs [0x88, X64_modrm_byte 3 (x64_reg_val s) (x64_reg_val d)] [] [])"
      using mov_rr_eq[of 1 False d s gs] d s
      by (auto simp: pfx66_def rexl_def X64_reg_aliased_8h_def word_le_nat_alt simp del: X64_elf_gen_mov.simps)
    have "x86_decode ([0x88, X64_modrm_byte 3 (x64_reg_val s) (x64_reg_val d)] @ rest) =
        Some (Insn M_MOV [GprHigh (gpr64 (unat (x64_reg_val d) - 4)), Gpr 1 s], rest)" for rest
      using d s
      by (auto simp: X64_modrm_byte_def x86_decode_def dec_ctx_def
        dec_body_def dec_one_a_def dec_modrm_def ext_num_def gpr_def gpr64_def all_regs_def opsize_def)
    then show ?thesis using True eq al by (intro exI[of _ "[0x88, X64_modrm_byte 3 (x64_reg_val s) (x64_reg_val d)]"]) simp
  qed
qed

lemma mov_byte_hits_high_byte_witness:
  "\<exists>bs. X64_elf_gen_instr (Mov (X64_MOV_RR False 1 X64_RDI X64_RAX)) sample_gs = Some (gs_ext sample_gs bs [] []) \<and>
     x86_decode (bs @ [0x90]) = Some (Insn M_MOV [GprHigh X64_RBX, Gpr 1 X64_RAX], [0x90])"
  using mov_byte_hits_high_byte[of X64_RDI X64_RAX sample_gs]
  by (force simp: x64_reg_classes_def X64_reg_aliased_8h_def has_8h_def gpr64_def all_regs_def)

end
