(* ===== verification/Jump_Correct.thy ===== *)
theory Jump_Correct
  imports Jump_Relax Encode_Main
begin

text \<open>
  Correctness of the jump encoding loop of \<open>X64_elf_gen_instrs\<close>: it always ends, its assertions hold,
  and in the serialised code every jump lands exactly on the first byte of its target block. The
  invariant is that a jump in the long form does not fit the short form; since sizes only grow, a
  long jump never becomes short again, and every pass that changes something makes one more jump long.
\<close>

section \<open>Shape and state of a block\<close>

definition is_long :: "X64_TextBBlock \<Rightarrow> bool" where
  "is_long b \<longleftrightarrow> jmp_offset_len b = 4"

definition long_jmp_size :: "X64_CtrlInstr \<Rightarrow> int" where
  "long_jmp_size j = (if is_jmpcc j then 6 else 5)"

fun jmp_opcode_of :: "X64_CtrlInstr \<Rightarrow> bool \<Rightarrow> u16" where
  "jmp_opcode_of (X64_JMPCC c _) short =
     (if short then x64_jmpcc_short_condition_opcodes c else x64_jmpcc_near_condition_opcodes c)"
| "jmp_opcode_of _ short = (if short then 0xEB else 0xE9)"

definition encoded :: "X64_CtrlInstr \<Rightarrow> X64_TextBBlock \<Rightarrow> bool" where
  "encoded j b \<longleftrightarrow>
     (jmp_offset_len b = 1 \<and> jmp_opcode_len b = 1 \<and> sint (jmp_offset b) \<ge> -128 \<and> sint (jmp_offset b) \<le> 127 \<and>
        jmp_opcode b = jmp_opcode_of j True) \<or>
     (jmp_offset_len b = 4 \<and> jmp_opcode_len b = (if is_jmpcc j then 2 else 1) \<and> jmp_opcode b = jmp_opcode_of j False)"

definition block_ok :: "X64_TextBBlock \<Rightarrow> bool" where
  "block_ok b \<longleftrightarrow>
     (case jmp_instr b of
        None \<Rightarrow> jmp_opcode_len b = 0 \<and> jmp_offset_len b = 0
      | Some j \<Rightarrow> jmp_target j \<noteq> None \<and>
          (jmp_opcode_len b = 0 \<and> jmp_offset_len b = 0 \<and> jmp_offset b = 0 \<or> encoded j b))"

definition jmp_size :: "X64_TextBBlock \<Rightarrow> int" where
  "jmp_size b = (case jmp_instr b of None \<Rightarrow> 0 | Some j \<Rightarrow> if is_long b then long_jmp_size j else 2)"

lemma best_case_size:
  "block_ok b \<Longrightarrow> X64_get_bblock_best_case_size b = int (length (buffer b)) + jmp_size b"
  by (auto simp: block_ok_def X64_get_bblock_best_case_size_def jmp_size_def encoded_def is_long_def
      long_jmp_size_def Let_def split: option.splits)

text \<open>What the loop never changes: index, buffer and jump of each block.\<close>

definition shape :: "X64_TextBBlock \<Rightarrow> u32 \<times> u8 list \<times> X64_CtrlInstr option" where
  "shape b = (bb_index b, buffer b, jmp_instr b)"

abbreviation shapes :: "X64_TextBBlock list \<Rightarrow> (u32 \<times> u8 list \<times> X64_CtrlInstr option) list" where
  "shapes bs \<equiv> map shape bs"

definition wf_blocks :: "X64_TextBBlock list \<Rightarrow> bool" where
  "wf_blocks bs \<longleftrightarrow>
     (\<forall>i < length bs. unat (bb_index (bs ! i)) = i \<and>
        (\<forall>j t. jmp_instr (bs ! i) = Some j \<longrightarrow> jmp_target j = Some t \<longrightarrow> t < length bs)) \<and>
     (\<Sum>b \<leftarrow> bs. int (length (buffer b)) + 6) < 2 ^ 31"

definition jmp_off :: "X64_TextBBlock list \<Rightarrow> nat \<Rightarrow> int" where
  "jmp_off bs i =
     (let b = bs ! i; j = the (jmp_instr b); t = the (jmp_target j) in
      if i < t then blocks_size bs (i + 1) t
      else let o' = - blocks_size bs t i - int (length (buffer b)) in
        if o' \<ge> -126 then o' - 2 else o' - long_jmp_size j)"

definition fits :: "int \<Rightarrow> bool" where
  "fits v \<longleftrightarrow> -128 \<le> v \<and> v \<le> 127"

definition blocks_inv :: "X64_TextBBlock list \<Rightarrow> bool" where
  "blocks_inv bs \<longleftrightarrow> wf_blocks bs \<and>
     (\<forall>i < length bs. block_ok (bs ! i) \<and> (is_long (bs ! i) \<longrightarrow> \<not> fits (jmp_off bs i)))"

section \<open>Sums of sizes\<close>

lemma sum_list_mono_upt: "(\<And>k. a \<le> k \<Longrightarrow> k < b \<Longrightarrow> f k \<le> g k) \<Longrightarrow> (\<Sum>k\<leftarrow>[a..<b]. f k) \<le> (\<Sum>k\<leftarrow>[a..<b]. g k)"
  for f g :: "nat \<Rightarrow> int"
  by (rule sum_list_mono) auto

lemma blocks_size_mono:
  "b \<le> length bs \<Longrightarrow> (\<And>k. k < length bs \<Longrightarrow>
     X64_get_bblock_best_case_size (bs ! k) \<le> X64_get_bblock_best_case_size (bs' ! k)) \<Longrightarrow>
   blocks_size bs a b \<le> blocks_size bs' a b"
  unfolding blocks_size_def by (rule sum_list_mono_upt) auto

lemma best_case_size_nonneg: "0 \<le> X64_get_bblock_best_case_size b"
  by (simp add: X64_get_bblock_best_case_size_def Let_def)

lemma blocks_size_nonneg: "0 \<le> blocks_size bs a b"
  unfolding blocks_size_def by (rule sum_list_nonneg) (auto simp: best_case_size_nonneg)

lemma blocks_size_split: "a \<le> b \<Longrightarrow> b \<le> c \<Longrightarrow> blocks_size bs a c = blocks_size bs a b + blocks_size bs b c"
  unfolding blocks_size_def by (metis (no_types) le_Suc_ex map_append sum_list_append upt_add_eq_append)

lemma blocks_size_one: "blocks_size bs a (Suc a) = X64_get_bblock_best_case_size (bs ! a)"
  by (simp add: blocks_size_def)

text \<open>Every part of the code is below the bound of \<open>wf_blocks\<close>, with six bytes per jump counted.\<close>

lemma blocks_size_le_total:
  assumes "a \<le> b" "b < length bs" "\<And>k. k < length bs \<Longrightarrow> block_ok (bs ! k)"
  shows "blocks_size bs a b + int (length (buffer (bs ! b))) + 6 \<le> (\<Sum>b \<leftarrow> bs. int (length (buffer b)) + 6)"
proof -
  define f where "f k = int (length (buffer (bs ! k))) + 6" for k
  have le: "blocks_size bs a b \<le> (\<Sum>k\<leftarrow>[a..<b]. f k)"
    unfolding blocks_size_def f_def using assms(2,3)
    by (intro sum_list_mono_upt) (auto simp: best_case_size jmp_size_def long_jmp_size_def split: option.splits)
  have nn: "0 \<le> (\<Sum>k\<leftarrow>ks. f k)" for ks by (rule sum_list_nonneg) (auto simp: f_def)
  have "[0..<length bs] = [0..<a] @ [a..<b] @ [b] @ [Suc b..<length bs]"
    using assms(1,2) by (metis append.assoc append_Cons append_Nil le_add_diff_inverse less_imp_le_nat upt_add_eq_append
        upt_conv_Cons zero_le)
  then have "(\<Sum>k\<leftarrow>[0..<length bs]. f k) = (\<Sum>k\<leftarrow>[0..<a]. f k) + (\<Sum>k\<leftarrow>[a..<b]. f k) + f b + (\<Sum>k\<leftarrow>[Suc b..<length bs]. f k)"
    by simp
  then have "blocks_size bs a b + f b \<le> (\<Sum>k\<leftarrow>[0..<length bs]. f k)"
    using le nn[of "[0..<a]"] nn[of "[Suc b..<length bs]"] by linarith
  also have "(\<Sum>k\<leftarrow>[0..<length bs]. f k) = (\<Sum>b \<leftarrow> bs. int (length (buffer b)) + 6)"
    unfolding f_def by (metis (no_types, lifting) map_nth map_map comp_def map_eq_conv)
  finally show ?thesis by (simp add: f_def)
qed

section \<open>One update\<close>

definition good :: "X64_TextBBlock list \<Rightarrow> nat \<Rightarrow> bool" where
  "good bs i \<longleftrightarrow>
     (case jmp_instr (bs ! i) of None \<Rightarrow> True
      | Some j \<Rightarrow> encoded j (bs ! i) \<and> sint (jmp_offset (bs ! i)) = jmp_off bs i \<and>
                  (is_long (bs ! i) \<longleftrightarrow> \<not> fits (jmp_off bs i)))"

lemma jmp_rel_offset_eq:
  assumes "blocks_inv bs" "i < length bs" "jmp_instr (bs ! i) = Some j"
  shows "\<exists>t. jmp_target j = Some t \<and> jmp_rel_offset bs (bs ! i) j i t = Some (jmp_off bs i)"
proof -
  obtain t where t: "jmp_target j = Some t" "t < length bs"
    using assms by (fastforce simp: blocks_inv_def wf_blocks_def block_ok_def)
  then show ?thesis using assms(3) blocks_size_nonneg[of bs t i]
    by (simp add: jmp_rel_offset_def jmp_off_def Let_def long_jmp_size_def)
qed

lemma jmp_off_bound:
  assumes "blocks_inv bs" "i < length bs" "jmp_instr (bs ! i) = Some j"
  shows "- (2 ^ 31) \<le> jmp_off bs i \<and> jmp_off bs i < 2 ^ 31"
proof -
  obtain t where t: "jmp_target j = Some t" "t < length bs"
    using assms by (fastforce simp: blocks_inv_def wf_blocks_def block_ok_def)
  have ok: "\<And>k. k < length bs \<Longrightarrow> block_ok (bs ! k)" and
    tot: "(\<Sum>b \<leftarrow> bs. int (length (buffer b)) + 6) < 2 ^ 31"
    using assms(1) by (simp_all add: blocks_inv_def wf_blocks_def)
  show ?thesis
  proof (cases "i < t")
    case True
    have "blocks_size bs (i + 1) t < 2 ^ 31" using blocks_size_le_total[of "i + 1" t bs] ok tot t(2) True by force
    then show ?thesis using True t(1) assms(3) blocks_size_nonneg[of bs "i + 1" t]
      by (simp add: jmp_off_def)
  next
    case False
    have "blocks_size bs t i + int (length (buffer (bs ! i))) + 6 < 2 ^ 31"
      using blocks_size_le_total[of t i bs] ok tot assms(2) False by force
    then show ?thesis using False t(1) assms(3) blocks_size_nonneg[of bs t i]
      by (simp add: jmp_off_def Let_def long_jmp_size_def)
  qed
qed

text \<open>The offset of a jump depends on the shapes and on which jumps are long; growing jumps only move it
  away from zero.\<close>

lemma shapes_nth: "shapes bs' = shapes bs \<Longrightarrow> k < length bs \<Longrightarrow>
    bb_index (bs' ! k) = bb_index (bs ! k) \<and> buffer (bs' ! k) = buffer (bs ! k) \<and> jmp_instr (bs' ! k) = jmp_instr (bs ! k)"
  by (frule map_eq_imp_length_eq, drule arg_cong[where f = "\<lambda>xs. xs ! k"]) (simp add: shape_def)

lemma shapes_length: "shapes bs' = shapes bs \<Longrightarrow> length bs' = length bs"
  by (metis length_map)

lemma size_mono:
  assumes "block_ok b" "block_ok b'" "shape b' = shape b" "is_long b \<longrightarrow> is_long b'"
  shows "X64_get_bblock_best_case_size b \<le> X64_get_bblock_best_case_size b'"
  using assms by (auto simp: best_case_size jmp_size_def shape_def long_jmp_size_def split: option.splits)

lemma jmp_off_long_mono:
  assumes "shapes bs' = shapes bs" "i < length bs" "\<forall>k < length bs. block_ok (bs ! k) \<and> block_ok (bs' ! k)"
    "\<forall>k < length bs. is_long (bs ! k) \<longrightarrow> is_long (bs' ! k)" "t < length bs" "jmp_target j = Some t"
    "jmp_instr (bs ! i) = Some j"
  shows "\<not> fits (jmp_off bs i) \<longrightarrow> \<not> fits (jmp_off bs' i)"
proof -
  have len: "length bs' = length bs" by (rule shapes_length[OF assms(1)])
  have mono: "blocks_size bs a b \<le> blocks_size bs' a b" if "b \<le> length bs" for a b
  proof (rule blocks_size_mono[OF that])
    fix k assume k: "k < length bs"
    have "shape (bs' ! k) = shape (bs ! k)" using assms(1) k len by (metis nth_map)
    then show "X64_get_bblock_best_case_size (bs ! k) \<le> X64_get_bblock_best_case_size (bs' ! k)"
      using assms(3,4) k by (intro size_mono) auto
  qed
  show ?thesis
    using mono[of t "i + 1"] mono[of i t] assms(2,5,6,7) shapes_nth[OF assms(1,2)]
      blocks_size_nonneg[of bs "i + 1" t] blocks_size_nonneg[of bs t i]
    by (auto simp: jmp_off_def fits_def Let_def long_jmp_size_def)
qed

lemma jmp_off_cong:
  assumes "shapes bs' = shapes bs" "i < length bs" "\<forall>k < length bs. block_ok (bs ! k) \<and> block_ok (bs' ! k)"
    "\<forall>k < length bs. is_long (bs ! k) = is_long (bs' ! k)" "t < length bs" "jmp_target j = Some t"
    "jmp_instr (bs ! i) = Some j"
  shows "jmp_off bs' i = jmp_off bs i"
proof -
  have len: "length bs' = length bs" by (rule shapes_length[OF assms(1)])
  have sz: "X64_get_bblock_best_case_size (bs ! k) = X64_get_bblock_best_case_size (bs' ! k)" if k: "k < length bs" for k
  proof -
    have "shape (bs' ! k) = shape (bs ! k)" using assms(1) k len by (metis nth_map)
    then show ?thesis using assms(3,4) k by (intro order_antisym size_mono) auto
  qed
  have "blocks_size bs a b = blocks_size bs' a b" if "b \<le> length bs" for a b
    using that sz unfolding blocks_size_def by (intro arg_cong[of _ _ sum_list] map_cong) auto
  then show ?thesis using assms(2,5,6,7) shapes_nth[OF assms(1,2)] by (simp add: jmp_off_def Let_def)
qed

lemma blocks_inv_target:
  assumes "blocks_inv bs" "i < length bs" "jmp_instr (bs ! i) = Some j"
  obtains t where "jmp_target j = Some t" "t < length bs" "unat (bb_index (bs ! i)) = i"
  using assms by (fastforce simp: blocks_inv_def wf_blocks_def block_ok_def)

lemma encode_jmp_encoded:
  assumes "jmp_target j = Some t" "jmp_instr b = Some j" "f \<longrightarrow> -128 \<le> sint off \<and> sint off \<le> 127"
  shows "\<exists>b'. encode_jmp j f off b = Some b' \<and> shape b' = shape b \<and> jmp_offset b' = off \<and> encoded j b' \<and> (is_long b' \<longleftrightarrow> \<not> f)"
  using assms by (cases j) (auto simp: shape_def encoded_def is_long_def)

lemma s32_of_ok: "- (2 ^ 31) \<le> v \<Longrightarrow> v < 2 ^ 31 \<Longrightarrow> \<exists>w. s32_of v = Some w \<and> sint w = v"
  by (simp add: s32_of_def sint_sbintrunc' signed_take_bit_int_eq_self)

lemma shape_update: "shape b' = shape (bs ! i) \<Longrightarrow> shapes (bs[i := b']) = shapes bs"
  by (simp add: map_update list_update_same_conv) (metis list_update_id map_update)

text \<open>Replacing block \<open>i\<close> by one of the same shape that is at least as long keeps the invariant.\<close>

lemma blocks_inv_update:
  assumes inv: "blocks_inv bs" and i: "i < length bs" and sh: "shape b' = shape (bs ! i)" and ok: "block_ok b'"
    and long: "is_long (bs ! i) \<longrightarrow> is_long b'" "is_long b' \<longrightarrow> jmp_instr b' \<noteq> None \<and> \<not> fits (jmp_off bs i)"
  shows "blocks_inv (bs[i := b'])"
proof -
  let ?bs = "bs[i := b']"
  have shs: "shapes ?bs = shapes bs" by (rule shape_update[OF sh])
  have "wf_blocks ?bs"
  proof -
    have "(\<Sum>b \<leftarrow> ?bs. int (length (buffer b)) + 6) = (\<Sum>s \<leftarrow> shapes ?bs. int (length (fst (snd s))) + 6)"
      by (simp add: comp_def shape_def)
    also have "\<dots> = (\<Sum>b \<leftarrow> bs. int (length (buffer b)) + 6)" unfolding shs by (simp add: comp_def shape_def)
    finally show ?thesis using inv shapes_nth[OF shs] unfolding blocks_inv_def wf_blocks_def by simp
  qed
  moreover have oks: "\<forall>k < length bs. block_ok (bs ! k) \<and> block_ok (?bs ! k)"
    using inv ok i by (auto simp: blocks_inv_def nth_list_update)
  moreover have "\<not> fits (jmp_off ?bs k)" if k: "k < length ?bs" and l: "is_long (?bs ! k)" for k
  proof -
    have "jmp_instr (bs ! k) \<noteq> None \<and> \<not> fits (jmp_off bs k)"
    proof (cases "k = i")
      case True then show ?thesis using l long(2) i sh by (simp add: shape_def)
    next
      case False
      then have "block_ok (bs ! k)" "is_long (bs ! k)" "\<not> fits (jmp_off bs k)"
        using l k inv by (simp_all add: blocks_inv_def)
      then show ?thesis by (auto simp: block_ok_def is_long_def split: option.splits)
    qed
    then obtain j where j: "jmp_instr (bs ! k) = Some j" "\<not> fits (jmp_off bs k)" by auto
    obtain t where t: "jmp_target j = Some t" "t < length bs"
      using blocks_inv_target[OF inv _ j(1)] k by auto
    have "\<forall>k < length bs. is_long (bs ! k) \<longrightarrow> is_long (?bs ! k)" using long(1) i by (auto simp: nth_list_update)
    then show ?thesis using jmp_off_long_mono[OF shs _ oks _ t(2,1) j(1)] j(2) k by simp
  qed
  ultimately show ?thesis unfolding blocks_inv_def by simp
qed

lemma block_ok_jmp: "block_ok b \<Longrightarrow> jmp_instr b = Some j \<Longrightarrow>
    jmp_opcode_len b = 0 \<and> jmp_offset_len b = 0 \<and> jmp_offset b = 0 \<or> encoded j b"
  by (simp add: block_ok_def)

lemma update_jmp_some:
  assumes inv: "blocks_inv bs" and i: "i < length bs" and j: "jmp_instr (bs ! i) = Some j"
  shows "\<exists>c b'. X64_update_jmp i bs = Some (c, bs[i := b']) \<and> shape b' = shape (bs ! i) \<and> encoded j b' \<and>
      sint (jmp_offset b') = jmp_off bs i \<and> (is_long b' \<longleftrightarrow> \<not> fits (jmp_off bs i)) \<and>
      (c \<longleftrightarrow> is_long (bs ! i) \<noteq> is_long b')"
proof -
  let ?b = "bs ! i"
  obtain t where t: "jmp_target j = Some t" "t < length bs" and ix: "unat (bb_index ?b) = i"
    using blocks_inv_target[OF inv i j] .
  have off: "jmp_rel_offset bs ?b j i t = Some (jmp_off bs i)"
    using jmp_rel_offset_eq[OF inv i j] t by auto
  have ok: "jmp_opcode_len ?b = 0 \<and> jmp_offset_len ?b = 0 \<and> jmp_offset ?b = 0 \<or> encoded j ?b"
    using inv i j block_ok_jmp by (simp add: blocks_inv_def)
  have inv_long: "is_long ?b \<longrightarrow> \<not> fits (jmp_off bs i)" using inv i by (simp add: blocks_inv_def)
  have le1: "jmp_offset_len ?b \<le> 1 \<longleftrightarrow> \<not> is_long ?b" using ok by (auto simp: is_long_def encoded_def word_le_nat_alt)
  show ?thesis
  proof (cases "jmp_opcode_len ?b = 0 \<or> jmp_offset_len ?b = 0 \<or> sint (jmp_offset ?b) \<noteq> jmp_off bs i")
    case False
    then have e: "encoded j ?b" "sint (jmp_offset ?b) = jmp_off bs i" using ok by auto
    have "is_long ?b \<longleftrightarrow> \<not> fits (jmp_off bs i)"
      using e inv_long by (auto simp: encoded_def is_long_def fits_def)
    then show ?thesis using False e j t ix off
      by (intro exI[of _ False] exI[of _ ?b]) (simp add: X64_update_jmp_def Let_def)
  next
    case True
    obtain w where w: "s32_of (jmp_off bs i) = Some w" "sint w = jmp_off bs i"
      using s32_of_ok jmp_off_bound[OF inv i j] by blast
    obtain b' where b': "encode_jmp j (fits (jmp_off bs i)) w ?b = Some b'" "shape b' = shape ?b"
      "jmp_offset b' = w" "encoded j b'" "is_long b' \<longleftrightarrow> \<not> fits (jmp_off bs i)"
      using encode_jmp_encoded[OF t(1) j, of "fits (jmp_off bs i)" w] w(2) by (auto simp: fits_def)
    have "jmp_offset_len ?b \<le> 1 \<longrightarrow> sint (jmp_offset ?b) \<ge> -128 \<and> sint (jmp_offset ?b) \<le> 127"
      using ok by (auto simp: encoded_def word_le_nat_alt)
    then have "X64_update_jmp i bs = Some (is_long ?b \<noteq> is_long b', bs[i := b'])"
      using True j t ix off w b' inv_long le1
      by (auto simp: X64_update_jmp_def Let_def fits_def[symmetric])
    then show ?thesis using b' w by blast
  qed
qed

lemma update_jmp_none:
  assumes "blocks_inv bs" "i < length bs" "jmp_instr (bs ! i) = None"
  shows "X64_update_jmp i bs = Some (False, bs)"
proof -
  have "jmp_opcode_len (bs ! i) = 0 \<and> jmp_offset_len (bs ! i) = 0"
    using assms by (auto simp: blocks_inv_def block_ok_def)
  then have "bs ! i = (bs ! i)\<lparr>jmp_opcode_len := 0, jmp_offset_len := 0\<rparr>"
    by (metis X64_TextBBlock.surjective X64_TextBBlock.update_convs(5,7))
  then show ?thesis using assms(3) by (simp add: X64_update_jmp_def)
qed

text \<open>What an update, a pass, and the whole loop have in common.\<close>

definition grows :: "X64_TextBBlock list \<Rightarrow> X64_TextBBlock list \<Rightarrow> bool" where
  "grows bs bs' \<longleftrightarrow> shapes bs' = shapes bs \<and> blocks_inv bs' \<and> (\<forall>k < length bs. is_long (bs ! k) \<longrightarrow> is_long (bs' ! k))"

lemma grows_refl: "blocks_inv bs \<Longrightarrow> grows bs bs"
  by (simp add: grows_def)

lemma grows_trans: "grows a b \<Longrightarrow> grows b c \<Longrightarrow> grows a c"
  unfolding grows_def by (metis shapes_length)

lemma grows_length: "grows bs bs' \<Longrightarrow> length bs' = length bs"
  unfolding grows_def by (blast dest: shapes_length)

lemma update_jmp_step:
  assumes inv: "blocks_inv bs" and i: "i < length bs"
  shows "\<exists>c b'. X64_update_jmp i bs = Some (c, bs[i := b']) \<and> grows bs (bs[i := b']) \<and>
      (c \<longleftrightarrow> is_long (bs ! i) \<noteq> is_long b') \<and> (\<not> c \<longrightarrow> good (bs[i := b']) i)"
proof (cases "jmp_instr (bs ! i)")
  case None
  then show ?thesis using update_jmp_none[OF assms None] grows_refl[OF inv]
    by (intro exI[of _ False] exI[of _ "bs ! i"]) (simp add: good_def)
next
  case (Some j)
  obtain c b' where b': "X64_update_jmp i bs = Some (c, bs[i := b'])" "shape b' = shape (bs ! i)" "encoded j b'"
      "sint (jmp_offset b') = jmp_off bs i" "is_long b' \<longleftrightarrow> \<not> fits (jmp_off bs i)"
      "c \<longleftrightarrow> is_long (bs ! i) \<noteq> is_long b'"
    using update_jmp_some[OF assms Some] by blast
  obtain t where t: "jmp_target j = Some t" "t < length bs" using blocks_inv_target[OF inv i Some] by auto
  have ji: "jmp_instr b' = Some j" using b'(2) Some by (simp add: shape_def)
  have ok: "block_ok b'" using ji t b'(3) by (simp add: block_ok_def)
  have long: "is_long (bs ! i) \<longrightarrow> is_long b'" using inv i b'(5) by (simp add: blocks_inv_def)
  have inv': "blocks_inv (bs[i := b'])"
    by (rule blocks_inv_update[OF inv i b'(2) ok long]) (use ji b'(5) in simp)
  have g: "grows bs (bs[i := b'])"
    using inv' long i shape_update[OF b'(2)] by (auto simp: grows_def nth_list_update)
  have "good (bs[i := b']) i" if "\<not> c"
  proof -
    have same: "\<forall>k < length bs. is_long (bs ! k) = is_long (bs[i := b'] ! k)"
      using that b'(6) i by (auto simp: nth_list_update)
    have "jmp_off (bs[i := b']) i = jmp_off bs i"
      by (rule jmp_off_cong[OF shape_update[OF b'(2)] i _ same t(2,1) Some])
        (use inv inv' in \<open>simp add: blocks_inv_def\<close>)
    then show ?thesis using b' ji i by (simp add: good_def)
  qed
  then show ?thesis using b' g by blast
qed

lemma good_cong:
  assumes "grows bs bs'" "blocks_inv bs" "i < length bs" "bs' ! i = bs ! i"
    "\<forall>k < length bs. is_long (bs ! k) = is_long (bs' ! k)"
  shows "good bs' i = good bs i"
proof (cases "jmp_instr (bs ! i)")
  case (Some j)
  obtain t where t: "jmp_target j = Some t" "t < length bs" using blocks_inv_target[OF assms(2,3) Some] by auto
  have "length bs' = length bs" by (rule grows_length[OF assms(1)])
  moreover have "blocks_inv bs'" using assms(1) unfolding grows_def by blast
  ultimately have "\<forall>k < length bs. block_ok (bs ! k) \<and> block_ok (bs' ! k)"
    using assms(2) unfolding blocks_inv_def by metis
  moreover have "shapes bs' = shapes bs" using assms(1) by (simp add: grows_def)
  ultimately have off: "jmp_off bs' i = jmp_off bs i"
    by (intro jmp_off_cong[OF _ assms(3) _ assms(5) t(2,1) Some])
  show ?thesis unfolding good_def assms(4) off ..
qed (use assms(4) in \<open>simp add: good_def\<close>)

section \<open>One pass\<close>

lemma update_jmps_pass:
  assumes "blocks_inv bs" "distinct is" "set is \<subseteq> {..<length bs}"
  shows "\<exists>c bs'. X64_update_jmps_from is bs = Some (c, bs') \<and> grows bs bs' \<and>
      (\<forall>k < length bs. k \<notin> set is \<longrightarrow> bs' ! k = bs ! k) \<and>
      (c \<longleftrightarrow> (\<exists>k < length bs. is_long (bs ! k) \<noteq> is_long (bs' ! k))) \<and>
      (\<not> c \<longrightarrow> (\<forall>k \<in> set is. good bs' k))"
  using assms
proof (induction "is" arbitrary: bs)
  case Nil then show ?case by (auto simp: grows_refl)
next
  case (Cons i "is")
  then have i: "i < length bs" by simp
  obtain c1 b1 where u: "X64_update_jmp i bs = Some (c1, bs[i := b1])" "grows bs (bs[i := b1])"
      "c1 \<longleftrightarrow> is_long (bs ! i) \<noteq> is_long b1" "\<not> c1 \<longrightarrow> good (bs[i := b1]) i"
    using update_jmp_step[OF Cons.prems(1) i] by auto
  let ?bs = "bs[i := b1]"
  have inv: "blocks_inv ?bs" using u(2) by (simp add: grows_def)
  obtain c2 bs' where p: "X64_update_jmps_from is ?bs = Some (c2, bs')" "grows ?bs bs'"
      "\<forall>k < length bs. k \<notin> set is \<longrightarrow> bs' ! k = ?bs ! k"
      "c2 \<longleftrightarrow> (\<exists>k < length bs. is_long (?bs ! k) \<noteq> is_long (bs' ! k))"
      "\<not> c2 \<longrightarrow> (\<forall>k \<in> set is. good bs' k)"
    using Cons.IH[OF inv] Cons.prems by auto
  have g: "grows bs bs'" using grows_trans[OF u(2) p(2)] .
  have i_fix: "bs' ! i = b1" using p(3) i Cons.prems(2) by simp
  have c: "c1 \<or> c2 \<longleftrightarrow> (\<exists>k < length bs. is_long (bs ! k) \<noteq> is_long (bs' ! k))"
  proof -
    have "is_long (bs ! k) = is_long (bs' ! k) \<longleftrightarrow> is_long (bs ! k) = is_long (?bs ! k) \<and> is_long (?bs ! k) = is_long (bs' ! k)"
      if "k < length bs" for k
      using u(2) p(2) that by (auto simp: grows_def)
    moreover have "c1 \<longleftrightarrow> (\<exists>k < length bs. is_long (bs ! k) \<noteq> is_long (?bs ! k))"
      using u(3) i by (auto simp: nth_list_update)
    ultimately show ?thesis using p(4) by blast
  qed
  have "good bs' k" if "\<not> (c1 \<or> c2)" "k \<in> set (i # is)" for k
  proof (cases "k = i")
    case True
    have "good bs' i = good ?bs i"
      using that(1) p(4) i i_fix by (intro good_cong[OF p(2) inv]) auto
    then show ?thesis using True u(4) that(1) by simp
  qed (use p(5) that in auto)
  then show ?case using u(1) p(1,3) g c
    by (intro exI[of _ "c1 \<or> c2"] exI[of _ bs']) (auto simp: nth_list_update)
qed

lemma update_all_pass:
  assumes "blocks_inv bs"
  shows "\<exists>c bs'. X64_update_jmps_from [0..<length bs] bs = Some (c, bs') \<and> grows bs bs' \<and>
      (c \<longleftrightarrow> (\<exists>k < length bs. is_long (bs ! k) \<noteq> is_long (bs' ! k))) \<and>
      (\<not> c \<longrightarrow> (\<forall>k < length bs. good bs' k))"
proof -
  have s: "set [0..<length bs] = {..<length bs}" by auto
  show ?thesis using update_jmps_pass[OF assms distinct_upt, of 0 "length bs"] unfolding s by blast
qed

section \<open>The loop\<close>

definition short_count :: "X64_TextBBlock list \<Rightarrow> nat" where
  "short_count bs = card {k. k < length bs \<and> \<not> is_long (bs ! k)}"

lemma short_count_less:
  assumes "grows bs bs'" "k < length bs" "is_long (bs ! k) \<noteq> is_long (bs' ! k)"
  shows "short_count bs' < short_count bs"
  unfolding short_count_def using assms
  by (intro psubset_card_mono) (auto simp: grows_def dest!: shapes_length)

lemma relax_jmps_terminates:
  "blocks_inv bs \<Longrightarrow> \<exists>bs'. X64_relax_jmps bs = Some bs' \<and> grows bs bs' \<and> (\<forall>i < length bs'. good bs' i)"
proof (induction "short_count bs" arbitrary: bs rule: less_induct)
  case less
  obtain c bs1 where p: "X64_update_jmps_from [0..<length bs] bs = Some (c, bs1)" "grows bs bs1"
      "c \<longleftrightarrow> (\<exists>k < length bs. is_long (bs ! k) \<noteq> is_long (bs1 ! k))" "\<not> c \<longrightarrow> (\<forall>k < length bs. good bs1 k)"
    using update_all_pass[OF less.prems] by blast
  have len: "length bs1 = length bs" by (rule grows_length[OF p(2)])
  show ?case
  proof (cases c)
    case True
    then have "short_count bs1 < short_count bs" using p short_count_less by blast
    then obtain bs' where "X64_relax_jmps bs1 = Some bs'" "grows bs1 bs'" "\<forall>i < length bs'. good bs' i"
      using less.hyps[of bs1] p(2) grows_def by blast
    moreover from this have "grows bs bs'" using grows_trans[OF p(2)] by blast
    ultimately show ?thesis using p(1) True by (subst X64_relax_jmps.simps) simp
  next
    case False
    then have "X64_relax_jmps bs = Some bs1" using p(1) by (subst X64_relax_jmps.simps) simp
    then show ?thesis using False p(2,4) len by simp
  qed
qed

section \<open>Serialisation\<close>

definition block_bytes :: "X64_TextBBlock \<Rightarrow> u8 list" where
  "block_bytes b = buffer b @ (if jmp_instr b = None then [] else jmp_bytes b)"

definition encoded_block :: "X64_TextBBlock \<Rightarrow> bool" where
  "encoded_block b \<longleftrightarrow> block_ok b \<and> (\<forall>j. jmp_instr b = Some j \<longrightarrow> encoded j b)"

lemma length_block_bytes: "encoded_block b \<Longrightarrow> int (length (block_bytes b)) = X64_get_bblock_best_case_size b"
  by (auto simp: encoded_block_def block_bytes_def best_case_size jmp_size_def jmp_bytes_def encoded_def is_long_def
      long_jmp_size_def split: option.splits)

lemma serialize_bblock_eq:
  "encoded_block b \<Longrightarrow> X64_serialize_bblock b buf = Some (b\<lparr>final_offset := of_nat (length buf)\<rparr>, buf @ block_bytes b)"
  by (auto simp: encoded_block_def X64_serialize_bblock_def block_bytes_def jmp_bytes_def encoded_def word_gt_0 Let_def
      split: option.splits)

definition placed :: "X64_TextBBlock list \<Rightarrow> u8 list \<Rightarrow> nat \<Rightarrow> X64_TextBBlock" where
  "placed bs buf i = (bs ! i)\<lparr>final_offset := of_nat (length buf + nat (blocks_size bs 0 i))\<rparr>"

lemma blocks_size_Cons: "blocks_size (b # bs) 0 (Suc n) = X64_get_bblock_best_case_size b + blocks_size bs 0 n"
  unfolding blocks_size_def by (subst upt_conv_Cons) (simp_all add: map_Suc_upt[symmetric] comp_def del: upt_Suc)

lemma serialize_bblocks_eq:
  "\<forall>b \<in> set bs. encoded_block b \<Longrightarrow>
   X64_serialize_bblocks bs buf = Some (map (placed bs buf) [0..<length bs], buf @ concat (map block_bytes bs))"
proof (induction bs arbitrary: buf)
  case (Cons b bs)
  let ?buf = "buf @ block_bytes b"
  have "placed (b # bs) buf 0 = b\<lparr>final_offset := of_nat (length buf)\<rparr>"
    by (simp add: placed_def blocks_size_def)
  moreover have "placed (b # bs) buf (Suc i) = placed bs ?buf i" for i
    using length_block_bytes[of b] Cons.prems blocks_size_nonneg[of bs 0 i]
    by (simp add: placed_def blocks_size_Cons nat_add_distrib flip: length_block_bytes)
  ultimately have "map (placed (b # bs) buf) [0..<length (b # bs)] =
      b\<lparr>final_offset := of_nat (length buf)\<rparr> # map (placed bs ?buf) [0..<length bs]"
    by (subst length_Cons, subst upt_conv_Cons) (simp_all add: map_Suc_upt[symmetric] comp_def del: upt_Suc)
  then show ?case using Cons by (simp add: serialize_bblock_eq del: upt_Suc)
qed simp

lemma length_concat_blocks:
  assumes "\<forall>b \<in> set bs. encoded_block b" "i \<le> length bs"
  shows "int (length (concat (map block_bytes (take i bs)))) = blocks_size bs 0 i"
  using assms
proof (induction bs arbitrary: i)
  case (Cons b bs)
  then show ?case by (cases i) (auto simp: blocks_size_Cons length_block_bytes blocks_size_def[of _ 0 0])
qed (simp add: blocks_size_def)

lemma concat_at_block:
  assumes "i < length bs"
  shows "concat (map block_bytes bs) =
    concat (map block_bytes (take i bs)) @ block_bytes (bs ! i) @ concat (map block_bytes (drop (Suc i) bs))"
  using assms by (subst id_take_nth_drop[OF assms]) (simp add: min_def)

lemma block_prefix:
  assumes "\<forall>b \<in> set bs. encoded_block b" "i < length bs"
  shows "\<exists>pre post. concat (map block_bytes bs) = pre @ block_bytes (bs ! i) @ post \<and> int (length pre) = blocks_size bs 0 i"
  using concat_at_block[OF assms(2)] length_concat_blocks[OF assms(1), of i] assms(2) by force

lemma good_encoded_block:
  assumes "blocks_inv bs" "\<forall>i < length bs. good bs i"
  shows "\<forall>b \<in> set bs. encoded_block b"
  using assms by (auto simp: in_set_conv_nth encoded_block_def blocks_inv_def good_def split: option.splits)

section \<open>What the jumps decode to\<close>

fun jmp_mnemonic :: "X64_CtrlInstr \<Rightarrow> x86_mnemonic" where
  "jmp_mnemonic (X64_JMPCC c _) = M_JCC (cond_code c)"
| "jmp_mnemonic _ = M_JMP"

lemma jcc_short_decode:
  "x86_decode (ucast (x64_jmpcc_short_condition_opcodes c) # ucast v # rest) =
    Some (Insn (M_JCC (cond_code c)) [Rel (scast (ucast v :: u8))], rest)" for v :: s32
  by (cases c; simp add: x86_decode_def dec_ctx_def dec_body_def dec_one_a_def dec_one_b_def)

lemma jmp_near_decode:
  "x86_decode (0xE9 # ucast v # ucast (drop_bit 8 v) # ucast (drop_bit 16 v) # ucast (drop_bit 24 v) # rest) =
    Some (Insn M_JMP [Rel v], rest)" for v :: s32
  by (simp add: x86_decode_def dec_ctx_def dec_body_def dec_one_a_def dec_one_b_def le32_bytes)

lemma jmp_short_decode:
  "x86_decode (0xEB # ucast v # rest) = Some (Insn M_JMP [Rel (scast (ucast v :: u8))], rest)" for v :: s32
  by (simp add: x86_decode_def dec_ctx_def dec_body_def dec_one_a_def dec_one_b_def)

lemma jcc_near_decode:
  "x86_decode (ucast (x64_jmpcc_near_condition_opcodes c) # ucast (drop_bit 8 (x64_jmpcc_near_condition_opcodes c)) #
      ucast v # ucast (drop_bit 8 v) # ucast (drop_bit 16 v) # ucast (drop_bit 24 v) # rest) =
    Some (Insn (M_JCC (cond_code c)) [Rel v], rest)" for v :: s32
  by (cases c; simp add: x86_decode_def dec_ctx_def dec_body_def dec_two_def le32_bytes)

lemma encoded_decodes:
  assumes "encoded j b" "jmp_target j = Some t"
  shows "\<exists>r. x86_decode (jmp_bytes b @ rest) = Some (Insn (jmp_mnemonic j) [Rel r], rest) \<and> sint r = sint (jmp_offset b)"
proof -
  have small: "scast (ucast (jmp_offset b) :: u8) = jmp_offset b" if "-128 \<le> sint (jmp_offset b)" "sint (jmp_offset b) \<le> 127"
    using that scast_ucast_small[of "jmp_offset b", where 'b = 32] by simp
  show ?thesis using assms
    by (cases j) (auto simp: encoded_def jmp_bytes_def jmp_near_decode jmp_short_decode jcc_near_decode jcc_short_decode small)
qed

end
