(* ===== verification/Proc_Code.thy ===== *)
theory Proc_Code
  imports Jump_Correct "HOL-Library.Multiset"
begin

text \<open>
  The code of a whole procedure: for well-formed basic blocks \<open>X64_elf_gen_instrs\<close> succeeds, the bytes
  of every block decode to the machine instructions meant by its instructions, followed by a jump to
  the first byte of the target block; and patching the uses of procedures writes the distance to the
  callee into exactly the recorded displacement fields.
\<close>

section \<open>Well-formed basic blocks\<close>

fun instr_jump :: "X64_Instr \<Rightarrow> X64_CtrlInstr option" where
  "instr_jump (Ctrl (X64_JMP t)) = Some (X64_JMP t)"
| "instr_jump (Ctrl (X64_JMP_TO_RET t)) = Some (X64_JMP_TO_RET t)"
| "instr_jump (Ctrl (X64_JMPCC c t)) = Some (X64_JMPCC c t)"
| "instr_jump _ = None"

definition plain_instr :: "X64_Instr \<Rightarrow> bool" where
  "plain_instr i \<longleftrightarrow> wf_instr i \<and> instr_meaning i \<noteq> None \<or> i = Ctrl X64_NOOP"

text \<open>Every instruction is encodable, and a jump is the last one of its block and goes to one of \<open>n\<close> blocks.\<close>

fun wf_bblock :: "nat \<Rightarrow> X64_Instr list \<Rightarrow> bool" where
  "wf_bblock n [] = True"
| "wf_bblock n [i] = (case instr_jump i of Some j \<Rightarrow> the (jmp_target j) < n | None \<Rightarrow> plain_instr i)"
| "wf_bblock n (i # is) = (plain_instr i \<and> wf_bblock n is)"

fun block_jump :: "X64_Instr list \<Rightarrow> X64_CtrlInstr option" where
  "block_jump [] = None"
| "block_jump [i] = instr_jump i"
| "block_jump (i # is) = block_jump is"

definition block_meaning :: "X64_Instr list \<Rightarrow> x86_insn list" where
  "block_meaning is = List.map_filter instr_meaning is"

text \<open>Decode \<open>n\<close> instructions and keep what follows them.\<close>

fun x86_decode_take :: "nat \<Rightarrow> u8 list \<Rightarrow> (x86_insn list \<times> u8 list) option" where
  "x86_decode_take 0 bs = Some ([], bs)"
| "x86_decode_take (Suc n) bs = do {
     (i, bs) \<leftarrow> x86_decode bs;
     (is, bs) \<leftarrow> x86_decode_take n bs;
     Some (i # is, bs) }"

definition decodes_to :: "u8 list \<Rightarrow> x86_insn list \<Rightarrow> bool" where
  "decodes_to bs insns \<longleftrightarrow> (\<forall>rest. x86_decode_take (length insns) (bs @ rest) = Some (insns, rest))"

lemma decodes_to_Nil: "decodes_to [] []"
  by (simp add: decodes_to_def)

lemma decodes_to_Cons:
  "\<forall>rest. x86_decode (bs @ rest) = Some (insn, rest) \<Longrightarrow> decodes_to bs' insns \<Longrightarrow> decodes_to (bs @ bs') (insn # insns)"
  by (simp add: decodes_to_def)

section \<open>Usage locations\<close>

text \<open>Fields of four bytes at the offsets \<open>ks\<close>, in order, disjoint, between \<open>lo\<close> and \<open>hi\<close>.\<close>

fun spaced :: "nat \<Rightarrow> nat \<Rightarrow> nat list \<Rightarrow> bool" where
  "spaced lo hi [] = (lo \<le> hi)"
| "spaced lo hi (k # ks) = (lo \<le> k \<and> spaced (k + 4) hi ks)"

lemma spaced_bound: "spaced lo hi ks \<Longrightarrow> lo \<le> hi \<and> (\<forall>k \<in> set ks. lo \<le> k \<and> k + 4 \<le> hi)"
  by (induction ks arbitrary: lo) fastforce+

lemma spaced_append: "spaced lo mid xs \<Longrightarrow> spaced mid hi ys \<Longrightarrow> spaced lo hi (xs @ ys)"
proof (induction xs arbitrary: lo)
  case Nil then show ?case by (cases ys) (auto dest: spaced_bound)
qed simp

lemma spaced_shift: "spaced lo hi ks \<Longrightarrow> spaced (d + lo) (d + hi) (map ((+) d) ks)"
  by (induction ks arbitrary: lo) (force simp: add.assoc)+

lemma spaced_weaken: "spaced lo hi ks \<Longrightarrow> lo' \<le> lo \<Longrightarrow> hi \<le> hi' \<Longrightarrow> spaced lo' hi' ks"
  by (induction ks arbitrary: lo lo') auto

definition mk_reloc :: "u32 \<Rightarrow> nat \<times> ConstAddr \<Rightarrow> X64_InternalReloc" where
  "mk_reloc bb ke =
     \<lparr>usage_loc = \<lparr>bblock_index = bb, bblock_offset = of_nat (fst ke)\<rparr>, ir_bytes_to_next_ip = 4, ir_ref_addr = snd ke\<rparr>"

text \<open>\<open>rs\<close> are usages in block \<open>bb\<close>, between \<open>lo\<close> and \<open>hi\<close>, of entities that satisfy \<open>P\<close>.\<close>

definition uses_in :: "u32 \<Rightarrow> nat \<Rightarrow> nat \<Rightarrow> (ConstAddr \<Rightarrow> bool) \<Rightarrow> X64_InternalReloc list \<Rightarrow> bool" where
  "uses_in bb lo hi P rs \<longleftrightarrow> (\<exists>kes. rs = map (mk_reloc bb) kes \<and> spaced lo hi (map fst kes) \<and> (\<forall>ke \<in> set kes. P (snd ke)))"

lemma uses_in_Nil: "lo \<le> hi \<Longrightarrow> uses_in bb lo hi P []"
  by (simp add: uses_in_def)

lemma uses_in_append: "uses_in bb lo mid P rs \<Longrightarrow> uses_in bb mid hi P rs' \<Longrightarrow> uses_in bb lo hi P (rs @ rs')"
  unfolding uses_in_def
proof (elim exE conjE)
  fix a b
  assume "rs = map (mk_reloc bb) a" "spaced lo mid (map fst a)" "\<forall>ke \<in> set a. P (snd ke)"
    and "rs' = map (mk_reloc bb) b" "spaced mid hi (map fst b)" "\<forall>ke \<in> set b. P (snd ke)"
  then show "\<exists>kes. rs @ rs' = map (mk_reloc bb) kes \<and> spaced lo hi (map fst kes) \<and> (\<forall>ke \<in> set kes. P (snd ke))"
    by (intro exI[of _ "a @ b"]) (auto intro: spaced_append)
qed

lemma uses_in_entity:
  assumes "e \<noteq> None \<longrightarrow> 4 + t \<le> n"
  shows "uses_in (bb_index (curr_bblock gs)) (length (buffer (curr_bblock gs))) (length (buffer (curr_bblock gs)) + n)
      (\<lambda>e. \<not> patched_by_compiler e) (ent_relocs gs (n - (4 + t)) e)"
    "uses_in (bb_index (curr_bblock gs)) (length (buffer (curr_bblock gs))) (length (buffer (curr_bblock gs)) + n)
      patched_by_compiler (ent_patches gs (n - (4 + t)) e)"
    "uses_in (bb_index (curr_bblock gs)) (length (buffer (curr_bblock gs))) (length (buffer (curr_bblock gs)) + n)
      (\<lambda>_. True) (ent_relocs gs (n - (4 + t)) e @ ent_patches gs (n - (4 + t)) e)"
proof -
  have one: "uses_in bb lo (lo + n) P [mk_reloc bb (lo + (n - (4 + t)), e')]" if "P e'" "e = Some e'" for bb lo P e'
    unfolding uses_in_def using that assms by (intro exI[of _ "[(lo + (n - (4 + t)), e')]"]) simp
  have mk: "reloc_at gs (n - (4 + t)) e' =
      mk_reloc (bb_index (curr_bblock gs)) (length (buffer (curr_bblock gs)) + (n - (4 + t)), e')" for e'
    by (simp add: reloc_at_def mk_reloc_def)
  show "uses_in (bb_index (curr_bblock gs)) (length (buffer (curr_bblock gs))) (length (buffer (curr_bblock gs)) + n)
      (\<lambda>e. \<not> patched_by_compiler e) (ent_relocs gs (n - (4 + t)) e)"
    unfolding ent_relocs_def mk by (cases e) (auto intro: uses_in_Nil one)
  show "uses_in (bb_index (curr_bblock gs)) (length (buffer (curr_bblock gs))) (length (buffer (curr_bblock gs)) + n)
      patched_by_compiler (ent_patches gs (n - (4 + t)) e)"
    unfolding ent_patches_def mk by (cases e) (auto intro: uses_in_Nil one)
  show "uses_in (bb_index (curr_bblock gs)) (length (buffer (curr_bblock gs))) (length (buffer (curr_bblock gs)) + n)
      (\<lambda>_. True) (ent_relocs gs (n - (4 + t)) e @ ent_patches gs (n - (4 + t)) e)"
    unfolding ent_relocs_def ent_patches_def mk by (cases e) (auto intro: uses_in_Nil one)
qed

text \<open>
  The usages of both lists together are disjoint as well: in some order they are spaced fields.
\<close>

definition uses_apart :: "u32 \<Rightarrow> nat \<Rightarrow> nat \<Rightarrow> X64_InternalReloc list \<Rightarrow> X64_InternalReloc list \<Rightarrow> bool" where
  "uses_apart bb lo hi rs ps \<longleftrightarrow> (\<exists>us. uses_in bb lo hi (\<lambda>_. True) us \<and> mset us = mset (rs @ ps))"

lemma uses_apart_Nil: "lo \<le> hi \<Longrightarrow> uses_apart bb lo hi [] []"
  by (simp add: uses_apart_def uses_in_Nil)

lemma uses_apart_append:
  assumes "uses_apart bb lo mid rs ps" "uses_apart bb mid hi rs' ps'"
  shows "uses_apart bb lo hi (rs @ rs') (ps @ ps')"
proof -
  obtain us us' where "uses_in bb lo mid (\<lambda>_. True) us" "mset us = mset (rs @ ps)"
      "uses_in bb mid hi (\<lambda>_. True) us'" "mset us' = mset (rs' @ ps')"
    using assms unfolding uses_apart_def by blast
  then show ?thesis
    unfolding uses_apart_def by (intro exI[of _ "us @ us'"]) (simp add: uses_in_append ac_simps)
qed

section \<open>Generating a block\<close>

definition set_jmp :: "X64_CtrlInstr option \<Rightarrow> X64_TextGenState \<Rightarrow> X64_TextGenState" where
  "set_jmp j gs = (if j = None then gs else gs\<lparr>curr_bblock := (curr_bblock gs)\<lparr>jmp_instr := j\<rparr>\<rparr>)"

lemma gen_jump:
  assumes "instr_jump i = Some j" "jmp_instr (curr_bblock gs) = None"
  shows "X64_elf_gen_instr i gs = Some (set_jmp (Some j) gs)" "instr_meaning i = None" "\<exists>t. jmp_target j = Some t"
proof -
  have "i = Ctrl j \<and> (\<exists>t c. j = X64_JMP t \<or> j = X64_JMP_TO_RET t \<or> j = X64_JMPCC c t)"
    using assms(1) by (cases i rule: instr_jump.cases) auto
  then show "X64_elf_gen_instr i gs = Some (set_jmp (Some j) gs)" "instr_meaning i = None" "\<exists>t. jmp_target j = Some t"
    using assms(2) by (auto simp: set_jmp_def)
qed

text \<open>The bytes of one instruction, and its usages.\<close>

definition extends :: "X64_TextGenState \<Rightarrow> u8 list \<Rightarrow> X64_InternalReloc list \<Rightarrow> X64_InternalReloc list \<Rightarrow> bool" where
  "extends gs bs rs ps \<longleftrightarrow>
     (let b = curr_bblock gs; lo = length (buffer b); hi = lo + length bs in
      uses_in (bb_index b) lo hi (\<lambda>e. \<not> patched_by_compiler e) rs \<and> uses_in (bb_index b) lo hi patched_by_compiler ps \<and>
      uses_apart (bb_index b) lo hi rs ps)"

lemma extends_Nil: "extends gs [] [] []"
  by (simp add: extends_def uses_in_Nil uses_apart_Nil)

lemma extends_append:
  "extends gs bs rs ps \<Longrightarrow> extends (gs_ext gs bs rs ps) bs' rs' ps' \<Longrightarrow> extends gs (bs @ bs') (rs @ rs') (ps @ ps')"
  by (auto simp: extends_def gs_ext_def Let_def add.assoc intro: uses_in_append uses_apart_append)

lemma gen_plain:
  assumes "plain_instr i"
  shows "\<exists>bs rs ps. X64_elf_gen_instr i gs = Some (gs_ext gs bs rs ps) \<and> extends gs bs rs ps \<and>
    (case instr_meaning i of None \<Rightarrow> bs = [] | Some insn \<Rightarrow> \<forall>rest. x86_decode (bs @ rest) = Some (insn, rest))"
proof (cases "instr_meaning i")
  case None
  then have "i = Ctrl X64_NOOP" using assms by (simp add: plain_instr_def)
  then show ?thesis using extends_Nil by (intro exI[of _ "[]"]) (simp add: gs_ext_def)
next
  case (Some insn)
  then have "wf_instr i" using assms by (auto simp: plain_instr_def)
  then obtain bs where bs: "X64_elf_gen_instr i gs = Some (gs_ext gs bs
      (ent_relocs gs (length bs - (4 + trailing_imm i)) (instr_entity i))
      (ent_patches gs (length bs - (4 + trailing_imm i)) (instr_entity i)))"
    "\<forall>rest. x86_decode (bs @ rest) = Some (insn, rest)" "instr_entity i \<noteq> None \<longrightarrow> 4 + trailing_imm i \<le> length bs"
    using emits_instr[of i insn gs] Some unfolding emits_def by blast
  have "extends gs bs (ent_relocs gs (length bs - (4 + trailing_imm i)) (instr_entity i))
      (ent_patches gs (length bs - (4 + trailing_imm i)) (instr_entity i))"
    using uses_in_entity[OF bs(3), of gs] unfolding extends_def Let_def uses_apart_def by blast
  then show ?thesis using bs(1,2) Some by auto
qed

lemma plain_no_jump: "plain_instr i \<Longrightarrow> instr_jump i = None"
  by (cases i rule: instr_jump.cases) (auto simp: plain_instr_def)

lemma gs_ext_append: "gs_ext (gs_ext gs bs rs ps) bs' rs' ps' = gs_ext gs (bs @ bs') (rs @ rs') (ps @ ps')"
  by (simp add: gs_ext_def)

lemma block_meaning_Cons:
  "block_meaning (i # is) = (case instr_meaning i of None \<Rightarrow> block_meaning is | Some m \<Rightarrow> m # block_meaning is)"
  "block_meaning [] = []"
  by (simp_all add: block_meaning_def map_filter_simps split: option.split)

lemma gen_bblock_instrs_correct:
  assumes "wf_bblock n is" "jmp_instr (curr_bblock gs) = None"
  shows "\<exists>bs rs ps. gen_bblock_instrs is gs = Some (set_jmp (block_jump is) (gs_ext gs bs rs ps)) \<and>
    extends gs bs rs ps \<and> decodes_to bs (block_meaning is)"
  using assms
proof (induction n "is" arbitrary: gs rule: wf_bblock.induct)
  case (1 n)
  then show ?case using extends_Nil
    by (intro exI[of _ "[]"]) (simp add: set_jmp_def gs_ext_def block_meaning_Cons decodes_to_Nil)
next
  case (2 n i)
  show ?case
  proof (cases "instr_jump i")
    case None
    then have "plain_instr i" using 2 by simp
    then obtain bs rs ps where "X64_elf_gen_instr i gs = Some (gs_ext gs bs rs ps)" "extends gs bs rs ps"
        "case instr_meaning i of None \<Rightarrow> bs = [] | Some insn \<Rightarrow> \<forall>rest. x86_decode (bs @ rest) = Some (insn, rest)"
      using gen_plain by blast
    then show ?thesis using None decodes_to_Nil decodes_to_Cons[of bs _ "[]" "[]"]
      by (intro exI[of _ bs] exI[of _ rs] exI[of _ ps])
        (auto simp: set_jmp_def block_meaning_Cons split: option.splits)
  next
    case (Some j)
    then show ?thesis using gen_jump[OF Some 2(2)] extends_Nil
      by (intro exI[of _ "[]"]) (simp add: set_jmp_def gs_ext_def block_meaning_Cons decodes_to_Nil)
  qed
next
  case (3 n i i' "is")
  then have pl: "plain_instr i" by simp
  then obtain bs rs ps where i: "X64_elf_gen_instr i gs = Some (gs_ext gs bs rs ps)" "extends gs bs rs ps"
      "case instr_meaning i of None \<Rightarrow> bs = [] | Some insn \<Rightarrow> \<forall>rest. x86_decode (bs @ rest) = Some (insn, rest)"
    using gen_plain by blast
  have "jmp_instr (curr_bblock (gs_ext gs bs rs ps)) = None" using 3(3) by (simp add: gs_ext_def)
  moreover have "wf_bblock n (i' # is)" using 3(2) by simp
  ultimately obtain bs' rs' ps' where r: "gen_bblock_instrs (i' # is) (gs_ext gs bs rs ps) =
        Some (set_jmp (block_jump (i' # is)) (gs_ext (gs_ext gs bs rs ps) bs' rs' ps'))"
      "extends (gs_ext gs bs rs ps) bs' rs' ps'" "decodes_to bs' (block_meaning (i' # is))"
    using 3(1) by blast
  have "decodes_to (bs @ bs') (block_meaning (i # i' # is))"
    using i(3) r(3) decodes_to_Cons[of bs _ bs'] by (auto simp: block_meaning_Cons(1)[of i] split: option.splits)
  then show ?case using i(1) r(1) extends_append[OF i(2) r(2)]
    by (intro exI[of _ "bs @ bs'"] exI[of _ "rs @ rs'"] exI[of _ "ps @ ps'"]) (simp add: gs_ext_append)
qed

section \<open>Generating all blocks\<close>

definition gen_ok :: "nat \<Rightarrow> X64_Instr list \<Rightarrow> X64_TextBBlock \<times> X64_InternalReloc list \<times> X64_InternalReloc list \<Rightarrow> bool" where
  "gen_ok bb instrs t \<longleftrightarrow>
     (let b = fst t in
      bb_index b = of_nat bb \<and> jmp_instr b = block_jump instrs \<and> decodes_to (buffer b) (block_meaning instrs) \<and>
      jmp_opcode_len b = 0 \<and> jmp_offset_len b = 0 \<and> jmp_offset b = 0 \<and>
      uses_in (of_nat bb) 0 (length (buffer b)) (\<lambda>e. \<not> patched_by_compiler e) (fst (snd t)) \<and>
      uses_in (of_nat bb) 0 (length (buffer b)) patched_by_compiler (snd (snd t)) \<and>
      uses_apart (of_nat bb) 0 (length (buffer b)) (fst (snd t)) (snd (snd t)))"

lemma gen_bblocks_correct:
  assumes "\<forall>is \<in> set bblocks. wf_bblock n is"
  shows "\<exists>ts. gen_bblocks bb bblocks rs ps =
      Some (map fst ts, rs @ concat (map (fst \<circ> snd) ts), ps @ concat (map (snd \<circ> snd) ts)) \<and>
      length ts = length bblocks \<and> (\<forall>i < length bblocks. gen_ok (bb + i) (bblocks ! i) (ts ! i))"
  using assms
proof (induction bblocks arbitrary: bb rs ps)
  case Nil
  show ?case by (intro exI[of _ "[]"]) simp
next
  case (Cons instrs bblocks)
  let ?gs = "\<lparr>curr_bblock = new_text_bblock bb, proc_off_patches = ps, relocs = rs\<rparr>"
  obtain bs rs1 ps1 where g: "gen_bblock_instrs instrs ?gs = Some (set_jmp (block_jump instrs) (gs_ext ?gs bs rs1 ps1))"
      "extends ?gs bs rs1 ps1" "decodes_to bs (block_meaning instrs)"
    using gen_bblock_instrs_correct[of n instrs ?gs] Cons.prems by (auto simp: new_text_bblock_def)
  let ?gs' = "set_jmp (block_jump instrs) (gs_ext ?gs bs rs1 ps1)"
  obtain ts where t: "gen_bblocks (bb + 1) bblocks (rs @ rs1) (ps @ ps1) =
      Some (map fst ts, (rs @ rs1) @ concat (map (fst \<circ> snd) ts), (ps @ ps1) @ concat (map (snd \<circ> snd) ts))"
      "length ts = length bblocks" "\<forall>i < length bblocks. gen_ok (bb + 1 + i) (bblocks ! i) (ts ! i)"
    using Cons.IH[of "bb + 1" "rs @ rs1" "ps @ ps1"] Cons.prems by (meson list.set_intros(2))
  have st: "relocs ?gs' = rs @ rs1" "proc_off_patches ?gs' = ps @ ps1" by (simp_all add: set_jmp_def gs_ext_def)
  have ok: "gen_ok bb instrs (curr_bblock ?gs', rs1, ps1)"
    using g(2,3) by (auto simp: gen_ok_def set_jmp_def gs_ext_def extends_def new_text_bblock_def Let_def)
  show ?case
  proof (intro exI[of _ "(curr_bblock ?gs', rs1, ps1) # ts"] conjI allI impI)
    show "gen_bblocks bb (instrs # bblocks) rs ps =
      Some (map fst ((curr_bblock ?gs', rs1, ps1) # ts), rs @ concat (map (fst \<circ> snd) ((curr_bblock ?gs', rs1, ps1) # ts)),
        ps @ concat (map (snd \<circ> snd) ((curr_bblock ?gs', rs1, ps1) # ts)))"
      using g(1) t(1) st by simp
  next
    fix i assume "i < length (instrs # bblocks)"
    then show "gen_ok (bb + i) ((instrs # bblocks) ! i) (((curr_bblock ?gs', rs1, ps1) # ts) ! i)"
      using ok t(3) by (cases i) auto
  qed (use t(2) in simp)
qed

text \<open>The code is smaller than 2 GiB, counting every jump in its longest form.\<close>

definition code_fits :: "X64_Instr list list \<Rightarrow> bool" where
  "code_fits bblocks =
     (case gen_bblocks 0 bblocks [] [] of None \<Rightarrow> False
      | Some (tbs, _) \<Rightarrow> (\<Sum>b \<leftarrow> tbs. int (length (buffer b)) + 6) < 2 ^ 31)"

lemma wf_bblock_target:
  "wf_bblock n is \<Longrightarrow> block_jump is = Some j \<Longrightarrow> \<exists>t. jmp_target j = Some t \<and> t < n"
proof (induction n "is" rule: wf_bblock.induct)
  case (2 n i)
  then show ?case by (cases i rule: instr_jump.cases) auto
qed auto

lemma gen_blocks_inv:
  assumes "\<forall>is \<in> set bblocks. wf_bblock (length bblocks) is" "length ts = length bblocks"
    "\<forall>i < length bblocks. gen_ok i (bblocks ! i) (ts ! i)"
    "(\<Sum>b \<leftarrow> map fst ts. int (length (buffer b)) + 6) < 2 ^ 31"
  shows "blocks_inv (map fst ts)"
proof -
  have "int (length ts) \<le> (\<Sum>b \<leftarrow> map fst ts. int (length (buffer b)) + 6)"
    by (induction ts) auto
  then have len: "length ts < 2 ^ 32" using assms(4) by simp
  have tgt: "\<exists>t. jmp_target j = Some t \<and> t < length bblocks" if "i < length bblocks" "block_jump (bblocks ! i) = Some j" for i j
    using that assms(1) wf_bblock_target nth_mem by blast
  have "wf_blocks (map fst ts)"
    unfolding wf_blocks_def
  proof (intro conjI allI impI)
    fix i assume i: "i < length (map fst ts)"
    then have g: "gen_ok i (bblocks ! i) (ts ! i)" using assms(2,3) by simp
    show "unat (bb_index (map fst ts ! i)) = i"
      using g i len by (simp add: gen_ok_def Let_def unat_of_nat take_bit_nat_eq_self)
    fix j t assume "jmp_instr (map fst ts ! i) = Some j" "jmp_target j = Some t"
    then show "t < length (map fst ts)" using g i tgt[of i j] assms(2) by (auto simp: gen_ok_def Let_def)
  qed (use assms(4) in simp)
  moreover have "block_ok (map fst ts ! i) \<and> \<not> is_long (map fst ts ! i)" if i: "i < length (map fst ts)" for i
  proof -
    have g: "gen_ok i (bblocks ! i) (ts ! i)" using i assms(2,3) by simp
    show ?thesis
    proof (cases "block_jump (bblocks ! i)")
      case (Some j)
      then obtain t where "jmp_target j = Some t" using tgt[of i j] i assms(2) by auto
      then show ?thesis using g i Some by (simp add: gen_ok_def Let_def block_ok_def is_long_def)
    qed (use g i in \<open>simp add: gen_ok_def Let_def block_ok_def is_long_def\<close>)
  qed
  ultimately show ?thesis by (simp add: blocks_inv_def)
qed

section \<open>The whole procedure\<close>

lemma jmp_off_lands:
  assumes inv: "blocks_inv bs" and i: "i < length bs" and j: "jmp_instr (bs ! i) = Some j" and t: "jmp_target j = Some t"
    and g: "good bs i"
  shows "blocks_size bs 0 (Suc i) + jmp_off bs i = blocks_size bs 0 t"
proof -
  have long: "is_long (bs ! i) \<longleftrightarrow> \<not> fits (jmp_off bs i)" using g j by (simp add: good_def)
  have ok: "block_ok (bs ! i)" using inv i by (simp add: blocks_inv_def)
  show ?thesis
  proof (cases "i < t")
    case True
    then show ?thesis using blocks_size_split[of 0 "Suc i" t bs] j t by (simp add: jmp_off_def)
  next
    case False
    have "blocks_size bs 0 (Suc i) = blocks_size bs 0 t + blocks_size bs t i + X64_get_bblock_best_case_size (bs ! i)"
      using blocks_size_split[of 0 i "Suc i" bs] blocks_size_split[of 0 t i bs] False by (simp add: blocks_size_one)
    then show ?thesis using False j t long best_case_size[OF ok] blocks_size_nonneg[of bs t i]
      by (auto simp: jmp_off_def jmp_size_def fits_def Let_def long_jmp_size_def split: if_splits)
  qed
qed

text \<open>
  Where block \<open>i\<close> starts, the code decodes to what its instructions mean. Then comes the start of the
  next block, or a jump whose target, counted from the start of the next block, is the start of the
  block it names.
\<close>

definition block_in_code :: "X64_Instr list list \<Rightarrow> nat list \<Rightarrow> u8 list \<Rightarrow> nat \<Rightarrow> bool" where
  "block_in_code bblocks starts code i \<longleftrightarrow>
     (\<exists>rest. x86_decode_take (length (block_meaning (bblocks ! i))) (drop (starts ! i) code) =
               Some (block_meaning (bblocks ! i), rest) \<and>
       (case block_jump (bblocks ! i) of
          None \<Rightarrow> rest = drop (starts ! (i + 1)) code
        | Some j \<Rightarrow> \<exists>r. x86_decode rest = Some (Insn (jmp_mnemonic j) [Rel r], drop (starts ! (i + 1)) code) \<and>
              int (starts ! (i + 1)) + sint r = int (starts ! the (jmp_target j))))"

definition starts_of :: "X64_TextBBlock list \<Rightarrow> nat list" where
  "starts_of bs = map (\<lambda>i. nat (blocks_size bs 0 i)) [0..<Suc (length bs)]"

lemma starts_of_nth: "i \<le> length bs \<Longrightarrow> int (starts_of bs ! i) = blocks_size bs 0 i"
  by (simp add: starts_of_def blocks_size_nonneg del: upt_Suc)

lemma block_in_code_relaxed:
  assumes inv: "blocks_inv bs" and good: "\<forall>i < length bs. good bs i" and len: "length bs = length bblocks"
    and i: "i < length bblocks"
    and blk: "jmp_instr (bs ! i) = block_jump (bblocks ! i)" "decodes_to (buffer (bs ! i)) (block_meaning (bblocks ! i))"
    and tgt: "\<And>j. block_jump (bblocks ! i) = Some j \<Longrightarrow> \<exists>t. jmp_target j = Some t \<and> t < length bblocks"
  shows "block_in_code bblocks (starts_of bs) (concat (map block_bytes bs)) i"
proof -
  let ?code = "concat (map block_bytes bs)" and ?b = "bs ! i"
  have enc: "\<forall>b \<in> set bs. encoded_block b" by (rule good_encoded_block[OF inv good])
  obtain pre post where c: "?code = pre @ block_bytes ?b @ post" "int (length pre) = blocks_size bs 0 i"
    using block_prefix[OF enc i[folded len]] by blast
  have s0: "starts_of bs ! i = length pre" using starts_of_nth[of i bs] c(2) i len by simp
  have s1: "starts_of bs ! (i + 1) = length (pre @ block_bytes ?b)"
    using starts_of_nth[of "i + 1" bs] c(2) i len length_block_bytes[of ?b] enc
      blocks_size_split[of 0 i "Suc i" bs] by (simp add: blocks_size_one)
  let ?jb = "if jmp_instr ?b = None then [] else jmp_bytes ?b"
  have d0: "drop (starts_of bs ! i) ?code = buffer ?b @ ?jb @ post"
    unfolding s0 c(1) by (simp add: block_bytes_def)
  have d1: "drop (starts_of bs ! (i + 1)) ?code = post" unfolding s1 c(1) by simp
  have take: "x86_decode_take (length (block_meaning (bblocks ! i))) (drop (starts_of bs ! i) ?code) =
      Some (block_meaning (bblocks ! i), ?jb @ post)"
    using blk(2) unfolding d0 decodes_to_def by blast
  show ?thesis
  proof (cases "block_jump (bblocks ! i)")
    case None
    then show ?thesis unfolding block_in_code_def d1 using take blk(1) by simp
  next
    case (Some j)
    obtain t where t: "jmp_target j = Some t" "t < length bblocks" using tgt[OF Some] by auto
    have ji: "jmp_instr ?b = Some j" using Some blk(1) by simp
    have g: "good bs i" using good i len by simp
    obtain r where r: "x86_decode (jmp_bytes ?b @ post) = Some (Insn (jmp_mnemonic j) [Rel r], post)"
        "sint r = jmp_off bs i"
      using encoded_decodes[of j ?b t post] g ji t(1) by (auto simp: good_def)
    have "int (starts_of bs ! (i + 1)) + sint r = int (starts_of bs ! t)"
      using jmp_off_lands[OF inv _ ji t(1) g] r(2) starts_of_nth[of "i + 1" bs] starts_of_nth[of t bs] i len t(2) by simp
    then show ?thesis unfolding block_in_code_def d1 using take Some ji r(1) t(1) by auto
  qed
qed

lemma elf_gen_instrs_eq:
  assumes "\<forall>is \<in> set bblocks. wf_bblock (length bblocks) is" "code_fits bblocks"
  shows "\<exists>ts bs. X64_elf_gen_instrs bblocks (buf, rels, patches) =
      Some (buf @ concat (map block_bytes bs),
        rels @ map (text_reloc (map (placed bs buf) [0..<length bs])) (concat (map (fst \<circ> snd) ts)),
        patches @ map (text_reloc (map (placed bs buf) [0..<length bs])) (concat (map (snd \<circ> snd) ts))) \<and>
      length ts = length bblocks \<and> (\<forall>i < length bblocks. gen_ok i (bblocks ! i) (ts ! i)) \<and>
      length bs = length bblocks \<and> shapes bs = shapes (map fst ts) \<and> blocks_inv bs \<and> (\<forall>i < length bs. good bs i)"
proof -
  obtain ts where t: "gen_bblocks 0 bblocks [] [] =
      Some (map fst ts, concat (map (fst \<circ> snd) ts), concat (map (snd \<circ> snd) ts))"
      "length ts = length bblocks" "\<forall>i < length bblocks. gen_ok i (bblocks ! i) (ts ! i)"
    using gen_bblocks_correct[OF assms(1), of 0 "[]" "[]"] by auto
  have "blocks_inv (map fst ts)"
    by (rule gen_blocks_inv[OF assms(1) t(2,3)]) (use assms(2) t(1) in \<open>simp add: code_fits_def\<close>)
  then obtain bs where bs: "X64_relax_jmps (map fst ts) = Some bs" "grows (map fst ts) bs" "\<forall>i < length bs. good bs i"
    using relax_jmps_terminates by blast
  have inv: "blocks_inv bs" "shapes bs = shapes (map fst ts)" "length bs = length bblocks"
    using bs(2) grows_length[OF bs(2)] t(2) unfolding grows_def by auto
  show ?thesis
    using t bs(1,3) inv serialize_bblocks_eq[OF good_encoded_block[OF inv(1) bs(3)], of buf]
    by (intro exI[of _ ts] exI[of _ bs]) (simp add: X64_elf_gen_instrs_def)
qed

section \<open>Usages in the code of the procedure\<close>

text \<open>\<open>rs\<close> record disjoint four-byte fields between \<open>lo\<close> and \<open>hi\<close>, each right before the next instruction.\<close>

definition text_uses :: "nat \<Rightarrow> nat \<Rightarrow> (ConstAddr \<Rightarrow> bool) \<Rightarrow> X64_TextReloc list \<Rightarrow> bool" where
  "text_uses lo hi P rs \<longleftrightarrow>
     (\<exists>ks. map usage_off rs = map of_nat ks \<and> spaced lo hi ks) \<and>
     (\<forall>r \<in> set rs. bytes_to_next_ip r = 4 \<and> P (ref_addr r))"

lemma text_uses_Nil: "lo \<le> hi \<Longrightarrow> text_uses lo hi P []"
  by (simp add: text_uses_def exI[of _ "[]"])

lemma text_uses_append:
  assumes "text_uses lo mid P rs" "text_uses mid hi P rs'"
  shows "text_uses lo hi P (rs @ rs')"
proof -
  obtain a b where "map usage_off rs = map of_nat a" "spaced lo mid a" "map usage_off rs' = map of_nat b" "spaced mid hi b"
    using assms unfolding text_uses_def by blast
  then show ?thesis using assms unfolding text_uses_def
    by (intro conjI exI[of _ "a @ b"]) (auto intro: spaced_append)
qed

lemma scast_small_nat: "k < 2 ^ 31 \<Longrightarrow> (scast (of_nat k :: u32) :: s64) = of_nat k"
proof -
  assume k: "k < 2 ^ 31"
  have "sint (word_of_int (int k) :: u32) = int k"
    unfolding sint_sbintrunc' using k by (intro signed_take_bit_int_eq_self) auto
  then have "sint (of_nat k :: u32) = int k" by simp
  then show ?thesis by (simp only: scast_eq) simp
qed

lemma text_uses_block:
  assumes "uses_in (of_nat i) 0 n P rs" "i < length bs" "i < 2 ^ 32" "n < 2 ^ 31"
    "final_offset (bs ! i) = of_nat off"
  shows "text_uses off (off + n) P (map (text_reloc bs) rs)"
proof -
  obtain kes where k: "rs = map (mk_reloc (of_nat i)) kes" "spaced 0 n (map fst kes)" "\<forall>ke \<in> set kes. P (snd ke)"
    using assms(1) unfolding uses_in_def by auto
  have ix: "unat (of_nat i :: u32) = i" using assms(3) by (simp add: unat_of_nat take_bit_nat_eq_self)
  have tr: "text_reloc bs (mk_reloc (of_nat i) ke) = \<lparr>usage_off = of_nat (off + fst ke), bytes_to_next_ip = 4, ref_addr = snd ke\<rparr>"
    if "ke \<in> set kes" for ke
  proof -
    have "fst ke < 2 ^ 31" using spaced_bound[OF k(2)] that assms(4) by fastforce
    then show ?thesis by (simp add: text_reloc_def mk_reloc_def ix assms(5) scast_small_nat)
  qed
  have "map usage_off (map (text_reloc bs) rs) = map of_nat (map ((+) off) (map fst kes))"
    using tr by (simp add: k(1))
  moreover have "spaced off (off + n) (map ((+) off) (map fst kes))" using spaced_shift[OF k(2), of off] by simp
  ultimately have "\<exists>ks. map usage_off (map (text_reloc bs) rs) = map of_nat ks \<and> spaced off (off + n) ks" by blast
  moreover have "\<forall>r \<in> set (map (text_reloc bs) rs). bytes_to_next_ip r = 4 \<and> P (ref_addr r)" using tr k(1,3) by auto
  ultimately show ?thesis unfolding text_uses_def by blast
qed

lemma text_uses_blocks:
  assumes u: "\<forall>i < length bs. uses_in (of_nat i) 0 (length (buffer (bs ! i))) P (rss ! i)" and n: "length rss = length bs"
    and inv: "blocks_inv bs" and good: "\<forall>i < length bs. good bs i"
  shows "text_uses (length buf) (length (buf @ concat (map block_bytes bs))) P
    (map (text_reloc (map (placed bs buf) [0..<length bs])) (concat rss))"
proof -
  let ?tr = "text_reloc (map (placed bs buf) [0..<length bs])"
  have enc: "\<forall>b \<in> set bs. encoded_block b" by (rule good_encoded_block[OF inv good])
  have tot: "(\<Sum>b \<leftarrow> bs. int (length (buffer b)) + 6) < 2 ^ 31" using inv by (simp add: blocks_inv_def wf_blocks_def)
  have "int (length bs) \<le> (\<Sum>b \<leftarrow> bs. int (length (buffer b)) + 6)" by (induction bs) auto
  then have len: "length bs < 2 ^ 31" using tot by simp
  have "text_uses (length buf) (length buf + nat (blocks_size bs 0 m)) P (map ?tr (concat (take m rss)))" if "m \<le> length bs" for m
    using that
  proof (induction m)
    case 0 show ?case by (simp add: text_uses_Nil)
  next
    case (Suc m)
    then have m: "m < length bs" by simp
    have "length (buffer (bs ! m)) < 2 ^ 31"
      using blocks_size_le_total[of m m bs] inv m tot blocks_size_nonneg[of bs m m] by (simp add: blocks_inv_def)
    moreover have "final_offset (map (placed bs buf) [0..<length bs] ! m) = of_nat (length buf + nat (blocks_size bs 0 m))"
      using m by (simp add: placed_def)
    ultimately have "text_uses (length buf + nat (blocks_size bs 0 m))
        (length buf + nat (blocks_size bs 0 m) + length (buffer (bs ! m))) P (map ?tr (rss ! m))"
      using u m len by (intro text_uses_block) auto
    moreover have "length buf + nat (blocks_size bs 0 m) + length (buffer (bs ! m)) \<le> length buf + nat (blocks_size bs 0 (Suc m))"
      using blocks_size_split[of 0 m "Suc m" bs] blocks_size_nonneg[of bs 0 m] length_block_bytes[of "bs ! m"] enc m
      by (simp add: blocks_size_one block_bytes_def)
    ultimately have "text_uses (length buf + nat (blocks_size bs 0 m)) (length buf + nat (blocks_size bs 0 (Suc m))) P (map ?tr (rss ! m))"
      unfolding text_uses_def using spaced_weaken by blast
    moreover have "concat (take (Suc m) rss) = concat (take m rss) @ rss ! m"
      using m n by (simp add: take_Suc_conv_app_nth)
    ultimately show ?case using text_uses_append Suc by simp
  qed
  from this[of "length bs"] show ?thesis
    using n by (simp add: length_concat_blocks[OF enc, of "length bs", simplified, symmetric])
qed

lemma mset_concat_parts:
  "length rss = length ts \<Longrightarrow> \<forall>i < length ts. mset (rss ! i) = mset (f (ts ! i) @ g (ts ! i)) \<Longrightarrow>
   mset (concat rss) = mset (concat (map f ts) @ concat (map g ts))"
proof (induction rss ts rule: list_induct2)
  case (Cons r rss t ts)
  have "mset (concat rss) = mset (concat (map f ts) @ concat (map g ts))" using Cons.IH Cons.prems by fastforce
  moreover have "mset r = mset (f t @ g t)" using Cons.prems by fastforce
  ultimately show ?case by (simp add: ac_simps)
qed simp

lemma text_uses_apart:
  assumes "\<forall>i < length bs. uses_apart (of_nat i) 0 (length (buffer (bs ! i))) (f (ts ! i)) (g (ts ! i))" "length ts = length bs"
    and "blocks_inv bs" "\<forall>i < length bs. good bs i"
  shows "\<exists>uses. mset uses = mset (map (text_reloc (map (placed bs buf) [0..<length bs])) (concat (map f ts)) @
        map (text_reloc (map (placed bs buf) [0..<length bs])) (concat (map g ts))) \<and>
      text_uses (length buf) (length (buf @ concat (map block_bytes bs))) (\<lambda>_. True) uses"
proof -
  let ?tr = "text_reloc (map (placed bs buf) [0..<length bs])"
  have "\<forall>i \<in> {..<length bs}. \<exists>us. uses_in (of_nat i) 0 (length (buffer (bs ! i))) (\<lambda>_. True) us \<and> mset us = mset (f (ts ! i) @ g (ts ! i))"
    using assms(1) unfolding uses_apart_def by blast
  then obtain u where u: "\<forall>i \<in> {..<length bs}. uses_in (of_nat i) 0 (length (buffer (bs ! i))) (\<lambda>_. True) (u i) \<and>
      mset (u i) = mset (f (ts ! i) @ g (ts ! i))"
    by (rule bchoice[THEN exE])
  let ?us = "map u [0..<length bs]"
  have "mset (concat ?us) = mset (concat (map f ts) @ concat (map g ts))"
    by (rule mset_concat_parts) (use u assms(2) in auto)
  then have "image_mset ?tr (mset (concat ?us)) = image_mset ?tr (mset (concat (map f ts) @ concat (map g ts)))" by (rule arg_cong)
  then have "mset (map ?tr (concat ?us)) = mset (map ?tr (concat (map f ts)) @ map ?tr (concat (map g ts)))"
    by (simp only: mset_map[symmetric] map_append)
  moreover have "text_uses (length buf) (length (buf @ concat (map block_bytes bs))) (\<lambda>_. True) (map ?tr (concat ?us))"
    by (rule text_uses_blocks[OF _ _ assms(3,4)]) (use u in auto)
  ultimately show ?thesis by blast
qed

text \<open>Everything about the code of one procedure.\<close>

lemma procedure_full:
  assumes "\<forall>is \<in> set bblocks. wf_bblock (length bblocks) is" "code_fits bblocks"
  shows "\<exists>code starts rels' patches' uses.
      X64_elf_gen_instrs bblocks (buf, rels, patches) = Some (buf @ code, rels @ rels', patches @ patches') \<and>
      starts ! 0 = 0 \<and> starts ! length bblocks = length code \<and>
      (\<forall>i < length bblocks. block_in_code bblocks starts code i) \<and>
      text_uses (length buf) (length (buf @ code)) (\<lambda>e. \<not> patched_by_compiler e) rels' \<and>
      text_uses (length buf) (length (buf @ code)) patched_by_compiler patches' \<and>
      mset uses = mset (rels' @ patches') \<and> text_uses (length buf) (length (buf @ code)) (\<lambda>_. True) uses"
proof -
  obtain ts bs where e: "X64_elf_gen_instrs bblocks (buf, rels, patches) =
      Some (buf @ concat (map block_bytes bs),
        rels @ map (text_reloc (map (placed bs buf) [0..<length bs])) (concat (map (fst \<circ> snd) ts)),
        patches @ map (text_reloc (map (placed bs buf) [0..<length bs])) (concat (map (snd \<circ> snd) ts)))"
      "length ts = length bblocks" "\<forall>i < length bblocks. gen_ok i (bblocks ! i) (ts ! i)"
      "length bs = length bblocks" "shapes bs = shapes (map fst ts)" "blocks_inv bs" "\<forall>i < length bs. good bs i"
    using elf_gen_instrs_eq[OF assms] by blast
  have "block_in_code bblocks (starts_of bs) (concat (map block_bytes bs)) i" if i: "i < length bblocks" for i
  proof (rule block_in_code_relaxed[OF e(6,7,4) i])
    have g: "gen_ok i (bblocks ! i) (ts ! i)" using e(3) i by simp
    show "jmp_instr (bs ! i) = block_jump (bblocks ! i)" "decodes_to (buffer (bs ! i)) (block_meaning (bblocks ! i))"
      using g shapes_nth[OF e(5), of i] i e(2) by (simp_all add: gen_ok_def Let_def)
    show "\<exists>t. jmp_target j = Some t \<and> t < length bblocks" if "block_jump (bblocks ! i) = Some j" for j
      using wf_bblock_target[OF _ that] assms(1) i by simp
  qed
  moreover have "starts_of bs ! 0 = 0" using starts_of_nth[of 0 bs] by (simp add: blocks_size_def)
  moreover have "int (starts_of bs ! length bblocks) = int (length (concat (map block_bytes bs)))"
    using starts_of_nth[of "length bs" bs] length_concat_blocks[OF good_encoded_block[OF e(6,7)], of "length bs"] e(4) by simp
  moreover have b: "buffer (bs ! i) = buffer (fst (ts ! i))" if "i < length bs" for i
    using shapes_nth[OF e(5), of i] that e(2,4) by simp
  have "text_uses (length buf) (length (buf @ concat (map block_bytes bs))) (\<lambda>e. \<not> patched_by_compiler e)
      (map (text_reloc (map (placed bs buf) [0..<length bs])) (concat (map (fst \<circ> snd) ts)))"
    by (rule text_uses_blocks[OF _ _ e(6,7)]) (use b e(2,3,4) in \<open>auto simp: gen_ok_def Let_def\<close>)
  moreover have "text_uses (length buf) (length (buf @ concat (map block_bytes bs))) patched_by_compiler
      (map (text_reloc (map (placed bs buf) [0..<length bs])) (concat (map (snd \<circ> snd) ts)))"
    by (rule text_uses_blocks[OF _ _ e(6,7)]) (use b e(2,3,4) in \<open>auto simp: gen_ok_def Let_def\<close>)
  moreover obtain uses where "mset uses = mset (map (text_reloc (map (placed bs buf) [0..<length bs])) (concat (map (fst \<circ> snd) ts)) @
        map (text_reloc (map (placed bs buf) [0..<length bs])) (concat (map (snd \<circ> snd) ts)))"
      "text_uses (length buf) (length (buf @ concat (map block_bytes bs))) (\<lambda>_. True) uses"
  proof -
    have "\<forall>i < length bs. uses_apart (of_nat i) 0 (length (buffer (bs ! i))) ((fst \<circ> snd) (ts ! i)) ((snd \<circ> snd) (ts ! i))"
      using b e(3,4) by (auto simp: gen_ok_def Let_def)
    moreover have "length ts = length bs" using e(2,4) by simp
    ultimately show thesis using text_uses_apart[OF _ _ e(6,7), of "fst \<circ> snd" ts "snd \<circ> snd" buf] that by blast
  qed
  ultimately show ?thesis using e(1)
    by (intro exI[of _ "concat (map block_bytes bs)"] exI[of _ "starts_of bs"] exI[of _ uses] exI conjI) auto
qed

text \<open>
  C1. For well-formed blocks, \<open>X64_elf_gen_instrs\<close> returns (the jump-size loop ends and no assertion
  fails), appends the code of the procedure to the buffer, and in that code every block decodes to its
  instructions and every jump, in whichever of its forms, lands on the first byte of its target.
\<close>

theorem procedure_code_correct:
  assumes "\<forall>is \<in> set bblocks. wf_bblock (length bblocks) is" "code_fits bblocks"
  shows "\<exists>code starts rels' patches'.
      X64_elf_gen_instrs bblocks (buf, rels, patches) = Some (buf @ code, rels @ rels', patches @ patches') \<and>
      starts ! 0 = 0 \<and> starts ! length bblocks = length code \<and>
      (\<forall>i < length bblocks. block_in_code bblocks starts code i)"
  using procedure_full[OF assms, of buf rels patches] by blast

definition sample_loop :: "X64_Instr list list" where
  "sample_loop =
     [[Mov (X64_MOV_RI 4 X64_RCX 10)],
      [Bin (X64_BIN_RI X64_SUB 4 X64_RCX 1), Bin (X64_BIN_RI X64_CMP 4 X64_RCX 0), Ctrl (X64_JMPCC COND_NEQ 1)],
      [Ctrl X64_RET]]"

lemma procedure_code_correct_witness:
  "\<exists>code starts rels' patches'.
      X64_elf_gen_instrs sample_loop ([0x90], [], []) = Some ([0x90] @ code, [] @ rels', [] @ patches') \<and>
      starts ! 0 = 0 \<and> starts ! length sample_loop = length code \<and>
      (\<forall>i < length sample_loop. block_in_code sample_loop starts code i)"
proof (rule procedure_code_correct)
  show "\<forall>is \<in> set sample_loop. wf_bblock (length sample_loop) is"
    by (simp add: sample_loop_def plain_instr_def wf_size_def wf_reg_def x64_reg_classes_def)
  show "code_fits sample_loop" by code_simp
qed

text \<open>
  C5. The relocations and the procedure patches that \<open>X64_elf_gen_instrs\<close> adds name four-byte fields inside the code
  it appended, each ending four bytes after its offset, and an entity is on the patch list exactly when it is a
  procedure of the program itself. The fields of both lists taken together are pairwise disjoint: put in the order of
  their offsets (\<open>uses\<close>), each begins at or after the end of the one before it.
\<close>

theorem procedure_usages_in_code:
  assumes "\<forall>is \<in> set bblocks. wf_bblock (length bblocks) is" "code_fits bblocks"
  shows "\<exists>code rels' patches' uses.
      X64_elf_gen_instrs bblocks (buf, rels, patches) = Some (buf @ code, rels @ rels', patches @ patches') \<and>
      text_uses (length buf) (length (buf @ code)) (\<lambda>e. \<not> patched_by_compiler e) rels' \<and>
      text_uses (length buf) (length (buf @ code)) patched_by_compiler patches' \<and>
      mset uses = mset (rels' @ patches') \<and> text_uses (length buf) (length (buf @ code)) (\<lambda>_. True) uses"
  using procedure_full[OF assms, of buf rels patches] by blast

abbreviation sample_proc :: Symbol where
  "sample_proc \<equiv> \<lparr>sym_id = 2, sym_kind = SYMBOL_PROC, decl_is_foreign = False, as_proc_index = 0\<rparr>"

definition sample_calls :: "X64_Instr list list" where
  "sample_calls =
     [[Mov (X64_LEA X64_RDI (X64_SIBD_ADDR_GLOBAL sample_var)), Ctrl (X64_CALL sample_proc), Ctrl (X64_JMP 1)],
      [Ctrl (X64_CALL sample_proc), Ctrl X64_RET]]"

lemma procedure_usages_in_code_witness:
  "\<exists>code rels' patches' uses.
      X64_elf_gen_instrs sample_calls ([0x90], [], []) = Some ([0x90] @ code, [] @ rels', [] @ patches') \<and>
      text_uses (length [0x90 :: u8]) (length ([0x90] @ code)) (\<lambda>e. \<not> patched_by_compiler e) rels' \<and>
      text_uses (length [0x90 :: u8]) (length ([0x90] @ code)) patched_by_compiler patches' \<and>
      mset uses = mset (rels' @ patches') \<and> text_uses (length [0x90 :: u8]) (length ([0x90] @ code)) (\<lambda>_. True) uses"
proof (rule procedure_usages_in_code)
  show "\<forall>is \<in> set sample_calls. wf_bblock (length sample_calls) is"
    by (simp add: sample_calls_def plain_instr_def wf_size_def wf_reg_def x64_reg_classes_def)
  show "code_fits sample_calls" by code_simp
qed

section \<open>Patching the uses of procedures\<close>

abbreviation in_field :: "nat \<Rightarrow> X64_TextReloc \<Rightarrow> bool" where
  "in_field b r \<equiv> unat (usage_off r) \<le> b \<and> b < unat (usage_off r) + 4"

lemma text_uses_Cons:
  assumes "text_uses lo hi P (r # rs)" "hi < 2 ^ 63"
  shows "lo \<le> unat (usage_off r) \<and> unat (usage_off r) + 4 \<le> hi \<and> bytes_to_next_ip r = 4 \<and> P (ref_addr r) \<and>
    text_uses (unat (usage_off r) + 4) hi P rs \<and> usage_off r = of_nat (unat (usage_off r))"
proof -
  obtain ks where ks: "map usage_off (r # rs) = map of_nat ks" "spaced lo hi ks"
      "\<forall>r \<in> set (r # rs). bytes_to_next_ip r = 4 \<and> P (ref_addr r)"
    using assms(1) unfolding text_uses_def by blast
  then obtain k ks' where k: "ks = k # ks'" "usage_off r = of_nat k" "map usage_off rs = map of_nat ks'" by (cases ks) auto
  have b: "lo \<le> k" "k + 4 \<le> hi" "spaced (k + 4) hi ks'" using ks(2) spaced_bound k(1) by auto
  then have "unat (usage_off r) = k" using k(2) assms(2) by (simp add: unat_of_nat take_bit_nat_eq_self)
  then show ?thesis using b ks(3) k unfolding text_uses_def by auto
qed

lemma text_uses_fields: "text_uses lo hi P rs \<Longrightarrow> hi < 2 ^ 63 \<Longrightarrow> r \<in> set rs \<Longrightarrow> lo \<le> unat (usage_off r) \<and> unat (usage_off r) + 4 \<le> hi"
proof (induction rs arbitrary: lo)
  case (Cons a rs)
  then show ?case using text_uses_Cons[OF Cons.prems(1,2)] by fastforce
qed simp

lemma sint_of_nat_small: "k < 2 ^ 63 \<Longrightarrow> sint (of_nat k :: s64) = int k"
proof -
  assume k: "k < 2 ^ 63"
  have "sint (word_of_int (int k) :: u64) = int k"
    unfolding sint_sbintrunc' using k by (intro signed_take_bit_int_eq_self) auto
  then show ?thesis by simp
qed

lemma patch_value_distance:
  assumes "usage_off r = of_nat k" "bytes_to_next_ip r = 4" "k + 4 < 2 ^ 31" "unat (offs (as_proc_index s)) < 2 ^ 31"
  shows "int k + 4 + sint (patch_value offs r s) = int (unat (offs (as_proc_index s)))"
proof -
  obtain n where n: "unat (offs (as_proc_index s)) = n" by simp
  then have o: "offs (as_proc_index s) = of_nat n" by (simp flip: n)
  let ?d = "int n - (int k + 4)"
  have "(of_nat n :: s64) - (of_nat k + 4) = word_of_int ?d" by simp
  then have "patch_value offs r s = scast (word_of_int ?d :: s64)"
    using assms(1,2) by (simp add: patch_value_def o)
  also have "\<dots> = word_of_int ?d"
  proof -
    have "sint (word_of_int ?d :: s64) = ?d"
      unfolding sint_sbintrunc' using assms(3,4) n by (intro signed_take_bit_int_eq_self) auto
    then show ?thesis by (simp only: scast_eq)
  qed
  finally have v: "patch_value offs r s = (word_of_int ?d :: s32)" .
  have "sint (word_of_int ?d :: s32) = ?d"
    unfolding sint_sbintrunc' using assms(3,4) n by (intro signed_take_bit_int_eq_self) auto
  then show ?thesis unfolding v n by linarith
qed

definition field_holds_distance :: "(nat \<Rightarrow> u64) \<Rightarrow> u8 list \<Rightarrow> X64_TextReloc \<Rightarrow> bool" where
  "field_holds_distance offs buf r \<longleftrightarrow>
     (\<exists>s v. ref_addr r = CONST_ADDR_SYM s \<and> take 4 (drop (unat (usage_off r)) buf) = le_bytes 4 (v :: s32) \<and>
        int (unat (usage_off r)) + 4 + sint v = int (unat (offs (as_proc_index s))))"

lemma write_s32_ok: "k + 4 \<le> length buf \<Longrightarrow> write_s32 buf (int k) v = Some (take k buf @ le_bytes 4 v @ drop (k + 4) buf)"
  by (simp add: write_s32_def)

lemma patch_proc_uses_induct:
  assumes "text_uses lo hi patched_by_compiler ps" "hi \<le> length buf" "length buf < 2 ^ 31" "\<forall>s. CONST_ADDR_SYM s \<in> ref_addr ` set ps \<longrightarrow> unat (offs (as_proc_index s)) < 2 ^ 31"
  shows "\<exists>buf'. X64_patch_proc_uses ps offs buf = Some buf' \<and> length buf' = length buf \<and>
    (\<forall>r \<in> set ps. field_holds_distance offs buf' r) \<and>
    (\<forall>b < length buf. (\<forall>r \<in> set ps. \<not> in_field b r) \<longrightarrow> buf' ! b = buf ! b)"
  using assms
proof (induction ps arbitrary: lo buf)
  case (Cons r ps)
  let ?k = "unat (usage_off r)"
  have u: "lo \<le> ?k" "?k + 4 \<le> hi" "bytes_to_next_ip r = 4" "patched_by_compiler (ref_addr r)"
      "text_uses (?k + 4) hi patched_by_compiler ps" "usage_off r = of_nat ?k"
    using text_uses_Cons[OF Cons.prems(1)] Cons.prems(2,3) by auto
  obtain s where s: "ref_addr r = CONST_ADDR_SYM s" using u(4) by (cases "ref_addr r") auto
  let ?v = "patch_value offs r s"
  let ?buf = "take ?k buf @ le_bytes 4 ?v @ drop (?k + 4) buf"
  have "?k < 2 ^ 63" using u(2) Cons.prems(2,3) by simp
  then have sk: "sint (usage_off r) = int ?k" by (subst u(6)) (rule sint_of_nat_small)
  have w: "write_s32 buf (sint (usage_off r)) ?v = Some ?buf"
    unfolding sk using u(2) Cons.prems(2) by (intro write_s32_ok) simp
  have len: "length ?buf = length buf" using u(2) Cons.prems(2) by simp
  have small: "\<forall>s. CONST_ADDR_SYM s \<in> ref_addr ` set ps \<longrightarrow> unat (offs (as_proc_index s)) < 2 ^ 31" using Cons.prems(4) by simp
  obtain buf' where b: "X64_patch_proc_uses ps offs ?buf = Some buf'" "length buf' = length buf"
      "\<forall>r \<in> set ps. field_holds_distance offs buf' r"
      "\<forall>b < length buf. (\<forall>r \<in> set ps. \<not> in_field b r) \<longrightarrow> buf' ! b = ?buf ! b"
    using Cons.IH[OF u(5), of ?buf] Cons.prems(2,3) small unfolding len by blast
  have low: "buf' ! b = ?buf ! b" if "b < ?k + 4" for b
  proof -
    have "\<not> in_field b r'" if "r' \<in> set ps" for r'
      using text_uses_fields[OF u(5) _ that] \<open>b < ?k + 4\<close> Cons.prems(2,3) by force
    then show ?thesis using b(4) that u(2) Cons.prems(2) by simp
  qed
  have "take 4 (drop ?k buf') = take 4 (drop ?k ?buf)"
  proof (rule nth_equalityI)
    show "length (take 4 (drop ?k buf')) = length (take 4 (drop ?k ?buf))"
      unfolding length_take length_drop b(2) len ..
    fix i assume "i < length (take 4 (drop ?k buf'))"
    then have i: "i < 4" "?k + i < length buf" using b(2) by auto
    have "take 4 (drop ?k buf') ! i = buf' ! (?k + i)" using i b(2) by (subst nth_take) auto
    also have "\<dots> = ?buf ! (?k + i)" using low i(1) by simp
    also have "\<dots> = take 4 (drop ?k ?buf) ! i" using i len by (simp only: nth_take nth_drop length_drop)
    finally show "take 4 (drop ?k buf') ! i = take 4 (drop ?k ?buf) ! i" .
  qed
  also have "\<dots> = le_bytes 4 ?v" using u(2) Cons.prems(2) by (simp del: le_bytes_simps)
  finally have "field_holds_distance offs buf' r"
    using patch_value_distance[OF u(6,3), of offs s] u(2) Cons.prems(2-4) s unfolding field_holds_distance_def by auto
  moreover have "buf' ! c = buf ! c" if "c < length buf" "\<forall>r' \<in> set (r # ps). \<not> in_field c r'" for c
  proof -
    have "buf' ! c = ?buf ! c" using b(4) that by simp
    also have "\<dots> = buf ! c" using that u(2) Cons.prems(2)
      by (auto simp: nth_append min_def simp del: le_bytes_simps)
    finally show ?thesis .
  qed
  ultimately show ?case using b w s by (intro exI[of _ buf']) simp
qed simp

text \<open>
  C6. Patching writes into the recorded field of every use of a procedure the distance from the next
  instruction to the start of that procedure, and changes no other byte of the code.
\<close>

theorem patch_proc_uses_correct:
  assumes "text_uses 0 (length buf) patched_by_compiler ps" "length buf < 2 ^ 31" "\<forall>s. CONST_ADDR_SYM s \<in> ref_addr ` set ps \<longrightarrow> unat (offs (as_proc_index s)) < 2 ^ 31"
  shows "\<exists>buf'. X64_patch_proc_uses ps offs buf = Some buf' \<and> length buf' = length buf \<and>
    (\<forall>r \<in> set ps. field_holds_distance offs buf' r) \<and>
    (\<forall>b < length buf. (\<forall>r \<in> set ps. \<not> in_field b r) \<longrightarrow> buf' ! b = buf ! b)"
  using patch_proc_uses_induct[OF assms(1) order_refl assms(2,3)] .

lemma patch_proc_uses_correct_witness:
  "\<exists>buf'. X64_patch_proc_uses [\<lparr>usage_off = 1, bytes_to_next_ip = 4, ref_addr = CONST_ADDR_SYM sample_proc\<rparr>]
      (\<lambda>_. 64) [0xE8, 0, 0, 0, 0, 0xC3] = Some buf' \<and> length buf' = length [0xE8, 0, 0, 0, 0, 0xC3 :: u8] \<and>
    (\<forall>r \<in> set [\<lparr>usage_off = 1, bytes_to_next_ip = 4, ref_addr = CONST_ADDR_SYM sample_proc\<rparr>].
       field_holds_distance (\<lambda>_. 64) buf' r) \<and>
    (\<forall>b < length [0xE8, 0, 0, 0, 0, 0xC3 :: u8].
       (\<forall>r \<in> set [\<lparr>usage_off = 1, bytes_to_next_ip = 4, ref_addr = CONST_ADDR_SYM sample_proc\<rparr>]. \<not> in_field b r) \<longrightarrow>
       buf' ! b = [0xE8, 0, 0, 0, 0, 0xC3] ! b)"
  by (rule patch_proc_uses_correct) (simp_all add: text_uses_def exI[of _ "[1]"])

end
