(* ===== verification/Text_Section.thy ===== *)
theory Text_Section
  imports Proc_Code
begin

text \<open>
  The text section (\<open>src/src/x64_gen/text.c\<close>): the startup code, the code of every defined procedure,
  the patch of the call of \<open>main\<close> in the startup code and of the calls between procedures. The
  instructions of a procedure (the result of \<open>X64_gen_proc_instrs\<close>) are part of the input here.
\<close>

section \<open>Startup code\<close>

definition startup_code :: "u8 list" where
  "startup_code =
     [0x48, 0x31, 0xed, 0x8b, 0x3c, 0x24, 0x48, 0x8d, 0x74, 0x24, 0x08, 0x48, 0x8d, 0x54, 0xfc, 0x10,
      0x31, 0xc0, 0xe8, 0x09, 0x00, 0x00, 0x00, 0x89, 0xc7, 0xb8, 0x3c, 0x00, 0x00, 0x00, 0x0f, 0x05]"

definition startup_code_main_offset_loc :: nat where
  "startup_code_main_offset_loc = 0x13"

definition startup_code_next_ip_after_call :: nat where
  "startup_code_next_ip_after_call = 0x17"

section \<open>The section\<close>

record proc_input =
  proc_index :: nat
  is_incomplete :: bool
  proc_instrs :: "X64_Instr list list"

record X64_TextSection =
  ts_buf :: "u8 list"
  ts_size :: nat
  ts_align :: u32
  ts_proc_offs :: "u64 list"
  ts_relocs :: "X64_TextReloc list"

text \<open>The loop over the procedures; a write outside the array of offsets is an abort.\<close>

fun gen_procs ::
  "proc_input list \<Rightarrow> u64 list \<Rightarrow> u8 list \<times> X64_TextReloc list \<times> X64_TextReloc list \<Rightarrow>
   (u64 list \<times> u8 list \<times> X64_TextReloc list \<times> X64_TextReloc list) option" where
  "gen_procs [] offs out = Some (offs, out)"
| "gen_procs (p # ps) offs out =
     (if is_incomplete p then gen_procs ps offs out
      else do {
        assert_opt (proc_index p < length offs);
        let offs = offs[proc_index p := of_nat (length (fst out))];
        out \<leftarrow> X64_elf_gen_instrs (proc_instrs p) out;
        gen_procs ps offs out })"

definition X64_init_text_section :: "proc_input list \<Rightarrow> nat \<Rightarrow> X64_TextSection option" where
  "X64_init_text_section procs main_index = do {
     let offs = replicate (length procs) 0;
     (offs, buf, rels, patches) \<leftarrow> gen_procs procs offs (startup_code, [], []);
     assert_opt (main_index < length offs);
     buf \<leftarrow> write_s32 buf (int startup_code_main_offset_loc)
              (ucast (offs ! main_index) - of_nat startup_code_next_ip_after_call);
     assert_opt (\<forall>p \<in> set patches. \<forall>s. ref_addr p = CONST_ADDR_SYM s \<longrightarrow> as_proc_index s < length offs);
     buf \<leftarrow> X64_patch_proc_uses patches (\<lambda>i. offs ! i) buf;
     Some \<lparr>ts_buf = buf, ts_size = length buf, ts_align = 0x10, ts_proc_offs = offs, ts_relocs = rels\<rparr> }"

section \<open>Startup code decodes\<close>

lemma startup_insns:
  "x86_decode (0x48 # 0x31 # 0xed # rest) = Some (Insn M_XOR [Gpr 8 X64_RBP, Gpr 8 X64_RBP], rest)"
  "x86_decode (0x8b # 0x3c # 0x24 # rest) = Some (Insn M_MOV [Gpr 4 X64_RDI, Mem 4 (MemBase X64_RSP None 0)], rest)"
  "x86_decode (0x48 # 0x8d # 0x74 # 0x24 # 0x08 # rest) = Some (Insn M_LEA [Gpr 8 X64_RSI, Mem 8 (MemBase X64_RSP None 8)], rest)"
  "x86_decode (0x48 # 0x8d # 0x54 # 0xfc # 0x10 # rest) =
     Some (Insn M_LEA [Gpr 8 X64_RDX, Mem 8 (MemBase X64_RSP (Some (X64_RDI, 8)) 16)], rest)"
  "x86_decode (0x31 # 0xc0 # rest) = Some (Insn M_XOR [Gpr 4 X64_RAX, Gpr 4 X64_RAX], rest)"
  "x86_decode (0x89 # 0xc7 # rest) = Some (Insn M_MOV [Gpr 4 X64_RDI, Gpr 4 X64_RAX], rest)"
  "x86_decode (0xb8 # 0x3c # 0x00 # 0x00 # 0x00 # rest) = Some (Insn M_MOV [Gpr 4 X64_RAX, Imm 60], rest)"
  "x86_decode (0x0f # 0x05 # rest) = Some (Insn M_SYSCALL [], rest)"
  by code_simp+

lemma decode_take_step:
  "0 < n \<Longrightarrow> x86_decode_take n bs =
     do { (i, bs) \<leftarrow> x86_decode bs; (is, bs) \<leftarrow> x86_decode_take (n - 1) bs; Some (i # is, bs) }"
  by (cases n) simp_all

lemma decode_n_step:
  "0 < n \<Longrightarrow> x86_decode_n n bs = do { (i, bs) \<leftarrow> x86_decode bs; is \<leftarrow> x86_decode_n (n - 1) bs; Some (i # is) }"
  by (cases n) simp_all

lemma startup_call:
  "x86_decode (0xE8 # ucast v # ucast (drop_bit 8 v) # ucast (drop_bit 16 v) # ucast (drop_bit 24 v) # rest) =
     Some (Insn M_CALL [Rel v], rest)" for v :: s32
  by (simp add: x86_decode_def dec_ctx_def dec_body_def dec_one_a_def dec_one_b_def le32_bytes)

text \<open>The machine code of the startup code with the displacement \<open>v\<close> in the call of \<open>main\<close>.\<close>

definition patched_startup :: "s32 \<Rightarrow> u8 list" where
  "patched_startup v =
     take startup_code_main_offset_loc startup_code @ le_bytes 4 v @ drop (startup_code_main_offset_loc + 4) startup_code"

lemma patched_startup_eq:
  "patched_startup v =
     [0x48, 0x31, 0xed, 0x8b, 0x3c, 0x24, 0x48, 0x8d, 0x74, 0x24, 0x08, 0x48, 0x8d, 0x54, 0xfc, 0x10, 0x31, 0xc0, 0xE8] @
     [ucast v, ucast (drop_bit 8 v), ucast (drop_bit 16 v), ucast (drop_bit 24 v)] @
     [0x89, 0xc7, 0xb8, 0x3c, 0x00, 0x00, 0x00, 0x0f, 0x05]"
  by (simp add: patched_startup_def startup_code_def startup_code_main_offset_loc_def)

text \<open>
  C7. Whatever displacement is patched in for the call of \<open>main\<close>, the startup code is the instruction
  sequence its comment lists: the frame pointer is cleared, \<open>argc\<close>, \<open>argv\<close> and \<open>envp\<close> are loaded from the
  initial stack, \<open>main\<close> is called, and its result is the exit status of the system call that follows;
  the instruction after the call is at offset 0x17, the one the displacement is relative to.
\<close>

theorem startup_code_decodes:
  "x86_decode_take 6 (patched_startup v) =
     Some ([Insn M_XOR [Gpr 8 X64_RBP, Gpr 8 X64_RBP],
            Insn M_MOV [Gpr 4 X64_RDI, Mem 4 (MemBase X64_RSP None 0)],
            Insn M_LEA [Gpr 8 X64_RSI, Mem 8 (MemBase X64_RSP None 8)],
            Insn M_LEA [Gpr 8 X64_RDX, Mem 8 (MemBase X64_RSP (Some (X64_RDI, 8)) 16)],
            Insn M_XOR [Gpr 4 X64_RAX, Gpr 4 X64_RAX],
            Insn M_CALL [Rel v]],
           drop startup_code_next_ip_after_call startup_code) \<and>
   x86_decode_n 3 (drop startup_code_next_ip_after_call startup_code) =
     Some [Insn M_MOV [Gpr 4 X64_RDI, Gpr 4 X64_RAX],
           Insn M_MOV [Gpr 4 X64_RAX, Imm 60],
           Insn M_SYSCALL []]"
  unfolding patched_startup_eq
  by (simp add: startup_insns startup_call decode_take_step decode_n_step startup_code_def startup_code_next_ip_after_call_def)

section \<open>Generating the procedures\<close>

definition wf_procs :: "nat \<Rightarrow> proc_input list \<Rightarrow> bool" where
  "wf_procs n procs \<longleftrightarrow>
     distinct (map proc_index procs) \<and>
     (\<forall>p \<in> set procs. proc_index p < n \<and>
        (\<not> is_incomplete p \<longrightarrow> (\<forall>is \<in> set (proc_instrs p). wf_bblock (length (proc_instrs p)) is) \<and> code_fits (proc_instrs p)))"

text \<open>The code of \<open>p\<close> before patching is at its offset.\<close>

definition proc_at :: "u64 list \<Rightarrow> u8 list \<Rightarrow> proc_input \<Rightarrow> bool" where
  "proc_at offs buf p \<longleftrightarrow>
     (\<exists>pre code post starts. buf = pre @ code @ post \<and> offs ! proc_index p = of_nat (length pre) \<and>
        length startup_code \<le> length pre \<and>
        starts ! 0 = 0 \<and> (\<forall>i < length (proc_instrs p). block_in_code (proc_instrs p) starts code i))"

definition offs_ok :: "u64 list \<Rightarrow> u8 list \<Rightarrow> bool" where
  "offs_ok offs buf \<longleftrightarrow> (\<forall>o' \<in> set offs. \<exists>k \<le> length buf. o' = of_nat k)"

lemma offs_ok_mono: "offs_ok offs buf \<Longrightarrow> offs_ok offs (buf @ code)"
  unfolding offs_ok_def by (metis le_add1 length_append order_trans)

lemma offs_ok_update: "offs_ok offs buf \<Longrightarrow> offs_ok (offs[i := of_nat (length buf)]) buf"
  unfolding offs_ok_def using set_update_subset_insert by fastforce

lemma gen_procs_correct:
  assumes "wf_procs (length offs) ps" "length startup_code \<le> length buf"
    "text_uses lo (length buf) patched_by_compiler patches"
    "text_uses lo (length buf) (\<lambda>e. \<not> patched_by_compiler e) rels" "offs_ok offs buf"
  shows "\<exists>offs' code rels' patches'. gen_procs ps offs (buf, rels, patches) = Some (offs', buf @ code, rels @ rels', patches @ patches') \<and>
     length offs' = length offs \<and> offs_ok offs' (buf @ code) \<and>
     text_uses lo (length (buf @ code)) patched_by_compiler (patches @ patches') \<and>
     text_uses lo (length (buf @ code)) (\<lambda>e. \<not> patched_by_compiler e) (rels @ rels') \<and>
     (\<forall>i < length offs. i \<notin> proc_index ` set ps \<longrightarrow> offs' ! i = offs ! i) \<and>
     (\<forall>p \<in> set ps. \<not> is_incomplete p \<longrightarrow> proc_at offs' (buf @ code) p)"
  using assms
proof (induction ps arbitrary: offs buf rels patches)
  case Nil
  then show ?case by auto
next
  case (Cons p ps)
  have wf: "wf_procs (length offs) ps" using Cons.prems(1) by (simp add: wf_procs_def)
  have idx: "proc_index p < length offs" "proc_index p \<notin> proc_index ` set ps"
    using Cons.prems(1) by (simp_all add: wf_procs_def)
  show ?case
  proof (cases "is_incomplete p")
    case True
    then show ?thesis using Cons.IH[OF wf Cons.prems(2-5)] by auto
  next
    case False
    let ?offs = "offs[proc_index p := of_nat (length buf)]"
    obtain code starts rels1 patches1 where c:
        "X64_elf_gen_instrs (proc_instrs p) (buf, rels, patches) = Some (buf @ code, rels @ rels1, patches @ patches1)"
        "starts ! 0 = 0" "\<forall>i < length (proc_instrs p). block_in_code (proc_instrs p) starts code i"
        "text_uses (length buf) (length (buf @ code)) (\<lambda>e. \<not> patched_by_compiler e) rels1"
        "text_uses (length buf) (length (buf @ code)) patched_by_compiler patches1"
      using procedure_full[of "proc_instrs p" buf rels patches] Cons.prems(1) False unfolding wf_procs_def by auto
    have u: "text_uses lo (length (buf @ code)) patched_by_compiler (patches @ patches1)"
      "text_uses lo (length (buf @ code)) (\<lambda>e. \<not> patched_by_compiler e) (rels @ rels1)"
      using text_uses_append[OF Cons.prems(3) c(5)] text_uses_append[OF Cons.prems(4) c(4)] by simp_all
    have ok: "offs_ok ?offs (buf @ code)" using Cons.prems(5) offs_ok_update offs_ok_mono by blast
    obtain offs' code2 rels2 patches2 where r:
        "gen_procs ps ?offs (buf @ code, rels @ rels1, patches @ patches1) =
           Some (offs', (buf @ code) @ code2, (rels @ rels1) @ rels2, (patches @ patches1) @ patches2)"
        "length offs' = length offs" "offs_ok offs' ((buf @ code) @ code2)"
        "text_uses lo (length ((buf @ code) @ code2)) patched_by_compiler ((patches @ patches1) @ patches2)"
        "text_uses lo (length ((buf @ code) @ code2)) (\<lambda>e. \<not> patched_by_compiler e) ((rels @ rels1) @ rels2)"
        "\<forall>i < length offs. i \<notin> proc_index ` set ps \<longrightarrow> offs' ! i = ?offs ! i"
        "\<forall>p \<in> set ps. \<not> is_incomplete p \<longrightarrow> proc_at offs' ((buf @ code) @ code2) p"
      using Cons.IH[of ?offs "buf @ code" "patches @ patches1" "rels @ rels1"] wf Cons.prems(2) u ok by auto
    have at: "proc_at offs' (buf @ code @ code2) p"
      unfolding proc_at_def using c(2,3) r(6) idx Cons.prems(2)
      by (intro exI[of _ buf] exI[of _ code] exI[of _ code2] exI[of _ starts]) auto
    show ?thesis
      using False c(1) r at idx
      by (intro exI[of _ offs'] exI[of _ "code @ code2"] exI[of _ "rels1 @ rels2"] exI[of _ "patches1 @ patches2"])
        (auto simp: nth_list_update)
  qed
qed

section \<open>The whole section\<close>

text \<open>What holds of the finished section when \<open>buf\<close>, \<open>patches\<close> are the code and the patch list before patching.\<close>

definition section_ok :: "u64 list \<Rightarrow> nat \<Rightarrow> u8 list \<Rightarrow> X64_TextReloc list \<Rightarrow> X64_TextSection \<Rightarrow> bool" where
  "section_ok offs main_index buf patches sec \<longleftrightarrow>
     ts_proc_offs sec = offs \<and> length (ts_buf sec) = length buf \<and> ts_size sec = length buf \<and>
     (\<exists>v. take (length startup_code) (ts_buf sec) = patched_startup v \<and>
          int startup_code_next_ip_after_call + sint v = int (unat (offs ! main_index))) \<and>
     (\<forall>r \<in> set patches. field_holds_distance (\<lambda>i. offs ! i) (ts_buf sec) r) \<and>
     (\<forall>b. length startup_code \<le> b \<longrightarrow> b < length buf \<longrightarrow> (\<forall>r \<in> set patches. \<not> in_field b r) \<longrightarrow> ts_buf sec ! b = buf ! b)"

definition callees_known :: "nat \<Rightarrow> X64_TextReloc list \<Rightarrow> bool" where
  "callees_known n patches \<longleftrightarrow> (\<forall>p \<in> set patches. \<forall>s. ref_addr p = CONST_ADDR_SYM s \<longrightarrow> as_proc_index s < n)"

lemma main_distance:
  assumes "unat off < 2 ^ 31"
  shows "23 + sint (ucast off - 23 :: s32) = int (unat (off :: u64))"
proof -
  obtain n where n: "unat off = n" by simp
  then have o: "off = of_nat n" by (simp flip: n)
  have "(ucast (of_nat n :: u64) :: u32) = of_nat n"
    using assms n by (simp add: unsigned_of_nat take_bit_nat_eq_self)
  then have "(ucast off - 23 :: s32) = word_of_int (int n - 23)" by (simp add: o)
  moreover have "sint (word_of_int (int n - 23) :: s32) = int n - 23"
    unfolding sint_sbintrunc' using assms n by (intro signed_take_bit_int_eq_self) auto
  ultimately show ?thesis using n by simp
qed

lemma init_text_section_eq:
  assumes g: "gen_procs procs (replicate (length procs) 0) (startup_code, [], []) = Some (offs, buf, rels, patches)"
    and u: "text_uses (length startup_code) (length buf) patched_by_compiler patches"
    and pre: "\<exists>code. buf = startup_code @ code"
    and ok: "offs_ok offs buf" "length offs = length procs" and m: "main_index < length procs"
    and small: "length buf < 2 ^ 31" and known: "callees_known (length procs) patches"
  shows "\<exists>sec. X64_init_text_section procs main_index = Some sec \<and> section_ok offs main_index buf patches sec"
proof -
  have o31: "unat (offs ! i) < 2 ^ 31" if i: "i < length offs" for i
  proof -
    have "offs ! i \<in> set offs" using i by simp
    then obtain k where "k \<le> length buf" "offs ! i = of_nat k" using ok(1) unfolding offs_ok_def by blast
    then show ?thesis using small by (simp add: unat_of_nat take_bit_nat_eq_self)
  qed
  let ?v = "ucast (offs ! main_index) - 23 :: s32"
  obtain code where code: "buf = startup_code @ code" using pre by blast
  have len: "length startup_code = 32" by (simp add: startup_code_def)
  let ?buf = "patched_startup ?v @ code"
  have plen: "length (patched_startup ?v) = 32" by (simp add: patched_startup_eq)
  have w: "write_s32 buf (int startup_code_main_offset_loc) ?v = Some ?buf"
    using write_s32_ok[of startup_code_main_offset_loc buf ?v] len
    by (simp add: code startup_code_main_offset_loc_def patched_startup_def del: le_bytes_simps)
  have lb: "length ?buf = length buf" by (simp add: code plen len)
  have u': "text_uses (length startup_code) (length ?buf) patched_by_compiler patches" using u lb by simp
  have sm: "\<forall>s. CONST_ADDR_SYM s \<in> ref_addr ` set patches \<longrightarrow> unat (offs ! as_proc_index s) < 2 ^ 31"
    using known o31 ok(2) unfolding callees_known_def by (metis imageE)
  obtain buf' where b: "X64_patch_proc_uses patches (\<lambda>i. offs ! i) ?buf = Some buf'" "length buf' = length ?buf"
      "\<forall>r \<in> set patches. field_holds_distance (\<lambda>i. offs ! i) buf' r"
      "\<forall>c < length ?buf. (\<forall>r \<in> set patches. \<not> in_field c r) \<longrightarrow> buf' ! c = ?buf ! c"
    using patch_proc_uses_induct[OF u' order_refl _ sm] small lb by auto
  have out: "\<not> in_field c r" if "r \<in> set patches" "c < 32" for c r
    using text_uses_fields[OF u' _ that(1)] that(2) small lb len by simp
  have st: "take 32 buf' = patched_startup ?v"
  proof (rule nth_equalityI)
    show "length (take 32 buf') = length (patched_startup ?v)" using b(2) lb plen len code by simp
    fix c assume "c < length (take 32 buf')"
    then have c: "c < 32" "c < length ?buf" using b(2) by auto
    then have "buf' ! c = ?buf ! c" using b(4) out by blast
    then show "take 32 buf' ! c = patched_startup ?v ! c" using c plen by (simp add: nth_append)
  qed
  have keep: "buf' ! c = buf ! c" if "32 \<le> c" "c < length buf" "\<forall>r \<in> set patches. \<not> in_field c r" for c
    using b(4) that lb plen len by (simp add: code nth_append)
  let ?sec = "\<lparr>ts_buf = buf', ts_size = length buf', ts_align = 0x10, ts_proc_offs = offs, ts_relocs = rels\<rparr>"
  have k: "\<forall>p \<in> set patches. \<forall>s. ref_addr p = CONST_ADDR_SYM s \<longrightarrow> as_proc_index s < length offs"
    using known ok(2) unfolding callees_known_def by simp
  have "X64_init_text_section procs main_index = Some ?sec"
    unfolding X64_init_text_section_def Let_def g
    using w b(1) k m ok(2) by (simp add: startup_code_next_ip_after_call_def)
  moreover have "section_ok offs main_index buf patches ?sec"
    unfolding section_ok_def len
    using b(2,3) lb st keep main_distance[OF o31[of main_index]] m ok(2)
    by (auto simp: startup_code_next_ip_after_call_def intro!: exI[of _ ?v])
  ultimately show ?thesis by blast
qed

text \<open>
  C2. For well-formed procedures with distinct indices, the text section is built: every defined
  procedure has its code, block by block, at the offset recorded for it, after the startup code; and
  if the section is below 2 GiB and only procedures of the table are called, the call of \<open>main\<close> in
  the startup code and every patched use reach the first byte of the procedure they name.
\<close>

theorem text_section_correct:
  assumes "wf_procs (length procs) procs" "main_index < length procs"
  shows "\<exists>offs buf rels patches.
     gen_procs procs (replicate (length procs) 0) (startup_code, [], []) = Some (offs, buf, rels, patches) \<and>
     (\<forall>p \<in> set procs. \<not> is_incomplete p \<longrightarrow> proc_at offs buf p) \<and>
     (length buf < 2 ^ 31 \<and> callees_known (length procs) patches \<longrightarrow>
        (\<exists>sec. X64_init_text_section procs main_index = Some sec \<and> section_ok offs main_index buf patches sec))"
proof -
  have n: "text_uses (length startup_code) (length startup_code) P []" for P by (simp add: text_uses_Nil)
  have "offs_ok (replicate (length procs) 0) startup_code" by (auto simp: offs_ok_def)
  then obtain offs code rels patches where g:
      "gen_procs procs (replicate (length procs) 0) (startup_code, [], []) = Some (offs, startup_code @ code, rels, patches)"
      "length offs = length procs" "offs_ok offs (startup_code @ code)"
      "text_uses (length startup_code) (length (startup_code @ code)) patched_by_compiler patches"
      "\<forall>p \<in> set procs. \<not> is_incomplete p \<longrightarrow> proc_at offs (startup_code @ code) p"
    using gen_procs_correct[of "replicate (length procs) 0" procs startup_code "length startup_code" "[]" "[]"] assms(1) n by auto
  show ?thesis
    using g(1,5) init_text_section_eq[OF g(1,4) _ g(3,2) assms(2)]
    by (intro exI[of _ offs] exI[of _ "startup_code @ code"] exI[of _ rels] exI[of _ patches]) auto
qed

definition sample_procs :: "proc_input list" where
  "sample_procs = [\<lparr>proc_index = 1, is_incomplete = False, proc_instrs = sample_calls\<rparr>,
                   \<lparr>proc_index = 0, is_incomplete = False, proc_instrs = sample_loop\<rparr>]"

lemma text_section_correct_witness:
  "\<exists>offs buf rels patches.
     gen_procs sample_procs (replicate (length sample_procs) 0) (startup_code, [], []) = Some (offs, buf, rels, patches) \<and>
     (\<forall>p \<in> set sample_procs. \<not> is_incomplete p \<longrightarrow> proc_at offs buf p) \<and>
     (length buf < 2 ^ 31 \<and> callees_known (length sample_procs) patches \<longrightarrow>
        (\<exists>sec. X64_init_text_section sample_procs 1 = Some sec \<and> section_ok offs 1 buf patches sec))"
proof (rule text_section_correct)
  have "code_fits sample_calls" "code_fits sample_loop" by code_simp+
  then show "wf_procs (length sample_procs) sample_procs"
    by (simp add: wf_procs_def sample_procs_def sample_loop_def sample_calls_def plain_instr_def wf_size_def wf_reg_def
        x64_reg_classes_def)
qed (simp add: sample_procs_def)

end
