(* ===== verification/Elf_Rela.thy ===== *)
theory Elf_Rela
  imports Proc_Code
begin

text \<open>
  The relocations of the text section in the object file (\<open>src/src/x64_gen/elf_writer.c\<close>, lines 546-603), and where
  an operand relative to the instruction pointer points after linking: at its entity exactly when no immediate bytes
  follow its displacement.
\<close>

section \<open>Entries of the section .rela.text\<close>

definition ELF_R_X86_64_PC32 :: u64 where "ELF_R_X86_64_PC32 = 2"
definition ELF_R_X86_64_PLT32 :: u64 where "ELF_R_X86_64_PLT32 = 4"

record Elf64_Rela =
  r_offset :: u64
  r_info :: u64
  r_addend :: s64

text \<open>
  What the writer knows when it makes the entries: the offsets of literals and variables in their sections and the
  indices of section and procedure symbols. An array indexed by the number of an entity is a function.
\<close>

record ElfLayout =
  rodata_sym_idx :: u32
  data_sym_idx :: u32
  foreign_proc_sym_idxs :: "nat \<Rightarrow> u32"
  str_offs :: "nat \<Rightarrow> u64"
  float_offs :: "nat \<Rightarrow> u64"
  var_offs :: "Symbol \<Rightarrow> u64"

text \<open>
  One entry. The displacement in the address of a string literal is zero for every reference from code
  (\<open>X64_get_addr_bytes\<close>). The array of entries is zeroed, so a symbol of another kind leaves zeros.
\<close>

definition rela_text :: "ElfLayout \<Rightarrow> X64_TextReloc \<Rightarrow> Elf64_Rela" where
  "rela_text x reloc_info =
     (case ref_addr reloc_info of
        CONST_ADDR_STR_LIT str_lit \<Rightarrow>
          \<lparr>r_offset = usage_off reloc_info, r_info = push_bit 32 (ucast (rodata_sym_idx x)) + ELF_R_X86_64_PC32,
           r_addend = str_offs x str_lit - bytes_to_next_ip reloc_info\<rparr>
      | CONST_ADDR_FLOAT_LIT float_lit \<Rightarrow>
          \<lparr>r_offset = usage_off reloc_info, r_info = push_bit 32 (ucast (rodata_sym_idx x)) + ELF_R_X86_64_PC32,
           r_addend = float_offs x float_lit - bytes_to_next_ip reloc_info\<rparr>
      | CONST_ADDR_SYM symb \<Rightarrow>
          if sym_kind symb = SYMBOL_VAR then
            \<lparr>r_offset = usage_off reloc_info, r_info = push_bit 32 (ucast (data_sym_idx x)) + ELF_R_X86_64_PC32,
             r_addend = var_offs x symb - bytes_to_next_ip reloc_info\<rparr>
          else if sym_kind symb = SYMBOL_PROC then
            \<lparr>r_offset = usage_off reloc_info,
             r_info = push_bit 32 (ucast (foreign_proc_sym_idxs x (as_proc_index symb))) + ELF_R_X86_64_PLT32,
             r_addend = - bytes_to_next_ip reloc_info\<rparr>
          else \<lparr>r_offset = 0, r_info = 0, r_addend = 0\<rparr>)"

section \<open>Linking\<close>

text \<open>
  What the ABI has the linker store in the 32-bit field: S + A - P (and L + A - P), with the address of the symbol
  as a function of its index. A value that does not fit the field is a link error.
\<close>

definition rela_value :: "(u64 \<Rightarrow> u64) \<Rightarrow> u64 \<Rightarrow> Elf64_Rela \<Rightarrow> u64 option" where
  "rela_value sym_addr text_addr rl =
     (if take_bit 32 (r_info rl) = ELF_R_X86_64_PC32 \<or> take_bit 32 (r_info rl) = ELF_R_X86_64_PLT32
      then Some (sym_addr (drop_bit 32 (r_info rl)) + r_addend rl - (text_addr + r_offset rl)) else None)"

text \<open>Where an entity is in the linked program.\<close>

fun entity_addr :: "(u64 \<Rightarrow> u64) \<Rightarrow> ElfLayout \<Rightarrow> ConstAddr \<Rightarrow> u64" where
  "entity_addr sym_addr x (CONST_ADDR_STR_LIT s) = sym_addr (ucast (rodata_sym_idx x)) + str_offs x s"
| "entity_addr sym_addr x (CONST_ADDR_FLOAT_LIT f) = sym_addr (ucast (rodata_sym_idx x)) + float_offs x f"
| "entity_addr sym_addr x (CONST_ADDR_SYM s) =
     (if sym_kind s = SYMBOL_VAR then sym_addr (ucast (data_sym_idx x)) + var_offs x s
      else sym_addr (ucast (foreign_proc_sym_idxs x (as_proc_index s))))"

lemma r_info_parts:
  assumes "t < 2 ^ 32"
  shows "drop_bit 32 (push_bit 32 (ucast (i :: u32)) + t :: u64) = ucast i" "take_bit 32 (push_bit 32 (ucast (i :: u32)) + t :: u64) = t"
proof -
  have i: "unat i < 2 ^ 32" using unsigned_less[of i] by simp
  have t: "unat t < 2 ^ 32" using assms by (simp add: word_less_nat_alt)
  have "unat (push_bit 32 (ucast i :: u64)) = unat i * 2 ^ 32"
    using i by (simp add: push_bit_eq_mult unat_word_ariths take_bit_nat_eq_self unsigned_ucast_eq mult.commute)
  then have u: "unat (push_bit 32 (ucast i) + t :: u64) = unat i * 2 ^ 32 + unat t"
    using i t by (simp add: unat_word_ariths)
  have "unat (drop_bit 32 (push_bit 32 (ucast i) + t :: u64)) = unat (ucast i :: u64)"
    using i t by (simp add: unsigned_drop_bit_eq drop_bit_eq_div unat_div u unsigned_ucast_eq take_bit_nat_eq_self)
  then show "drop_bit 32 (push_bit 32 (ucast i) + t :: u64) = ucast i" by (simp only: word_unat_eq_iff)
  have "unat (take_bit 32 (push_bit 32 (ucast i) + t :: u64)) = unat t"
    using t by (simp add: unsigned_take_bit_eq take_bit_eq_mod unat_mod u)
  then show "take_bit 32 (push_bit 32 (ucast i) + t :: u64) = t" by (simp only: word_unat_eq_iff)
qed

lemma rela_text_value:
  assumes "wf_entity (ref_addr r)"
  shows "rela_value sym_addr text_addr (rela_text x r) =
    Some (entity_addr sym_addr x (ref_addr r) - bytes_to_next_ip r - (text_addr + usage_off r))"
  using assms
  by (cases "ref_addr r")
    (auto simp: rela_value_def rela_text_def ELF_R_X86_64_PC32_def ELF_R_X86_64_PLT32_def r_info_parts)

lemma wf_entity_of: "wf_addr a \<Longrightarrow> entity_of a = Some e \<Longrightarrow> wf_entity e"
  by (cases a) auto

lemma wf_instr_entity: "wf_instr i \<Longrightarrow> instr_entity i = Some e \<Longrightarrow> wf_entity e"
  by (cases i rule: instr_entity.cases) (auto intro: wf_entity_of)

lemma trailing_imm_small: "trailing_imm i < 2 ^ 64"
proof -
  have "immz_len sz < 256" for sz :: u8
  proof -
    have "unat sz < 2 ^ 8" by (rule less_le_trans[OF unsigned_less]) simp
    then show ?thesis by (simp add: immz_len_def)
  qed
  then have "immz_len sz < 2 ^ 64" for sz by (rule less_trans) simp
  then show ?thesis by (cases i rule: trailing_imm.cases) auto
qed

section \<open>The address an operand reaches\<close>

text \<open>
  C9. Take any encodable instruction with an operand relative to the instruction pointer whose entity the linker
  resolves, in a block whose code starts at \<open>final_offset\<close> of the text section. The instruction is emitted, its bytes
  decode to it whatever follows them, and one relocation is recorded. The processor adds the linked displacement to
  the address right after these bytes. The result is the address of the entity plus the number of immediate bytes
  behind the displacement: it is the entity exactly when there are none, so every store or comparison of an immediate
  with a global and every shift of one by an immediate other than 1 is at the wrong address.
\<close>

theorem rip_operand_off_by_immediate:
  assumes "wf_instr i" "instr_meaning i = Some insn" "instr_entity i = Some e" "\<not> patched_by_compiler e"
  shows "\<exists>bs gs' r. X64_elf_gen_instr i gs = Some gs' \<and> buffer (curr_bblock gs') = buffer (curr_bblock gs) @ bs \<and>
     (\<forall>rest. x86_decode (bs @ rest) = Some (insn, rest)) \<and> relocs gs' = relocs gs @ [r] \<and>
     (unat (bb_index (curr_bblock gs)) < length bblocks \<and> length (buffer (curr_bblock gs')) < 2 ^ 31 \<longrightarrow>
       (\<exists>disp. rela_value sym_addr text_addr (rela_text x (text_reloc bblocks r)) = Some disp \<and>
          (let next_ip = text_addr + final_offset (bblocks ! unat (bb_index (curr_bblock gs))) + of_nat (length (buffer (curr_bblock gs')))
           in next_ip + disp = entity_addr sym_addr x e + of_nat (trailing_imm i) \<and>
              (next_ip + disp = entity_addr sym_addr x e \<longleftrightarrow> trailing_imm i = 0))))"
proof -
  obtain bs where bs: "X64_elf_gen_instr i gs = Some (gs_ext gs bs [reloc_at gs (length bs - (4 + trailing_imm i)) e] [])"
    "4 + trailing_imm i \<le> length bs" "\<forall>rest. x86_decode (bs @ rest) = Some (insn, rest)"
    using emits_instr[OF assms(1,2), of gs] assms(3,4) unfolding emits_def by (auto simp: ent_relocs_def ent_patches_def)
  let ?r = "reloc_at gs (length bs - (4 + trailing_imm i)) e" and ?n = "length (buffer (curr_bblock gs))"
  have zero: "of_nat (trailing_imm i) = (0 :: u64) \<longleftrightarrow> trailing_imm i = 0"
  proof -
    have "unat (of_nat (trailing_imm i) :: u64) = trailing_imm i"
      using trailing_imm_small[of i] by (simp add: unat_of_nat take_bit_nat_eq_self)
    then show ?thesis by (auto dest: arg_cong[of _ _ unat])
  qed
  have reach: "\<exists>disp. rela_value sym_addr text_addr (rela_text x (text_reloc bblocks ?r)) = Some disp \<and>
      (let next_ip = text_addr + final_offset (bblocks ! unat (bb_index (curr_bblock gs))) + of_nat (?n + length bs)
       in next_ip + disp = entity_addr sym_addr x e + of_nat (trailing_imm i) \<and>
          (next_ip + disp = entity_addr sym_addr x e \<longleftrightarrow> trailing_imm i = 0))" if small: "?n + length bs < 2 ^ 31"
  proof -
    let ?b = "bblocks ! unat (bb_index (curr_bblock gs))"
    let ?k = "?n + (length bs - (4 + trailing_imm i))"
    have "?k < 2 ^ 31" using small by simp
    then have r: "text_reloc bblocks ?r = \<lparr>usage_off = final_offset ?b + of_nat ?k, bytes_to_next_ip = 4, ref_addr = e\<rparr>"
      by (simp only: text_reloc_def reloc_at_def Let_def X64_InternalReloc.simps X64_UsageLoc.simps scast_small_nat)
    have "of_nat (?n + length bs) = (of_nat ?k + 4 + of_nat (trailing_imm i) :: u64)"
      using bs(2) by (metis (no_types, lifting) add.assoc le_add_diff_inverse2 of_nat_add of_nat_numeral)
    then obtain K :: u64 where K: "of_nat ?k = K" "of_nat (?n + length bs) = K + 4 + of_nat (trailing_imm i)" by blast
    have "wf_entity (ref_addr (text_reloc bblocks ?r))" unfolding r using wf_instr_entity[OF assms(1,3)] by simp
    from rela_text_value[OF this, of sym_addr text_addr x]
    have "rela_value sym_addr text_addr (rela_text x (text_reloc bblocks ?r)) =
        Some (entity_addr sym_addr x e - 4 - (text_addr + (final_offset ?b + K)))"
      unfolding r K(1) by simp
    then show ?thesis unfolding Let_def K(2)
      by (intro exI[of _ "entity_addr sym_addr x e - 4 - (text_addr + (final_offset ?b + K))"]) (simp add: zero)
  qed
  show ?thesis
    using bs reach by (intro exI[of _ bs] exI[of _ "gs_ext gs bs [?r] []"] exI[of _ ?r]) (simp add: gs_ext_fields)
qed

definition sample_layout :: ElfLayout where
  "sample_layout =
     \<lparr>rodata_sym_idx = 1, data_sym_idx = 2, foreign_proc_sym_idxs = (\<lambda>_. 5), str_offs = (\<lambda>_. 0), float_offs = (\<lambda>_. 0),
      var_offs = (\<lambda>_. 16)\<rparr>"

lemma rip_operand_off_by_immediate_witness:
  "\<exists>gs' r disp. X64_elf_gen_instr (Mov (X64_MOV_MI 4 (X64_SIBD_ADDR_GLOBAL sample_var) 5)) sample_gs = Some gs' \<and>
     length (buffer (curr_bblock gs')) = 10 \<and> relocs gs' = [r] \<and>
     rela_value (\<lambda>i. 0x1000 * i) 0x401000 (rela_text sample_layout (text_reloc [curr_bblock sample_gs] r)) = Some disp \<and>
     entity_addr (\<lambda>i. 0x1000 * i) sample_layout (CONST_ADDR_SYM sample_var) = 0x2010 \<and> 0x401000 + 10 + disp = 0x2014"
proof -
  let ?i = "Mov (X64_MOV_MI 4 (X64_SIBD_ADDR_GLOBAL sample_var) 5)"
  have i: "wf_instr ?i" "instr_meaning ?i = Some (Insn M_MOV [Mem 4 (MemRip 0), Imm (imm_val 4 5)])"
      "instr_entity ?i = Some (CONST_ADDR_SYM sample_var)" "\<not> patched_by_compiler (CONST_ADDR_SYM sample_var)"
    by (simp_all add: wf_size_def)
  have gen: "\<exists>gs'. X64_elf_gen_instr ?i sample_gs = Some gs' \<and> length (buffer (curr_bblock gs')) = 10"
    by (simp add: sample_gs_def rip_addr_bytes_def write_modrm_addr_def X64_write_addr_disp_def mod_defs Let_def
      emit_simps write_imm_extend gs_ext_def)
  have sample: "relocs sample_gs = []" "bb_index (curr_bblock sample_gs) = 0" "final_offset (curr_bblock sample_gs) = 0"
    by (simp_all add: sample_gs_def)
  have addr: "entity_addr (\<lambda>i. 0x1000 * i) sample_layout (CONST_ADDR_SYM sample_var) = 0x2010" by (simp add: sample_layout_def)
  obtain bs gs' r where r: "X64_elf_gen_instr ?i sample_gs = Some gs'" "relocs gs' = [r]"
      "unat (bb_index (curr_bblock sample_gs)) < length [curr_bblock sample_gs] \<and> length (buffer (curr_bblock gs')) < 2 ^ 31 \<longrightarrow>
       (\<exists>disp. rela_value (\<lambda>i. 0x1000 * i) 0x401000 (rela_text sample_layout (text_reloc [curr_bblock sample_gs] r)) = Some disp \<and>
          (let next_ip = 0x401000 + final_offset ([curr_bblock sample_gs] ! unat (bb_index (curr_bblock sample_gs))) +
                 of_nat (length (buffer (curr_bblock gs')))
           in next_ip + disp = entity_addr (\<lambda>i. 0x1000 * i) sample_layout (CONST_ADDR_SYM sample_var) + of_nat (trailing_imm ?i)))"
    using rip_operand_off_by_immediate[OF i, where gs = sample_gs and bblocks = "[curr_bblock sample_gs]" and
        sym_addr = "\<lambda>i. 0x1000 * i" and text_addr = "0x401000" and x = sample_layout]
    unfolding Let_def sample(1) append_Nil by blast
  have len: "length (buffer (curr_bblock gs')) = 10" using gen r(1) by auto
  then have "\<exists>disp. rela_value (\<lambda>i. 0x1000 * i) 0x401000 (rela_text sample_layout (text_reloc [curr_bblock sample_gs] r)) = Some disp \<and>
      0x401000 + 10 + disp = 0x2014"
    using r(3) unfolding Let_def len sample(2,3) addr by (simp add: immz_len_def sample)
  then show ?thesis using r(1,2) len addr by blast
qed

end
