(* ===== verification/Emit_Instrs.thy ===== *)
theory Emit_Instrs
  imports X64_Instrs
begin

text \<open>
  Building the instruction lists (\<open>src/src/x64_gen/x64_instrs.c\<close>). The instructions of a block are a
  linked list with a head and a tail pointer; nodes live in a heap of addresses, and an emit function
  allocates a node and links it behind the tail of the last block. The abstraction is a list of
  instructions per block, the form the encoder consumes.
\<close>

section \<open>State\<close>

record X64_InstrNode =
  node_instr :: X64_Instr
  node_next :: "nat option"

record X64_BBlock =
  bb_num_instrs :: u32
  bb_head :: "nat option"
  bb_tail :: "nat option"

record X64_Instrs =
  num_instrs :: u32
  bblocks :: "X64_BBlock list"
  heap :: "nat \<Rightarrow> X64_InstrNode option"
  next_addr :: nat

section \<open>Operations\<close>

definition X64_alloc_instr :: "X64_Instr \<Rightarrow> X64_Instrs \<Rightarrow> nat \<times> X64_Instrs" where
  "X64_alloc_instr i s =
     (next_addr s, s\<lparr>heap := (heap s)(next_addr s \<mapsto> \<lparr>node_instr = i, node_next = None\<rparr>), next_addr := next_addr s + 1\<rparr>)"

definition X64_push_instr :: "nat \<Rightarrow> X64_Instrs \<Rightarrow> X64_Instrs option" where
  "X64_push_instr instr s = do {
     assert_opt (bblocks s \<noteq> []);
     let bblock = last (bblocks s);
     (bblock, h) \<leftarrow>
       (case bb_tail bblock of
          None \<Rightarrow> Some (bblock\<lparr>bb_head := Some instr\<rparr>, heap s)
        | Some t \<Rightarrow> do {
            node \<leftarrow> heap s t;
            Some (bblock, (heap s)(t \<mapsto> node\<lparr>node_next := Some instr\<rparr>)) });
     let bblock = bblock\<lparr>bb_tail := Some instr, bb_num_instrs := bb_num_instrs bblock + 1\<rparr>;
     Some (s\<lparr>bblocks := butlast (bblocks s) @ [bblock], heap := h, num_instrs := num_instrs s + 1\<rparr>) }"

text \<open>Allocate an instruction with its fields set, and push it.\<close>

definition emit :: "X64_Instr \<Rightarrow> X64_Instrs \<Rightarrow> X64_Instrs option" where
  "emit i s = (case X64_alloc_instr i s of (p, s) \<Rightarrow> X64_push_instr p s)"

text \<open>
  The placeholder is an instruction of a kind with its fields still zero (both callers ask for a no-op); the caller
  gets its address, to fill it in later. The other emit functions need no address.
\<close>

definition X64_emit_instr_placeholder :: "X64_Instr \<Rightarrow> X64_Instrs \<Rightarrow> (nat \<times> X64_Instrs) option" where
  "X64_emit_instr_placeholder kind s =
     (case X64_alloc_instr kind s of (instr, s) \<Rightarrow> do { s \<leftarrow> X64_push_instr instr s; Some (instr, s) })"

text \<open>A zero-initialised block at the end of the array (\<open>array_push(instrs.bblocks, (X64_BBlock){0})\<close>).\<close>

definition X64_new_bblock :: "X64_Instrs \<Rightarrow> X64_Instrs" where
  "X64_new_bblock s = s\<lparr>bblocks := bblocks s @ [\<lparr>bb_num_instrs = 0, bb_head = None, bb_tail = None\<rparr>]\<rparr>"

definition empty_instrs :: X64_Instrs where
  "empty_instrs = \<lparr>num_instrs = 0, bblocks = [], heap = (\<lambda>_. None), next_addr = 0\<rparr>"

subsection \<open>Control\<close>

definition X64_emit_instr_ret :: "X64_Instrs \<Rightarrow> X64_Instrs option" where
  "X64_emit_instr_ret = emit (Ctrl X64_RET)"

definition X64_emit_instr_call :: "Symbol \<Rightarrow> X64_Instrs \<Rightarrow> X64_Instrs option" where
  "X64_emit_instr_call proc_sym = emit (Ctrl (X64_CALL proc_sym))"

definition X64_emit_instr_call_r :: "X64_Reg \<Rightarrow> X64_Instrs \<Rightarrow> X64_Instrs option" where
  "X64_emit_instr_call_r reg = emit (Ctrl (X64_CALL_R reg))"

definition X64_emit_instr_call_m :: "X64_SIBD_Addr \<Rightarrow> X64_Instrs \<Rightarrow> X64_Instrs option" where
  "X64_emit_instr_call_m mem = emit (Ctrl (X64_CALL_M mem))"

definition X64_emit_instr_jmp :: "u32 \<Rightarrow> X64_Instrs \<Rightarrow> X64_Instrs option" where
  "X64_emit_instr_jmp target = emit (Ctrl (X64_JMP target))"

text \<open>The target of \<open>JMP_TO_RET\<close> is zero until the blocks are complete.\<close>

definition X64_emit_instr_jmp_to_ret :: "X64_Instrs \<Rightarrow> X64_Instrs option" where
  "X64_emit_instr_jmp_to_ret = emit (Ctrl (X64_JMP_TO_RET 0))"

definition X64_emit_instr_jmpcc :: "ConditionKind \<Rightarrow> u32 \<Rightarrow> X64_Instrs \<Rightarrow> X64_Instrs option" where
  "X64_emit_instr_jmpcc cond_kind target = emit (Ctrl (X64_JMPCC cond_kind target))"

definition X64_emit_instr_setcc_r :: "ConditionKind \<Rightarrow> X64_Reg \<Rightarrow> X64_Instrs \<Rightarrow> X64_Instrs option" where
  "X64_emit_instr_setcc_r cond_kind dst = emit (Ctrl (X64_SETCC_R cond_kind dst))"

definition X64_emit_instr_setcc_m :: "ConditionKind \<Rightarrow> X64_SIBD_Addr \<Rightarrow> X64_Instrs \<Rightarrow> X64_Instrs option" where
  "X64_emit_instr_setcc_m cond_kind dst = emit (Ctrl (X64_SETCC_M cond_kind dst))"

definition X64_emit_instr_push :: "X64_Reg \<Rightarrow> X64_Instrs \<Rightarrow> X64_Instrs option" where
  "X64_emit_instr_push reg s = do {
     assert_opt (x64_reg_classes reg = X64_REG_CLASS_INT);
     emit (Ctrl (X64_PUSH reg)) s }"

definition X64_emit_instr_pop :: "X64_Reg \<Rightarrow> X64_Instrs \<Rightarrow> X64_Instrs option" where
  "X64_emit_instr_pop reg s = do {
     assert_opt (x64_reg_classes reg = X64_REG_CLASS_INT);
     emit (Ctrl (X64_POP reg)) s }"

definition X64_emit_instr_rep_movsb :: "X64_Instrs \<Rightarrow> X64_Instrs option" where
  "X64_emit_instr_rep_movsb = emit (Ctrl X64_REP_MOVSB)"

definition X64_emit_instr_rep_stosb :: "X64_Instrs \<Rightarrow> X64_Instrs option" where
  "X64_emit_instr_rep_stosb = emit (Ctrl X64_REP_STOSB)"

definition X64_emit_instr_syscall :: "X64_Instrs \<Rightarrow> X64_Instrs option" where
  "X64_emit_instr_syscall = emit (Ctrl X64_SYSCALL)"

subsection \<open>Integer arithmetic\<close>

text \<open>
  The functions that a macro defines for each operation are one definition here, with the operation
  as its first argument: \<open>X64_emit_instr_binary_rr X64_ADD\<close> is \<open>X64_emit_instr_add_rr\<close>.
\<close>

definition X64_emit_instr_binary_rr :: "X64_BinOp \<Rightarrow> u8 \<Rightarrow> X64_Reg \<Rightarrow> X64_Reg \<Rightarrow> X64_Instrs \<Rightarrow> X64_Instrs option" where
  "X64_emit_instr_binary_rr op sz dst src = emit (Bin (X64_BIN_RR op sz dst src))"

definition X64_emit_instr_binary_rm :: "X64_BinOp \<Rightarrow> u8 \<Rightarrow> X64_Reg \<Rightarrow> X64_SIBD_Addr \<Rightarrow> X64_Instrs \<Rightarrow> X64_Instrs option" where
  "X64_emit_instr_binary_rm op sz dst src = emit (Bin (X64_BIN_RM op sz dst src))"

definition X64_emit_instr_binary_mr :: "X64_BinOp \<Rightarrow> u8 \<Rightarrow> X64_SIBD_Addr \<Rightarrow> X64_Reg \<Rightarrow> X64_Instrs \<Rightarrow> X64_Instrs option" where
  "X64_emit_instr_binary_mr op sz dst src = emit (Bin (X64_BIN_MR op sz dst src))"

definition X64_emit_instr_binary_ri :: "X64_BinOp \<Rightarrow> u8 \<Rightarrow> X64_Reg \<Rightarrow> u32 \<Rightarrow> X64_Instrs \<Rightarrow> X64_Instrs option" where
  "X64_emit_instr_binary_ri op sz dst imm = emit (Bin (X64_BIN_RI op sz dst imm))"

definition X64_emit_instr_binary_mi :: "X64_BinOp \<Rightarrow> u8 \<Rightarrow> X64_SIBD_Addr \<Rightarrow> u32 \<Rightarrow> X64_Instrs \<Rightarrow> X64_Instrs option" where
  "X64_emit_instr_binary_mi op sz dst imm = emit (Bin (X64_BIN_MI op sz dst imm))"

definition X64_emit_instr_imul_rr :: "u8 \<Rightarrow> X64_Reg \<Rightarrow> X64_Reg \<Rightarrow> X64_Instrs \<Rightarrow> X64_Instrs option" where
  "X64_emit_instr_imul_rr sz dst src = emit (Mul (X64_IMUL_RR sz dst src))"

definition X64_emit_instr_imul_rm :: "u8 \<Rightarrow> X64_Reg \<Rightarrow> X64_SIBD_Addr \<Rightarrow> X64_Instrs \<Rightarrow> X64_Instrs option" where
  "X64_emit_instr_imul_rm sz dst src = emit (Mul (X64_IMUL_RM sz dst src))"

definition X64_emit_instr_imul_ri :: "u8 \<Rightarrow> X64_Reg \<Rightarrow> u32 \<Rightarrow> X64_Instrs \<Rightarrow> X64_Instrs option" where
  "X64_emit_instr_imul_ri sz dst imm = emit (Mul (X64_IMUL_RI sz dst imm))"

definition X64_emit_instr_imul_mi :: "u8 \<Rightarrow> X64_SIBD_Addr \<Rightarrow> u32 \<Rightarrow> X64_Instrs \<Rightarrow> X64_Instrs option" where
  "X64_emit_instr_imul_mi sz dst imm = emit (Mul (X64_IMUL_MI sz dst imm))"

definition X64_emit_instr_unary_r :: "X64_UnOp \<Rightarrow> u8 \<Rightarrow> X64_Reg \<Rightarrow> X64_Instrs \<Rightarrow> X64_Instrs option" where
  "X64_emit_instr_unary_r op sz dst = emit (Shift (X64_UN_R op sz dst))"

definition X64_emit_instr_unary_m :: "X64_UnOp \<Rightarrow> u8 \<Rightarrow> X64_SIBD_Addr \<Rightarrow> X64_Instrs \<Rightarrow> X64_Instrs option" where
  "X64_emit_instr_unary_m op sz dst = emit (Shift (X64_UN_M op sz dst))"

definition X64_emit_instr_shift_rr :: "X64_ShiftOp \<Rightarrow> u8 \<Rightarrow> X64_Reg \<Rightarrow> X64_Instrs \<Rightarrow> X64_Instrs option" where
  "X64_emit_instr_shift_rr op sz dst = emit (Shift (X64_SHIFT_RR op sz dst))"

definition X64_emit_instr_shift_mr :: "X64_ShiftOp \<Rightarrow> u8 \<Rightarrow> X64_SIBD_Addr \<Rightarrow> X64_Instrs \<Rightarrow> X64_Instrs option" where
  "X64_emit_instr_shift_mr op sz dst = emit (Shift (X64_SHIFT_MR op sz dst))"

definition X64_emit_instr_shift_ri :: "X64_ShiftOp \<Rightarrow> u8 \<Rightarrow> X64_Reg \<Rightarrow> u8 \<Rightarrow> X64_Instrs \<Rightarrow> X64_Instrs option" where
  "X64_emit_instr_shift_ri op sz dst imm = emit (Shift (X64_SHIFT_RI op sz dst imm))"

definition X64_emit_instr_shift_mi :: "X64_ShiftOp \<Rightarrow> u8 \<Rightarrow> X64_SIBD_Addr \<Rightarrow> u8 \<Rightarrow> X64_Instrs \<Rightarrow> X64_Instrs option" where
  "X64_emit_instr_shift_mi op sz dst imm = emit (Shift (X64_SHIFT_MI op sz dst imm))"

definition X64_emit_instr_div_mul_r :: "X64_RaxOp \<Rightarrow> u8 \<Rightarrow> X64_Reg \<Rightarrow> X64_Instrs \<Rightarrow> X64_Instrs option" where
  "X64_emit_instr_div_mul_r op sz src = emit (Mul (X64_RAX_R op sz src))"

definition X64_emit_instr_div_mul_m :: "X64_RaxOp \<Rightarrow> u8 \<Rightarrow> X64_SIBD_Addr \<Rightarrow> X64_Instrs \<Rightarrow> X64_Instrs option" where
  "X64_emit_instr_div_mul_m op sz src = emit (Mul (X64_RAX_M op sz src))"

definition X64_emit_instr_sext_ax_into_dx :: "u8 \<Rightarrow> X64_Instrs \<Rightarrow> X64_Instrs option" where
  "X64_emit_instr_sext_ax_into_dx sz s =
     (if sz = 2 then emit (Mul X64_CWD) s
      else if sz = 4 then emit (Mul X64_CDQ) s
      else if sz = 8 then emit (Mul X64_CQO) s
      else None)"

subsection \<open>Moves\<close>

definition X64_emit_instr_mov_rr :: "u8 \<Rightarrow> X64_Reg \<Rightarrow> X64_Reg \<Rightarrow> X64_Instrs \<Rightarrow> X64_Instrs option" where
  "X64_emit_instr_mov_rr sz dst src = emit (Mov (X64_MOV_RR False sz dst src))"

definition X64_emit_instr_mov_rm :: "u8 \<Rightarrow> X64_Reg \<Rightarrow> X64_SIBD_Addr \<Rightarrow> X64_Instrs \<Rightarrow> X64_Instrs option" where
  "X64_emit_instr_mov_rm sz dst src = emit (Mov (X64_MOV_RM sz dst src))"

definition X64_emit_instr_mov_mr :: "u8 \<Rightarrow> X64_SIBD_Addr \<Rightarrow> X64_Reg \<Rightarrow> X64_Instrs \<Rightarrow> X64_Instrs option" where
  "X64_emit_instr_mov_mr sz dst src = emit (Mov (X64_MOV_MR False sz dst src))"

definition X64_emit_instr_mov_mi :: "u8 \<Rightarrow> X64_SIBD_Addr \<Rightarrow> u32 \<Rightarrow> X64_Instrs \<Rightarrow> X64_Instrs option" where
  "X64_emit_instr_mov_mi sz dst imm = emit (Mov (X64_MOV_MI sz dst imm))"

definition X64_emit_instr_mov_ri :: "u8 \<Rightarrow> X64_Reg \<Rightarrow> u64 \<Rightarrow> X64_Instrs \<Rightarrow> X64_Instrs option" where
  "X64_emit_instr_mov_ri sz dst imm = emit (Mov (X64_MOV_RI sz dst imm))"

definition X64_emit_instr_mov_rrh :: "X64_Reg \<Rightarrow> X64_Reg \<Rightarrow> X64_Instrs \<Rightarrow> X64_Instrs option" where
  "X64_emit_instr_mov_rrh dst src = emit (Mov (X64_MOV_RR True 1 dst src))"

definition X64_emit_instr_mov_mrh :: "X64_SIBD_Addr \<Rightarrow> X64_Reg \<Rightarrow> X64_Instrs \<Rightarrow> X64_Instrs option" where
  "X64_emit_instr_mov_mrh dst src = emit (Mov (X64_MOV_MR True 1 dst src))"

text \<open>The constructor selects between the sign-extending, 32-bit sign-extending and zero-extending moves.\<close>

definition X64_emit_instr_mov_ext_rr ::
  "(u8 \<Rightarrow> u8 \<Rightarrow> X64_Reg \<Rightarrow> X64_Reg \<Rightarrow> X64_MovInstr) \<Rightarrow> u8 \<Rightarrow> X64_Reg \<Rightarrow> u8 \<Rightarrow> X64_Reg \<Rightarrow> X64_Instrs \<Rightarrow> X64_Instrs option" where
  "X64_emit_instr_mov_ext_rr k dst_size dst src_size src = emit (Mov (k dst_size src_size dst src))"

definition X64_emit_instr_mov_ext_rm ::
  "(u8 \<Rightarrow> u8 \<Rightarrow> X64_Reg \<Rightarrow> X64_SIBD_Addr \<Rightarrow> X64_MovInstr) \<Rightarrow> u8 \<Rightarrow> X64_Reg \<Rightarrow> u8 \<Rightarrow> X64_SIBD_Addr \<Rightarrow> X64_Instrs \<Rightarrow> X64_Instrs option" where
  "X64_emit_instr_mov_ext_rm k dst_size dst src_size src = emit (Mov (k dst_size src_size dst src))"

definition X64_emit_instr_lea :: "X64_Reg \<Rightarrow> X64_SIBD_Addr \<Rightarrow> X64_Instrs \<Rightarrow> X64_Instrs option" where
  "X64_emit_instr_lea dst src = emit (Mov (X64_LEA dst src))"

subsection \<open>Floating point\<close>

definition X64_emit_instr_flt_binary_rr :: "X64_FltOp \<Rightarrow> FloatKind \<Rightarrow> X64_Reg \<Rightarrow> X64_Reg \<Rightarrow> X64_Instrs \<Rightarrow> X64_Instrs option" where
  "X64_emit_instr_flt_binary_rr op kind dst src = emit (Flt (X64_FLT_RR op kind dst src))"

definition X64_emit_instr_flt_binary_rm :: "X64_FltOp \<Rightarrow> FloatKind \<Rightarrow> X64_Reg \<Rightarrow> X64_SIBD_Addr \<Rightarrow> X64_Instrs \<Rightarrow> X64_Instrs option" where
  "X64_emit_instr_flt_binary_rm op kind dst src = emit (Flt (X64_FLT_RM op kind dst src))"

definition X64_emit_instr_mov_flt_rr :: "FloatKind \<Rightarrow> X64_Reg \<Rightarrow> X64_Reg \<Rightarrow> X64_Instrs \<Rightarrow> X64_Instrs option" where
  "X64_emit_instr_mov_flt_rr kind dst src = emit (Flt (X64_MOV_FLT_RR kind dst src))"

definition X64_emit_instr_mov_flt_rm :: "FloatKind \<Rightarrow> X64_Reg \<Rightarrow> X64_SIBD_Addr \<Rightarrow> X64_Instrs \<Rightarrow> X64_Instrs option" where
  "X64_emit_instr_mov_flt_rm kind dst src = emit (Flt (X64_MOV_FLT_RM kind dst src))"

definition X64_emit_instr_mov_flt_mr :: "FloatKind \<Rightarrow> X64_SIBD_Addr \<Rightarrow> X64_Reg \<Rightarrow> X64_Instrs \<Rightarrow> X64_Instrs option" where
  "X64_emit_instr_mov_flt_mr kind dst src = emit (Flt (X64_MOV_FLT_MR kind dst src))"

text \<open>In the conversions and comparisons the float kind is the one of the source operand in the instruction name.\<close>

definition X64_emit_instr_cvt_flt_rr :: "FloatKind \<Rightarrow> X64_Reg \<Rightarrow> X64_Reg \<Rightarrow> X64_Instrs \<Rightarrow> X64_Instrs option" where
  "X64_emit_instr_cvt_flt_rr kind dst src = emit (Flt (X64_CVTFLT_RR kind dst src))"

definition X64_emit_instr_cvt_flt_rm :: "FloatKind \<Rightarrow> X64_Reg \<Rightarrow> X64_SIBD_Addr \<Rightarrow> X64_Instrs \<Rightarrow> X64_Instrs option" where
  "X64_emit_instr_cvt_flt_rm kind dst src = emit (Flt (X64_CVTFLT_RM kind dst src))"

definition X64_emit_instr_cvt_flt_to_int_rr :: "FloatKind \<Rightarrow> X64_Reg \<Rightarrow> bool \<Rightarrow> X64_Reg \<Rightarrow> X64_Instrs \<Rightarrow> X64_Instrs option" where
  "X64_emit_instr_cvt_flt_to_int_rr kind dst dst_8bytes src = emit (Flt (X64_CVTTFLT2SI_RR kind dst_8bytes dst src))"

definition X64_emit_instr_cvt_flt_to_int_rm :: "FloatKind \<Rightarrow> X64_Reg \<Rightarrow> bool \<Rightarrow> X64_SIBD_Addr \<Rightarrow> X64_Instrs \<Rightarrow> X64_Instrs option" where
  "X64_emit_instr_cvt_flt_to_int_rm kind dst dst_8bytes src = emit (Flt (X64_CVTTFLT2SI_RM kind dst_8bytes dst src))"

definition X64_emit_instr_cvt_int_to_flt_rr :: "FloatKind \<Rightarrow> X64_Reg \<Rightarrow> X64_Reg \<Rightarrow> bool \<Rightarrow> X64_Instrs \<Rightarrow> X64_Instrs option" where
  "X64_emit_instr_cvt_int_to_flt_rr kind dst src src_8bytes = emit (Flt (X64_CVTSI2FLT_RR kind src_8bytes dst src))"

definition X64_emit_instr_cvt_int_to_flt_rm :: "FloatKind \<Rightarrow> X64_Reg \<Rightarrow> X64_SIBD_Addr \<Rightarrow> bool \<Rightarrow> X64_Instrs \<Rightarrow> X64_Instrs option" where
  "X64_emit_instr_cvt_int_to_flt_rm kind dst src src_8bytes = emit (Flt (X64_CVTSI2FLT_RM kind src_8bytes dst src))"

definition X64_emit_instr_movdqu_mr :: "X64_SIBD_Addr \<Rightarrow> X64_Reg \<Rightarrow> X64_Instrs \<Rightarrow> X64_Instrs option" where
  "X64_emit_instr_movdqu_mr dst src s = do {
     assert_opt (x64_reg_classes src = X64_REG_CLASS_FLOAT);
     emit (Flt (X64_MOVDQU_MR dst src)) s }"

definition X64_emit_instr_movdqu_rm :: "X64_Reg \<Rightarrow> X64_SIBD_Addr \<Rightarrow> X64_Instrs \<Rightarrow> X64_Instrs option" where
  "X64_emit_instr_movdqu_rm dst src s = do {
     assert_opt (x64_reg_classes dst = X64_REG_CLASS_FLOAT);
     emit (Flt (X64_MOVDQU_RM dst src)) s }"

definition X64_emit_instr_cmp_flt_rr :: "FloatKind \<Rightarrow> X64_Reg \<Rightarrow> X64_Reg \<Rightarrow> X64_Instrs \<Rightarrow> X64_Instrs option" where
  "X64_emit_instr_cmp_flt_rr kind dst src = emit (Flt (X64_UCOMIS_RR kind dst src))"

definition X64_emit_instr_cmp_flt_rm :: "FloatKind \<Rightarrow> X64_Reg \<Rightarrow> X64_SIBD_Addr \<Rightarrow> X64_Instrs \<Rightarrow> X64_Instrs option" where
  "X64_emit_instr_cmp_flt_rm kind dst src = emit (Flt (X64_UCOMIS_RM kind dst src))"

section \<open>Reading the lists back\<close>

text \<open>The loop \<open>for (instr = head; instr; instr = instr->next)\<close>; the fuel bounds its length.\<close>

fun walk :: "nat \<Rightarrow> (nat \<Rightarrow> X64_InstrNode option) \<Rightarrow> nat option \<Rightarrow> X64_Instr list option" where
  "walk fuel h None = Some []"
| "walk 0 h (Some a) = None"
| "walk (Suc fuel) h (Some a) = do {
     n \<leftarrow> h a;
     is \<leftarrow> walk fuel h (node_next n);
     Some (node_instr n # is) }"

definition bblock_lists :: "X64_Instrs \<Rightarrow> X64_Instr list option list" where
  "bblock_lists s = map (\<lambda>b. walk (next_addr s) (heap s) (bb_head b)) (bblocks s)"

section \<open>Lists in the heap\<close>

fun chain :: "(nat \<Rightarrow> X64_InstrNode option) \<Rightarrow> nat option \<Rightarrow> (nat \<times> X64_Instr) list \<Rightarrow> bool" where
  "chain h p [] \<longleftrightarrow> p = None"
| "chain h p ((a, i) # as) \<longleftrightarrow> p = Some a \<and> (\<exists>q. h a = Some \<lparr>node_instr = i, node_next = q\<rparr> \<and> chain h q as)"

lemma walk_chain: "chain h p as \<Longrightarrow> length as \<le> fuel \<Longrightarrow> walk fuel h p = Some (map snd as)"
proof (induction as arbitrary: p fuel)
  case (Cons x as)
  then show ?case by (cases x; cases fuel) auto
qed simp

lemma chain_cong: "\<forall>a \<in> fst ` set as. h a = h' a \<Longrightarrow> chain h p as = chain h' p as"
  by (induction as arbitrary: p) auto

lemma chain_mapped: "chain h p as \<Longrightarrow> a \<in> fst ` set as \<Longrightarrow> h a \<noteq> None"
  by (induction as arbitrary: p) (auto, metis fst_conv image_eqI option.distinct(1))

text \<open>Linking a fresh node behind the last one.\<close>

lemma chain_snoc:
  assumes "chain h p as" "as \<noteq> []" "distinct (map fst as)" "b \<notin> fst ` set as"
    "h (fst (last as)) = Some n" "h b = Some \<lparr>node_instr = i, node_next = None\<rparr>"
  shows "chain (h(fst (last as) \<mapsto> n\<lparr>node_next := Some b\<rparr>)) p (as @ [(b, i)])"
  using assms
proof (induction as arbitrary: p)
  case (Cons x as)
  obtain a j where x: "x = (a, j)" by (cases x)
  show ?case
  proof (cases "as = []")
    case True
    then show ?thesis using Cons.prems x by auto
  next
    case False
    obtain q where q: "p = Some a" "h a = Some \<lparr>node_instr = j, node_next = q\<rparr>" "chain h q as"
      using Cons.prems(1) x by auto
    have "chain (h(fst (last as) \<mapsto> n\<lparr>node_next := Some b\<rparr>)) q (as @ [(b, i)])"
      using Cons.IH[OF q(3) False] Cons.prems(3-6) False by (simp add: fun_upd_def)
    moreover have "a \<noteq> fst (last as)" using Cons.prems(3) x False by (metis distinct.simps(2) fst_conv image_eqI last_in_set list.simps(9) set_map)
    ultimately show ?thesis using x q(1,2) False by (simp add: fun_upd_def)
  qed
qed simp

section \<open>Invariant\<close>

text \<open>Block \<open>b\<close> holds the nodes \<open>as\<close>.\<close>

definition block_holds :: "(nat \<Rightarrow> X64_InstrNode option) \<Rightarrow> X64_BBlock \<Rightarrow> (nat \<times> X64_Instr) list \<Rightarrow> bool" where
  "block_holds h b as \<longleftrightarrow>
     chain h (bb_head b) as \<and> bb_tail b = (if as = [] then None else Some (fst (last as))) \<and>
     bb_num_instrs b = of_nat (length as)"

definition instrs_hold :: "X64_Instrs \<Rightarrow> (nat \<times> X64_Instr) list list \<Rightarrow> bool" where
  "instrs_hold s ass \<longleftrightarrow>
     list_all2 (block_holds (heap s)) (bblocks s) ass \<and>
     distinct (map fst (concat ass)) \<and> (\<forall>a \<in> fst ` set (concat ass). a < next_addr s) \<and>
     length (concat ass) \<le> next_addr s \<and>
     num_instrs s = of_nat (length (concat ass))"

definition instrs_inv :: "X64_Instrs \<Rightarrow> bool" where
  "instrs_inv s \<longleftrightarrow> (\<exists>ass. instrs_hold s ass)"

lemma bblock_lists_hold:
  assumes "instrs_hold s ass"
  shows "bblock_lists s = map (\<lambda>as. Some (map snd as)) ass"
proof -
  have l: "list_all2 (block_holds (heap s)) (bblocks s) ass" and n: "length (concat ass) \<le> next_addr s"
    using assms by (simp_all add: instrs_hold_def)
  have "length as \<le> next_addr s" if "as \<in> set ass" for as
    using that n member_le_sum_list[of "length as" "map length ass"] by (simp add: length_concat)
  then show ?thesis unfolding bblock_lists_def
    using l by (intro nth_equalityI) (auto simp: list_all2_conv_all_nth block_holds_def walk_chain)
qed

lemma block_holds_cong: "\<forall>a \<in> fst ` set as. h a = h' a \<Longrightarrow> block_holds h b as = block_holds h' b as"
  using chain_cong[of as h h'] by (simp add: block_holds_def)

text \<open>Pushing a fresh node onto the last block.\<close>

lemma emit_hold:
  assumes "instrs_hold s (ass @ [as])"
  shows "\<exists>s'. emit i s = Some s' \<and> instrs_hold s' (ass @ [as @ [(next_addr s, i)]])"
proof -
  let ?p = "next_addr s" and ?node = "\<lparr>node_instr = i, node_next = None\<rparr>"
  let ?h = "(heap s)(?p \<mapsto> ?node)"
  have l: "list_all2 (block_holds (heap s)) (bblocks s) (ass @ [as])" and d: "distinct (map fst (concat (ass @ [as])))"
    and lt: "\<forall>a \<in> fst ` set (concat (ass @ [as])). a < ?p" and len: "length (concat (ass @ [as])) \<le> ?p"
    and num: "num_instrs s = of_nat (length (concat (ass @ [as])))"
    using assms unfolding instrs_hold_def by blast+
  obtain bs b where b: "bblocks s = bs @ [b]" "list_all2 (block_holds (heap s)) bs ass" "block_holds (heap s) b as"
    using l by (auto simp: list_all2_append2 list_all2_Cons2)
  have fresh: "?p \<notin> fst ` set as" "\<forall>xs \<in> set ass. ?p \<notin> fst ` set xs" using lt by force+
  define h' where "h' = (case bb_tail b of None \<Rightarrow> ?h | Some t \<Rightarrow> ?h(t \<mapsto> (the (?h t))\<lparr>node_next := Some ?p\<rparr>))"
  define b' where "b' = (case bb_tail b of None \<Rightarrow> b\<lparr>bb_head := Some ?p\<rparr> | Some t \<Rightarrow> b)\<lparr>bb_tail := Some ?p, bb_num_instrs := bb_num_instrs b + 1\<rparr>"
  let ?s' = "s\<lparr>heap := h', next_addr := ?p + 1, bblocks := bs @ [b'], num_instrs := num_instrs s + 1\<rparr>"
  have tl: "bb_tail b = (if as = [] then None else Some (fst (last as)))" and ch: "chain (heap s) (bb_head b) as"
    and nb: "bb_num_instrs b = of_nat (length as)"
    using b(3) by (simp_all add: block_holds_def)
  have map_last: "\<exists>n. heap s (fst (last as)) = Some n" if "as \<noteq> []"
    using chain_mapped[OF ch, of "fst (last as)"] that by auto
  have e: "emit i s = Some ?s'"
  proof (cases "as = []")
    case True
    then show ?thesis using tl b(1)
      by (simp add: emit_def X64_alloc_instr_def X64_push_instr_def Let_def h'_def b'_def)
  next
    case False
    then obtain n where n: "heap s (fst (last as)) = Some n" using map_last by blast
    have "fst (last as) \<noteq> ?p" using fresh(1) False by (metis image_eqI last_in_set)
    then show ?thesis using tl b(1) n False
      by (simp add: emit_def X64_alloc_instr_def X64_push_instr_def Let_def h'_def b'_def)
  qed
  have last_block: "block_holds h' b' (as @ [(?p, i)])"
  proof (cases "as = []")
    case True
    then show ?thesis using tl ch nb by (simp add: block_holds_def h'_def b'_def)
  next
    case False
    then obtain n where n: "heap s (fst (last as)) = Some n" using map_last by blast
    have ne: "fst (last as) \<noteq> ?p" using fresh(1) False by (metis image_eqI last_in_set)
    have "\<forall>a \<in> fst ` set as. ?h a = heap s a" using fresh(1) by (auto simp: rev_image_eqI)
    then have ch': "chain ?h (bb_head b) as" using ch chain_cong by blast
    have "chain (?h(fst (last as) \<mapsto> n\<lparr>node_next := Some ?p\<rparr>)) (bb_head b) (as @ [(?p, i)])"
      by (rule chain_snoc[OF ch' False]) (use d fresh n ne in auto)
    then show ?thesis using False tl nb n ne by (simp add: block_holds_def h'_def b'_def)
  qed
  have same: "h' a = heap s a" if "a \<in> fst ` set xs" "xs \<in> set ass" for a xs
  proof -
    have "a \<noteq> ?p" using that fresh(2) by blast
    moreover have "as \<noteq> [] \<longrightarrow> a \<noteq> fst (last as)"
    proof
      assume "as \<noteq> []"
      then have "fst (last as) \<in> fst ` set as" by simp
      moreover have "a \<in> fst ` set (concat ass)" using that by auto
      moreover have "fst ` set (concat ass) \<inter> fst ` set as = {}" using d by auto
      ultimately show "a \<noteq> fst (last as)" by blast
    qed
    ultimately show ?thesis using tl by (simp add: h'_def)
  qed
  have "list_all2 (block_holds h') bs ass"
  proof (rule list.rel_mono_strong[OF b(2)])
    fix b0 xs assume "xs \<in> set ass" and h: "block_holds (heap s) b0 xs"
    then have "\<forall>a \<in> fst ` set xs. h' a = heap s a" using same by blast
    then show "block_holds h' b0 xs" using h block_holds_cong by blast
  qed
  then have "instrs_hold ?s' (ass @ [as @ [(?p, i)]])"
    unfolding instrs_hold_def using last_block d lt len num fresh
    by (auto simp: list_all2_appendI less_Suc_eq)
  then show ?thesis using e by blast
qed

lemma new_bblock_hold: "instrs_hold s ass \<Longrightarrow> instrs_hold (X64_new_bblock s) (ass @ [[]])"
  by (auto simp: instrs_hold_def X64_new_bblock_def block_holds_def list_all2_appendI)

section \<open>The builder as an interface\<close>

text \<open>
  The code generator builds a procedure by opening blocks and emitting instructions. All it relies on
  is that an emitted instruction comes last in the block opened last, and nothing else changes.
\<close>

locale instr_builder =
  fixes emit_op :: "X64_Instr \<Rightarrow> 's \<Rightarrow> 's option"
    and new_op :: "'s \<Rightarrow> 's"
    and view :: "'s \<Rightarrow> X64_Instr list list"
    and inv :: "'s \<Rightarrow> bool"
  assumes emit_law: "inv s \<Longrightarrow> view s = bbs @ [is] \<Longrightarrow> \<exists>s'. emit_op i s = Some s' \<and> inv s' \<and> view s' = bbs @ [is @ [i]]"
    and new_law: "inv s \<Longrightarrow> inv (new_op s) \<and> view (new_op s) = view s @ [[]]"
begin

definition emit_all :: "X64_Instr list \<Rightarrow> 's \<Rightarrow> 's option" where
  "emit_all is s = fold (\<lambda>i r. r \<bind> emit_op i) is (Some s)"

definition build :: "X64_Instr list list \<Rightarrow> 's \<Rightarrow> 's option" where
  "build bbs s = fold (\<lambda>is r. r \<bind> (\<lambda>s. emit_all is (new_op s))) bbs (Some s)"

lemma emit_all_law:
  "inv s \<Longrightarrow> view s = bbs @ [is0] \<Longrightarrow> \<exists>s'. emit_all is s = Some s' \<and> inv s' \<and> view s' = bbs @ [is0 @ is]"
proof (induction "is" arbitrary: s is0)
  case (Cons i "is")
  then obtain s1 where "emit_op i s = Some s1" "inv s1" "view s1 = bbs @ [is0 @ [i]]"
    using emit_law by blast
  then show ?case using Cons.IH[of s1 "is0 @ [i]"] by (simp add: emit_all_def)
qed (simp add: emit_all_def)

lemma build_law: "inv s \<Longrightarrow> \<exists>s'. build bbs s = Some s' \<and> inv s' \<and> view s' = view s @ bbs"
proof (induction bbs arbitrary: s)
  case (Cons "is" bbs)
  then obtain s1 where "emit_all is (new_op s) = Some s1" "inv s1" "view s1 = view s @ [is]"
    using emit_all_law[of "new_op s" "view s" "[]" "is"] new_law by auto
  then show ?case using Cons.IH[of s1] by (simp add: build_def)
qed (simp add: build_def)

end

definition instrs_view :: "X64_Instrs \<Rightarrow> X64_Instr list list" where
  "instrs_view s = map the (bblock_lists s)"

lemma instrs_view_hold: "instrs_hold s ass \<Longrightarrow> instrs_view s = map (map snd) ass"
  by (simp add: instrs_view_def bblock_lists_hold comp_def)

interpretation x64_builder: instr_builder emit X64_new_bblock instrs_view instrs_inv
proof
  fix s bbs "is" i assume inv: "instrs_inv s" and v: "instrs_view s = bbs @ [is]"
  obtain ass0 where h: "instrs_hold s ass0" using inv by (auto simp: instrs_inv_def)
  then have "map (map snd) ass0 = bbs @ [is]" using v instrs_view_hold by simp
  then obtain ass as where a: "ass0 = ass @ [as]" "map (map snd) ass = bbs" "map snd as = is"
    by (auto simp: map_eq_append_conv)
  obtain s' where s': "emit i s = Some s'" "instrs_hold s' (ass @ [as @ [(next_addr s, i)]])"
    using emit_hold h a(1) by blast
  then have "instrs_view s' = bbs @ [is @ [i]]" using instrs_view_hold a(2,3) by simp
  then show "\<exists>s'. emit i s = Some s' \<and> instrs_inv s' \<and> instrs_view s' = bbs @ [is @ [i]]"
    using s' by (auto simp: instrs_inv_def)
next
  fix s assume "instrs_inv s"
  then obtain ass where h: "instrs_hold s ass" by (auto simp: instrs_inv_def)
  show "instrs_inv (X64_new_bblock s) \<and> instrs_view (X64_new_bblock s) = instrs_view s @ [[]]"
    using new_bblock_hold[OF h] instrs_view_hold[OF h] instrs_view_hold[OF new_bblock_hold[OF h]]
    by (auto simp: instrs_inv_def)
qed

section \<open>Properties\<close>

lemma empty_instrs_hold: "instrs_hold empty_instrs []"
  by (simp add: instrs_hold_def empty_instrs_def)

lemma empty_instrs_inv: "instrs_inv empty_instrs" "instrs_view empty_instrs = []"
  using empty_instrs_hold instrs_view_hold[OF empty_instrs_hold] by (auto simp: instrs_inv_def)

text \<open>
  C21. Emitting into a well-formed instruction store links the instruction behind the last one of the
  last block: walking the lists (which ends) gives the old lists with the instruction appended, the
  lists of other blocks and their nodes are untouched, and the counters count the nodes.
\<close>

theorem emit_appends:
  assumes "instrs_hold s (ass @ [as])"
  shows "\<exists>s'. emit i s = Some s' \<and> instrs_hold s' (ass @ [as @ [(next_addr s, i)]]) \<and>
     bblock_lists s' = butlast (bblock_lists s) @ [Some (map snd as @ [i])]"
proof -
  obtain s' where s': "emit i s = Some s'" "instrs_hold s' (ass @ [as @ [(next_addr s, i)]])"
    using emit_hold[OF assms] by blast
  then show ?thesis using bblock_lists_hold[OF s'(2)] bblock_lists_hold[OF assms] by simp
qed

lemma emit_appends_witness:
  "\<exists>s'. emit (Ctrl X64_RET) (X64_new_bblock empty_instrs) = Some s' \<and>
     instrs_hold s' ([] @ [[] @ [(next_addr (X64_new_bblock empty_instrs), Ctrl X64_RET)]]) \<and>
     bblock_lists s' = butlast (bblock_lists (X64_new_bblock empty_instrs)) @ [Some (map snd ([] :: (nat \<times> X64_Instr) list) @ [Ctrl X64_RET])]"
  by (rule emit_appends) (use new_bblock_hold[OF empty_instrs_hold] in simp)

text \<open>
  Opening a block for each list of instructions and emitting them in order, from the empty store,
  builds exactly these lists.
\<close>

theorem build_view: "\<exists>s. x64_builder.build bbs empty_instrs = Some s \<and> instrs_inv s \<and> instrs_view s = bbs"
  using x64_builder.build_law[OF empty_instrs_inv(1), of bbs] empty_instrs_inv(2) by simp

end
