(* ===== verification/Xir_Regs.thy ===== *)
theory Xir_Regs
  imports Regs
begin

text \<open>
  The virtual registers of the low-level form (\<open>src/src/x64_gen/xir.h\<close> lines 682-755, and
  \<open>src/src/x64_gen/ir_to_xir.c\<close> lines 62-237): live ranges with their allocation controls, and the
  union-find structure that makes registers aliases of each other. A virtual register is a natural
  number; \<open>XIR_next_reg\<close> asserts that it stays below \<open>XIR_REG_COUNT\<close>, so no \<open>u32\<close> wraps.
\<close>

section \<open>Data\<close>

definition XIR_REG_COUNT :: nat where
  "XIR_REG_COUNT = 0xFFFFFFFF"

datatype XIR_RegLoc = XIR_LREG_LOC_UNASSIGNED | XIR_LREG_LOC_REG X64_Reg | XIR_LREG_LOC_STACK s32

datatype XIR_RegAllocControl =
    XIR_REG_ALLOC_CTRL_NONE
  | XIR_REG_ALLOC_CTRL_FORCE_REG X64_Reg
  | XIR_REG_ALLOC_CTRL_FORCE_ANY_REG u32
  | XIR_REG_ALLOC_CTRL_FORCE_REG_OR_SPILL u32
  | XIR_REG_ALLOC_CTRL_HINT_LIR_REG nat
  | XIR_REG_ALLOC_CTRL_HINT_PHYS_REG X64_Reg

record XIR_RegRange =
  rr_lreg :: nat
  rr_start :: int
  rr_end :: int
  rr_class :: X64_RegClass
  rr_ctrl :: XIR_RegAllocControl
  rr_loc :: XIR_RegLoc

record XIR_Builder =
  num_regs :: nat
  lreg_ranges :: "XIR_RegRange list"
  lreg_aliases :: "nat list"
  lreg_sizes :: "nat list"
  reg_map :: "nat list"
  stack_reg_mask :: u32

section \<open>Controls\<close>

fun ctrl_is_none :: "XIR_RegAllocControl \<Rightarrow> bool" where
  "ctrl_is_none XIR_REG_ALLOC_CTRL_NONE = True"
| "ctrl_is_none _ = False"

fun ctrl_is_hint :: "XIR_RegAllocControl \<Rightarrow> bool" where
  "ctrl_is_hint (XIR_REG_ALLOC_CTRL_HINT_LIR_REG _) = True"
| "ctrl_is_hint (XIR_REG_ALLOC_CTRL_HINT_PHYS_REG _) = True"
| "ctrl_is_hint _ = False"

fun ctrl_is_force_any :: "XIR_RegAllocControl \<Rightarrow> bool" where
  "ctrl_is_force_any (XIR_REG_ALLOC_CTRL_FORCE_ANY_REG _) = True"
| "ctrl_is_force_any _ = False"

definition XIR_merge_ranges :: "XIR_RegRange \<Rightarrow> XIR_RegRange \<Rightarrow> XIR_RegRange option" where
  "XIR_merge_ranges dst src =
     (if \<not> ctrl_is_none (rr_ctrl src) then do {
        assert_opt (ctrl_is_none (rr_ctrl dst) \<or> ctrl_is_hint (rr_ctrl dst));
        Some (dst\<lparr>rr_ctrl := rr_ctrl src\<rparr>) }
      else Some dst)"

section \<open>Union-find\<close>

text \<open>The search for the root halves the path it follows; \<open>None\<close> is a read outside the array or a cycle.\<close>

partial_function (option) find_alias :: "nat list \<Rightarrow> nat \<Rightarrow> (nat \<times> nat list) option" where
  "find_alias roots r = do {
     assert_opt (r < length roots);
     let next_r = roots ! r;
     if next_r \<noteq> r then do {
       assert_opt (next_r < length roots);
       find_alias (roots[r := roots ! next_r]) next_r }
     else Some (r, roots) }"

definition XIR_find_alias_reg :: "XIR_Builder \<Rightarrow> nat \<Rightarrow> (nat \<times> XIR_Builder) option" where
  "XIR_find_alias_reg b r = do {
     (x, roots) \<leftarrow> find_alias (lreg_aliases b) r;
     Some (x, b\<lparr>lreg_aliases := roots\<rparr>) }"

definition XIR_alias_regs :: "XIR_Builder \<Rightarrow> nat \<Rightarrow> nat \<Rightarrow> XIR_Builder option" where
  "XIR_alias_regs b u v = do {
     (root_u, b) \<leftarrow> XIR_find_alias_reg b u;
     (root_v, b) \<leftarrow> XIR_find_alias_reg b v;
     if root_u = root_v then Some b
     else do {
       let ranges = lreg_ranges b;
       let roots = lreg_aliases b;
       let sizes = lreg_sizes b;
       assert_opt (root_u < length sizes \<and> root_v < length sizes \<and> root_u < length ranges \<and> root_v < length ranges);
       if sizes ! root_u > sizes ! root_v then do {
         r \<leftarrow> XIR_merge_ranges (ranges ! root_u) (ranges ! root_v);
         Some (b\<lparr>lreg_aliases := roots[root_v := root_u],
                 lreg_sizes := sizes[root_u := sizes ! root_u + sizes ! root_v],
                 lreg_ranges := ranges[root_u := r]\<rparr>) }
       else do {
         r \<leftarrow> XIR_merge_ranges (ranges ! root_v) (ranges ! root_u);
         Some (b\<lparr>lreg_aliases := roots[root_u := root_v],
                 lreg_sizes := sizes[root_v := sizes ! root_v + sizes ! root_u],
                 lreg_ranges := ranges[root_v := r]\<rparr>) } } }"

section \<open>New registers\<close>

definition XIR_next_reg :: "X64_RegClass \<Rightarrow> XIR_Builder \<Rightarrow> (nat \<times> XIR_Builder) option" where
  "XIR_next_reg reg_class b = do {
     let next_reg = num_regs b;
     assert_opt (next_reg \<noteq> XIR_REG_COUNT);
     Some (next_reg, b\<lparr>num_regs := next_reg + 1,
       lreg_ranges := lreg_ranges b @
         [\<lparr>rr_lreg = next_reg, rr_start = -1, rr_end = -1, rr_class = reg_class,
           rr_ctrl = XIR_REG_ALLOC_CTRL_NONE, rr_loc = XIR_LREG_LOC_UNASSIGNED\<rparr>],
       lreg_aliases := lreg_aliases b @ [next_reg],
       lreg_sizes := lreg_sizes b @ [1]\<rparr>) }"

text \<open>The entry of an IR register in \<open>reg_map\<close> is all ones until it has a register.\<close>

definition XIR_get_reg :: "nat \<Rightarrow> X64_RegClass \<Rightarrow> XIR_Builder \<Rightarrow> (nat \<times> XIR_Builder) option" where
  "XIR_get_reg ireg reg_class b = do {
     assert_opt (ireg < length (reg_map b));
     let result = reg_map b ! ireg;
     if result = XIR_REG_COUNT then do {
       (result, b) \<leftarrow> XIR_next_reg reg_class b;
       Some (result, b\<lparr>reg_map := (reg_map b)[ireg := result]\<rparr>) }
     else XIR_find_alias_reg b result }"

definition set_ctrl :: "nat \<Rightarrow> XIR_RegAllocControl \<Rightarrow> XIR_Builder \<Rightarrow> XIR_Builder" where
  "set_ctrl lreg c b = b\<lparr>lreg_ranges := (lreg_ranges b)[lreg := (lreg_ranges b ! lreg)\<lparr>rr_ctrl := c\<rparr>]\<rparr>"

definition XIR_def_phys_reg :: "X64_Reg \<Rightarrow> XIR_Builder \<Rightarrow> (nat \<times> XIR_Builder) option" where
  "XIR_def_phys_reg phys_reg b = do {
     (result, b) \<leftarrow> XIR_next_reg (x64_reg_classes phys_reg) b;
     assert_opt (result = length (lreg_ranges b) - 1);
     Some (result, set_ctrl result (XIR_REG_ALLOC_CTRL_FORCE_REG phys_reg) b) }"

section \<open>Forcing and hinting\<close>

definition root_range :: "XIR_Builder \<Rightarrow> nat \<Rightarrow> (nat \<times> XIR_RegRange \<times> XIR_Builder) option" where
  "root_range b lreg = do {
     (lreg, b) \<leftarrow> XIR_find_alias_reg b lreg;
     assert_opt (lreg < num_regs b);
     assert_opt (lreg < length (lreg_ranges b));
     Some (lreg, lreg_ranges b ! lreg, b) }"

definition XIR_force_arg_reg :: "nat \<Rightarrow> X64_Reg \<Rightarrow> XIR_Builder \<Rightarrow> XIR_Builder option" where
  "XIR_force_arg_reg lreg phys_reg b = do {
     (lreg, range, b) \<leftarrow> root_range b lreg;
     assert_opt (ctrl_is_none (rr_ctrl range) \<or> ctrl_is_hint (rr_ctrl range));
     Some (set_ctrl lreg (XIR_REG_ALLOC_CTRL_FORCE_REG_OR_SPILL (push_bit (reg_num phys_reg) 1)) b) }"

definition XIR_force_stack_arg_reg :: "nat \<Rightarrow> XIR_Builder \<Rightarrow> XIR_Builder option" where
  "XIR_force_stack_arg_reg lreg b = do {
     (lreg, range, b) \<leftarrow> root_range b lreg;
     assert_opt (ctrl_is_none (rr_ctrl range) \<or> ctrl_is_hint (rr_ctrl range));
     Some (set_ctrl lreg (XIR_REG_ALLOC_CTRL_FORCE_REG_OR_SPILL (stack_reg_mask b)) b) }"

definition XIR_force_any_reg :: "X64_Target \<Rightarrow> nat \<Rightarrow> u32 \<Rightarrow> XIR_Builder \<Rightarrow> XIR_Builder option" where
  "XIR_force_any_reg target lreg banned_regs b = do {
     (lreg, range, b) \<leftarrow> root_range b lreg;
     case rr_ctrl range of
       XIR_REG_ALLOC_CTRL_FORCE_REG _ \<Rightarrow> None
     | XIR_REG_ALLOC_CTRL_FORCE_REG_OR_SPILL _ \<Rightarrow> None
     | XIR_REG_ALLOC_CTRL_FORCE_ANY_REG preg_mask \<Rightarrow>
         Some (set_ctrl lreg (XIR_REG_ALLOC_CTRL_FORCE_ANY_REG (preg_mask AND NOT banned_regs)) b)
     | _ \<Rightarrow> Some (set_ctrl lreg (XIR_REG_ALLOC_CTRL_FORCE_ANY_REG (scratch_reg_mask target AND NOT banned_regs)) b) }"

definition XIR_hint_same_reg :: "nat \<Rightarrow> nat \<Rightarrow> XIR_Builder \<Rightarrow> XIR_Builder option" where
  "XIR_hint_same_reg copier_lreg copied_lreg b = do {
     (lreg, range, b) \<leftarrow> root_range b copier_lreg;
     if ctrl_is_none (rr_ctrl range) then Some (set_ctrl lreg (XIR_REG_ALLOC_CTRL_HINT_LIR_REG copied_lreg) b)
     else Some b }"

text \<open>Follow the chain of register hints; \<open>None\<close> when the chain has a cycle (the loop does not end).\<close>

partial_function (option) hint_chain_end :: "XIR_RegRange list \<Rightarrow> nat \<Rightarrow> nat option" where
  "hint_chain_end ranges lreg =
     (if lreg < length ranges then
        (case rr_ctrl (ranges ! lreg) of
           XIR_REG_ALLOC_CTRL_HINT_LIR_REG next_lreg \<Rightarrow> hint_chain_end ranges next_lreg
         | _ \<Rightarrow> Some lreg)
      else None)"

definition XIR_hint_phys_reg :: "X64_Target \<Rightarrow> nat \<Rightarrow> X64_Reg \<Rightarrow> XIR_Builder \<Rightarrow> XIR_Builder option" where
  "XIR_hint_phys_reg target lreg phys_reg b = do {
     (lreg, range, b) \<leftarrow> root_range b lreg;
     lreg \<leftarrow> (if \<not> X64_is_caller_saved_reg target phys_reg then hint_chain_end (lreg_ranges b) lreg else Some lreg);
     if ctrl_is_none (rr_ctrl (lreg_ranges b ! lreg))
     then Some (set_ctrl lreg (XIR_REG_ALLOC_CTRL_HINT_PHYS_REG phys_reg) b)
     else Some b }"

section \<open>The forest of aliases\<close>

text \<open>\<open>leads roots r x\<close>: following the parents from \<open>r\<close> ends at the root \<open>x\<close>.\<close>

inductive leads :: "nat list \<Rightarrow> nat \<Rightarrow> nat \<Rightarrow> bool" for roots where
  leads_root: "r < length roots \<Longrightarrow> roots ! r = r \<Longrightarrow> leads roots r r"
| leads_step: "r < length roots \<Longrightarrow> roots ! r \<noteq> r \<Longrightarrow> leads roots (roots ! r) x \<Longrightarrow> leads roots r x"

inductive_cases leadsE: "leads roots r x"

definition forest :: "nat list \<Rightarrow> (nat \<Rightarrow> nat) \<Rightarrow> bool" where
  "forest roots d \<longleftrightarrow> (\<forall>i < length roots. roots ! i < length roots \<and> (roots ! i \<noteq> i \<longrightarrow> d (roots ! i) < d i))"

definition dsu_wf :: "nat list \<Rightarrow> bool" where
  "dsu_wf roots \<longleftrightarrow> (\<exists>d. forest roots d)"

lemma leads_fun: "leads roots r x \<Longrightarrow> leads roots r y \<Longrightarrow> y = x"
  by (induction rule: leads.induct) (auto elim: leadsE)

lemma leads_props: "leads roots r x \<Longrightarrow> r < length roots \<and> x < length roots \<and> roots ! x = x"
  by (induction rule: leads.induct) auto

lemma leads_ex: "forest roots d \<Longrightarrow> r < length roots \<Longrightarrow> \<exists>x. leads roots r x"
proof (induction "d r" arbitrary: r rule: less_induct)
  case less
  show ?case
  proof (cases "roots ! r = r")
    case False
    then show ?thesis using less by (metis forest_def leads_step)
  qed (use less in \<open>auto intro: leads_root\<close>)
qed

lemma leads_inv: "leads roots r x \<Longrightarrow> roots ! r \<noteq> r \<Longrightarrow> leads roots (roots ! r) x"
  by (auto elim: leadsE)

section \<open>Path halving\<close>

lemma forest_halve:
  "forest roots d \<Longrightarrow> r < length roots \<Longrightarrow> roots ! r = n \<Longrightarrow> n \<noteq> r \<Longrightarrow> forest (roots[r := roots ! n]) d"
  unfolding forest_def by (auto simp: nth_list_update) (metis less_trans)

lemma leads_halve1:
  assumes "leads roots i x" "forest roots d" "roots ! r = n" "n \<noteq> r"
  shows "leads (roots[r := roots ! n]) i x"
  using assms(1)
proof (induction rule: leads.induct)
  case (leads_root i)
  then have "i \<noteq> r" using assms(3,4) by auto
  then show ?case using leads_root by (intro leads.leads_root) auto
next
  case (leads_step i x)
  let ?r = "roots[r := roots ! n]"
  show ?case
  proof (cases "i = r")
    case False
    then have "leads ?r (?r ! i) x" using leads_step(4) by simp
    then show ?thesis using leads_step(1,2) False by (intro leads.leads_step[of i]) simp_all
  next
    case True
    have n: "leads ?r n x" using leads_step(4) True assms(3) by simp
    have d: "d n < d r" "roots ! n \<noteq> n \<longrightarrow> d (roots ! n) < d n" and nl: "n < length roots"
      using assms(2-4) leads_step(1) True unfolding forest_def by auto
    have ne: "roots ! n \<noteq> r" using d assms(4) by force
    have "leads ?r (roots ! n) x"
    proof (cases "roots ! n = n")
      case False
      have "?r ! n = roots ! n" using assms(4) by simp
      then show ?thesis using leads_inv[OF n] False by simp
    qed (use n in simp)
    moreover have "?r ! r = roots ! n" using True leads_step(1) by simp
    ultimately show ?thesis using True leads_step(1) ne leads.leads_step[of r ?r x] by simp
  qed
qed

lemma leads_halve:
  assumes "forest roots d" "r < length roots" "roots ! r = n" "n \<noteq> r"
  shows "leads (roots[r := roots ! n]) i x = leads roots i x"
proof
  assume l: "leads (roots[r := roots ! n]) i x"
  then have "i < length roots" using leads_props by force
  then obtain y where y: "leads roots i y" using leads_ex[OF assms(1)] by blast
  then have "leads (roots[r := roots ! n]) i y" using leads_halve1[OF _ assms(1,3,4)] by blast
  then show "leads roots i x" using l y leads_fun by metis
qed (rule leads_halve1[OF _ assms(1,3,4)])

lemma find_alias_correct:
  "forest roots d \<Longrightarrow> r < length roots \<Longrightarrow>
   \<exists>x roots'. find_alias roots r = Some (x, roots') \<and> leads roots r x \<and> forest roots' d \<and>
     length roots' = length roots \<and> (\<forall>i y. leads roots' i y = leads roots i y)"
proof (induction "d r" arbitrary: r roots rule: less_induct)
  case less
  let ?n = "roots ! r"
  show ?case
  proof (cases "?n = r")
    case True
    then show ?thesis using less.prems by (subst find_alias.simps) (auto intro: leads_root)
  next
    case False
    let ?roots = "roots[r := roots ! ?n]"
    have n: "?n < length roots" "d ?n < d r" using less.prems False by (auto simp: forest_def)
    have f: "forest ?roots d" using forest_halve[OF less.prems] False by blast
    have l: "leads ?roots i y = leads roots i y" for i y using leads_halve[OF less.prems] False by blast
    obtain x roots' where x: "find_alias ?roots ?n = Some (x, roots')" "leads ?roots ?n x" "forest roots' d"
        "length roots' = length roots" "\<forall>i y. leads roots' i y = leads ?roots i y"
      using less.hyps[OF n(2) f] n(1) by auto
    have "leads roots r x" using x(2) l less.prems(2) False by (auto intro: leads_step)
    then show ?thesis using x l False n(1) less.prems(2) by (subst find_alias.simps) auto
  qed
qed

section \<open>Joining two trees\<close>

lemma forest_join:
  assumes "forest roots d" "a < length roots" "b < length roots" "roots ! a = a" "roots ! b = b" "a \<noteq> b"
  shows "forest (roots[a := b]) (\<lambda>i. if leads roots i a then d i + d b + 1 else d i)"
proof -
  have nb: "\<not> leads roots b a" using leads_fun[OF leads_root[OF assms(3,5)]] assms(6) by blast
  have step: "leads roots (roots ! i) a = leads roots i a" if "i < length roots" "roots ! i \<noteq> i" for i
    using leads_inv[OF _ that(2)] leads_step[OF that] by blast
  have aa: "leads roots a a" by (rule leads_root[OF assms(2,4)])
  show ?thesis unfolding forest_def
  proof (intro allI impI conjI)
    fix i assume i: "i < length (roots[a := b])"
    then show "roots[a := b] ! i < length (roots[a := b])"
      using assms(1,3) by (cases "i = a") (simp_all add: forest_def)
    assume ne: "roots[a := b] ! i \<noteq> i"
    show "(if leads roots (roots[a := b] ! i) a then d (roots[a := b] ! i) + d b + 1 else d (roots[a := b] ! i))
        < (if leads roots i a then d i + d b + 1 else d i)"
    proof (cases "i = a")
      case True
      then show ?thesis using nb aa assms(2) by simp
    next
      case False
      then have "d (roots ! i) < d i" using assms(1) i ne by (simp add: forest_def)
      then show ?thesis using False i ne step by simp
    qed
  qed
qed

lemma leads_join:
  assumes "forest roots d" "a < length roots" "b < length roots" "roots ! a = a" "roots ! b = b" "a \<noteq> b"
  shows "leads (roots[a := b]) i x \<longleftrightarrow> (leads roots i a \<and> x = b) \<or> (\<not> leads roots i a \<and> leads roots i x)"
proof -
  let ?r = "roots[a := b]"
  have bb: "leads ?r b b" using assms(3,5,6) by (intro leads_root) auto
  have one: "leads ?r i (if y = a then b else y)" if "leads roots i y" for i y
    using that
  proof (induction rule: leads.induct)
    case (leads_root i)
    show ?case
    proof (cases "i = a")
      case True
      have "leads ?r (?r ! a) b" using bb assms(2) by simp
      moreover have "?r ! a \<noteq> a" using assms(2,6) by simp
      ultimately show ?thesis using True assms(2) leads_step[of a ?r b] by simp
    qed (use leads_root in \<open>auto intro: leads.leads_root\<close>)
  next
    case (leads_step i x)
    then have ia: "i \<noteq> a" using assms(4) by auto
    then have "leads ?r (?r ! i) (if x = a then b else x)" using leads_step(4) by simp
    then show ?case using leads_step(1,2) ia by (intro leads.leads_step[of i]) simp_all
  qed
  show ?thesis
  proof
    assume l: "leads ?r i x"
    then have "i < length roots" using leads_props by force
    then obtain y where y: "leads roots i y" using leads_ex[OF assms(1)] by blast
    have "x = (if y = a then b else y)" using leads_fun[OF one[OF y] l] .
    then show "(leads roots i a \<and> x = b) \<or> (\<not> leads roots i a \<and> leads roots i x)"
      using y leads_fun by metis
  next
    assume "(leads roots i a \<and> x = b) \<or> (\<not> leads roots i a \<and> leads roots i x)"
    then show "leads ?r i x"
    proof
      assume "leads roots i a \<and> x = b"
      then show ?thesis using one[of i a] by simp
    next
      assume r: "\<not> leads roots i a \<and> leads roots i x"
      then have "x \<noteq> a" by auto
      then show ?thesis using one[of i x] r by simp
    qed
  qed
qed

section \<open>The builder\<close>

definition builder_wf :: "XIR_Builder \<Rightarrow> bool" where
  "builder_wf b \<longleftrightarrow>
     dsu_wf (lreg_aliases b) \<and> length (lreg_aliases b) = num_regs b \<and> length (lreg_sizes b) = num_regs b \<and>
     length (lreg_ranges b) = num_regs b \<and> num_regs b \<le> XIR_REG_COUNT \<and>
     (\<forall>i < num_regs b. rr_lreg (lreg_ranges b ! i) = i) \<and>
     (\<forall>l \<in> set (reg_map b). l = XIR_REG_COUNT \<or> l < num_regs b)"

text \<open>Two registers are aliases of each other when they have the same root.\<close>

definition aliased :: "XIR_Builder \<Rightarrow> nat \<Rightarrow> nat \<Rightarrow> bool" where
  "aliased b r s \<longleftrightarrow> (\<exists>x. leads (lreg_aliases b) r x \<and> leads (lreg_aliases b) s x)"

definition same_aliases :: "XIR_Builder \<Rightarrow> XIR_Builder \<Rightarrow> bool" where
  "same_aliases b b' \<longleftrightarrow> (\<forall>i y. leads (lreg_aliases b') i y = leads (lreg_aliases b) i y)"

lemma leads_iff: "leads roots r x \<Longrightarrow> leads roots r y \<longleftrightarrow> y = x"
  using leads_fun by blast

lemma aliased_sym: "aliased b r s \<Longrightarrow> aliased b s r"
  unfolding aliased_def by blast

lemma aliased_trans: "aliased b r s \<Longrightarrow> aliased b s t \<Longrightarrow> aliased b r t"
  unfolding aliased_def using leads_iff by blast

lemma find_alias_reg_wf:
  assumes "builder_wf b" "r < num_regs b"
  shows "\<exists>x roots. XIR_find_alias_reg b r = Some (x, b\<lparr>lreg_aliases := roots\<rparr>) \<and> leads (lreg_aliases b) r x \<and>
     builder_wf (b\<lparr>lreg_aliases := roots\<rparr>) \<and> same_aliases b (b\<lparr>lreg_aliases := roots\<rparr>)"
proof -
  obtain d where d: "forest (lreg_aliases b) d" using assms(1) by (auto simp: builder_wf_def dsu_wf_def)
  have r: "r < length (lreg_aliases b)" using assms by (simp add: builder_wf_def)
  obtain x roots where x: "find_alias (lreg_aliases b) r = Some (x, roots)" "leads (lreg_aliases b) r x" "forest roots d"
      "length roots = length (lreg_aliases b)" "\<forall>i y. leads roots i y = leads (lreg_aliases b) i y"
    using find_alias_correct[OF d r] by blast
  then show ?thesis using assms(1)
    by (auto simp: XIR_find_alias_reg_def builder_wf_def dsu_wf_def same_aliases_def)
qed

text \<open>
  Looking up the root of a register returns (path halving ends), the answer is the root, and
  although the search rewrites the parents on its way, no register changes its root.
\<close>

theorem find_alias_keeps_roots:
  assumes "builder_wf b" "r < num_regs b"
  shows "\<exists>x b'. XIR_find_alias_reg b r = Some (x, b') \<and> leads (lreg_aliases b) r x \<and> builder_wf b' \<and> same_aliases b b'"
  using find_alias_reg_wf[OF assms] by blast

definition sample_builder :: XIR_Builder where
  "sample_builder =
     \<lparr>num_regs = 4,
      lreg_ranges = map (\<lambda>i. \<lparr>rr_lreg = i, rr_start = -1, rr_end = -1, rr_class = X64_REG_CLASS_INT,
        rr_ctrl = XIR_REG_ALLOC_CTRL_NONE, rr_loc = XIR_LREG_LOC_UNASSIGNED\<rparr>) [0..<4],
      lreg_aliases = [1, 1, 3, 3], lreg_sizes = [1, 2, 1, 2], reg_map = [], stack_reg_mask = 0\<rparr>"

lemma sample_builder_wf: "builder_wf sample_builder"
proof -
  have "forest [1, 1, 3, 3] (\<lambda>i. 4 - i)" unfolding forest_def by (simp add: less_Suc_eq numeral_3_eq_3 nth_Cons')
  then show ?thesis
    by (auto simp: builder_wf_def sample_builder_def dsu_wf_def XIR_REG_COUNT_def)
qed

lemma find_alias_keeps_roots_witness:
  "\<exists>x b'. XIR_find_alias_reg sample_builder 0 = Some (x, b') \<and> leads (lreg_aliases sample_builder) 0 x \<and> builder_wf b' \<and>
     same_aliases sample_builder b'"
  by (rule find_alias_keeps_roots[OF sample_builder_wf]) (simp add: sample_builder_def)

definition mergeable :: "XIR_RegRange \<Rightarrow> XIR_RegRange \<Rightarrow> bool" where
  "mergeable dst src \<longleftrightarrow> ctrl_is_none (rr_ctrl src) \<or> ctrl_is_none (rr_ctrl dst) \<or> ctrl_is_hint (rr_ctrl dst)"

lemma merge_ranges_some:
  "mergeable dst src \<Longrightarrow> \<exists>r. XIR_merge_ranges dst src = Some r \<and> rr_lreg r = rr_lreg dst"
  by (auto simp: XIR_merge_ranges_def mergeable_def)

text \<open>One of the two symmetric cases of a union: the tree of \<open>a\<close> is hung below \<open>c\<close>.\<close>

lemma join_wf:
  fixes sz :: "nat list"
  assumes "builder_wf b" "leads (lreg_aliases b) u a" "leads (lreg_aliases b) v c" "a \<noteq> c" "rr_lreg r = c"
  defines "b' \<equiv> b\<lparr>lreg_aliases := (lreg_aliases b)[a := c], lreg_sizes := sz, lreg_ranges := (lreg_ranges b)[c := r]\<rparr>"
  assumes "length sz = num_regs b"
  shows "builder_wf b'"
    "aliased b' i j \<longleftrightarrow> aliased b i j \<or> aliased b i u \<and> aliased b j v \<or> aliased b i v \<and> aliased b j u"
proof -
  obtain d where d: "forest (lreg_aliases b) d" using assms(1) by (auto simp: builder_wf_def dsu_wf_def)
  note pa = leads_props[OF assms(2)] and pc = leads_props[OF assms(3)]
  have "forest ((lreg_aliases b)[a := c]) (\<lambda>i. if leads (lreg_aliases b) i a then d i + d c + 1 else d i)"
    by (rule forest_join[OF d]) (use pa pc assms(4) in auto)
  then show "builder_wf b'" using assms(1,5,7) pa pc
    unfolding b'_def builder_wf_def dsu_wf_def by (auto simp: nth_list_update)
  have j: "leads (lreg_aliases b') i x \<longleftrightarrow>
      (leads (lreg_aliases b) i a \<and> x = c) \<or> (\<not> leads (lreg_aliases b) i a \<and> leads (lreg_aliases b) i x)" for i x
    unfolding b'_def using leads_join[OF d, of a c i x] pa pc assms(4) by simp
  have iu: "aliased b i u = leads (lreg_aliases b) i a" for i
    unfolding aliased_def using assms(2) leads_iff by blast
  have iv: "aliased b i v = leads (lreg_aliases b) i c" for i
    unfolding aliased_def using assms(3) leads_iff by blast
  show "aliased b' i j \<longleftrightarrow> aliased b i j \<or> aliased b i u \<and> aliased b j v \<or> aliased b i v \<and> aliased b j u"
  proof (cases "(\<exists>y. leads (lreg_aliases b) i y) \<and> (\<exists>z. leads (lreg_aliases b) j z)")
    case False
    then show ?thesis unfolding iu iv aliased_def j by blast
  next
    case True
    then obtain y z where yz: "leads (lreg_aliases b) i y" "leads (lreg_aliases b) j z" by blast
    show ?thesis unfolding iu iv unfolding aliased_def j leads_iff[OF yz(1)] leads_iff[OF yz(2)]
      using assms(4) by auto
  qed
qed

text \<open>
  C20. \<open>XIR_alias_regs u v\<close> merges exactly the alias classes of \<open>u\<close> and \<open>v\<close>: two registers are aliases
  afterwards when they were before, or one was an alias of \<open>u\<close> and the other of \<open>v\<close>. It returns unless
  the two live ranges carry allocation controls that cannot be merged.
\<close>

theorem alias_regs_merges_classes:
  assumes "builder_wf b" "u < num_regs b" "v < num_regs b"
    "\<forall>x y. leads (lreg_aliases b) u x \<longrightarrow> leads (lreg_aliases b) v y \<longrightarrow>
       mergeable (lreg_ranges b ! x) (lreg_ranges b ! y) \<and> mergeable (lreg_ranges b ! y) (lreg_ranges b ! x)"
  shows "\<exists>b'. XIR_alias_regs b u v = Some b' \<and> builder_wf b' \<and> num_regs b' = num_regs b \<and>
     (\<forall>i j. aliased b' i j \<longleftrightarrow> aliased b i j \<or> aliased b i u \<and> aliased b j v \<or> aliased b i v \<and> aliased b j u)"
proof -
  obtain a r1 where a: "XIR_find_alias_reg b u = Some (a, b\<lparr>lreg_aliases := r1\<rparr>)" "leads (lreg_aliases b) u a"
      "builder_wf (b\<lparr>lreg_aliases := r1\<rparr>)" "same_aliases b (b\<lparr>lreg_aliases := r1\<rparr>)"
    using find_alias_reg_wf[OF assms(1,2)] by blast
  let ?b1 = "b\<lparr>lreg_aliases := r1\<rparr>"
  obtain c r2 where c: "XIR_find_alias_reg ?b1 v = Some (c, ?b1\<lparr>lreg_aliases := r2\<rparr>)" "leads r1 v c"
      "builder_wf (?b1\<lparr>lreg_aliases := r2\<rparr>)" "same_aliases ?b1 (?b1\<lparr>lreg_aliases := r2\<rparr>)"
    using find_alias_reg_wf[OF a(3), of v] assms(3) by auto
  let ?b2 = "b\<lparr>lreg_aliases := r2\<rparr>"
  have wf: "builder_wf ?b2" using c(3) by simp
  have eq: "leads r2 i y = leads (lreg_aliases b) i y" for i y
    using a(4) c(4) by (simp add: same_aliases_def)
  have al: "aliased ?b2 i j = aliased b i j" for i j by (simp add: aliased_def eq)
  have la: "leads (lreg_aliases ?b2) u a" and lc: "leads (lreg_aliases ?b2) v c"
    using a(2) c(2,4) eq by (auto simp: same_aliases_def)
  have lens: "a < num_regs b" "c < num_regs b" "length (lreg_sizes b) = num_regs b" "length (lreg_ranges b) = num_regs b"
      "rr_lreg (lreg_ranges b ! a) = a" "rr_lreg (lreg_ranges b ! c) = c"
    using leads_props[OF la] leads_props[OF lc] wf by (auto simp: builder_wf_def)
  show ?thesis
  proof (cases "a = c")
    case True
    then have "aliased b u v" using la lc eq unfolding aliased_def by auto
    then have "aliased b i j \<longleftrightarrow> aliased b i j \<or> aliased b i u \<and> aliased b j v \<or> aliased b i v \<and> aliased b j u" for i j
      using aliased_trans aliased_sym by blast
    then show ?thesis using a(1) c(1) True wf al
      by (intro exI[of _ ?b2]) (simp add: XIR_alias_regs_def)
  next
    case False
    have m: "mergeable (lreg_ranges b ! a) (lreg_ranges b ! c)" "mergeable (lreg_ranges b ! c) (lreg_ranges b ! a)"
      using assms(4) la lc eq by auto
    obtain ra where ra: "XIR_merge_ranges (lreg_ranges b ! a) (lreg_ranges b ! c) = Some ra" "rr_lreg ra = a"
      using merge_ranges_some[OF m(1)] lens by auto
    obtain rc where rc: "XIR_merge_ranges (lreg_ranges b ! c) (lreg_ranges b ! a) = Some rc" "rr_lreg rc = c"
      using merge_ranges_some[OF m(2)] lens by auto
    show ?thesis
    proof (cases "lreg_sizes b ! a > lreg_sizes b ! c")
      case True
      show ?thesis
        using a(1) c(1) False True ra(1) lens(1-4) al
          join_wf[OF wf lc la False[symmetric] ra(2), of "(lreg_sizes b)[a := lreg_sizes b ! a + lreg_sizes b ! c]"]
        by (intro exI) (auto simp: XIR_alias_regs_def Let_def)
    next
      case False2: False
      show ?thesis
        using a(1) c(1) False False2 rc(1) lens(1-4) al
          join_wf[OF wf la lc False rc(2), of "(lreg_sizes b)[c := lreg_sizes b ! c + lreg_sizes b ! a]"]
        by (intro exI) (auto simp: XIR_alias_regs_def Let_def)
    qed
  qed
qed

lemma alias_regs_merges_classes_witness:
  "\<exists>b'. XIR_alias_regs sample_builder 0 2 = Some b' \<and> builder_wf b' \<and> num_regs b' = num_regs sample_builder \<and>
     (\<forall>i j. aliased b' i j \<longleftrightarrow> aliased sample_builder i j \<or> aliased sample_builder i 0 \<and> aliased sample_builder j 2 \<or>
        aliased sample_builder i 2 \<and> aliased sample_builder j 0)"
proof (rule alias_regs_merges_classes[OF sample_builder_wf])
  have "ctrl_is_none (rr_ctrl (lreg_ranges sample_builder ! x))" if "leads (lreg_aliases sample_builder) i x" for i x
    using leads_props[OF that] by (simp add: sample_builder_def)
  then show "\<forall>x y. leads (lreg_aliases sample_builder) 0 x \<longrightarrow> leads (lreg_aliases sample_builder) 2 y \<longrightarrow>
      mergeable (lreg_ranges sample_builder ! x) (lreg_ranges sample_builder ! y) \<and>
      mergeable (lreg_ranges sample_builder ! y) (lreg_ranges sample_builder ! x)"
    by (simp add: mergeable_def)
qed (simp_all add: sample_builder_def)

end
