(* ===== verification/Reg_Alloc.thy ===== *)
theory Reg_Alloc
  imports Xir_Regs
begin

text \<open>
  The linear scan register allocator (\<open>src/src/x64_gen/reg_alloc.c\<close>). A live interval is the index of
  its range in \<open>lreg_ranges\<close>; a doubly linked list of intervals is a list of indices, so that a change
  of an interval's location is seen through every list. The counts of a list are natural numbers: they
  are the lengths of lists (\<open>counts_ok\<close> below), far from the \<open>u32\<close> bound.
\<close>

section \<open>State\<close>

record X64_IntervalList =
  il_list :: "nat list"
  il_count :: nat
  il_class_counts :: "X64_RegClass \<Rightarrow> nat"

record XIR_RegAllocState =
  active :: X64_IntervalList
  unhandled :: X64_IntervalList
  handled :: X64_IntervalList
  rmap :: "X64_Reg \<Rightarrow> nat"
  ra_ranges :: "XIR_RegRange list"
  stack_offset :: u32
  used_callee_regs :: u32

definition empty_list :: X64_IntervalList where
  "empty_list = \<lparr>il_list = [], il_count = 0, il_class_counts = (\<lambda>_. 0)\<rparr>"

section \<open>Physical registers\<close>

definition X64_free_reg :: "X64_Reg \<Rightarrow> XIR_RegAllocState \<Rightarrow> XIR_RegAllocState" where
  "X64_free_reg reg s = s\<lparr>rmap := (rmap s)(reg := XIR_REG_COUNT)\<rparr>"

definition X64_alloc_reg :: "X64_Target \<Rightarrow> X64_Reg \<Rightarrow> nat \<Rightarrow> XIR_RegAllocState \<Rightarrow> XIR_RegAllocState" where
  "X64_alloc_reg target reg lreg s =
     s\<lparr>rmap := (rmap s)(reg := lreg),
       used_callee_regs := (if X64_is_callee_saved_reg target reg then u32_set_bit (used_callee_regs s) (reg_bit reg)
                            else used_callee_regs s)\<rparr>"

text \<open>The register found, if any; an absent hint or register is \<open>X64_REG_COUNT\<close> in the code, \<open>None\<close> here.\<close>

definition scan_scratch_regs ::
  "X64_Target \<Rightarrow> X64_Reg list \<Rightarrow> nat \<Rightarrow> X64_RegClass \<Rightarrow> u32 \<Rightarrow> XIR_RegAllocState \<Rightarrow> (X64_Reg option \<times> XIR_RegAllocState) option" where
  "scan_scratch_regs target regs lreg reg_class banned_regs s =
     (case find (\<lambda>r. rmap s r = XIR_REG_COUNT \<and> \<not> u32_is_bit_set banned_regs (reg_bit r)) regs of
        Some reg \<Rightarrow> do {
          assert_opt (reg_class = x64_reg_classes reg);
          assert_opt (reg \<noteq> X64_RBP \<and> reg \<noteq> X64_RSP);
          Some (Some reg, X64_alloc_reg target reg lreg s) }
      | None \<Rightarrow> Some (None, s))"

definition X64_next_reg ::
  "X64_Target \<Rightarrow> (X64_RegClass \<Rightarrow> X64_Reg list) \<Rightarrow> nat \<Rightarrow> X64_RegClass \<Rightarrow> u32 \<Rightarrow> X64_Reg option \<Rightarrow>
   XIR_RegAllocState \<Rightarrow> (X64_Reg option \<times> XIR_RegAllocState) option" where
  "X64_next_reg target scratch_regs lreg reg_class banned_regs preg_hint s =
     (case preg_hint of
        Some h \<Rightarrow>
          if \<not> u32_is_bit_set banned_regs (reg_bit h) \<and> rmap s h = XIR_REG_COUNT then do {
            assert_opt (reg_class = x64_reg_classes h);
            Some (Some h, X64_alloc_reg target h lreg s) }
          else scan_scratch_regs target (scratch_regs reg_class) lreg reg_class banned_regs s
      | None \<Rightarrow> scan_scratch_regs target (scratch_regs reg_class) lreg reg_class banned_regs s)"

definition X64_init_free_regs :: "X64_Reg \<Rightarrow> nat" where
  "X64_init_free_regs = (\<lambda>_. XIR_REG_COUNT)"

definition X64_out_of_regs :: "(X64_RegClass \<Rightarrow> X64_Reg list) \<Rightarrow> XIR_RegAllocState \<Rightarrow> X64_RegClass \<Rightarrow> bool option" where
  "X64_out_of_regs scratch_regs s reg_class = do {
     let num_used_regs = il_class_counts (active s) reg_class;
     let num_total_regs = length (scratch_regs reg_class);
     assert_opt (num_used_regs \<le> num_total_regs);
     Some (num_used_regs = num_total_regs) }"

section \<open>Interval lists\<close>

definition X64_lreg_interval_list_rm :: "XIR_RegRange list \<Rightarrow> nat \<Rightarrow> X64_IntervalList \<Rightarrow> X64_IntervalList option" where
  "X64_lreg_interval_list_rm ranges i l = do {
     assert_opt (il_list l \<noteq> []);
     assert_opt (il_count l > 0);
     let c = rr_class (ranges ! i);
     Some \<lparr>il_list = remove1 i (il_list l), il_count = il_count l - 1,
           il_class_counts = (il_class_counts l)(c := il_class_counts l c - 1)\<rparr> }"

text \<open>Insert before the first interval with a larger key; at the end at once when no key is larger than the last one's.\<close>

fun insert_before_larger :: "('a \<Rightarrow> int) \<Rightarrow> 'a \<Rightarrow> 'a list \<Rightarrow> 'a list" where
  "insert_before_larger key x [] = [x]"
| "insert_before_larger key x (y # ys) = (if key x < key y then x # y # ys else y # insert_before_larger key x ys)"

definition add_sorted :: "('a \<Rightarrow> int) \<Rightarrow> 'a \<Rightarrow> 'a list \<Rightarrow> 'a list" where
  "add_sorted key x xs =
     (let add_to_end = (xs \<noteq> [] \<and> key x \<ge> key (last xs)) in
      if add_to_end then xs @ [x] else insert_before_larger key x xs)"

definition list_add :: "(nat \<Rightarrow> int) \<Rightarrow> XIR_RegRange list \<Rightarrow> nat \<Rightarrow> X64_IntervalList \<Rightarrow> X64_IntervalList" where
  "list_add key ranges i l =
     (let c = rr_class (ranges ! i) in
      \<lparr>il_list = add_sorted key i (il_list l), il_count = il_count l + 1,
       il_class_counts = (il_class_counts l)(c := il_class_counts l c + 1)\<rparr>)"

definition X64_lreg_interval_list_add_by_start :: "XIR_RegRange list \<Rightarrow> nat \<Rightarrow> X64_IntervalList \<Rightarrow> X64_IntervalList" where
  "X64_lreg_interval_list_add_by_start ranges = list_add (\<lambda>i. rr_start (ranges ! i)) ranges"

definition X64_lreg_interval_list_add_by_end :: "XIR_RegRange list \<Rightarrow> nat \<Rightarrow> X64_IntervalList \<Rightarrow> X64_IntervalList" where
  "X64_lreg_interval_list_add_by_end ranges = list_add (\<lambda>i. rr_end (ranges ! i)) ranges"

definition set_loc :: "nat \<Rightarrow> XIR_RegLoc \<Rightarrow> XIR_RegAllocState \<Rightarrow> XIR_RegAllocState" where
  "set_loc i loc s = s\<lparr>ra_ranges := (ra_ranges s)[i := (ra_ranges s ! i)\<lparr>rr_loc := loc\<rparr>]\<rparr>"

definition add_active :: "nat \<Rightarrow> XIR_RegAllocState \<Rightarrow> XIR_RegAllocState" where
  "add_active i s = s\<lparr>active := X64_lreg_interval_list_add_by_end (ra_ranges s) i (active s)\<rparr>"

definition add_handled :: "nat \<Rightarrow> XIR_RegAllocState \<Rightarrow> XIR_RegAllocState" where
  "add_handled i s = s\<lparr>handled := X64_lreg_interval_list_add_by_start (ra_ranges s) i (handled s)\<rparr>"

definition rm_active :: "nat \<Rightarrow> XIR_RegAllocState \<Rightarrow> XIR_RegAllocState option" where
  "rm_active i s = do {
     l \<leftarrow> X64_lreg_interval_list_rm (ra_ranges s) i (active s);
     Some (s\<lparr>active := l\<rparr>) }"

section \<open>Spilling and stealing\<close>

definition X64_MAX_INT_REG_SIZE :: u32 where
  "X64_MAX_INT_REG_SIZE = 8"

definition X64_spill_reg_loc :: "nat \<Rightarrow> XIR_RegAllocState \<Rightarrow> XIR_RegAllocState" where
  "X64_spill_reg_loc i s =
     (let off = stack_offset s + X64_MAX_INT_REG_SIZE in
      add_handled i (set_loc i (XIR_LREG_LOC_STACK (- off)) (s\<lparr>stack_offset := off\<rparr>)))"

definition X64_steal_reg :: "nat \<Rightarrow> nat \<Rightarrow> XIR_RegAllocState \<Rightarrow> XIR_RegAllocState option" where
  "X64_steal_reg from_i to_i s =
     (case rr_loc (ra_ranges s ! from_i) of
        XIR_LREG_LOC_REG reg \<Rightarrow> do {
          let s = set_loc to_i (XIR_LREG_LOC_REG reg) s;
          let s = s\<lparr>rmap := (rmap s)(reg := rr_lreg (ra_ranges s ! to_i))\<rparr>;
          s \<leftarrow> rm_active from_i s;
          Some (X64_spill_reg_loc from_i (add_active to_i s)) }
      | _ \<Rightarrow> None)"

section \<open>Expiring intervals\<close>

text \<open>The loop walks the active list from its head; the list argument is what is left of it.\<close>

fun expire_old_intervals :: "int \<Rightarrow> nat list \<Rightarrow> XIR_RegAllocState \<Rightarrow> XIR_RegAllocState option" where
  "expire_old_intervals start [] s = Some s"
| "expire_old_intervals start (j # js) s =
     (if rr_end (ra_ranges s ! j) > start then Some s
      else do {
        s \<leftarrow> rm_active j s;
        case rr_loc (ra_ranges s ! j) of
          XIR_LREG_LOC_REG reg \<Rightarrow> expire_old_intervals start js (add_handled j (X64_free_reg reg s))
        | _ \<Rightarrow> None })"

section \<open>One interval\<close>

fun is_forced :: "XIR_RegAllocControl \<Rightarrow> bool" where
  "is_forced (XIR_REG_ALLOC_CTRL_FORCE_REG _) = True"
| "is_forced (XIR_REG_ALLOC_CTRL_FORCE_ANY_REG _) = True"
| "is_forced _ = False"

text \<open>The registers that unhandled intervals intersecting \<open>[.., end)\<close> are forced into.\<close>

fun banned_regs_of :: "XIR_RegRange list \<Rightarrow> int \<Rightarrow> nat list \<Rightarrow> u32 \<Rightarrow> u32" where
  "banned_regs_of ranges e [] banned = banned"
| "banned_regs_of ranges e (j # js) banned =
     (if rr_start (ranges ! j) \<ge> e then banned
      else case rr_ctrl (ranges ! j) of
          XIR_REG_ALLOC_CTRL_FORCE_REG preg \<Rightarrow> banned_regs_of ranges e js (banned OR push_bit (reg_num preg) 1)
        | _ \<Rightarrow> banned_regs_of ranges e js banned)"

text \<open>The latest active interval that may be spilled for one of class \<open>c\<close>.\<close>

definition spill_candidate :: "XIR_RegRange list \<Rightarrow> X64_RegClass \<Rightarrow> u32 \<Rightarrow> nat \<Rightarrow> bool" where
  "spill_candidate ranges c banned j =
     (let r = ranges ! j in
      \<not> is_forced (rr_ctrl r) \<and> rr_class r = c \<and>
      \<not> (case rr_loc r of XIR_LREG_LOC_REG reg \<Rightarrow> u32_is_bit_set banned (reg_bit reg) | _ \<Rightarrow> False))"

definition assign_reg :: "nat \<Rightarrow> X64_Reg \<Rightarrow> XIR_RegAllocState \<Rightarrow> XIR_RegAllocState" where
  "assign_reg i reg s = add_active i (set_loc i (XIR_LREG_LOC_REG reg) s)"

definition preg_hint_of :: "XIR_RegAllocState \<Rightarrow> XIR_RegAllocControl \<Rightarrow> X64_Reg option option" where
  "preg_hint_of s c =
     (case c of
        XIR_REG_ALLOC_CTRL_HINT_PHYS_REG preg \<Rightarrow> Some (Some preg)
      | XIR_REG_ALLOC_CTRL_HINT_LIR_REG lreg \<Rightarrow> do {
          assert_opt (lreg < length (ra_ranges s));
          Some (case rr_loc (ra_ranges s ! lreg) of XIR_LREG_LOC_REG reg \<Rightarrow> Some reg | _ \<Rightarrow> None) }
      | _ \<Rightarrow> Some None)"

text \<open>The result \<open>False\<close> is the failure return (\<open>success\<close> is false).\<close>

definition alloc_uncontrolled ::
  "X64_Target \<Rightarrow> (X64_RegClass \<Rightarrow> X64_Reg list) \<Rightarrow> nat \<Rightarrow> nat list \<Rightarrow> XIR_RegAllocState \<Rightarrow> (bool \<times> XIR_RegAllocState) option" where
  "alloc_uncontrolled target scratch_regs i rest s = do {
     let interval = ra_ranges s ! i;
     let banned = banned_regs_of (ra_ranges s) (rr_end interval) rest 0;
     out \<leftarrow> X64_out_of_regs scratch_regs s (rr_class interval);
     if out then
       (let force_reg = is_forced (rr_ctrl interval) in
        case find (spill_candidate (ra_ranges s) (rr_class interval) banned) (rev (il_list (active s))) of
          None \<Rightarrow> if force_reg then Some (False, s) else Some (True, X64_spill_reg_loc i s)
        | Some last_active \<Rightarrow>
            if force_reg \<or> rr_end (ra_ranges s ! last_active) > rr_end interval
            then X64_steal_reg last_active i s \<bind> (\<lambda>s. Some (True, s))
            else Some (True, X64_spill_reg_loc i s))
     else do {
       hint \<leftarrow> preg_hint_of s (rr_ctrl interval);
       (reg, s) \<leftarrow> X64_next_reg target scratch_regs (rr_lreg interval) (rr_class interval) banned hint s;
       case reg of None \<Rightarrow> Some (False, s) | Some reg \<Rightarrow> Some (True, assign_reg i reg s) } }"

definition alloc_interval ::
  "X64_Target \<Rightarrow> (X64_RegClass \<Rightarrow> X64_Reg list) \<Rightarrow> nat \<Rightarrow> nat list \<Rightarrow> XIR_RegAllocState \<Rightarrow> (bool \<times> XIR_RegAllocState) option" where
  "alloc_interval target scratch_regs i rest s =
     (let interval = ra_ranges s ! i in
      case rr_ctrl interval of
        XIR_REG_ALLOC_CTRL_FORCE_REG forced_reg \<Rightarrow> do {
          assert_opt (rmap s forced_reg = XIR_REG_COUNT);
          Some (True, add_active i (X64_alloc_reg target forced_reg (rr_lreg interval) (set_loc i (XIR_LREG_LOC_REG forced_reg) s))) }
      | XIR_REG_ALLOC_CTRL_FORCE_ANY_REG preg_mask \<Rightarrow> do {
          assert_opt (preg_mask \<noteq> 0);
          (reg, s) \<leftarrow> X64_next_reg target scratch_regs (rr_lreg interval) (rr_class interval) (NOT preg_mask) None s;
          case reg of None \<Rightarrow> None | Some reg \<Rightarrow> Some (True, assign_reg i reg s) }
      | XIR_REG_ALLOC_CTRL_FORCE_REG_OR_SPILL preg_mask \<Rightarrow> do {
          assert_opt (preg_mask \<noteq> 0);
          (reg, s) \<leftarrow> X64_next_reg target scratch_regs (rr_lreg interval) (rr_class interval) (NOT preg_mask) None s;
          case reg of None \<Rightarrow> Some (True, X64_spill_reg_loc i s) | Some reg \<Rightarrow> Some (True, assign_reg i reg s) }
      | _ \<Rightarrow> alloc_uncontrolled target scratch_regs i rest s)"

section \<open>The scan\<close>

fun scan_intervals ::
  "X64_Target \<Rightarrow> (X64_RegClass \<Rightarrow> X64_Reg list) \<Rightarrow> nat list \<Rightarrow> XIR_RegAllocState \<Rightarrow> (bool \<times> XIR_RegAllocState) option" where
  "scan_intervals target scratch_regs [] s = Some (True, s)"
| "scan_intervals target scratch_regs (i # rest) s = do {
     l \<leftarrow> X64_lreg_interval_list_rm (ra_ranges s) i (unhandled s);
     let s = s\<lparr>unhandled := l\<rparr>;
     s \<leftarrow> expire_old_intervals (rr_start (ra_ranges s ! i)) (il_list (active s)) s;
     (ok, s) \<leftarrow> alloc_interval target scratch_regs i rest s;
     if ok then scan_intervals target scratch_regs rest s else Some (False, s) }"

text \<open>The alias roots, added from the last register to the first.\<close>

fun init_unhandled :: "nat \<Rightarrow> XIR_Builder \<Rightarrow> X64_IntervalList \<Rightarrow> (XIR_Builder \<times> X64_IntervalList) option" where
  "init_unhandled 0 b l = Some (b, l)"
| "init_unhandled (Suc i) b l = do {
     (x, b) \<leftarrow> XIR_find_alias_reg b i;
     init_unhandled i b (if x \<noteq> i then l else X64_lreg_interval_list_add_by_start (lreg_ranges b) i l) }"

fun finish_active :: "nat list \<Rightarrow> XIR_RegAllocState \<Rightarrow> XIR_RegAllocState option" where
  "finish_active [] s = Some s"
| "finish_active (i # is) s = do {
     s \<leftarrow> rm_active i s;
     finish_active is (add_handled i s) }"

section \<open>Call sites\<close>

text \<open>Is the interval live across instruction \<open>ino\<close>, in a register the callee may change?\<close>

definition saved_at :: "X64_Target \<Rightarrow> XIR_RegRange list \<Rightarrow> int \<Rightarrow> nat \<Rightarrow> X64_Reg option" where
  "saved_at target ranges ino i =
     (let r = ranges ! i in
      if rr_start r < ino \<and> ino < rr_end r then
        (case rr_loc r of XIR_LREG_LOC_REG reg \<Rightarrow> if X64_is_caller_saved_reg target reg then Some reg else None | _ \<Rightarrow> None)
      else None)"

text \<open>Scan forward to the first interval that must be saved, or to the first that starts at or after the call.\<close>

fun skip_to_saved :: "X64_Target \<Rightarrow> XIR_RegRange list \<Rightarrow> int \<Rightarrow> nat list \<Rightarrow> bool \<times> nat list" where
  "skip_to_saved target ranges ino [] = (False, [])"
| "skip_to_saved target ranges ino (i # is) =
     (if rr_start (ranges ! i) \<ge> ino then (False, i # is)
      else if saved_at target ranges ino i \<noteq> None then (True, i # is)
      else skip_to_saved target ranges ino is)"

fun save_mask :: "X64_Target \<Rightarrow> XIR_RegRange list \<Rightarrow> int \<Rightarrow> nat list \<Rightarrow> u32 \<Rightarrow> u32" where
  "save_mask target ranges ino [] m = m"
| "save_mask target ranges ino (i # is) m =
     (if rr_start (ranges ! i) \<ge> ino then m
      else save_mask target ranges ino is
        (case saved_at target ranges ino i of None \<Rightarrow> m | Some reg \<Rightarrow> m OR push_bit (reg_num reg) 1))"

text \<open>The scan of one call site starts where the one before stopped.\<close>

fun call_site_masks :: "X64_Target \<Rightarrow> XIR_RegRange list \<Rightarrow> int list \<Rightarrow> nat list \<Rightarrow> u32 list" where
  "call_site_masks target ranges [] is = []"
| "call_site_masks target ranges (ino # inos) is =
     (case skip_to_saved target ranges ino is of
        (intersects, is) \<Rightarrow>
          (if intersects then save_mask target ranges ino is 0 else 0) # call_site_masks target ranges inos is)"

section \<open>The allocator\<close>

record X64_RegAllocResult =
  res_stack_offset :: u32
  res_used_callee_regs :: u32
  res_success :: bool
  res_ranges :: "XIR_RegRange list"
  res_save_masks :: "u32 list"

definition X64_STACK_ALIGN :: u32 where
  "X64_STACK_ALIGN = 16"

definition X64_linear_scan_reg_alloc ::
  "X64_Target \<Rightarrow> XIR_Builder \<Rightarrow> int list \<Rightarrow> (X64_RegClass \<Rightarrow> X64_Reg list) \<Rightarrow> u32 \<Rightarrow> X64_RegAllocResult option" where
  "X64_linear_scan_reg_alloc target builder call_sites scratch_regs init_stack_offset = do {
     (builder, l) \<leftarrow> init_unhandled (length (lreg_ranges builder)) builder empty_list;
     let num_intervals = length (il_list l);
     let s = \<lparr>active = empty_list, unhandled = l, handled = empty_list, rmap = X64_init_free_regs,
              ra_ranges = lreg_ranges builder, stack_offset = init_stack_offset, used_callee_regs = 0\<rparr>;
     (ok, s) \<leftarrow> scan_intervals target scratch_regs (il_list l) s;
     if \<not> ok then
       Some \<lparr>res_stack_offset = stack_offset s, res_used_callee_regs = used_callee_regs s, res_success = False,
             res_ranges = ra_ranges s, res_save_masks = []\<rparr>
     else do {
       s \<leftarrow> finish_active (il_list (active s)) s;
       assert_opt (num_intervals = il_count (handled s));
       Some \<lparr>res_stack_offset = ALIGN_UP (stack_offset s) X64_STACK_ALIGN, res_used_callee_regs = used_callee_regs s,
             res_success = True, res_ranges = ra_ranges s,
             res_save_masks = call_site_masks target (ra_ranges s) call_sites (il_list (handled s))\<rparr> } }"

end
