(* ===== verification/Reg_Alloc_Lists.thy ===== *)
theory Reg_Alloc_Lists
  imports Reg_Alloc
begin

text \<open>
  The interval lists of the register allocator as sorted bags, and what each operation of the allocator
  does to the parts of its state that the proofs observe: the active and the handled intervals, their
  locations, the occupied registers, the callee-saved registers used and the stack offset.
\<close>

section \<open>The interface: a bag kept sorted\<close>

locale sorted_bag =
  fixes items :: "'q \<Rightarrow> 'a list"
    and ok :: "'q \<Rightarrow> bool"
    and key :: "'a \<Rightarrow> int"
    and add :: "'a \<Rightarrow> 'q \<Rightarrow> 'q"
    and rm :: "'a \<Rightarrow> 'q \<Rightarrow> 'q option"
  assumes add_ok: "ok q \<Longrightarrow> ok (add x q)"
    and mset_add: "mset (items (add x q)) = add_mset x (mset (items q))"
    and sorted_add: "sorted (map key (items q)) \<Longrightarrow> sorted (map key (items (add x q)))"
    and rm_items: "ok q \<Longrightarrow> x \<in> set (items q) \<Longrightarrow> \<exists>q'. rm x q = Some q' \<and> ok q' \<and> items q' = remove1 x (items q)"
begin

lemma set_add: "set (items (add x q)) = insert x (set (items q))"
  using mset_add[of x q] by (metis set_mset_add_mset_insert set_mset_mset)

lemma length_add: "length (items (add x q)) = Suc (length (items q))"
  using mset_add[of x q] by (metis size_add_mset size_mset)

lemma distinct_add: "distinct (items (add x q)) \<longleftrightarrow> x \<notin> set (items q) \<and> distinct (items q)"
  using mset_add[of x q] by (metis distinct.simps(2) mset.simps(2) mset_eq_imp_distinct_iff)

lemma rm_Some: "ok q \<Longrightarrow> x \<in> set (items q) \<Longrightarrow> rm x q = Some q' \<Longrightarrow> ok q' \<and> items q' = remove1 x (items q)"
  using rm_items[of q x] by auto

lemma rm_sorted:
  "ok q \<Longrightarrow> x \<in> set (items q) \<Longrightarrow> rm x q = Some q' \<Longrightarrow> sorted (map key (items q)) \<Longrightarrow> sorted (map key (items q'))"
  using rm_Some[of q x q'] by (simp add: sorted_map_remove1)

lemma rm_set:
  "ok q \<Longrightarrow> x \<in> set (items q) \<Longrightarrow> rm x q = Some q' \<Longrightarrow> distinct (items q) \<Longrightarrow>
   set (items q') = set (items q) - {x} \<and> distinct (items q')"
  using rm_Some[of q x q'] by simp

text \<open>What is left after the first element has been taken out is the tail.\<close>

lemma rm_head: "ok q \<Longrightarrow> items q = x # xs \<Longrightarrow> \<exists>q'. rm x q = Some q' \<and> ok q' \<and> items q' = xs"
  using rm_items[of q x] by auto

end

section \<open>Interval lists are sorted bags\<close>

definition list_ok :: "XIR_RegRange list \<Rightarrow> X64_IntervalList \<Rightarrow> bool" where
  "list_ok ranges l \<longleftrightarrow> il_count l = length (il_list l) \<and>
     (\<forall>c. il_class_counts l c = length (filter (\<lambda>i. rr_class (ranges ! i) = c) (il_list l)))"

lemma mset_insert_before_larger: "mset (insert_before_larger key x xs) = add_mset x (mset xs)"
  by (induction xs) auto

lemma set_insert_before_larger: "set (insert_before_larger key x xs) = insert x (set xs)"
  by (induction xs) auto

lemma sorted_insert_before_larger: "sorted (map key xs) \<Longrightarrow> sorted (map key (insert_before_larger key x xs))"
  by (induction xs) (auto simp: set_insert_before_larger)

lemma mset_add_sorted: "mset (add_sorted key x xs) = add_mset x (mset xs)"
  by (simp add: add_sorted_def mset_insert_before_larger)

lemma sorted_add_sorted: "sorted (map key xs) \<Longrightarrow> sorted (map key (add_sorted key x xs))"
  by (auto simp: add_sorted_def sorted_insert_before_larger simp del: map_append intro!: sorted_map_append_last)

lemma length_filter_mset:
  assumes "mset xs = add_mset x (mset ys)"
  shows "length (filter P xs) = (if P x then 1 else 0) + length (filter P ys)"
proof -
  have "size (filter_mset P (mset xs)) = (if P x then 1 else 0) + size (filter_mset P (mset ys))"
    using assms by simp
  then show ?thesis by (simp flip: mset_filter)
qed

lemma length_filter_remove1: "x \<in> set xs \<Longrightarrow>
   length (filter P (remove1 x xs)) = length (filter P xs) - (if P x then 1 else 0)"
  using length_filter_mset[of xs x "remove1 x xs" P] by simp

lemma list_add_ok: "list_ok ranges l \<Longrightarrow> list_ok ranges (list_add key ranges i l)"
proof -
  assume ok: "list_ok ranges l"
  have "length (add_sorted key i (il_list l)) = Suc (length (il_list l))"
    by (metis mset_add_sorted size_add_mset size_mset)
  moreover have "length (filter P (add_sorted key i (il_list l))) = (if P i then 1 else 0) + length (filter P (il_list l))" for P
    by (rule length_filter_mset) (rule mset_add_sorted)
  ultimately show ?thesis using ok by (simp add: list_ok_def list_add_def Let_def)
qed

lemma list_rm_ok:
  "list_ok ranges l \<Longrightarrow> i \<in> set (il_list l) \<Longrightarrow>
   \<exists>l'. X64_lreg_interval_list_rm ranges i l = Some l' \<and> list_ok ranges l' \<and> il_list l' = remove1 i (il_list l)"
  by (cases "il_list l = []") (auto simp: X64_lreg_interval_list_rm_def list_ok_def Let_def length_remove1 length_filter_remove1)

interpretation by_end: sorted_bag il_list "list_ok ranges" "\<lambda>i. rr_end (ranges ! i)"
  "X64_lreg_interval_list_add_by_end ranges" "X64_lreg_interval_list_rm ranges" for ranges
  by unfold_locales
    (simp_all add: X64_lreg_interval_list_add_by_end_def list_add_ok list_rm_ok,
     simp_all add: list_add_def Let_def mset_add_sorted sorted_add_sorted)

interpretation by_start: sorted_bag il_list "list_ok ranges" "\<lambda>i. rr_start (ranges ! i)"
  "X64_lreg_interval_list_add_by_start ranges" "X64_lreg_interval_list_rm ranges" for ranges
  by unfold_locales
    (simp_all add: X64_lreg_interval_list_add_by_start_def list_add_ok list_rm_ok,
     simp_all add: list_add_def Let_def mset_add_sorted sorted_add_sorted)

lemma empty_list_ok [simp]: "list_ok ranges empty_list" "il_list empty_list = []"
  by (simp_all add: list_ok_def empty_list_def)

section \<open>Only locations change\<close>

definition static :: "XIR_RegRange list \<Rightarrow> XIR_RegRange list \<Rightarrow> bool" where
  "static R R' \<longleftrightarrow> length R' = length R \<and>
     (\<forall>i. rr_lreg (R' ! i) = rr_lreg (R ! i) \<and> rr_start (R' ! i) = rr_start (R ! i) \<and> rr_end (R' ! i) = rr_end (R ! i) \<and>
        rr_class (R' ! i) = rr_class (R ! i) \<and> rr_ctrl (R' ! i) = rr_ctrl (R ! i))"

lemma static_refl [simp]: "static R R"
  by (simp add: static_def)

lemma static_update:
  assumes "static R R'"
  shows "static R (R'[i := (R' ! i)\<lparr>rr_loc := l\<rparr>])"
proof (cases "i < length R'")
  case False
  then have "R'[i := (R' ! i)\<lparr>rr_loc := l\<rparr>] = R'" by (simp add: not_less list_update_beyond)
  then show ?thesis using assms by simp
qed (use assms in \<open>auto simp: static_def nth_list_update\<close>)

lemma list_ok_static: "static R R' \<Longrightarrow> list_ok R' l = list_ok R l"
  by (simp add: list_ok_def static_def)

abbreviation act :: "XIR_RegAllocState \<Rightarrow> nat set" where
  "act s \<equiv> set (il_list (active s))"

abbreviation hdl :: "XIR_RegAllocState \<Rightarrow> nat set" where
  "hdl s \<equiv> set (il_list (handled s))"

definition loc :: "XIR_RegAllocState \<Rightarrow> nat \<Rightarrow> XIR_RegLoc" where
  "loc s i = rr_loc (ra_ranges s ! i)"

text \<open>The lists are well formed, and every interval is in at most one of them.\<close>

definition lists_inv :: "XIR_RegRange list \<Rightarrow> XIR_RegAllocState \<Rightarrow> bool" where
  "lists_inv R s \<longleftrightarrow>
     static R (ra_ranges s) \<and> list_ok R (active s) \<and> list_ok R (handled s) \<and>
     distinct (il_list (active s)) \<and> distinct (il_list (handled s)) \<and> act s \<inter> hdl s = {} \<and>
     act s \<union> hdl s \<subseteq> {..<length R} \<and>
     sorted (map (\<lambda>i. rr_end (R ! i)) (il_list (active s))) \<and> sorted (map (\<lambda>i. rr_start (R ! i)) (il_list (handled s)))"

lemma lists_inv_static:
  assumes "lists_inv R s"
  shows "rr_lreg (ra_ranges s ! i) = rr_lreg (R ! i)" "rr_start (ra_ranges s ! i) = rr_start (R ! i)"
    "rr_end (ra_ranges s ! i) = rr_end (R ! i)" "rr_class (ra_ranges s ! i) = rr_class (R ! i)"
    "rr_ctrl (ra_ranges s ! i) = rr_ctrl (R ! i)" "length (ra_ranges s) = length R" "static R (ra_ranges s)"
  using assms by (simp_all add: lists_inv_def static_def)

section \<open>What the operations do\<close>

named_theorems ra_simps \<open>the observed parts of the state after an operation of the allocator\<close>

lemma alloc_reg_fields [ra_simps]:
  "active (X64_alloc_reg t r l s) = active s" "handled (X64_alloc_reg t r l s) = handled s"
  "ra_ranges (X64_alloc_reg t r l s) = ra_ranges s" "stack_offset (X64_alloc_reg t r l s) = stack_offset s"
  "rmap (X64_alloc_reg t r l s) = (rmap s)(r := l)" "loc (X64_alloc_reg t r l s) = loc s"
  "regs_of_mask (used_callee_regs (X64_alloc_reg t r l s)) =
     regs_of_mask (used_callee_regs s) \<union> (if X64_is_callee_saved_reg t r then {r} else {})"
  by (auto simp: X64_alloc_reg_def loc_def fun_eq_iff)

lemma free_reg_fields [ra_simps]:
  "active (X64_free_reg r s) = active s" "handled (X64_free_reg r s) = handled s"
  "ra_ranges (X64_free_reg r s) = ra_ranges s" "stack_offset (X64_free_reg r s) = stack_offset s"
  "rmap (X64_free_reg r s) = (rmap s)(r := XIR_REG_COUNT)" "loc (X64_free_reg r s) = loc s"
  "used_callee_regs (X64_free_reg r s) = used_callee_regs s"
  by (auto simp: X64_free_reg_def loc_def fun_eq_iff)

lemma set_loc_fields [ra_simps]:
  "active (set_loc i l s) = active s" "handled (set_loc i l s) = handled s"
  "stack_offset (set_loc i l s) = stack_offset s" "rmap (set_loc i l s) = rmap s"
  "used_callee_regs (set_loc i l s) = used_callee_regs s" "length (ra_ranges (set_loc i l s)) = length (ra_ranges s)"
  "i < length (ra_ranges s) \<Longrightarrow> loc (set_loc i l s) = (loc s)(i := l)"
  by (auto simp: set_loc_def loc_def fun_eq_iff nth_list_update)

lemma add_active_fields [ra_simps]:
  "handled (add_active i s) = handled s" "ra_ranges (add_active i s) = ra_ranges s"
  "stack_offset (add_active i s) = stack_offset s" "rmap (add_active i s) = rmap s"
  "used_callee_regs (add_active i s) = used_callee_regs s" "loc (add_active i s) = loc s"
  "act (add_active i s) = insert i (act s)"
  by (auto simp: add_active_def loc_def fun_eq_iff by_end.set_add)

lemma add_handled_fields [ra_simps]:
  "active (add_handled i s) = active s" "ra_ranges (add_handled i s) = ra_ranges s"
  "stack_offset (add_handled i s) = stack_offset s" "rmap (add_handled i s) = rmap s"
  "used_callee_regs (add_handled i s) = used_callee_regs s" "loc (add_handled i s) = loc s"
  "hdl (add_handled i s) = insert i (hdl s)" "length (il_list (handled (add_handled i s))) = Suc (length (il_list (handled s)))"
  by (auto simp: add_handled_def loc_def fun_eq_iff by_start.set_add by_start.length_add)

lemma lists_inv_set_loc: "lists_inv R s \<Longrightarrow> lists_inv R (set_loc i l s)"
  by (simp add: lists_inv_def ra_simps) (simp add: set_loc_def static_update)

lemma lists_inv_alloc: "lists_inv R (X64_alloc_reg t r l s) = lists_inv R s"
  "lists_inv R (X64_free_reg r s) = lists_inv R s"
  "lists_inv R (s\<lparr>unhandled := u\<rparr>) = lists_inv R s" "lists_inv R (s\<lparr>rmap := m\<rparr>) = lists_inv R s"
  "lists_inv R (s\<lparr>stack_offset := d\<rparr>) = lists_inv R s"
  by (simp_all add: lists_inv_def ra_simps)

lemma lists_inv_add_active:
  assumes "lists_inv R s" "i < length R" "i \<notin> act s" "i \<notin> hdl s"
  shows "lists_inv R (add_active i s)"
proof -
  note st = lists_inv_static[OF assms(1)]
  let ?q = "X64_lreg_interval_list_add_by_end (ra_ranges s) i (active s)"
  have "list_ok R ?q"
    using by_end.add_ok[of "ra_ranges s" "active s" i] assms(1) by (simp add: lists_inv_def list_ok_static[OF st(7)])
  moreover have "sorted (map (\<lambda>i. rr_end (R ! i)) (il_list ?q))"
    using by_end.sorted_add[of "ra_ranges s" "active s" i] assms(1) by (simp add: lists_inv_def st)
  moreover have "distinct (il_list ?q)" "set (il_list ?q) = insert i (act s)"
    using assms by (simp_all add: by_end.distinct_add by_end.set_add lists_inv_def)
  ultimately show ?thesis using assms by (auto simp: lists_inv_def ra_simps) (auto simp: add_active_def)
qed

lemma lists_inv_add_handled:
  assumes "lists_inv R s" "i < length R" "i \<notin> act s" "i \<notin> hdl s"
  shows "lists_inv R (add_handled i s)"
proof -
  note st = lists_inv_static[OF assms(1)]
  let ?q = "X64_lreg_interval_list_add_by_start (ra_ranges s) i (handled s)"
  have "list_ok R ?q"
    using by_start.add_ok[of "ra_ranges s" "handled s" i] assms(1) by (simp add: lists_inv_def list_ok_static[OF st(7)])
  moreover have "sorted (map (\<lambda>i. rr_start (R ! i)) (il_list ?q))"
    using by_start.sorted_add[of "ra_ranges s" "handled s" i] assms(1) by (simp add: lists_inv_def st)
  moreover have "distinct (il_list ?q)" "set (il_list ?q) = insert i (hdl s)"
    using assms by (simp_all add: by_start.distinct_add by_start.set_add lists_inv_def)
  ultimately show ?thesis using assms by (auto simp: lists_inv_def ra_simps) (auto simp: add_handled_def)
qed

text \<open>Taking an interval off the active list always succeeds and leaves the others in place.\<close>

lemma rm_active_effect:
  assumes "lists_inv R s" "i \<in> act s"
  shows "\<exists>l. rm_active i s = Some (s\<lparr>active := l\<rparr>) \<and> lists_inv R (s\<lparr>active := l\<rparr>) \<and>
     il_list l = remove1 i (il_list (active s)) \<and> set (il_list l) = act s - {i}"
proof -
  note st = lists_inv_static[OF assms(1)]
  have ok: "list_ok (ra_ranges s) (active s)" using assms(1) by (simp add: lists_inv_def list_ok_static[OF st(7)])
  obtain l where l: "X64_lreg_interval_list_rm (ra_ranges s) i (active s) = Some l" "list_ok (ra_ranges s) l"
      "il_list l = remove1 i (il_list (active s))"
    using by_end.rm_items[OF ok assms(2)] by blast
  have "lists_inv R (s\<lparr>active := l\<rparr>)" using assms l
    by (auto simp: lists_inv_def list_ok_static sorted_map_remove1)
  then show ?thesis using assms l by (intro exI[of _ l]) (simp add: rm_active_def lists_inv_def)
qed

end
