(* ===== verification/Reg_Alloc_Correct.thy ===== *)
theory Reg_Alloc_Correct
  imports Reg_Alloc_Lists
begin

text \<open>
  Correctness of the linear scan allocator: the invariant of the scan, its preservation by the four things
  that happen to an interval (it gets a free register, it is spilled, it takes the register of another
  interval, it expires), and the properties of \<open>X64_linear_scan_reg_alloc\<close>.
\<close>

section \<open>The invariant\<close>

text \<open>Two live ranges may share a register when one ends before, or where, the other starts.\<close>

definition ranges_apart :: "XIR_RegRange \<Rightarrow> XIR_RegRange \<Rightarrow> bool" where
  "ranges_apart x y \<longleftrightarrow> rr_end x \<le> rr_start y \<or> rr_end y \<le> rr_start x"

fun is_reg_loc :: "XIR_RegLoc \<Rightarrow> bool" where
  "is_reg_loc (XIR_LREG_LOC_REG _) = True"
| "is_reg_loc _ = False"

fun is_stack_loc :: "XIR_RegLoc \<Rightarrow> bool" where
  "is_stack_loc (XIR_LREG_LOC_STACK _) = True"
| "is_stack_loc _ = False"

fun ctrl_met :: "XIR_RegAllocControl \<Rightarrow> XIR_RegLoc \<Rightarrow> bool" where
  "ctrl_met (XIR_REG_ALLOC_CTRL_FORCE_REG p) l = (l = XIR_LREG_LOC_REG p)"
| "ctrl_met (XIR_REG_ALLOC_CTRL_FORCE_ANY_REG m) (XIR_LREG_LOC_REG r) = bit m (reg_num r)"
| "ctrl_met (XIR_REG_ALLOC_CTRL_FORCE_ANY_REG m) _ = False"
| "ctrl_met (XIR_REG_ALLOC_CTRL_FORCE_REG_OR_SPILL m) (XIR_LREG_LOC_REG r) = bit m (reg_num r)"
| "ctrl_met _ l = (l \<noteq> XIR_LREG_LOC_UNASSIGNED)"

abbreviation placed :: "XIR_RegAllocState \<Rightarrow> nat set" where
  "placed s \<equiv> act s \<union> hdl s"

text \<open>The register map shows exactly the registers of the active intervals, each of which has its own.\<close>

definition occupied_inv :: "XIR_RegAllocState \<Rightarrow> bool" where
  "occupied_inv s \<longleftrightarrow> (\<forall>a \<in> act s. is_reg_loc (loc s a)) \<and> inj_on (loc s) (act s) \<and>
     (\<forall>r. rmap s r \<noteq> XIR_REG_COUNT \<longleftrightarrow> XIR_LREG_LOC_REG r \<in> loc s ` act s)"

definition past_inv :: "XIR_RegRange list \<Rightarrow> int \<Rightarrow> XIR_RegAllocState \<Rightarrow> bool" where
  "past_inv R t s \<longleftrightarrow> (\<forall>h \<in> hdl s. is_reg_loc (loc s h) \<longrightarrow> rr_end (R ! h) \<le> t) \<and>
     (\<forall>x \<in> placed s. rr_start (R ! x) \<le> t)"

definition apart_inv :: "XIR_RegRange list \<Rightarrow> XIR_RegAllocState \<Rightarrow> bool" where
  "apart_inv R s \<longleftrightarrow> (\<forall>x \<in> placed s. \<forall>y \<in> placed s. x \<noteq> y \<longrightarrow> is_reg_loc (loc s x) \<longrightarrow>
     loc s x = loc s y \<longrightarrow> ranges_apart (R ! x) (R ! y))"

text \<open>
  The registers that an interval may get: the scratch registers of its class, and the frame pointer when it is the
  interval of the frame pointer.
\<close>

definition home_regs :: "(X64_RegClass \<Rightarrow> X64_Reg list) \<Rightarrow> XIR_RegRange \<Rightarrow> X64_Reg set" where
  "home_regs scratch rng = set (scratch (rr_class rng)) \<union>
     (if rr_ctrl rng = XIR_REG_ALLOC_CTRL_FORCE_REG X64_RBP then {X64_RBP} else {})"

lemma home_scratch: "rr_ctrl rng \<noteq> XIR_REG_ALLOC_CTRL_FORCE_REG X64_RBP \<Longrightarrow> home_regs scratch rng = set (scratch (rr_class rng))"
  by (simp add: home_regs_def)

definition ctrl_inv :: "(X64_RegClass \<Rightarrow> X64_Reg list) \<Rightarrow> XIR_RegRange list \<Rightarrow> XIR_RegAllocState \<Rightarrow> bool" where
  "ctrl_inv scratch R s \<longleftrightarrow> (\<forall>x \<in> placed s. ctrl_met (rr_ctrl (R ! x)) (loc s x) \<and>
     (\<forall>r. loc s x = XIR_LREG_LOC_REG r \<longrightarrow> r \<in> home_regs scratch (R ! x)))"

definition callee_inv :: "X64_Target \<Rightarrow> XIR_RegAllocState \<Rightarrow> bool" where
  "callee_inv target s \<longleftrightarrow>
     regs_of_mask (used_callee_regs s) = {r. X64_is_callee_saved_reg target r \<and> XIR_LREG_LOC_REG r \<in> loc s ` placed s}"

text \<open>The \<open>k\<close>-th slot below the initial frame.\<close>

definition slot :: "u32 \<Rightarrow> nat \<Rightarrow> XIR_RegLoc" where
  "slot init k = XIR_LREG_LOC_STACK (- (init + of_nat (8 * k)))"

definition slots_inv :: "u32 \<Rightarrow> XIR_RegAllocState \<Rightarrow> bool" where
  "slots_inv init s \<longleftrightarrow> (\<exists>k f. stack_offset s = init + of_nat (8 * k) \<and> k \<le> length (il_list (handled s)) \<and>
     (\<forall>x \<in> hdl s. is_stack_loc (loc s x) \<longrightarrow> 1 \<le> f x \<and> f x \<le> k \<and> loc s x = slot init (f x)) \<and>
     inj_on f {x \<in> hdl s. is_stack_loc (loc s x)})"

definition fresh_inv :: "XIR_RegRange list \<Rightarrow> XIR_RegAllocState \<Rightarrow> bool" where
  "fresh_inv R s \<longleftrightarrow> (\<forall>x < length R. x \<notin> placed s \<longrightarrow> loc s x = XIR_LREG_LOC_UNASSIGNED)"

definition alloc_inv ::
  "X64_Target \<Rightarrow> (X64_RegClass \<Rightarrow> X64_Reg list) \<Rightarrow> XIR_RegRange list \<Rightarrow> u32 \<Rightarrow> int \<Rightarrow> XIR_RegAllocState \<Rightarrow> bool" where
  "alloc_inv target scratch R init t s \<longleftrightarrow> lists_inv R s \<and> occupied_inv s \<and> past_inv R t s \<and> apart_inv R s \<and>
     ctrl_inv scratch R s \<and> callee_inv target s \<and> slots_inv init s \<and> fresh_inv R s"

lemmas alloc_inv_parts = occupied_inv_def past_inv_def apart_inv_def ctrl_inv_def callee_inv_def fresh_inv_def

lemma past_inv_mono: "past_inv R t s \<Longrightarrow> t \<le> u \<Longrightarrow> past_inv R u s"
  unfolding past_inv_def by (meson order_trans)

lemma alloc_inv_mono: "alloc_inv target scratch R init t s \<Longrightarrow> t \<le> u \<Longrightarrow> alloc_inv target scratch R init u s"
  by (auto simp: alloc_inv_def past_inv_mono)

lemma slots_inv_same:
  assumes "slots_inv init s" "stack_offset s' = stack_offset s"
    "length (il_list (handled s)) \<le> length (il_list (handled s'))"
    "{x \<in> hdl s'. is_stack_loc (loc s' x)} = {x \<in> hdl s. is_stack_loc (loc s x)}"
    "\<And>x. x \<in> hdl s \<Longrightarrow> is_stack_loc (loc s x) \<Longrightarrow> loc s' x = loc s x"
  shows "slots_inv init s'"
proof -
  obtain k f where k: "stack_offset s = init + of_nat (8 * k)" "k \<le> length (il_list (handled s))"
      "\<And>x. x \<in> hdl s \<Longrightarrow> is_stack_loc (loc s x) \<Longrightarrow> 1 \<le> f x \<and> f x \<le> k \<and> loc s x = slot init (f x)"
      "inj_on f {x \<in> hdl s. is_stack_loc (loc s x)}"
    using assms(1) unfolding slots_inv_def by blast
  have old: "x \<in> hdl s \<and> is_stack_loc (loc s x)" if "x \<in> hdl s'" "is_stack_loc (loc s' x)" for x
    using that assms(4) by auto
  have "1 \<le> f x \<and> f x \<le> k \<and> loc s' x = slot init (f x)" if "x \<in> hdl s'" "is_stack_loc (loc s' x)" for x
    using old[OF that] k(3)[of x] assms(5)[of x] by simp
  then show ?thesis unfolding slots_inv_def using k(1,2,4) assms(2-4)
    by (intro exI[of _ k] exI[of _ f]) simp
qed

section \<open>An interval gets a free register\<close>

definition give_reg :: "X64_Target \<Rightarrow> nat \<Rightarrow> X64_Reg \<Rightarrow> XIR_RegAllocState \<Rightarrow> XIR_RegAllocState" where
  "give_reg target i r s = assign_reg i r (X64_alloc_reg target r (rr_lreg (ra_ranges s ! i)) s)"

lemma give_reg_fields:
  assumes "lists_inv R s" "i < length R"
  shows "act (give_reg t i r s) = insert i (act s)" "handled (give_reg t i r s) = handled s"
    "loc (give_reg t i r s) = (loc s)(i := XIR_LREG_LOC_REG r)" "rmap (give_reg t i r s) = (rmap s)(r := rr_lreg (R ! i))"
    "stack_offset (give_reg t i r s) = stack_offset s"
    "regs_of_mask (used_callee_regs (give_reg t i r s)) =
       regs_of_mask (used_callee_regs s) \<union> (if X64_is_callee_saved_reg t r then {r} else {})"
  using lists_inv_static[OF assms(1)] assms(2) by (simp_all add: give_reg_def assign_reg_def ra_simps)

lemma lists_inv_give_reg:
  assumes "lists_inv R s" "i < length R" "i \<notin> placed s"
  shows "lists_inv R (give_reg t i r s)"
proof -
  have "lists_inv R (set_loc i (XIR_LREG_LOC_REG r) (X64_alloc_reg t r l s))" for l
    using assms(1) by (intro lists_inv_set_loc) (simp add: lists_inv_alloc)
  then show ?thesis unfolding give_reg_def assign_reg_def
    by (intro lists_inv_add_active) (use assms in \<open>simp_all add: ra_simps\<close>)
qed

lemma free_not_active: "occupied_inv s \<Longrightarrow> rmap s r = XIR_REG_COUNT \<Longrightarrow> a \<in> act s \<Longrightarrow> loc s a \<noteq> XIR_LREG_LOC_REG r"
  unfolding occupied_inv_def by (metis imageI)

lemma reg_owner:
  "occupied_inv s \<Longrightarrow> x \<in> act s \<Longrightarrow> loc s x = XIR_LREG_LOC_REG r \<Longrightarrow> y \<in> act s \<Longrightarrow> loc s y = XIR_LREG_LOC_REG r \<Longrightarrow> x = y"
  unfolding occupied_inv_def by (metis inj_onD)

lemma give_reg_inv:
  assumes inv: "alloc_inv target scratch R init t s"
    and i: "i < length R" "i \<notin> placed s" "rr_start (R ! i) = t" "rr_lreg (R ! i) \<noteq> XIR_REG_COUNT"
    and r: "rmap s r = XIR_REG_COUNT" "ctrl_met (rr_ctrl (R ! i)) (XIR_LREG_LOC_REG r)" "r \<in> home_regs scratch (R ! i)"
  shows "alloc_inv target scratch R init t (give_reg target i r s)"
proof -
  have li: "lists_inv R s" and occ: "occupied_inv s" and past: "past_inv R t s"
    using inv by (simp_all add: alloc_inv_def)
  note f = give_reg_fields[OF li i(1), of target r]
  note fa = free_not_active[OF occ r(1)]
  have old: "rr_end (R ! y) \<le> t" if "y \<in> placed s" "loc s y = XIR_LREG_LOC_REG r" for y
    using that fa past by (auto simp: past_inv_def)
  then have old: "y \<in> placed s \<Longrightarrow> loc s y = XIR_LREG_LOC_REG r \<Longrightarrow> rr_end (R ! y) \<le> rr_start (R ! i)"
      "y \<in> placed s \<Longrightarrow> XIR_LREG_LOC_REG r = loc s y \<Longrightarrow> rr_end (R ! y) \<le> rr_start (R ! i)" for y
    using i(3) by simp_all
  have "occupied_inv (give_reg target i r s)"
    using occ i fa unfolding occupied_inv_def f
    by (auto simp: inj_on_def image_iff) metis+
  moreover have "past_inv R t (give_reg target i r s)"
    using past i unfolding past_inv_def f by auto
  moreover have "apart_inv R (give_reg target i r s)"
    using inv i old unfolding alloc_inv_def apart_inv_def f by (auto simp: ranges_apart_def)
  moreover have "ctrl_inv scratch R (give_reg target i r s)"
    using inv i r unfolding alloc_inv_def ctrl_inv_def f by auto
  moreover have "callee_inv target (give_reg target i r s)"
    using inv i unfolding alloc_inv_def callee_inv_def f by (auto simp: image_iff)
  moreover have "slots_inv init (give_reg target i r s)"
    by (rule slots_inv_same[of init s]) (use inv i f in \<open>auto simp: alloc_inv_def\<close>)
  moreover have "fresh_inv R (give_reg target i r s)"
    using inv i unfolding alloc_inv_def fresh_inv_def f by auto
  ultimately show ?thesis using lists_inv_give_reg[OF li i(1,2)] by (simp add: alloc_inv_def)
qed

section \<open>An interval is spilled\<close>

lemma spill_fields:
  assumes "lists_inv R s" "i < length R"
  shows "active (X64_spill_reg_loc i s) = active s" "hdl (X64_spill_reg_loc i s) = insert i (hdl s)"
    "length (il_list (handled (X64_spill_reg_loc i s))) = Suc (length (il_list (handled s)))"
    "loc (X64_spill_reg_loc i s) = (loc s)(i := XIR_LREG_LOC_STACK (- (stack_offset s + 8)))"
    "rmap (X64_spill_reg_loc i s) = rmap s" "used_callee_regs (X64_spill_reg_loc i s) = used_callee_regs s"
    "stack_offset (X64_spill_reg_loc i s) = stack_offset s + 8"
  using lists_inv_static[OF assms(1)] assms(2)
  by (simp_all add: X64_spill_reg_loc_def Let_def ra_simps X64_MAX_INT_REG_SIZE_def) (simp_all add: loc_def[abs_def])

lemma lists_inv_spill:
  assumes "lists_inv R s" "i < length R" "i \<notin> placed s"
  shows "lists_inv R (X64_spill_reg_loc i s)"
proof -
  have "lists_inv R (set_loc i l (s\<lparr>stack_offset := d\<rparr>))" for l d
    using assms(1) by (intro lists_inv_set_loc) (simp add: lists_inv_alloc)
  then show ?thesis unfolding X64_spill_reg_loc_def Let_def
    by (intro lists_inv_add_handled) (use assms in \<open>simp_all add: ra_simps\<close>)
qed

lemma slots_inv_new:
  assumes "slots_inv init s" "hdl s' = insert i (hdl s)" "length (il_list (handled s')) = Suc (length (il_list (handled s)))"
    "\<And>x. x \<in> hdl s \<Longrightarrow> loc s' x = loc s x" "loc s' i = XIR_LREG_LOC_STACK (- (stack_offset s + 8))"
    "stack_offset s' = stack_offset s + 8" "i \<notin> hdl s"
  shows "slots_inv init s'"
proof -
  obtain k f where k: "stack_offset s = init + of_nat (8 * k)" "k \<le> length (il_list (handled s))"
      "\<And>x. x \<in> hdl s \<Longrightarrow> is_stack_loc (loc s x) \<Longrightarrow> 1 \<le> f x \<and> f x \<le> k \<and> loc s x = slot init (f x)"
      "inj_on f {x \<in> hdl s. is_stack_loc (loc s x)}"
    using assms(1) unfolding slots_inv_def by blast
  let ?f = "f(i := Suc k)"
  have off: "stack_offset s' = init + of_nat (8 * Suc k)" using k(1) assms(6) by (simp add: algebra_simps)
  moreover have "Suc k \<le> length (il_list (handled s'))" using k(2) assms(3) by simp
  moreover have "1 \<le> ?f x \<and> ?f x \<le> Suc k \<and> loc s' x = slot init (?f x)" if "x \<in> hdl s'" "is_stack_loc (loc s' x)" for x
  proof (cases "x = i")
    case True
    then show ?thesis using assms(5) k(1) by (simp add: slot_def algebra_simps)
  next
    case False
    then show ?thesis using that assms(2,4) k(3)[of x] by fastforce
  qed
  moreover have "inj_on ?f {x \<in> hdl s'. is_stack_loc (loc s' x)}"
  proof (rule inj_onI)
    fix x y assume xy: "x \<in> {x \<in> hdl s'. is_stack_loc (loc s' x)}" "y \<in> {x \<in> hdl s'. is_stack_loc (loc s' x)}" "?f x = ?f y"
    have old: "z \<in> {x \<in> hdl s. is_stack_loc (loc s x)} \<and> f z \<le> k" if "z \<in> {x \<in> hdl s'. is_stack_loc (loc s' x)}" "z \<noteq> i" for z
      using that assms(2,4) k(3)[of z] by auto
    show "x = y"
    proof (cases "x = i \<or> y = i")
      case True
      then show ?thesis using old[OF xy(1)] old[OF xy(2)] xy(3) by (auto split: if_splits)
    next
      case False
      then show ?thesis using old[OF xy(1)] old[OF xy(2)] xy(3) k(4) by (auto dest: inj_onD)
    qed
  qed
  ultimately show ?thesis unfolding slots_inv_def by blast
qed

lemma spill_inv:
  assumes inv: "alloc_inv target scratch R init t s"
    and i: "i < length R" "i \<notin> placed s" "rr_start (R ! i) = t" "ctrl_met (rr_ctrl (R ! i)) (XIR_LREG_LOC_STACK (- (stack_offset s + 8)))"
  shows "alloc_inv target scratch R init t (X64_spill_reg_loc i s)"
proof -
  have li: "lists_inv R s" and occ: "occupied_inv s" and past: "past_inv R t s"
    using inv by (simp_all add: alloc_inv_def)
  note f = spill_fields[OF li i(1)]
  have "occupied_inv (X64_spill_reg_loc i s)"
    using occ i unfolding occupied_inv_def f by (auto simp: inj_on_def image_iff)
  moreover have "past_inv R t (X64_spill_reg_loc i s)"
    using past i unfolding past_inv_def f by auto
  moreover have "apart_inv R (X64_spill_reg_loc i s)"
    using inv i unfolding alloc_inv_def apart_inv_def f by auto
  moreover have "ctrl_inv scratch R (X64_spill_reg_loc i s)"
    using inv i unfolding alloc_inv_def ctrl_inv_def f by auto
  moreover have "callee_inv target (X64_spill_reg_loc i s)"
    using inv i unfolding alloc_inv_def callee_inv_def f by (auto simp: image_iff)
  moreover have "slots_inv init (X64_spill_reg_loc i s)"
    by (rule slots_inv_new[of init s]) (use inv i f in \<open>auto simp: alloc_inv_def\<close>)
  moreover have "fresh_inv R (X64_spill_reg_loc i s)"
    using inv i unfolding alloc_inv_def fresh_inv_def f by auto
  ultimately show ?thesis using lists_inv_spill[OF li i(1,2)] by (simp add: alloc_inv_def)
qed

section \<open>An interval takes the register of another\<close>

lemma steal_effect:
  assumes li: "lists_inv R s" and j: "j \<in> act s" "loc s j = XIR_LREG_LOC_REG r" and i: "i < length R" "i \<notin> placed s"
  shows "\<exists>s'. X64_steal_reg j i s = Some s' \<and> lists_inv R s' \<and> act s' = insert i (act s - {j}) \<and> hdl s' = insert j (hdl s) \<and>
     length (il_list (handled s')) = Suc (length (il_list (handled s))) \<and>
     loc s' = (loc s)(i := XIR_LREG_LOC_REG r, j := XIR_LREG_LOC_STACK (- (stack_offset s + 8))) \<and>
     rmap s' = (rmap s)(r := rr_lreg (R ! i)) \<and> used_callee_regs s' = used_callee_regs s \<and>
     stack_offset s' = stack_offset s + 8"
proof -
  let ?s1 = "set_loc i (XIR_LREG_LOC_REG r) s"
  let ?s2 = "?s1\<lparr>rmap := (rmap ?s1)(r := rr_lreg (R ! i))\<rparr>"
  have len: "length (ra_ranges s) = length R" using lists_inv_static[OF li] by simp
  have li2: "lists_inv R ?s2" using lists_inv_set_loc[OF li] by (simp add: lists_inv_alloc)
  have lr: "rr_lreg (ra_ranges ?s1 ! i) = rr_lreg (R ! i)" using lists_inv_static[OF lists_inv_set_loc[OF li]] by blast
  have "j \<in> act ?s2" using j by (simp add: ra_simps)
  then obtain l where l: "rm_active j ?s2 = Some (?s2\<lparr>active := l\<rparr>)" "lists_inv R (?s2\<lparr>active := l\<rparr>)"
      "set (il_list l) = act s - {j}"
    using rm_active_effect[OF li2] by (auto simp: ra_simps)
  let ?s3 = "?s2\<lparr>active := l\<rparr>"
  have jl: "j < length R" "j \<notin> hdl s" "j \<noteq> i" using li j i by (auto simp: lists_inv_def)
  have li4: "lists_inv R (add_active i ?s3)"
    by (rule lists_inv_add_active[OF l(2) i(1)]) (use i l(3) in \<open>auto simp: ra_simps\<close>)
  have li5: "lists_inv R (X64_spill_reg_loc j (add_active i ?s3))"
    by (rule lists_inv_spill[OF li4 jl(1)]) (use l(3) jl in \<open>auto simp: ra_simps\<close>)
  have "loc ?s3 = (loc s)(i := XIR_LREG_LOC_REG r)"
    using i(1) len by (auto simp: loc_def fun_eq_iff set_loc_def nth_list_update)
  then show ?thesis using l(1,3) li5 j(2) spill_fields[OF li4 jl(1)] lr
    by (intro exI[of _ "X64_spill_reg_loc j (add_active i ?s3)"]) (simp add: X64_steal_reg_def loc_def[symmetric] ra_simps Let_def)
qed

lemma steal_inv:
  assumes inv: "alloc_inv target scratch R init t s"
    and i: "i < length R" "i \<notin> placed s" "rr_start (R ! i) = t" "rr_lreg (R ! i) \<noteq> XIR_REG_COUNT"
      "ctrl_met (rr_ctrl (R ! i)) (XIR_LREG_LOC_REG r)" "rr_class (R ! j) = rr_class (R ! i)" "\<not> is_forced (rr_ctrl (R ! j))"
    and j: "j \<in> act s" "loc s j = XIR_LREG_LOC_REG r" "ctrl_met (rr_ctrl (R ! j)) (XIR_LREG_LOC_STACK (- (stack_offset s + 8)))"
  shows "\<exists>s'. X64_steal_reg j i s = Some s' \<and> alloc_inv target scratch R init t s'"
proof -
  have li: "lists_inv R s" and occ: "occupied_inv s" and past: "past_inv R t s"
    using inv by (simp_all add: alloc_inv_def)
  obtain s' where st: "X64_steal_reg j i s = Some s'" and li': "lists_inv R s'"
    and f: "act s' = insert i (act s - {j})" "hdl s' = insert j (hdl s)"
     "length (il_list (handled s')) = Suc (length (il_list (handled s)))"
     "loc s' = (loc s)(i := XIR_LREG_LOC_REG r, j := XIR_LREG_LOC_STACK (- (stack_offset s + 8)))"
     "rmap s' = (rmap s)(r := rr_lreg (R ! i))" "used_callee_regs s' = used_callee_regs s" "stack_offset s' = stack_offset s + 8"
    using steal_effect[OF li j(1,2) i(1,2)] by blast
  have ij: "i \<noteq> j" "j \<notin> hdl s" using i j li by (auto simp: lists_inv_def)
  have own: "x = j" if "x \<in> act s" "loc s x = XIR_LREG_LOC_REG r" for x
    by (rule reg_owner[OF occ that j(1,2)])
  have old: "rr_end (R ! y) \<le> rr_start (R ! i)" if "y \<in> placed s" "y \<noteq> j" "loc s y = XIR_LREG_LOC_REG r" for y
    using that own past i(3) by (auto simp: past_inv_def)
  have "home_regs scratch (R ! j) = set (scratch (rr_class (R ! i)))"
    using i(7) by (auto simp: home_regs_def i(6))
  then have cls: "r \<in> home_regs scratch (R ! i)"
    using inv j(1,2) unfolding alloc_inv_def ctrl_inv_def by (auto simp: home_regs_def)
  have "occupied_inv s'" unfolding occupied_inv_def f
  proof (intro conjI ballI allI)
    show "inj_on ((loc s)(i := XIR_LREG_LOC_REG r, j := XIR_LREG_LOC_STACK (- (stack_offset s + 8)))) (insert i (act s - {j}))"
      using occ i own ij unfolding occupied_inv_def by (auto simp: inj_on_def)
    fix p
    show "((rmap s)(r := rr_lreg (R ! i))) p \<noteq> XIR_REG_COUNT \<longleftrightarrow> XIR_LREG_LOC_REG p \<in>
       ((loc s)(i := XIR_LREG_LOC_REG r, j := XIR_LREG_LOC_STACK (- (stack_offset s + 8)))) ` (insert i (act s - {j}))"
    proof (cases "p = r")
      case True
      then show ?thesis using i(4) ij(1) by auto
    next
      case False
      have "rmap s p \<noteq> XIR_REG_COUNT \<longleftrightarrow> XIR_LREG_LOC_REG p \<in> loc s ` act s" using occ by (simp add: occupied_inv_def)
      then show ?thesis using False j ij i(2) by (auto simp: image_iff)
    qed
  qed (use occ i ij in \<open>auto simp: occupied_inv_def\<close>)
  moreover have "past_inv R t s'" using past i j unfolding past_inv_def f by auto
  moreover have "apart_inv R s'"
    using inv i j ij old unfolding alloc_inv_def apart_inv_def f by (auto simp: ranges_apart_def)
  moreover have "ctrl_inv scratch R s'"
    using inv i j ij cls unfolding alloc_inv_def ctrl_inv_def f by auto
  moreover have "callee_inv target s'"
  proof -
    have "XIR_LREG_LOC_REG p \<in> loc s' ` placed s' \<longleftrightarrow> XIR_LREG_LOC_REG p \<in> loc s ` placed s" for p
    proof
      assume "XIR_LREG_LOC_REG p \<in> loc s' ` placed s'"
      then obtain x where x: "x \<in> placed s'" "loc s' x = XIR_LREG_LOC_REG p" by force
      show "XIR_LREG_LOC_REG p \<in> loc s ` placed s"
      proof (cases "x = i")
        case True
        then have "loc s j = XIR_LREG_LOC_REG p" using x(2) ij(1) j(2) unfolding f by simp
        then show ?thesis using j(1) by (intro image_eqI[of _ _ j]) simp_all
      next
        case False
        then have "loc s x = XIR_LREG_LOC_REG p" "x \<in> placed s" using x j(1) unfolding f by (auto split: if_splits)
        then show ?thesis by (intro image_eqI[of _ _ x]) simp_all
      qed
    next
      assume "XIR_LREG_LOC_REG p \<in> loc s ` placed s"
      then obtain x where x: "x \<in> placed s" "loc s x = XIR_LREG_LOC_REG p" by force
      show "XIR_LREG_LOC_REG p \<in> loc s' ` placed s'"
      proof (cases "x = j")
        case True
        then show ?thesis using x(2) j(2) ij(1) unfolding f by (intro image_eqI[of _ _ i]) simp_all
      next
        case False
        then show ?thesis using x i(2) unfolding f by (intro image_eqI[of _ _ x]) auto
      qed
    qed
    then show ?thesis using inv f(6) by (simp add: alloc_inv_def callee_inv_def)
  qed
  moreover have "slots_inv init s'"
    by (rule slots_inv_new[of init s _ j]) (use inv i j ij f in \<open>auto simp: alloc_inv_def\<close>)
  moreover have "fresh_inv R s'"
    using inv i j unfolding alloc_inv_def fresh_inv_def f by auto
  ultimately show ?thesis using li' st by (auto simp: alloc_inv_def)
qed

section \<open>Intervals expire\<close>

definition expire_one :: "nat \<Rightarrow> X64_Reg \<Rightarrow> XIR_RegAllocState \<Rightarrow> XIR_RegAllocState" where
  "expire_one j r s = add_handled j (X64_free_reg r s)"

lemma expire_inv:
  assumes inv: "alloc_inv target scratch R init t s" and j: "il_list (active s) = j # js" "rr_end (R ! j) \<le> t"
  shows "\<exists>s1 r. rm_active j s = Some s1 \<and> loc s1 j = XIR_LREG_LOC_REG r \<and>
     loc (expire_one j r s1) = loc s \<and> alloc_inv target scratch R init t (expire_one j r s1) \<and>
     il_list (active (expire_one j r s1)) = js \<and> hdl (expire_one j r s1) = insert j (hdl s) \<and>
     stack_offset (expire_one j r s1) = stack_offset s"
proof -
  have li: "lists_inv R s" and occ: "occupied_inv s" and past: "past_inv R t s"
    using inv by (simp_all add: alloc_inv_def)
  have ja: "j \<in> act s" using j by simp
  obtain l where l: "rm_active j s = Some (s\<lparr>active := l\<rparr>)" "lists_inv R (s\<lparr>active := l\<rparr>)" "il_list l = js" "set js = act s - {j}"
    using rm_active_effect[OF li ja] j(1) by auto
  let ?s1 = "s\<lparr>active := l\<rparr>"
  have loc1: "loc ?s1 = loc s" by (simp add: loc_def fun_eq_iff)
  obtain r where r: "loc s j = XIR_LREG_LOC_REG r"
    using occ ja unfolding occupied_inv_def by (cases "loc s j") auto
  let ?s' = "add_handled j (X64_free_reg r ?s1)"
  have jl: "j < length R" "j \<notin> hdl s" using li ja by (auto simp: lists_inv_def)
  have li': "lists_inv R ?s'"
    by (rule lists_inv_add_handled) (use l jl in \<open>auto simp: lists_inv_alloc ra_simps\<close>)
  have f: "active ?s' = l" "act ?s' = act s - {j}" "hdl ?s' = insert j (hdl s)" "loc ?s' = loc s"
      "rmap ?s' = (rmap s)(r := XIR_REG_COUNT)" "used_callee_regs ?s' = used_callee_regs s" "stack_offset ?s' = stack_offset s"
      "length (il_list (handled ?s')) = Suc (length (il_list (handled s)))"
    using l loc1 by (simp_all add: ra_simps)
  have pl: "placed ?s' = placed s" using f ja by auto
  have own: "x = j" if "x \<in> act s" "loc s x = XIR_LREG_LOC_REG r" for x
    by (rule reg_owner[OF occ that ja r])
  have "occupied_inv ?s'" unfolding occupied_inv_def f(2,4,5)
  proof (intro conjI ballI allI)
    show "inj_on (loc s) (act s - {j})" using occ by (auto simp: occupied_inv_def inj_on_def)
    fix p
    have "rmap s p \<noteq> XIR_REG_COUNT \<longleftrightarrow> XIR_LREG_LOC_REG p \<in> loc s ` act s" using occ by (simp add: occupied_inv_def)
    moreover have "XIR_LREG_LOC_REG p \<in> loc s ` (act s - {j}) \<longleftrightarrow> p \<noteq> r \<and> XIR_LREG_LOC_REG p \<in> loc s ` act s"
    proof
      assume "XIR_LREG_LOC_REG p \<in> loc s ` (act s - {j})"
      then obtain x where "x \<in> act s" "x \<noteq> j" "loc s x = XIR_LREG_LOC_REG p" by force
      then show "p \<noteq> r \<and> XIR_LREG_LOC_REG p \<in> loc s ` act s" using own by force
    next
      assume p: "p \<noteq> r \<and> XIR_LREG_LOC_REG p \<in> loc s ` act s"
      then obtain x where x: "x \<in> act s" "XIR_LREG_LOC_REG p = loc s x" by blast
      then have "x \<noteq> j" using p r by auto
      then show "XIR_LREG_LOC_REG p \<in> loc s ` (act s - {j})" using x by blast
    qed
    ultimately show "((rmap s)(r := XIR_REG_COUNT)) p \<noteq> XIR_REG_COUNT \<longleftrightarrow> XIR_LREG_LOC_REG p \<in> loc s ` (act s - {j})"
      by simp
  qed (use occ in \<open>auto simp: occupied_inv_def\<close>)
  moreover have "past_inv R t ?s'" using past j(2) ja unfolding past_inv_def pl unfolding f(3,4) by auto
  moreover have "apart_inv R ?s'" using inv unfolding alloc_inv_def apart_inv_def pl unfolding f(3-6) by auto
  moreover have "ctrl_inv scratch R ?s'" using inv unfolding alloc_inv_def ctrl_inv_def pl unfolding f(3-6) by auto
  moreover have "callee_inv target ?s'" using inv unfolding alloc_inv_def callee_inv_def pl unfolding f(3-6) by auto
  moreover have "slots_inv init ?s'"
    by (rule slots_inv_same[of init s]) (use inv r f in \<open>auto simp: alloc_inv_def\<close>)
  moreover have "fresh_inv R ?s'" using inv unfolding alloc_inv_def fresh_inv_def pl unfolding f(3-6) by auto
  ultimately have "alloc_inv target scratch R init t ?s'" using li' by (simp add: alloc_inv_def)
  then show ?thesis using l(1,3) f r loc1
    by (intro exI[of _ ?s1] exI[of _ r]) (simp add: expire_one_def)
qed

text \<open>Expiry removes from the active list exactly the intervals that have ended, and never fails.\<close>

lemma expire_old_intervals_inv:
  assumes "alloc_inv target scratch R init t s" "il_list (active s) = js"
  shows "\<exists>s'. expire_old_intervals t js s = Some s' \<and> alloc_inv target scratch R init t s' \<and> placed s' = placed s \<and>
     loc s' = loc s \<and> act s' = {a \<in> act s. rr_end (R ! a) > t} \<and> stack_offset s' = stack_offset s \<and> unhandled s' = unhandled s"
  using assms
proof (induction js arbitrary: s)
  case Nil
  then show ?case by simp
next
  case (Cons j js)
  have li: "lists_inv R s" using Cons.prems(1) by (simp add: alloc_inv_def)
  note st = lists_inv_static[OF li]
  show ?case
  proof (cases "rr_end (R ! j) > t")
    case True
    have "sorted (map (\<lambda>i. rr_end (R ! i)) (j # js))" using li Cons.prems(2) by (simp add: lists_inv_def)
    then have "\<forall>a \<in> act s. rr_end (R ! a) > t" using True Cons.prems(2) by auto
    then show ?thesis using True Cons.prems st by auto
  next
    case False
    obtain s1 r where e: "rm_active j s = Some s1" "loc s1 j = XIR_LREG_LOC_REG r"
        "loc (expire_one j r s1) = loc s" "alloc_inv target scratch R init t (expire_one j r s1)"
        "il_list (active (expire_one j r s1)) = js" "hdl (expire_one j r s1) = insert j (hdl s)"
        "stack_offset (expire_one j r s1) = stack_offset s"
      using expire_inv[OF Cons.prems] False unfolding not_less by blast
    let ?s' = "expire_one j r s1"
    have "unhandled s1 = unhandled s" using e(1)
      by (cases "X64_lreg_interval_list_rm (ra_ranges s) j (active s)") (auto simp: rm_active_def)
    then have u: "unhandled ?s' = unhandled s" by (simp add: expire_one_def add_handled_def X64_free_reg_def)
    have "expire_old_intervals t (j # js) s = expire_old_intervals t js ?s'"
      using e(1,2) False st by (simp add: loc_def expire_one_def)
    moreover obtain s'' where "expire_old_intervals t js ?s' = Some s''" "alloc_inv target scratch R init t s''"
        "placed s'' = placed ?s'" "loc s'' = loc ?s'" "act s'' = {a \<in> act ?s'. rr_end (R ! a) > t}"
        "stack_offset s'' = stack_offset ?s'" "unhandled s'' = unhandled ?s'"
      using Cons.IH[OF e(4,5)] by blast
    moreover have "act s = insert j (act ?s')" "placed ?s' = placed s" using Cons.prems(2) e(5,6) by auto
    ultimately show ?thesis using e(3,7) u False by (intro exI[of _ s'']) auto
  qed
qed

section \<open>Choosing a register\<close>

lemma scan_scratch_regs_result:
  assumes "scan_scratch_regs target regs l c banned s = Some (x, s')"
  shows "case x of
     Some r \<Rightarrow> s' = X64_alloc_reg target r l s \<and> rmap s r = XIR_REG_COUNT \<and> \<not> bit banned (reg_num r) \<and> r \<in> set regs \<and> x64_reg_classes r = c
   | None \<Rightarrow> s' = s \<and> (\<forall>r \<in> set regs. rmap s r \<noteq> XIR_REG_COUNT \<or> bit banned (reg_num r))"
  using assms
  by (auto simp: scan_scratch_regs_def find_None_iff find_Some_iff assert_opt_def Let_def split: option.splits if_splits)

lemma next_reg_result:
  assumes "X64_next_reg target scratch l c banned hint s = Some (x, s')"
  shows "case x of
     Some r \<Rightarrow> s' = X64_alloc_reg target r l s \<and> rmap s r = XIR_REG_COUNT \<and> \<not> bit banned (reg_num r) \<and>
        x64_reg_classes r = c \<and> (r \<in> set (scratch c) \<or> hint = Some r)
   | None \<Rightarrow> s' = s \<and> (\<forall>r \<in> set (scratch c). rmap s r \<noteq> XIR_REG_COUNT \<or> bit banned (reg_num r))"
proof (cases "\<exists>h. hint = Some h \<and> \<not> bit banned (reg_num h) \<and> rmap s h = XIR_REG_COUNT")
  case True
  then show ?thesis using assms
    by (auto simp: X64_next_reg_def assert_opt_def split: if_splits)
next
  case False
  then have "scan_scratch_regs target (scratch c) l c banned s = Some (x, s')"
    using assms by (auto simp: X64_next_reg_def split: option.splits)
  from scan_scratch_regs_result[OF this] show ?thesis by (auto split: option.splits)
qed

section \<open>One step of the scan\<close>

text \<open>
  What the scan relies on: every scratch register is listed under its own class, and the registers that
  controls name are scratch registers of the interval's class. The frame pointer, which is no scratch register, has an
  interval that is forced into it; no other interval takes a hint from that one.
\<close>

definition scratch_ok :: "(X64_RegClass \<Rightarrow> X64_Reg list) \<Rightarrow> bool" where
  "scratch_ok scratch \<longleftrightarrow> (\<forall>c. \<forall>r \<in> set (scratch c). x64_reg_classes r = c \<and> r \<noteq> X64_RBP \<and> r \<noteq> X64_RSP) \<and>
     (\<forall>c. distinct (scratch c))"

definition ctrl_regs_ok :: "(X64_RegClass \<Rightarrow> X64_Reg list) \<Rightarrow> XIR_RegRange list \<Rightarrow> nat \<Rightarrow> bool" where
  "ctrl_regs_ok scratch R i \<longleftrightarrow>
     (case rr_ctrl (R ! i) of
        XIR_REG_ALLOC_CTRL_FORCE_REG p \<Rightarrow> p \<in> home_regs scratch (R ! i)
      | XIR_REG_ALLOC_CTRL_HINT_PHYS_REG p \<Rightarrow> p \<in> set (scratch (rr_class (R ! i)))
      | XIR_REG_ALLOC_CTRL_HINT_LIR_REG l \<Rightarrow> l < length R \<and> rr_class (R ! l) = rr_class (R ! i) \<and>
          rr_ctrl (R ! l) \<noteq> XIR_REG_ALLOC_CTRL_FORCE_REG X64_RBP
      | _ \<Rightarrow> True)"

fun uncontrolled :: "XIR_RegAllocControl \<Rightarrow> bool" where
  "uncontrolled XIR_REG_ALLOC_CTRL_NONE = True"
| "uncontrolled (XIR_REG_ALLOC_CTRL_HINT_LIR_REG _) = True"
| "uncontrolled (XIR_REG_ALLOC_CTRL_HINT_PHYS_REG _) = True"
| "uncontrolled _ = False"

lemma uncontrolled_met: "uncontrolled c \<Longrightarrow> ctrl_met c l \<longleftrightarrow> l \<noteq> XIR_LREG_LOC_UNASSIGNED"
  by (cases c) auto

lemma not_forced_stack: "\<not> is_forced c \<Longrightarrow> ctrl_met c (XIR_LREG_LOC_STACK d)"
  by (cases c) auto

text \<open>The register a hint proposes is a scratch register of the interval's class.\<close>

lemma preg_hint_in_scratch:
  assumes inv: "alloc_inv target scratch R init t s" and c: "ctrl_regs_ok scratch R i"
    and h: "preg_hint_of s (rr_ctrl (R ! i)) = Some (Some r)"
  shows "r \<in> set (scratch (rr_class (R ! i)))"
proof (cases "rr_ctrl (R ! i)")
  case (XIR_REG_ALLOC_CTRL_HINT_LIR_REG l)
  then have l: "l < length R" "rr_class (R ! l) = rr_class (R ! i)" "rr_ctrl (R ! l) \<noteq> XIR_REG_ALLOC_CTRL_FORCE_REG X64_RBP"
    using c by (auto simp: ctrl_regs_ok_def)
  have loc: "loc s l = XIR_LREG_LOC_REG r" using h XIR_REG_ALLOC_CTRL_HINT_LIR_REG
    by (auto simp: preg_hint_of_def loc_def assert_opt_def split: if_splits XIR_RegLoc.splits)
  then have "l \<in> placed s" using inv l(1) by (auto simp: alloc_inv_def fresh_inv_def)
  then show ?thesis using inv loc l(2) home_scratch[OF l(3)] unfolding alloc_inv_def ctrl_inv_def by metis
qed (use c h in \<open>auto simp: ctrl_regs_ok_def preg_hint_of_def\<close>)

lemma assign_after_next:
  assumes li: "lists_inv R s"
  shows "assign_reg i r (X64_alloc_reg target r (rr_lreg (R ! i)) s) = give_reg target i r s"
    "add_active i (X64_alloc_reg target r (rr_lreg (R ! i)) (set_loc i (XIR_LREG_LOC_REG r) s)) = give_reg target i r s"
proof -
  have l: "rr_lreg (ra_ranges s ! i) = rr_lreg (R ! i)" using lists_inv_static[OF li] by blast
  then show "assign_reg i r (X64_alloc_reg target r (rr_lreg (R ! i)) s) = give_reg target i r s"
    by (simp add: give_reg_def)
  show "add_active i (X64_alloc_reg target r (rr_lreg (R ! i)) (set_loc i (XIR_LREG_LOC_REG r) s)) = give_reg target i r s"
    unfolding give_reg_def assign_reg_def l by (cases s) (simp add: X64_alloc_reg_def set_loc_def)
qed

lemma banned_static: "static R R' \<Longrightarrow> banned_regs_of R' e js m = banned_regs_of R e js m"
  by (induction R' e js m rule: banned_regs_of.induct) (auto simp: static_def split: XIR_RegAllocControl.splits)

text \<open>What can happen to the interval \<open>i\<close> when it is its turn.\<close>

definition takes_free :: "X64_Target \<Rightarrow> (X64_RegClass \<Rightarrow> X64_Reg list) \<Rightarrow> XIR_RegRange list \<Rightarrow> nat \<Rightarrow> u32 \<Rightarrow>
    XIR_RegAllocState \<Rightarrow> XIR_RegAllocState \<Rightarrow> bool" where
  "takes_free target scratch R i banned s s' \<longleftrightarrow> (\<exists>r. s' = give_reg target i r s \<and> rmap s r = XIR_REG_COUNT \<and>
     ctrl_met (rr_ctrl (R ! i)) (XIR_LREG_LOC_REG r) \<and> r \<in> home_regs scratch (R ! i) \<and>
     (uncontrolled (rr_ctrl (R ! i)) \<longrightarrow> \<not> bit banned (reg_num r) \<and>
        il_class_counts (active s) (rr_class (R ! i)) \<noteq> length (scratch (rr_class (R ! i)))))"

definition is_spilled :: "XIR_RegRange list \<Rightarrow> nat \<Rightarrow> XIR_RegAllocState \<Rightarrow> XIR_RegAllocState \<Rightarrow> bool" where
  "is_spilled R i s s' \<longleftrightarrow> s' = X64_spill_reg_loc i s \<and> \<not> is_forced (rr_ctrl (R ! i))"

definition steals :: "XIR_RegRange list \<Rightarrow> nat \<Rightarrow> u32 \<Rightarrow> XIR_RegAllocState \<Rightarrow> XIR_RegAllocState \<Rightarrow> bool" where
  "steals R i banned s s' \<longleftrightarrow> (\<exists>j r. X64_steal_reg j i s = Some s' \<and> j \<in> act s \<and> uncontrolled (rr_ctrl (R ! i)) \<and>
     \<not> is_forced (rr_ctrl (R ! j)) \<and> rr_class (R ! j) = rr_class (R ! i) \<and> loc s j = XIR_LREG_LOC_REG r \<and> \<not> bit banned (reg_num r))"

lemma alloc_uncontrolled_outcome:
  assumes inv: "alloc_inv target scratch R init t s" and c: "ctrl_regs_ok scratch R i" "uncontrolled (rr_ctrl (R ! i))"
    and a: "alloc_uncontrolled target scratch i rest s = Some (True, s')"
  defines "banned \<equiv> banned_regs_of R (rr_end (R ! i)) rest 0"
  shows "takes_free target scratch R i banned s s' \<or> is_spilled R i s s' \<or> steals R i banned s s'"
proof -
  have li: "lists_inv R s" and occ: "occupied_inv s" using inv by (simp_all add: alloc_inv_def)
  note st = lists_inv_static[OF li]
  have nf: "\<not> is_forced (rr_ctrl (R ! i))" using c(2) by (cases "rr_ctrl (R ! i)") auto
  have b: "banned_regs_of (ra_ranges s) (rr_end (R ! i)) rest 0 = banned"
    unfolding banned_def by (rule banned_static[OF st(7)])
  obtain out where out: "X64_out_of_regs scratch s (rr_class (R ! i)) = Some out"
    using a by (auto simp: alloc_uncontrolled_def st Let_def split: bind_splits)
  show ?thesis
  proof (cases out)
    case False
    then obtain hint x s1 where h: "preg_hint_of s (rr_ctrl (R ! i)) = Some hint"
        "X64_next_reg target scratch (rr_lreg (R ! i)) (rr_class (R ! i)) banned hint s = Some (x, s1)"
        "(case x of None \<Rightarrow> Some (False, s1) | Some reg \<Rightarrow> Some (True, assign_reg i reg s1)) = Some (True, s')"
      using a out by (auto simp: alloc_uncontrolled_def st Let_def b split: bind_splits)
    then obtain r where x: "x = Some r" "s' = assign_reg i r s1" by (cases x) auto
    have n: "s1 = X64_alloc_reg target r (rr_lreg (R ! i)) s" "rmap s r = XIR_REG_COUNT" "\<not> bit banned (reg_num r)"
        "r \<in> set (scratch (rr_class (R ! i))) \<or> hint = Some r"
      using next_reg_result[OF h(2)] x(1) by simp_all
    then have "r \<in> set (scratch (rr_class (R ! i)))" using preg_hint_in_scratch[OF inv c(1)] h(1) by auto
    then have "r \<in> home_regs scratch (R ! i)" by (simp add: home_regs_def)
    moreover have "il_class_counts (active s) (rr_class (R ! i)) \<noteq> length (scratch (rr_class (R ! i)))"
      using out False by (auto simp: X64_out_of_regs_def Let_def split: bind_splits)
    ultimately show ?thesis using n(1-3) x(2) c(2)
      by (auto simp: takes_free_def assign_after_next[OF li] uncontrolled_met)
  next
    case True
    let ?f = "find (spill_candidate (ra_ranges s) (rr_class (R ! i)) banned) (rev (il_list (active s)))"
    have a: "(case ?f of None \<Rightarrow> Some (True, X64_spill_reg_loc i s)
      | Some j \<Rightarrow> if rr_end (R ! j) > rr_end (R ! i) then X64_steal_reg j i s \<bind> (\<lambda>s. Some (True, s))
          else Some (True, X64_spill_reg_loc i s)) = Some (True, s')"
      using a out True nf by (cases ?f) (simp_all add: alloc_uncontrolled_def st Let_def b)
    show ?thesis
    proof (cases ?f)
      case None
      then show ?thesis using a nf by (simp add: is_spilled_def)
    next
      case (Some j)
      then have j: "j \<in> act s" "spill_candidate (ra_ranges s) (rr_class (R ! i)) banned j"
        by (auto simp: find_Some_iff) (metis length_rev nth_mem set_rev)
      obtain r where r: "loc s j = XIR_LREG_LOC_REG r"
        using occ j(1) unfolding occupied_inv_def by (cases "loc s j") auto
      have "\<not> is_forced (rr_ctrl (R ! j))" "rr_class (R ! j) = rr_class (R ! i)" "\<not> bit banned (reg_num r)"
        using j(2) r by (auto simp: spill_candidate_def st Let_def loc_def)
      then show ?thesis using a Some j(1) r nf c(2)
        by (auto simp: is_spilled_def steals_def split: if_splits bind_splits)
    qed
  qed
qed

lemma alloc_interval_outcome:
  assumes inv: "alloc_inv target scratch R init t s" and c: "ctrl_regs_ok scratch R i" and i: "i < length R"
    and a: "alloc_interval target scratch i rest s = Some (True, s')"
  defines "banned \<equiv> banned_regs_of R (rr_end (R ! i)) rest 0"
  shows "takes_free target scratch R i banned s s' \<or> is_spilled R i s s' \<or> steals R i banned s s'"
proof -
  have li: "lists_inv R s" using inv by (simp_all add: alloc_inv_def)
  note st = lists_inv_static[OF li]
  have bits: "\<not> bit (NOT m) (reg_num r) \<Longrightarrow> bit m (reg_num r)" for m :: u32 and r
    using reg_num_lt[of r] by (simp add: bit_simps)
  show ?thesis
  proof (cases "rr_ctrl (R ! i)")
    case (XIR_REG_ALLOC_CTRL_FORCE_REG p)
    then have "rmap s p = XIR_REG_COUNT" "s' = give_reg target i p s"
      using a li assign_after_next(2)[OF li] by (auto simp: alloc_interval_def st assert_opt_def split: if_splits)
    then show ?thesis using c XIR_REG_ALLOC_CTRL_FORCE_REG by (auto simp: takes_free_def ctrl_regs_ok_def)
  next
    case (XIR_REG_ALLOC_CTRL_FORCE_ANY_REG m)
    obtain x s1 where n: "X64_next_reg target scratch (rr_lreg (R ! i)) (rr_class (R ! i)) (NOT m) None s = Some (x, s1)"
        "(case x of None \<Rightarrow> None | Some reg \<Rightarrow> Some (True, assign_reg i reg s1)) = Some (True, s')"
      using a XIR_REG_ALLOC_CTRL_FORCE_ANY_REG by (auto simp: alloc_interval_def st Let_def split: bind_splits)
    then obtain r where x: "x = Some r" "s' = assign_reg i r s1" by (cases x) auto
    then show ?thesis using next_reg_result[OF n(1)] XIR_REG_ALLOC_CTRL_FORCE_ANY_REG
      by (auto simp: takes_free_def assign_after_next[OF li] bits home_regs_def)
  next
    case (XIR_REG_ALLOC_CTRL_FORCE_REG_OR_SPILL m)
    obtain x s1 where n: "X64_next_reg target scratch (rr_lreg (R ! i)) (rr_class (R ! i)) (NOT m) None s = Some (x, s1)"
        "(case x of None \<Rightarrow> Some (True, X64_spill_reg_loc i s1) | Some reg \<Rightarrow> Some (True, assign_reg i reg s1)) = Some (True, s')"
      using a XIR_REG_ALLOC_CTRL_FORCE_REG_OR_SPILL by (auto simp: alloc_interval_def st Let_def split: bind_splits)
    show ?thesis
    proof (cases x)
      case None
      then show ?thesis using next_reg_result[OF n(1)] n(2) XIR_REG_ALLOC_CTRL_FORCE_REG_OR_SPILL
        by (auto simp: is_spilled_def)
    next
      case (Some r)
      then show ?thesis using next_reg_result[OF n(1)] n(2) XIR_REG_ALLOC_CTRL_FORCE_REG_OR_SPILL
        by (auto simp: takes_free_def assign_after_next[OF li] bits home_regs_def)
    qed
  qed (use a alloc_uncontrolled_outcome[OF inv c(1)] in \<open>auto simp: alloc_interval_def st banned_def\<close>)
qed

lemma alloc_interval_inv:
  assumes inv: "alloc_inv target scratch R init t s" and c: "ctrl_regs_ok scratch R i"
    and i: "i < length R" "i \<notin> placed s" "rr_start (R ! i) = t" "rr_lreg (R ! i) \<noteq> XIR_REG_COUNT"
    and a: "alloc_interval target scratch i rest s = Some (True, s')"
  shows "alloc_inv target scratch R init t s' \<and> placed s' = insert i (placed s)"
proof -
  have li: "lists_inv R s" using inv by (simp_all add: alloc_inv_def)
  from alloc_interval_outcome[OF inv c i(1) a] show ?thesis
  proof (elim disjE)
    assume "takes_free target scratch R i (banned_regs_of R (rr_end (R ! i)) rest 0) s s'"
    then show ?thesis using give_reg_inv[OF inv i] give_reg_fields[OF li i(1)] by (auto simp: takes_free_def)
  next
    assume "is_spilled R i s s'"
    then show ?thesis using spill_inv[OF inv i(1-3)] spill_fields[OF li i(1)]
      by (auto simp: is_spilled_def not_forced_stack)
  next
    assume "steals R i (banned_regs_of R (rr_end (R ! i)) rest 0) s s'"
    then obtain j r where j: "X64_steal_reg j i s = Some s'" "j \<in> act s" "uncontrolled (rr_ctrl (R ! i))"
       "\<not> is_forced (rr_ctrl (R ! j))" "rr_class (R ! j) = rr_class (R ! i)" "loc s j = XIR_LREG_LOC_REG r"
      by (auto simp: steals_def)
    then show ?thesis
      using steal_inv[OF inv i _ j(5,4,2,6) not_forced_stack[OF j(4)]] steal_effect[OF li j(2,6) i(1,2)]
      by (auto simp: uncontrolled_met)
  qed
qed

section \<open>The scan\<close>

lemma alloc_inv_unhandled: "alloc_inv target scratch R init t (s\<lparr>unhandled := u\<rparr>) = alloc_inv target scratch R init t s"
proof -
  have "loc (s\<lparr>unhandled := u\<rparr>) = loc s" by (simp add: loc_def fun_eq_iff)
  then show ?thesis
    by (simp add: alloc_inv_def occupied_inv_def past_inv_def apart_inv_def ctrl_inv_def callee_inv_def slots_inv_def
        fresh_inv_def lists_inv_def)
qed

definition scan_ok :: "(X64_RegClass \<Rightarrow> X64_Reg list) \<Rightarrow> XIR_RegRange list \<Rightarrow> nat list \<Rightarrow> bool" where
  "scan_ok scratch R js \<longleftrightarrow> distinct js \<and> sorted (map (\<lambda>i. rr_start (R ! i)) js) \<and>
     (\<forall>i \<in> set js. i < length R \<and> rr_lreg (R ! i) \<noteq> XIR_REG_COUNT \<and> ctrl_regs_ok scratch R i)"

lemma scan_intervals_inv:
  assumes "alloc_inv target scratch R init t s" "scan_ok scratch R js" "\<forall>i \<in> set js. t \<le> rr_start (R ! i)"
    "set js \<inter> placed s = {}" "scan_intervals target scratch js s = Some (True, s')"
  shows "\<exists>t'. alloc_inv target scratch R init t' s' \<and> placed s' = placed s \<union> set js"
  using assms
proof (induction js arbitrary: s t)
  case Nil
  then show ?case by auto
next
  case (Cons i js)
  let ?t = "rr_start (R ! i)"
  have i: "i < length R" "i \<notin> placed s" "rr_lreg (R ! i) \<noteq> XIR_REG_COUNT" "ctrl_regs_ok scratch R i" "i \<notin> set js"
    using Cons.prems(2,4) by (auto simp: scan_ok_def)
  obtain u where u: "X64_lreg_interval_list_rm (ra_ranges s) i (unhandled s) = Some u"
    using Cons.prems(5) by (auto split: bind_splits)
  let ?s = "s\<lparr>unhandled := u\<rparr>"
  have inv: "alloc_inv target scratch R init ?t ?s"
    using alloc_inv_mono[OF Cons.prems(1)] Cons.prems(3) by (simp add: alloc_inv_unhandled)
  have st: "rr_start (ra_ranges ?s ! i) = ?t"
    using inv lists_inv_static(2)[of R ?s i] by (simp add: alloc_inv_def)
  obtain s1 where s1: "expire_old_intervals ?t (il_list (active ?s)) ?s = Some s1" "alloc_inv target scratch R init ?t s1"
      "placed s1 = placed ?s"
    using expire_old_intervals_inv[OF inv refl] by blast
  obtain s2 where s2: "alloc_interval target scratch i js s1 = Some (True, s2)" "scan_intervals target scratch js s2 = Some (True, s')"
    using Cons.prems(5) u s1(1) st by (auto split: bind_splits if_splits)
  have inv2: "alloc_inv target scratch R init ?t s2" "placed s2 = insert i (placed s1)"
    using alloc_interval_inv[OF s1(2) i(4,1) _ refl i(3) s2(1)] i(2) s1(3) by auto
  have "\<exists>t'. alloc_inv target scratch R init t' s' \<and> placed s' = placed s2 \<union> set js"
    by (rule Cons.IH[OF inv2(1)]) (use Cons.prems inv2(2) s1(3) s2(2) i(5) in \<open>auto simp: scan_ok_def\<close>)
  then show ?case using inv2(2) s1(3) by auto
qed

text \<open>What is left on the active list goes to the handled list.\<close>

lemma finish_active_effect:
  assumes "lists_inv R s" "il_list (active s) = js"
  shows "\<exists>s'. finish_active js s = Some s' \<and> lists_inv R s' \<and> act s' = {} \<and> hdl s' = placed s \<and> loc s' = loc s \<and>
     used_callee_regs s' = used_callee_regs s \<and> stack_offset s' = stack_offset s \<and>
     length (il_list (handled s)) \<le> length (il_list (handled s'))"
  using assms
proof (induction js arbitrary: s)
  case (Cons j js)
  have ja: "j \<in> act s" using Cons.prems(2) by simp
  obtain l where l: "rm_active j s = Some (s\<lparr>active := l\<rparr>)" "lists_inv R (s\<lparr>active := l\<rparr>)" "il_list l = js" "set js = act s - {j}"
    using rm_active_effect[OF Cons.prems(1) ja] Cons.prems(2) by auto
  let ?s = "add_handled j (s\<lparr>active := l\<rparr>)"
  have "j < length R" "j \<notin> hdl s" using Cons.prems(1) ja by (auto simp: lists_inv_def)
  then have li: "lists_inv R ?s" by (intro lists_inv_add_handled[OF l(2)]) (use l in auto)
  have "loc ?s = loc s" by (simp add: ra_simps) (simp add: loc_def fun_eq_iff)
  then show ?case using Cons.IH[OF li] l ja by (auto simp: ra_simps)
qed simp

section \<open>The alias roots\<close>

definition is_root :: "XIR_Builder \<Rightarrow> nat \<Rightarrow> bool" where
  "is_root b i \<longleftrightarrow> i < num_regs b \<and> lreg_aliases b ! i = i"

lemma leads_self: "builder_wf b \<Longrightarrow> is_root b i \<longleftrightarrow> leads (lreg_aliases b) i i"
  using leads_props[of "lreg_aliases b" i i] leads_root[of i "lreg_aliases b"] by (auto simp: is_root_def builder_wf_def)

lemma init_unhandled_effect:
  assumes "builder_wf b" "n \<le> num_regs b" "list_ok (lreg_ranges b) l" "sorted (map (\<lambda>i. rr_start (lreg_ranges b ! i)) (il_list l))"
    "distinct (il_list l)" "\<forall>i \<in> set (il_list l). n \<le> i"
  shows "\<exists>b' l'. init_unhandled n b l = Some (b', l') \<and> lreg_ranges b' = lreg_ranges b \<and> list_ok (lreg_ranges b) l' \<and>
     sorted (map (\<lambda>i. rr_start (lreg_ranges b ! i)) (il_list l')) \<and> distinct (il_list l') \<and>
     set (il_list l') = set (il_list l) \<union> {i. i < n \<and> is_root b i}"
  using assms
proof (induction n arbitrary: b l)
  case 0
  then show ?case by auto
next
  case (Suc n)
  obtain x roots where x: "XIR_find_alias_reg b n = Some (x, b\<lparr>lreg_aliases := roots\<rparr>)" "leads (lreg_aliases b) n x"
     "builder_wf (b\<lparr>lreg_aliases := roots\<rparr>)" "same_aliases b (b\<lparr>lreg_aliases := roots\<rparr>)"
    using find_alias_reg_wf[OF Suc.prems(1), of n] Suc.prems(2) by auto
  let ?b = "b\<lparr>lreg_aliases := roots\<rparr>"
  let ?l = "if x \<noteq> n then l else X64_lreg_interval_list_add_by_start (lreg_ranges b) n l"
  have root: "is_root ?b i = is_root b i" for i
    using leads_self[OF x(3)] leads_self[OF Suc.prems(1)] x(4) by (simp add: same_aliases_def)
  have xn: "x = n \<longleftrightarrow> is_root b n" using x(2) leads_iff leads_self[OF Suc.prems(1)] by metis
  have nl: "n \<notin> set (il_list l)" using Suc.prems(6) by auto
  have "\<exists>b' l'. init_unhandled n ?b ?l = Some (b', l') \<and> lreg_ranges b' = lreg_ranges ?b \<and> list_ok (lreg_ranges ?b) l' \<and>
     sorted (map (\<lambda>i. rr_start (lreg_ranges ?b ! i)) (il_list l')) \<and> distinct (il_list l') \<and>
     set (il_list l') = set (il_list ?l) \<union> {i. i < n \<and> is_root ?b i}"
    (is "\<exists>b' l'. ?P b' l'")
    by (rule Suc.IH[OF x(3)]) (use Suc.prems nl in
      \<open>auto simp: by_start.add_ok by_start.sorted_add by_start.distinct_add by_start.set_add\<close>)
  then obtain b' l' where bl: "?P b' l'" by blast
  moreover have "set (il_list ?l) \<union> {i. i < n \<and> is_root b i} = set (il_list l) \<union> {i. i < Suc n \<and> is_root b i}"
    using xn by (auto simp: by_start.set_add less_Suc_eq)
  moreover have "init_unhandled (Suc n) b l = init_unhandled n ?b ?l" using x(1) by simp
  ultimately show ?case by (intro exI[of _ b'] exI[of _ l']) (simp add: root)
qed

end
