(* ===== verification/Reg_Alloc_Main.thy ===== *)
theory Reg_Alloc_Main
  imports Reg_Alloc_Correct
begin

text \<open>
  The properties of the register allocator as a whole: what a successful run of
  \<open>X64_linear_scan_reg_alloc\<close> guarantees, and when it is sure to succeed.
\<close>

section \<open>What a successful run leaves behind\<close>

definition allocatable :: "(X64_RegClass \<Rightarrow> X64_Reg list) \<Rightarrow> XIR_Builder \<Rightarrow> bool" where
  "allocatable scratch b \<longleftrightarrow> builder_wf b \<and> scratch_ok scratch \<and>
     (\<forall>i < num_regs b. rr_loc (lreg_ranges b ! i) = XIR_LREG_LOC_UNASSIGNED) \<and>
     (\<forall>i. is_root b i \<longrightarrow> ctrl_regs_ok scratch (lreg_ranges b) i)"

definition init_state :: "XIR_Builder \<Rightarrow> X64_IntervalList \<Rightarrow> u32 \<Rightarrow> XIR_RegAllocState" where
  "init_state b l init = \<lparr>active = empty_list, unhandled = l, handled = empty_list, rmap = X64_init_free_regs,
     ra_ranges = lreg_ranges b, stack_offset = init, used_callee_regs = 0\<rparr>"

lemma init_state_inv:
  assumes "allocatable scratch b"
  shows "alloc_inv target scratch (lreg_ranges b) init t (init_state b l init)"
  using assms
  by (auto simp: init_state_def alloc_inv_def lists_inv_def occupied_inv_def past_inv_def apart_inv_def ctrl_inv_def
      callee_inv_def slots_inv_def fresh_inv_def X64_init_free_regs_def allocatable_def loc_def builder_wf_def)

lemma init_unhandled_roots:
  assumes "allocatable scratch b"
  shows "\<exists>b' l. init_unhandled (length (lreg_ranges b)) b empty_list = Some (b', l) \<and> lreg_ranges b' = lreg_ranges b \<and>
     list_ok (lreg_ranges b) l \<and> scan_ok scratch (lreg_ranges b) (il_list l) \<and> set (il_list l) = {i. is_root b i}"
proof -
  have wf: "builder_wf b" "length (lreg_ranges b) = num_regs b" using assms by (auto simp: allocatable_def builder_wf_def)
  obtain b' l where l: "init_unhandled (length (lreg_ranges b)) b empty_list = Some (b', l)" "lreg_ranges b' = lreg_ranges b"
      "list_ok (lreg_ranges b) l" "sorted (map (\<lambda>i. rr_start (lreg_ranges b ! i)) (il_list l))" "distinct (il_list l)"
      "set (il_list l) = {i. i < num_regs b \<and> is_root b i}"
    using init_unhandled_effect[OF wf(1), of "num_regs b" empty_list] wf(2) by auto
  have s: "set (il_list l) = {i. is_root b i}" unfolding l(6) by (auto simp: is_root_def)
  have "rr_lreg (lreg_ranges b ! i) \<noteq> XIR_REG_COUNT" if "is_root b i" for i
    using wf(1) that by (auto simp: builder_wf_def is_root_def)
  then have "scan_ok scratch (lreg_ranges b) (il_list l)"
    using l(4,5) assms wf(2) unfolding scan_ok_def s by (auto simp: allocatable_def is_root_def)
  then show ?thesis using l(1-3) s by blast
qed

lemma lower_bound: "\<exists>t. \<forall>i \<in> set js. t \<le> f i" for f :: "nat \<Rightarrow> int"
  by (intro exI[of _ "Min (f ` set js)"]) simp

text \<open>The state at the end of a run.\<close>

definition final_state ::
  "X64_Target \<Rightarrow> (X64_RegClass \<Rightarrow> X64_Reg list) \<Rightarrow> XIR_Builder \<Rightarrow> u32 \<Rightarrow> XIR_RegAllocState \<Rightarrow> bool" where
  "final_state target scratch b init s \<longleftrightarrow> lists_inv (lreg_ranges b) s \<and> act s = {} \<and> hdl s = {i. is_root b i} \<and>
     apart_inv (lreg_ranges b) s \<and> ctrl_inv scratch (lreg_ranges b) s \<and> callee_inv target s \<and> slots_inv init s"

lemma finish_final:
  assumes inv: "alloc_inv target scratch (lreg_ranges b) init t s" and p: "placed s = {i. is_root b i}"
  shows "\<exists>s'. finish_active (il_list (active s)) s = Some s' \<and> final_state target scratch b init s' \<and>
     il_count (handled s') = length (il_list (handled s'))"
proof -
  have li: "lists_inv (lreg_ranges b) s" and occ: "occupied_inv s" using inv by (simp_all add: alloc_inv_def)
  obtain s' where s': "finish_active (il_list (active s)) s = Some s'" "lists_inv (lreg_ranges b) s'" "act s' = {}"
      "hdl s' = placed s" "loc s' = loc s" "used_callee_regs s' = used_callee_regs s" "stack_offset s' = stack_offset s"
      "length (il_list (handled s)) \<le> length (il_list (handled s'))"
    using finish_active_effect[OF li refl] by blast
  have pl: "placed s' = placed s" using s'(3,4) by simp
  have "apart_inv (lreg_ranges b) s" "ctrl_inv scratch (lreg_ranges b) s" "callee_inv target s"
    using inv by (simp_all add: alloc_inv_def)
  then have "apart_inv (lreg_ranges b) s'" "ctrl_inv scratch (lreg_ranges b) s'" "callee_inv target s'"
    by (simp_all only: apart_inv_def ctrl_inv_def callee_inv_def pl s'(5,6))
  moreover have ns: "\<not> is_stack_loc (loc s a)" if "a \<in> act s" for a
    using occ that unfolding occupied_inv_def by (cases "loc s a") auto
  have "slots_inv init s" using inv by (simp add: alloc_inv_def)
  then have "slots_inv init s'"
  proof (rule slots_inv_same[OF _ s'(7,8)])
    show "{x \<in> hdl s'. is_stack_loc (loc s' x)} = {x \<in> hdl s. is_stack_loc (loc s x)}"
      unfolding s'(4,5) using ns by blast
  qed (simp add: s'(5))
  moreover have "il_count (handled s') = length (il_list (handled s'))" using s'(2) by (simp add: lists_inv_def list_ok_def)
  ultimately show ?thesis using s'(1-4) p by (auto simp: final_state_def)
qed

lemma linear_scan_result:
  assumes a: "allocatable scratch b" and r: "X64_linear_scan_reg_alloc target b calls scratch init = Some res" "res_success res"
  shows "\<exists>s. final_state target scratch b init s \<and> res_ranges res = ra_ranges s \<and>
     res_used_callee_regs res = used_callee_regs s \<and> res_stack_offset res = ALIGN_UP (stack_offset s) 16 \<and>
     res_save_masks res = call_site_masks target (ra_ranges s) calls (il_list (handled s))"
proof -
  obtain b' l where l: "init_unhandled (length (lreg_ranges b)) b empty_list = Some (b', l)" "lreg_ranges b' = lreg_ranges b"
     "scan_ok scratch (lreg_ranges b) (il_list l)" "set (il_list l) = {i. is_root b i}"
    using init_unhandled_roots[OF a] by blast
  obtain ok s where s: "scan_intervals target scratch (il_list l) (init_state b l init) = Some (ok, s)"
    using r(1) l(1,2) by (auto simp: X64_linear_scan_reg_alloc_def init_state_def Let_def split: bind_splits)
  then have ok: ok using r l(1,2)
    by (auto simp: X64_linear_scan_reg_alloc_def init_state_def Let_def split: if_splits)
  obtain t where t: "\<forall>i \<in> set (il_list l). t \<le> rr_start (lreg_ranges b ! i)"
    using lower_bound[of "il_list l" "\<lambda>i. rr_start (lreg_ranges b ! i)"] by blast
  have e: "placed (init_state b l init) = {}" by (simp add: init_state_def)
  obtain t' where inv: "alloc_inv target scratch (lreg_ranges b) init t' s" "placed s = {i. is_root b i}"
    using scan_intervals_inv[OF init_state_inv[OF a] l(3) t _ s[unfolded eqTrueI[OF ok]]] e l(4) by auto
  obtain s' where s': "finish_active (il_list (active s)) s = Some s'" "final_state target scratch b init s'"
    using finish_final[OF inv] by blast
  have "res = \<lparr>res_stack_offset = ALIGN_UP (stack_offset s') X64_STACK_ALIGN, res_used_callee_regs = used_callee_regs s',
      res_success = True, res_ranges = ra_ranges s',
      res_save_masks = call_site_masks target (ra_ranges s') calls (il_list (handled s'))\<rparr>"
    using r(1) l(1,2) s s'(1) ok
    by (auto simp: X64_linear_scan_reg_alloc_def init_state_def Let_def assert_opt_def split: if_splits)
  then show ?thesis using s'(2) by (intro exI[of _ s']) (simp add: X64_STACK_ALIGN_def)
qed

section \<open>Save masks\<close>

lemma saved_at_Some:
  "saved_at target R ino i = Some r \<longleftrightarrow> rr_loc (R ! i) = XIR_LREG_LOC_REG r \<and> X64_is_caller_saved_reg target r \<and>
     rr_start (R ! i) < ino \<and> ino < rr_end (R ! i)"
  by (auto simp: saved_at_def Let_def split: XIR_RegLoc.splits)

lemma not_saved_later:
  "saved_at target R ino i = None \<Longrightarrow> rr_start (R ! i) < ino \<Longrightarrow> ino \<le> ino' \<Longrightarrow> saved_at target R ino' i = None"
  by (auto simp: saved_at_def Let_def split: XIR_RegLoc.splits if_splits)

lemma not_saved_after: "ino \<le> rr_start (R ! i) \<Longrightarrow> saved_at target R ino i = None"
  by (auto simp: saved_at_def)

lemma save_mask_bit:
  "sorted (map (\<lambda>i. rr_start (R ! i)) js) \<Longrightarrow>
   bit (save_mask target R ino js m) (reg_num r) \<longleftrightarrow> bit m (reg_num r) \<or> (\<exists>i \<in> set js. saved_at target R ino i = Some r)"
proof (induction js arbitrary: m)
  case (Cons j js)
  show ?case
  proof (cases "rr_start (R ! j) \<ge> ino")
    case True
    then have "\<forall>i \<in> set (j # js). saved_at target R ino i = None"
      using Cons.prems by (auto intro!: not_saved_after)
    then show ?thesis using True by auto
  next
    case False
    then show ?thesis using Cons reg_num_lt[of r]
      by (cases "saved_at target R ino j") (auto simp: bit_simps)
  qed
qed simp

lemma skip_to_saved_split:
  "skip_to_saved target R ino js = (hit, js') \<Longrightarrow> sorted (map (\<lambda>i. rr_start (R ! i)) js) \<Longrightarrow>
   \<exists>pre. js = pre @ js' \<and> (\<forall>i \<in> set pre. rr_start (R ! i) < ino \<and> saved_at target R ino i = None) \<and>
     (\<not> hit \<longrightarrow> (\<forall>i \<in> set js'. saved_at target R ino i = None))"
proof (induction js)
  case (Cons j js)
  show ?case
  proof (cases "rr_start (R ! j) \<ge> ino")
    case True
    then have "\<forall>i \<in> set (j # js). saved_at target R ino i = None"
      using Cons.prems(2) by (force intro!: not_saved_after)
    then show ?thesis using True Cons.prems(1) by (intro exI[of _ "[]"]) auto
  next
    case False
    show ?thesis
    proof (cases "saved_at target R ino j = None")
      case True
      then have "skip_to_saved target R ino js = (hit, js')" using Cons.prems False by simp
      then obtain pre where "js = pre @ js'" "\<forall>i \<in> set pre. rr_start (R ! i) < ino \<and> saved_at target R ino i = None"
          "\<not> hit \<longrightarrow> (\<forall>i \<in> set js'. saved_at target R ino i = None)"
        using Cons.IH Cons.prems(2) by auto
      then show ?thesis using True False by (intro exI[of _ "j # pre"]) auto
    next
      case hit: False
      then show ?thesis using Cons.prems False by (intro exI[of _ "[]"]) auto
    qed
  qed
qed simp

text \<open>Dropping the intervals skipped at one call site loses nothing at the later ones.\<close>

lemma call_site_masks_bits:
  assumes "sorted (map (\<lambda>i. rr_start (R ! i)) (dropped @ js))" "sorted calls"
    "\<forall>i \<in> set dropped. \<forall>ino \<in> set calls. saved_at target R ino i = None" "k < length calls"
  shows "length (call_site_masks target R calls js) = length calls \<and>
     (bit (call_site_masks target R calls js ! k) (reg_num r) \<longleftrightarrow>
        (\<exists>i \<in> set (dropped @ js). saved_at target R (calls ! k) i = Some r))"
  using assms
proof (induction calls arbitrary: js dropped k)
  case (Cons ino inos)
  obtain hit js' where sk: "skip_to_saved target R ino js = (hit, js')" by fastforce
  have sj: "sorted (map (\<lambda>i. rr_start (R ! i)) js)" using Cons.prems(1) by (simp add: sorted_append)
  obtain pre where pre: "js = pre @ js'" "\<forall>i \<in> set pre. rr_start (R ! i) < ino \<and> saved_at target R ino i = None"
      "\<not> hit \<longrightarrow> (\<forall>i \<in> set js'. saved_at target R ino i = None)"
    using skip_to_saved_split[OF sk sj] by blast
  have sj': "sorted (map (\<lambda>i. rr_start (R ! i)) js')" using sj pre(1) by (simp add: sorted_append)
  have drop: "\<forall>i \<in> set (dropped @ pre). \<forall>ino' \<in> set inos. saved_at target R ino' i = None"
    using Cons.prems(2,3) pre(2) not_saved_later by fastforce
  have len: "length (call_site_masks target R inos js') = length inos"
  proof (cases inos)
    case (Cons a list)
    then show ?thesis using Cons.IH[of "dropped @ pre" js' 0] Cons.prems(1,2) pre(1) drop by simp
  qed simp
  show ?case
  proof (cases k)
    case 0
    have "(\<exists>i \<in> set (dropped @ js). saved_at target R ino i = Some r) \<longleftrightarrow> (\<exists>i \<in> set js'. saved_at target R ino i = Some r)"
      using Cons.prems(3) pre(1,2) by auto
    then show ?thesis using 0 sk len pre(3) save_mask_bit[OF sj', of target ino 0 r] by auto
  next
    case (Suc k')
    then have "bit (call_site_masks target R inos js' ! k') (reg_num r) \<longleftrightarrow>
        (\<exists>i \<in> set ((dropped @ pre) @ js'). saved_at target R (inos ! k') i = Some r)"
      using Cons.IH[of "dropped @ pre" js' k'] Cons.prems(1,2,4) pre(1) drop by auto
    then show ?thesis using Suc sk len pre(1) by simp
  qed
qed simp

section \<open>Properties of a successful run\<close>

lemma final_state_static:
  assumes "final_state target scratch b init s"
  shows "rr_start (ra_ranges s ! i) = rr_start (lreg_ranges b ! i)" "rr_end (ra_ranges s ! i) = rr_end (lreg_ranges b ! i)"
    "placed s = {i. is_root b i}"
  using assms lists_inv_static[of "lreg_ranges b" s] by (auto simp: final_state_def)

definition sample_range :: "nat \<Rightarrow> int \<Rightarrow> int \<Rightarrow> XIR_RegAllocControl \<Rightarrow> XIR_RegRange" where
  "sample_range i s e c = \<lparr>rr_lreg = i, rr_start = s, rr_end = e, rr_class = X64_REG_CLASS_INT, rr_ctrl = c,
     rr_loc = XIR_LREG_LOC_UNASSIGNED\<rparr>"

text \<open>
  Six registers, the third an alias of the first; the second is the result of a call and forced into
  \<open>RAX\<close>, the fourth prefers the register of the first, the fifth comes when no register is free, and
  the last when two have been freed.
\<close>

definition sample_alloc :: XIR_Builder where
  "sample_alloc = \<lparr>num_regs = 6,
     lreg_ranges = [sample_range 0 1 9 XIR_REG_ALLOC_CTRL_NONE,
       sample_range 1 3 5 (XIR_REG_ALLOC_CTRL_FORCE_REG X64_RAX), sample_range 2 (-1) (-1) XIR_REG_ALLOC_CTRL_NONE,
       sample_range 3 2 7 (XIR_REG_ALLOC_CTRL_HINT_LIR_REG 0), sample_range 4 4 6 XIR_REG_ALLOC_CTRL_NONE,
       sample_range 5 6 8 XIR_REG_ALLOC_CTRL_NONE],
     lreg_aliases = [0, 1, 0, 3, 4, 5], lreg_sizes = [2, 1, 1, 1, 1, 1], reg_map = [], stack_reg_mask = 0\<rparr>"

fun sample_scratch :: "X64_RegClass \<Rightarrow> X64_Reg list" where
  "sample_scratch X64_REG_CLASS_INT = [X64_RAX, X64_RCX, X64_RDX]"
| "sample_scratch X64_REG_CLASS_FLOAT = [X64_XMM0]"

definition sample_target :: X64_Target where
  "sample_target = the (x64_init_target OS_LINUX)"

lemma less_six: "i < 6 \<longleftrightarrow> i = 0 \<or> i = 1 \<or> i = 2 \<or> i = 3 \<or> i = 4 \<or> i = 5" for i :: nat
  by arith

lemma all_lt_6: "(\<forall>i < Suc (Suc (Suc (Suc (Suc (Suc 0))))). P i) \<longleftrightarrow> P 0 \<and> P 1 \<and> P 2 \<and> P 3 \<and> P 4 \<and> P 5"
proof -
  have "i < Suc (Suc (Suc (Suc (Suc (Suc 0))))) \<longleftrightarrow> i \<in> {0, 1, 2, 3, 4, 5}" for i :: nat by auto
  then show ?thesis by auto
qed

lemma sample_root: "is_root sample_alloc i \<longleftrightarrow> i \<in> {0, 1, 3, 4, 5}"
  by (auto simp: is_root_def sample_alloc_def less_six)

lemma sample_allocatable: "allocatable sample_scratch sample_alloc"
proof -
  have "forest (lreg_aliases sample_alloc) (\<lambda>i. i)"
    by (simp add: forest_def sample_alloc_def all_lt_6 sample_range_def)
  then have "builder_wf sample_alloc"
    by (auto simp: builder_wf_def dsu_wf_def sample_alloc_def XIR_REG_COUNT_def less_six sample_range_def)
  moreover have "scratch_ok sample_scratch"
    unfolding scratch_ok_def by (intro conjI allI; case_tac c) (auto simp: x64_reg_classes_def)
  moreover have "ctrl_regs_ok sample_scratch (lreg_ranges sample_alloc) i" if "is_root sample_alloc i" for i
    using that unfolding sample_root by (auto simp: ctrl_regs_ok_def sample_alloc_def sample_range_def home_regs_def)
  ultimately show ?thesis
    by (auto simp: allocatable_def sample_alloc_def less_six sample_range_def)
qed

text \<open>The run on the sample, evaluated by the simplifier without descending into what comes after a step.\<close>

lemma bind_weak_cong: "x = y \<Longrightarrow> Option.bind x f = Option.bind y f"
  by simp

lemma init_unhandled_numeral:
  "init_unhandled (numeral k) b l = do {
     (x, b) \<leftarrow> XIR_find_alias_reg b (pred_numeral k);
     init_unhandled (pred_numeral k) b
       (if x \<noteq> pred_numeral k then l else X64_lreg_interval_list_add_by_start (lreg_ranges b) (pred_numeral k) l) }"
  by (simp add: numeral_eq_Suc)

lemmas list_run_simps = X64_lreg_interval_list_rm_def X64_lreg_interval_list_add_by_start_def
  X64_lreg_interval_list_add_by_end_def list_add_def add_sorted_def empty_list_def

lemmas alloc_run_simps = list_run_simps X64_init_free_regs_def alloc_interval_def alloc_uncontrolled_def
  X64_out_of_regs_def preg_hint_of_def X64_next_reg_def scan_scratch_regs_def X64_alloc_reg_def X64_free_reg_def
  assign_reg_def add_active_def add_handled_def set_loc_def X64_spill_reg_loc_def X64_steal_reg_def
  spill_candidate_def rm_active_def saved_at_def X64_STACK_ALIGN_def X64_MAX_INT_REG_SIZE_def ALIGN_UP_def
  X64_is_callee_saved_reg_def X64_is_caller_saved_reg_def u32_set_bit_def x64_reg_classes_def XIR_REG_COUNT_def

lemma sample_find:
  "XIR_find_alias_reg sample_alloc 5 = Some (5, sample_alloc)" "XIR_find_alias_reg sample_alloc 4 = Some (4, sample_alloc)" "XIR_find_alias_reg sample_alloc 3 = Some (3, sample_alloc)"
  "XIR_find_alias_reg sample_alloc 2 = Some (0, sample_alloc)" "XIR_find_alias_reg sample_alloc 1 = Some (1, sample_alloc)"
  "XIR_find_alias_reg sample_alloc 0 = Some (0, sample_alloc)"
  by (simp_all add: XIR_find_alias_reg_def sample_alloc_def find_alias.simps)

lemma sample_init:
  "init_unhandled (length (lreg_ranges sample_alloc)) sample_alloc empty_list = Some (sample_alloc,
     \<lparr>il_list = [0, 3, 1, 4, 5], il_count = 5, il_class_counts = (\<lambda>_. 0)(X64_REG_CLASS_INT := 5)\<rparr>)"
proof -
  have l: "length (lreg_ranges sample_alloc) = 6" by (simp add: sample_alloc_def)
  have c: "rr_class (lreg_ranges sample_alloc ! i) = X64_REG_CLASS_INT" if "i \<in> {0, 1, 3, 4, 5}" for i
    using that by (auto simp: sample_alloc_def sample_range_def)
  have st: "rr_start (lreg_ranges sample_alloc ! 0) = 1" "rr_start (lreg_ranges sample_alloc ! 1) = 3"
      "rr_start (lreg_ranges sample_alloc ! 3) = 2" "rr_start (lreg_ranges sample_alloc ! 4) = 4"
      "rr_start (lreg_ranges sample_alloc ! 5) = 6"
    by (simp_all add: sample_alloc_def sample_range_def)
  show ?thesis unfolding l
    by (simp add: init_unhandled_numeral sample_find list_run_simps Let_def c st sample_find[simplified] st[simplified])
      (simp add: eval_nat_numeral)
qed

definition sample_result :: X64_RegAllocResult where
  "sample_result = \<lparr>res_stack_offset = 16, res_used_callee_regs = 0, res_success = True,
     res_ranges = map (\<lambda>(i, l). (lreg_ranges sample_alloc ! i)\<lparr>rr_loc := l\<rparr>)
       [(0, XIR_LREG_LOC_STACK (- 8)), (1, XIR_LREG_LOC_REG X64_RAX), (2, XIR_LREG_LOC_UNASSIGNED),
        (3, XIR_LREG_LOC_REG X64_RDX), (4, XIR_LREG_LOC_REG X64_RCX), (5, XIR_LREG_LOC_REG X64_RAX)],
     res_save_masks = [5]\<rparr>"

lemma sample_run: "X64_linear_scan_reg_alloc sample_target sample_alloc [4] sample_scratch 0 = Some sample_result"
  unfolding X64_linear_scan_reg_alloc_def sample_init
  by (simp add: alloc_run_simps Let_def sample_alloc_def sample_range_def sample_target_def sample_result_def
      x64_linux_caller_saved_reg_mask_def cong: bind_weak_cong option.case_cong_weak if_weak_cong)

lemma sample_success: "res_success sample_result"
  by (simp add: sample_result_def)

section \<open>The properties\<close>

text \<open>
  C11. A successful run gives no physical register to two live ranges that overlap: two alias roots with
  the same register end before, or where, the other starts.
\<close>

theorem reg_alloc_no_conflict:
  assumes "allocatable scratch b" "X64_linear_scan_reg_alloc target b calls scratch init = Some res" "res_success res"
    "is_root b x" "is_root b y" "x \<noteq> y"
    "rr_loc (res_ranges res ! x) = XIR_LREG_LOC_REG r" "rr_loc (res_ranges res ! y) = XIR_LREG_LOC_REG r"
  shows "ranges_apart (lreg_ranges b ! x) (lreg_ranges b ! y)"
proof -
  obtain s where s: "final_state target scratch b init s" "res_ranges res = ra_ranges s"
    using linear_scan_result[OF assms(1-3)] by blast
  have "apart_inv (lreg_ranges b) s" using s(1) by (simp add: final_state_def)
  then show ?thesis using assms(4-8) unfolding apart_inv_def final_state_static(3)[OF s(1)] s(2) loc_def by auto
qed

lemma reg_alloc_no_conflict_witness:
  "ranges_apart (lreg_ranges sample_alloc ! 1) (lreg_ranges sample_alloc ! 5)"
  by (rule reg_alloc_no_conflict[OF sample_allocatable sample_run sample_success, of _ _ X64_RAX])
    (simp_all add: sample_root, simp_all add: sample_result_def)

text \<open>
  C12. After a successful run every alias root has a location that meets its control (a forced register is
  that register, a register mask is respected, only an interval that may be spilled is on the stack), and a
  register it got is a scratch register of its class, or the frame pointer when it is forced into that.
\<close>

theorem reg_alloc_honours_controls:
  assumes "allocatable scratch b" "X64_linear_scan_reg_alloc target b calls scratch init = Some res" "res_success res" "is_root b x"
  shows "ctrl_met (rr_ctrl (lreg_ranges b ! x)) (rr_loc (res_ranges res ! x)) \<and> rr_loc (res_ranges res ! x) \<noteq> XIR_LREG_LOC_UNASSIGNED \<and>
    (\<forall>r. rr_loc (res_ranges res ! x) = XIR_LREG_LOC_REG r \<longrightarrow> r \<in> set (scratch (rr_class (lreg_ranges b ! x))) \<or>
       r = X64_RBP \<and> rr_ctrl (lreg_ranges b ! x) = XIR_REG_ALLOC_CTRL_FORCE_REG X64_RBP)"
proof -
  obtain s where s: "final_state target scratch b init s" "res_ranges res = ra_ranges s"
    using linear_scan_result[OF assms(1-3)] by blast
  have "ctrl_inv scratch (lreg_ranges b) s" using s(1) by (simp add: final_state_def)
  then have c: "ctrl_met (rr_ctrl (lreg_ranges b ! x)) (rr_loc (res_ranges res ! x))"
      "\<forall>r. rr_loc (res_ranges res ! x) = XIR_LREG_LOC_REG r \<longrightarrow> r \<in> home_regs scratch (lreg_ranges b ! x)"
    using assms(4) unfolding ctrl_inv_def final_state_static(3)[OF s(1)] s(2) loc_def by auto
  moreover have "rr_loc (res_ranges res ! x) \<noteq> XIR_LREG_LOC_UNASSIGNED"
    using c(1) by (cases "rr_ctrl (lreg_ranges b ! x)") auto
  ultimately show ?thesis by (auto simp: home_regs_def split: if_splits)
qed

lemma reg_alloc_honours_controls_witness:
  "ctrl_met (XIR_REG_ALLOC_CTRL_FORCE_REG X64_RAX) (rr_loc (res_ranges sample_result ! 1)) \<and>
   rr_loc (res_ranges sample_result ! 1) \<noteq> XIR_LREG_LOC_UNASSIGNED \<and> X64_RAX \<in> set (sample_scratch X64_REG_CLASS_INT)"
proof -
  have "is_root sample_alloc 1" by (simp add: sample_root)
  from reg_alloc_honours_controls[OF sample_allocatable sample_run sample_success this]
  show ?thesis by (simp add: sample_alloc_def sample_range_def)
qed

text \<open>
  C16. The mask of callee-saved registers that the prologue will save is exact: it holds the callee-saved
  registers that some live range was given, and no other.
\<close>

theorem reg_alloc_callee_saved:
  assumes "allocatable scratch b" "X64_linear_scan_reg_alloc target b calls scratch init = Some res" "res_success res"
  shows "regs_of_mask (res_used_callee_regs res) =
    {r. X64_is_callee_saved_reg target r \<and> (\<exists>x. is_root b x \<and> rr_loc (res_ranges res ! x) = XIR_LREG_LOC_REG r)}"
proof -
  obtain s where s: "final_state target scratch b init s" "res_ranges res = ra_ranges s" "res_used_callee_regs res = used_callee_regs s"
    using linear_scan_result[OF assms] by blast
  have "callee_inv target s" using s(1) by (simp add: final_state_def)
  then show ?thesis unfolding callee_inv_def final_state_static(3)[OF s(1)] s(2,3) loc_def[abs_def] by (auto simp: image_iff)
qed

lemma reg_alloc_callee_saved_witness:
  "regs_of_mask (res_used_callee_regs sample_result) = {r. X64_is_callee_saved_reg sample_target r \<and>
     (\<exists>x. is_root sample_alloc x \<and> rr_loc (res_ranges sample_result ! x) = XIR_LREG_LOC_REG r)}"
  by (rule reg_alloc_callee_saved[OF sample_allocatable sample_run sample_success])

text \<open>
  C14. With the call sites in program order, the save mask of each is exact: it holds the caller-saved
  registers whose live range starts before the call and ends after it.
\<close>

theorem reg_alloc_save_masks:
  assumes "allocatable scratch b" "X64_linear_scan_reg_alloc target b calls scratch init = Some res" "res_success res"
    "sorted calls" "k < length calls"
  shows "length (res_save_masks res) = length calls \<and>
    regs_of_mask (res_save_masks res ! k) = {r. X64_is_caller_saved_reg target r \<and>
      (\<exists>x. is_root b x \<and> rr_loc (res_ranges res ! x) = XIR_LREG_LOC_REG r \<and>
         rr_start (lreg_ranges b ! x) < calls ! k \<and> calls ! k < rr_end (lreg_ranges b ! x))}"
proof -
  obtain s where s: "final_state target scratch b init s" "res_ranges res = ra_ranges s"
      "res_save_masks res = call_site_masks target (ra_ranges s) calls (il_list (handled s))"
    using linear_scan_result[OF assms(1-3)] by blast
  note st = final_state_static[OF s(1)]
  have "sorted (map (\<lambda>i. rr_start (ra_ranges s ! i)) (il_list (handled s)))" "hdl s = {i. is_root b i}"
    using s(1) by (simp_all add: final_state_def lists_inv_def st)
  then show ?thesis using call_site_masks_bits[of "ra_ranges s" "[]" "il_list (handled s)" calls target k] assms(4,5)
    by (auto simp: s regs_of_mask_def saved_at_Some st)
qed

lemma reg_alloc_save_masks_witness:
  "length (res_save_masks sample_result) = 1 \<and>
   regs_of_mask (res_save_masks sample_result ! 0) = {r. X64_is_caller_saved_reg sample_target r \<and>
      (\<exists>x. is_root sample_alloc x \<and> rr_loc (res_ranges sample_result ! x) = XIR_LREG_LOC_REG r \<and>
         rr_start (lreg_ranges sample_alloc ! x) < 4 \<and> 4 < rr_end (lreg_ranges sample_alloc ! x))}"
  using reg_alloc_save_masks[OF sample_allocatable sample_run sample_success, of 0] by simp

section \<open>The frame\<close>

lemma ALIGN_UP_16:
  fixes v :: u32
  assumes "uint v + 16 < 2 ^ 32"
  shows "16 dvd uint (ALIGN_UP v 16)" "uint v \<le> uint (ALIGN_UP v 16)" "uint (ALIGN_UP v 16) < uint v + 16"
proof -
  have "ALIGN_UP v 16 = push_bit 4 (drop_bit 4 (v + 15))"
  proof (rule bit_word_eqI)
    fix n assume n: "n < LENGTH(32)"
    have "bit (15 :: u32) n \<longleftrightarrow> n < 4" using bit_mask_iff[where 'a=u32, of 4 n] n by (simp add: mask_eq_exp_minus_1)
    then show "bit (ALIGN_UP v 16) n \<longleftrightarrow> bit (push_bit 4 (drop_bit 4 (v + 15))) n"
      using n by (auto simp: ALIGN_UP_def bit_simps add.commute)
  qed
  moreover have "uint (v + 15) = uint v + 15" using assms by (simp add: uint_word_ariths)
  moreover have "uint (push_bit 4 (drop_bit 4 w)) = uint w div 16 * 16" for w :: u32
  proof -
    have "uint w div 16 * 16 \<le> uint w" by simp
    also have "uint w < 4294967296" using uint_lt2p[of w] by simp
    finally have "uint w div 16 * 16 < 4294967296" .
    then have "uint w div 16 * 16 mod 4294967296 = uint w div 16 * 16"
      by (rule mod_pos_pos_trivial[rotated]) (simp add: pos_imp_zdiv_nonneg_iff)
    moreover have "uint (push_bit 4 (drop_bit 4 w)) = uint w div 16 * 16 mod 4294967296"
      by (simp add: push_bit_eq_mult drop_bit_eq_div uint_word_ariths uint_div)
    ultimately show ?thesis by (rule trans[rotated])
  qed
  ultimately have e: "uint (ALIGN_UP v 16) = (uint v + 15) div 16 * 16" by simp
  then show "16 dvd uint (ALIGN_UP v 16)" by simp
  show "uint v \<le> uint (ALIGN_UP v 16)" "uint (ALIGN_UP v 16) < uint v + 16" unfolding e by linarith+
qed

lemma slot_offset:
  fixes init :: u32
  assumes "uint init + 8 * int m < 2 ^ 31"
  shows "uint (init + of_nat (8 * m)) = uint init + 8 * int m" "sint (- (init + of_nat (8 * m))) = - uint init - 8 * int m"
proof -
  have "8 * int m < 2 ^ 31" using assms uint_ge_0[of init] by linarith
  then have "8 * m < 2 ^ 32" by simp
  then have "uint (of_nat (8 * m) :: u32) = 8 * int m"
    unfolding unsigned_of_nat by (simp add: take_bit_nat_eq_self)
  then show u: "uint (init + of_nat (8 * m)) = uint init + 8 * int m"
    using assms uint_ge_0[of init] by (simp add: uint_word_ariths)
  have nn: "- 2147483648 \<le> uint init + 8 * int m" "0 \<le> uint init + 8 * int m" using uint_ge_0[of init] by linarith+
  have i: "sint (init + of_nat (8 * m)) = signed_take_bit 31 (uint init + 8 * int m)"
    unfolding u[symmetric] by (simp add: sint_uint)
  have "signed_take_bit 31 (uint init + 8 * int m) = uint init + 8 * int m"
    by (rule signed_take_bit_int_eq_self) (use assms nn in linarith)+
  then have s: "sint (init + of_nat (8 * m)) = uint init + 8 * int m" using i by (rule trans[rotated])
  have "signed_take_bit 31 (- (uint init + 8 * int m)) = - (uint init + 8 * int m)"
    by (rule signed_take_bit_int_eq_self) (use assms nn in linarith)+
  moreover have "sint (- (init + of_nat (8 * m))) = signed_take_bit 31 (- (uint init + 8 * int m))"
    unfolding s[symmetric] sint_word_ariths(4) by simp
  ultimately show "sint (- (init + of_nat (8 * m))) = - uint init - 8 * int m" by (simp only: minus_add_distrib diff_conv_add_uminus)
qed

lemma final_slots:
  assumes f: "final_state target scratch b init s" and n: "uint init + 8 * int (num_regs b) + 16 < 2 ^ 31" and wf: "builder_wf b"
  shows "\<exists>k f. k \<le> num_regs b \<and> uint (stack_offset s) = uint init + 8 * int k \<and>
     (\<forall>x d. is_root b x \<longrightarrow> loc s x = XIR_LREG_LOC_STACK d \<longrightarrow> 1 \<le> f x \<and> f x \<le> k \<and> sint d = - uint init - 8 * int (f x)) \<and>
     inj_on f {x. is_root b x \<and> is_stack_loc (loc s x)}"
proof -
  obtain k f where k: "stack_offset s = init + of_nat (8 * k)" "k \<le> length (il_list (handled s))"
      "\<forall>x \<in> hdl s. is_stack_loc (loc s x) \<longrightarrow> 1 \<le> f x \<and> f x \<le> k \<and> loc s x = slot init (f x)"
      "inj_on f {x \<in> hdl s. is_stack_loc (loc s x)}"
    using f unfolding final_state_def slots_inv_def by blast
  have h: "hdl s = {x. is_root b x}" using f by (simp add: final_state_def)
  have "distinct (il_list (handled s))" "hdl s \<subseteq> {..<num_regs b}"
    using f wf by (auto simp: final_state_def lists_inv_def builder_wf_def)
  then have "length (il_list (handled s)) \<le> num_regs b"
    by (metis card_lessThan card_mono distinct_card finite_lessThan)
  then have kn: "k \<le> num_regs b" using k(2) by simp
  have "1 \<le> f x \<and> f x \<le> k \<and> sint d = - uint init - 8 * int (f x)" if "is_root b x" "loc s x = XIR_LREG_LOC_STACK d" for x d
  proof -
    have fx: "1 \<le> f x" "f x \<le> k" "d = - (init + of_nat (8 * f x))" using k(3) that h by (auto simp: slot_def)
    have "uint init + 8 * int (f x) < 2 ^ 31" using n kn fx(2) by linarith
    then show ?thesis using fx slot_offset(2)[of init "f x"] by simp
  qed
  moreover have "uint (stack_offset s) = uint init + 8 * int k" using k(1) slot_offset(1)[of init k] n kn by simp
  ultimately show ?thesis using kn k(4) h by (intro exI[of _ k] exI[of _ f]) auto
qed

text \<open>
  C15. The spill slots of a successful run are pairwise disjoint eight-byte areas below the initial frame,
  they lie inside the frame whose size is returned, and that size is a multiple of sixteen.
\<close>

theorem reg_alloc_frame:
  assumes "allocatable scratch b" "X64_linear_scan_reg_alloc target b calls scratch init = Some res" "res_success res"
    "uint init + 8 * int (num_regs b) + 16 < 2 ^ 31"
  shows "16 dvd uint (res_stack_offset res) \<and> uint init \<le> uint (res_stack_offset res) \<and>
    (\<forall>x d. is_root b x \<longrightarrow> rr_loc (res_ranges res ! x) = XIR_LREG_LOC_STACK d \<longrightarrow>
       - uint (res_stack_offset res) \<le> sint d \<and> sint d + 8 \<le> - uint init) \<and>
    (\<forall>x y d e. is_root b x \<longrightarrow> is_root b y \<longrightarrow> x \<noteq> y \<longrightarrow> rr_loc (res_ranges res ! x) = XIR_LREG_LOC_STACK d \<longrightarrow>
       rr_loc (res_ranges res ! y) = XIR_LREG_LOC_STACK e \<longrightarrow> 8 \<le> \<bar>sint d - sint e\<bar>)"
proof -
  obtain s where s: "final_state target scratch b init s" "res_ranges res = ra_ranges s"
      "res_stack_offset res = ALIGN_UP (stack_offset s) 16"
    using linear_scan_result[OF assms(1-3)] by blast
  have wf: "builder_wf b" using assms(1) by (simp add: allocatable_def)
  obtain k f where k: "k \<le> num_regs b" "uint (stack_offset s) = uint init + 8 * int k"
     "\<And>x d. is_root b x \<Longrightarrow> loc s x = XIR_LREG_LOC_STACK d \<Longrightarrow> 1 \<le> f x \<and> f x \<le> k \<and> sint d = - uint init - 8 * int (f x)"
     "inj_on f {x. is_root b x \<and> is_stack_loc (loc s x)}"
    using final_slots[OF s(1) assms(4) wf] by blast
  have "uint (stack_offset s) + 16 < 2 ^ 32" using assms(4) k(1,2) by simp
  note al = ALIGN_UP_16[OF this]
  have d: "8 \<le> \<bar>sint d - sint e\<bar>" if "is_root b x" "is_root b y" "x \<noteq> y" "loc s x = XIR_LREG_LOC_STACK d" "loc s y = XIR_LREG_LOC_STACK e" for x y d e
  proof -
    have "f x \<noteq> f y" using that k(4) by (auto dest: inj_onD)
    then show ?thesis using k(3)[OF that(1,4)] k(3)[OF that(2,5)] by linarith
  qed
  have b: "- uint (res_stack_offset res) \<le> sint d \<and> sint d + 8 \<le> - uint init" if "is_root b x" "loc s x = XIR_LREG_LOC_STACK d" for x d
    using k(3)[OF that] k(2) al(2) s(3) by simp
  show ?thesis using al(1,2) k(2) b d unfolding s(2,3) loc_def[symmetric] by auto
qed

lemma reg_alloc_frame_witness:
  "16 dvd uint (res_stack_offset sample_result) \<and> uint (0 :: u32) \<le> uint (res_stack_offset sample_result) \<and>
   - uint (res_stack_offset sample_result) \<le> sint (- 8 :: s32) \<and> sint (- 8 :: s32) + 8 \<le> - uint (0 :: u32)"
proof -
  have "is_root sample_alloc 0" by (simp add: sample_root)
  moreover have "rr_loc (res_ranges sample_result ! 0) = XIR_LREG_LOC_STACK (- 8)" by (simp add: sample_result_def)
  moreover have "uint (0 :: u32) + 8 * int (num_regs sample_alloc) + 16 < 2 ^ 31" by (simp add: sample_alloc_def)
  ultimately show ?thesis using reg_alloc_frame[OF sample_allocatable sample_run sample_success] by blast
qed

end
