(* ===== verification/Reg_Alloc_Total.thy ===== *)
theory Reg_Alloc_Total
  imports Reg_Alloc_Main
begin

text \<open>
  When the register allocator returns: no assertion of \<open>reg_alloc.c\<close> fails as long as no live range needs a
  register while another range is forced into it, and the frame pointer does not raise the count of used registers
  above the number of scratch registers. Without other forced ranges it also succeeds.
\<close>

section \<open>Registers reserved for forced intervals\<close>

lemma banned_regs_mono: "bit m n \<Longrightarrow> bit (banned_regs_of R e js m) n"
  by (induction R e js m rule: banned_regs_of.induct) (auto simp: bit_simps split: XIR_RegAllocControl.splits)

lemma banned_regs_forced:
  "sorted (map (\<lambda>i. rr_start (R ! i)) js) \<Longrightarrow> j \<in> set js \<Longrightarrow> rr_ctrl (R ! j) = XIR_REG_ALLOC_CTRL_FORCE_REG p \<Longrightarrow>
   rr_start (R ! j) < e \<Longrightarrow> bit (banned_regs_of R e js m) (reg_num p)"
proof (induction R e js m rule: banned_regs_of.induct)
  case (2 R e i js m)
  have i: "rr_start (R ! i) < e" using "2.prems" by auto
  show ?case
  proof (cases "i = j")
    case True
    then show ?thesis using i "2.prems" reg_num_lt[of p] by (simp add: banned_regs_mono bit_simps)
  next
    case False
    then show ?thesis using 2 i by (cases "rr_ctrl (R ! i)") auto
  qed
qed simp

lemma banned_regs_from:
  "bit (banned_regs_of R e js m) (reg_num r) \<Longrightarrow>
   bit m (reg_num r) \<or> (\<exists>j \<in> set js. rr_ctrl (R ! j) = XIR_REG_ALLOC_CTRL_FORCE_REG r)"
  by (induction R e js m rule: banned_regs_of.induct)
    (auto simp: bit_simps reg_num_inj split: if_splits XIR_RegAllocControl.splits)

text \<open>
  No interval may hold the register that another one is forced into when that one starts. The register
  masks of \<open>FORCE_ANY_REG\<close> controls are not checked against later forced intervals by the code, so
  these controls are left out; a \<open>FORCE_REG_OR_SPILL\<close> mask must not name such a register.
\<close>

fun may_hold :: "XIR_RegAllocControl \<Rightarrow> X64_Reg \<Rightarrow> bool" where
  "may_hold (XIR_REG_ALLOC_CTRL_FORCE_REG q) p = (q = p)"
| "may_hold (XIR_REG_ALLOC_CTRL_FORCE_REG_OR_SPILL m) p = bit m (reg_num p)"
| "may_hold (XIR_REG_ALLOC_CTRL_FORCE_ANY_REG m) p = True"
| "may_hold _ p = False"

fun ctrl_checked :: "XIR_RegAllocControl \<Rightarrow> bool" where
  "ctrl_checked (XIR_REG_ALLOC_CTRL_FORCE_ANY_REG _) = False"
| "ctrl_checked (XIR_REG_ALLOC_CTRL_FORCE_REG_OR_SPILL m) = (m \<noteq> 0)"
| "ctrl_checked _ = True"

definition no_clash :: "XIR_RegRange list \<Rightarrow> nat set \<Rightarrow> bool" where
  "no_clash R S \<longleftrightarrow> (\<forall>x \<in> S. ctrl_checked (rr_ctrl (R ! x))) \<and>
     (\<forall>x \<in> S. \<forall>j \<in> S. \<forall>p. x \<noteq> j \<longrightarrow> rr_ctrl (R ! j) = XIR_REG_ALLOC_CTRL_FORCE_REG p \<longrightarrow>
        rr_start (R ! x) \<le> rr_start (R ! j) \<longrightarrow> rr_start (R ! j) < rr_end (R ! x) \<longrightarrow> \<not> may_hold (rr_ctrl (R ! x)) p)"

definition reserved_inv :: "XIR_RegRange list \<Rightarrow> nat list \<Rightarrow> XIR_RegAllocState \<Rightarrow> bool" where
  "reserved_inv R rest s \<longleftrightarrow> (\<forall>a \<in> act s. \<forall>j \<in> set rest. \<forall>p. rr_ctrl (R ! j) = XIR_REG_ALLOC_CTRL_FORCE_REG p \<longrightarrow>
     rr_start (R ! j) < rr_end (R ! a) \<longrightarrow> loc s a \<noteq> XIR_LREG_LOC_REG p)"

lemma reserved_step:
  assumes inv: "alloc_inv target scratch R init t s" and c: "ctrl_regs_ok scratch R i" and i: "i < length R" "i \<notin> placed s"
    and a: "alloc_interval target scratch i rest s = Some (True, s')"
    and r: "reserved_inv R rest s" and nc: "no_clash R S" "insert i (set rest) \<subseteq> S" "i \<notin> set rest"
    and so: "sorted (map (\<lambda>i. rr_start (R ! i)) (i # rest))"
  shows "reserved_inv R rest s'"
proof -
  have li: "lists_inv R s" using inv by (simp_all add: alloc_inv_def)
  let ?b = "banned_regs_of R (rr_end (R ! i)) rest 0"
  have new: "loc' \<noteq> XIR_LREG_LOC_REG p"
    if j: "j \<in> set rest" "rr_ctrl (R ! j) = XIR_REG_ALLOC_CTRL_FORCE_REG p" "rr_start (R ! j) < rr_end (R ! i)"
      and m: "ctrl_met (rr_ctrl (R ! i)) loc'" "\<And>q. loc' = XIR_LREG_LOC_REG q \<Longrightarrow> uncontrolled (rr_ctrl (R ! i)) \<Longrightarrow> \<not> bit ?b (reg_num q)"
    for j p loc'
  proof
    assume l: "loc' = XIR_LREG_LOC_REG p"
    have b: "bit ?b (reg_num p)" using banned_regs_forced[OF _ j(1,2,3)] so by simp
    have st: "rr_start (R ! i) \<le> rr_start (R ! j)" using so j(1) by auto
    have "i \<in> S" "j \<in> S" "i \<noteq> j" using nc(2,3) j(1) by auto
    then have mh: "\<not> may_hold (rr_ctrl (R ! i)) p" using nc(1) j st unfolding no_clash_def by blast
    show False using b m l mh by (cases "rr_ctrl (R ! i)") auto
  qed
  from alloc_interval_outcome[OF inv c i(1) a] show ?thesis
  proof (elim disjE)
    assume "takes_free target scratch R i ?b s s'"
    then obtain q where q: "s' = give_reg target i q s" "ctrl_met (rr_ctrl (R ! i)) (XIR_LREG_LOC_REG q)"
        "uncontrolled (rr_ctrl (R ! i)) \<longrightarrow> \<not> bit ?b (reg_num q)" by (auto simp: takes_free_def)
    show ?thesis unfolding reserved_inv_def q(1) give_reg_fields(1,3)[OF li i(1)]
      using r i(2) new[OF _ _ _ q(2)] q(3) by (auto simp: reserved_inv_def)
  next
    assume "is_spilled R i s s'"
    then show ?thesis using r i(2) spill_fields[OF li i(1)] by (auto simp: is_spilled_def reserved_inv_def)
  next
    assume "steals R i ?b s s'"
    then obtain j q where j: "X64_steal_reg j i s = Some s'" "j \<in> act s" "uncontrolled (rr_ctrl (R ! i))"
       "loc s j = XIR_LREG_LOC_REG q" "\<not> bit ?b (reg_num q)"
      by (auto simp: steals_def)
    have m: "ctrl_met (rr_ctrl (R ! i)) (XIR_LREG_LOC_REG q)" using j(3) by (simp add: uncontrolled_met)
    have f: "act s' = insert i (act s - {j})"
        "loc s' = (loc s)(i := XIR_LREG_LOC_REG q, j := XIR_LREG_LOC_STACK (- (stack_offset s + 8)))"
      using steal_effect[OF li j(2,4) i] j(1) by auto
    have ij: "i \<noteq> j" using i(2) j(2) by auto
    show ?thesis unfolding reserved_inv_def f
      using r i(2) ij new[OF _ _ _ m] j(5) by (auto simp: reserved_inv_def)
  qed
qed

section \<open>Each step returns\<close>

lemma class_count:
  assumes "alloc_inv target scratch R init t s"
  shows "il_class_counts (active s) c = card {a \<in> act s. rr_class (R ! a) = c}"
proof -
  have "list_ok R (active s)" "distinct (il_list (active s))" using assms by (simp_all add: alloc_inv_def lists_inv_def)
  then show ?thesis by (simp add: list_ok_def distinct_card[symmetric])
qed

text \<open>No more intervals of a class are active than it has scratch registers, which the code asserts.\<close>

definition within :: "(X64_RegClass \<Rightarrow> X64_Reg list) \<Rightarrow> XIR_RegAllocState \<Rightarrow> bool" where
  "within scratch s \<longleftrightarrow> (\<forall>c. il_class_counts (active s) c \<le> length (scratch c))"

lemma card_class_regs:
  assumes inv: "alloc_inv target scratch R init t s"
  shows "card (loc s ` {a \<in> act s. rr_class (R ! a) = c}) = il_class_counts (active s) c"
proof -
  have "inj_on (loc s) {a \<in> act s. rr_class (R ! a) = c}"
    using inv by (auto simp: alloc_inv_def occupied_inv_def intro: inj_on_subset)
  then show ?thesis by (simp add: card_image class_count[OF inv])
qed

lemma active_home:
  assumes inv: "alloc_inv target scratch R init t s" and a: "a \<in> act s"
  shows "\<exists>r. loc s a = XIR_LREG_LOC_REG r \<and> r \<in> home_regs scratch (R ! a)"
proof -
  obtain r where "loc s a = XIR_LREG_LOC_REG r"
    using inv a unfolding alloc_inv_def occupied_inv_def by (cases "loc s a") auto
  then show ?thesis using inv a unfolding alloc_inv_def ctrl_inv_def by blast
qed

lemma card_scratch: "scratch_ok scratch \<Longrightarrow> card (XIR_LREG_LOC_REG ` set (scratch c)) = length (scratch c)"
  by (simp add: scratch_ok_def card_image inj_on_def distinct_card)

text \<open>Without the frame pointer the assertion cannot fail.\<close>

lemma within_no_frame:
  assumes inv: "alloc_inv target scratch R init t s" and sc: "scratch_ok scratch"
    and nf: "\<forall>a \<in> act s. rr_ctrl (R ! a) \<noteq> XIR_REG_ALLOC_CTRL_FORCE_REG X64_RBP"
  shows "within scratch s"
  unfolding within_def
proof
  fix c
  have "loc s ` {a \<in> act s. rr_class (R ! a) = c} \<subseteq> XIR_LREG_LOC_REG ` set (scratch c)"
  proof
    fix l assume "l \<in> loc s ` {a \<in> act s. rr_class (R ! a) = c}"
    then obtain a where a: "a \<in> act s" "rr_class (R ! a) = c" "l = loc s a" by auto
    then show "l \<in> XIR_LREG_LOC_REG ` set (scratch c)"
      using active_home[OF inv a(1)] home_scratch[of "R ! a" scratch] nf by auto
  qed
  then have "card (loc s ` {a \<in> act s. rr_class (R ! a) = c}) \<le> card (XIR_LREG_LOC_REG ` set (scratch c))"
    by (intro card_mono) auto
  then show "il_class_counts (active s) c \<le> length (scratch c)" by (simp add: card_class_regs[OF inv] card_scratch[OF sc])
qed

lemma within_subset:
  assumes "alloc_inv target scratch R init t s" "alloc_inv target scratch R init t' s'" "act s' \<subseteq> act s" "within scratch s"
  shows "within scratch s'"
  unfolding within_def
proof
  fix c
  have "card {a \<in> act s'. rr_class (R ! a) = c} \<le> card {a \<in> act s. rr_class (R ! a) = c}"
    using assms(3) by (intro card_mono) auto
  then show "il_class_counts (active s') c \<le> length (scratch c)"
    using assms(4) unfolding within_def class_count[OF assms(1)] class_count[OF assms(2)] using le_trans by blast
qed

lemma card_class_insert:
  "i \<notin> A \<Longrightarrow> finite A \<Longrightarrow> card {a \<in> insert i A. f a = c} = card {a \<in> A. f a = c} + (if f i = c then 1 else 0)"
proof -
  assume a: "i \<notin> A" "finite A"
  have "{a \<in> insert i A. f a = c} = (if f i = c then insert i {a \<in> A. f a = c} else {a \<in> A. f a = c})" by auto
  then show ?thesis using a by simp
qed

text \<open>A step keeps the bound when there is room for a forced interval.\<close>

lemma within_step:
  assumes inv: "alloc_inv target scratch R init t s" "alloc_inv target scratch R init t s'" and w: "within scratch s"
    and c: "ctrl_regs_ok scratch R i" and i: "i < length R" "i \<notin> placed s"
    and a: "alloc_interval target scratch i rest s = Some (True, s')"
    and room: "\<not> uncontrolled (rr_ctrl (R ! i)) \<Longrightarrow> il_class_counts (active s) (rr_class (R ! i)) < length (scratch (rr_class (R ! i)))"
  shows "within scratch s'"
proof -
  have li: "lists_inv R s" using inv(1) by (simp add: alloc_inv_def)
  from alloc_interval_outcome[OF inv(1) c i(1) a] show ?thesis
  proof (elim disjE)
    assume "takes_free target scratch R i (banned_regs_of R (rr_end (R ! i)) rest 0) s s'"
    then obtain q where q: "s' = give_reg target i q s" "uncontrolled (rr_ctrl (R ! i)) \<longrightarrow>
         il_class_counts (active s) (rr_class (R ! i)) \<noteq> length (scratch (rr_class (R ! i)))"
      by (auto simp: takes_free_def)
    have ia: "i \<notin> act s" using i(2) by blast
    have "act s' = insert i (act s)" unfolding q(1) by (rule give_reg_fields(1)[OF li i(1)])
    then have e: "il_class_counts (active s') d = il_class_counts (active s) d + (if rr_class (R ! i) = d then 1 else 0)" for d
      unfolding class_count[OF inv(1)] class_count[OF inv(2)] by (simp only: card_class_insert[OF ia List.finite_set])
    have "il_class_counts (active s) (rr_class (R ! i)) < length (scratch (rr_class (R ! i)))"
      using q(2) room w by (cases "uncontrolled (rr_ctrl (R ! i))") (auto simp: within_def le_less)
    then show ?thesis using w by (auto simp: within_def e)
  next
    assume "is_spilled R i s s'"
    then show ?thesis using within_subset[OF inv _ w] spill_fields[OF li i(1)] by (auto simp: is_spilled_def)
  next
    assume "steals R i (banned_regs_of R (rr_end (R ! i)) rest 0) s s'"
    then obtain j q where j: "X64_steal_reg j i s = Some s'" "j \<in> act s" "loc s j = XIR_LREG_LOC_REG q"
       "rr_class (R ! j) = rr_class (R ! i)"
      by (auto simp: steals_def)
    have f: "act s' = insert i (act s - {j})" using steal_effect[OF li j(2,3) i] j(1) by auto
    have n: "i \<notin> act s - {j}" "j \<notin> act s - {j}" "finite (act s - {j})" using i(2) by auto
    have "card {a \<in> insert j (act s - {j}). rr_class (R ! a) = d} = card {a \<in> insert i (act s - {j}). rr_class (R ! a) = d}" for d
      by (simp only: card_class_insert[OF n(1,3)] card_class_insert[OF n(2,3)] j(4))
    then have "il_class_counts (active s') d = il_class_counts (active s) d" for d
      unfolding class_count[OF inv(1)] class_count[OF inv(2)] f using j(2) by (simp add: insert_absorb)
    then show ?thesis using w by (simp add: within_def)
  qed
qed

lemma out_of_regs_returns:
  "within scratch s \<Longrightarrow> X64_out_of_regs scratch s c = Some (il_class_counts (active s) c = length (scratch c))"
  by (simp add: X64_out_of_regs_def Let_def within_def)

text \<open>While the class is not exhausted one of its scratch registers is free.\<close>

lemma free_scratch_reg:
  assumes inv: "alloc_inv target scratch R init t s" and sc: "scratch_ok scratch" and w: "within scratch s"
    and ne: "il_class_counts (active s) c \<noteq> length (scratch c)"
  shows "\<exists>r \<in> set (scratch c). rmap s r = XIR_REG_COUNT"
proof (rule ccontr)
  assume "\<not> ?thesis"
  then have occ: "\<forall>r \<in> set (scratch c). XIR_LREG_LOC_REG r \<in> loc s ` act s"
    using inv unfolding alloc_inv_def occupied_inv_def by blast
  have "XIR_LREG_LOC_REG ` set (scratch c) \<subseteq> loc s ` {a \<in> act s. rr_class (R ! a) = c}"
  proof
    fix l assume "l \<in> XIR_LREG_LOC_REG ` set (scratch c)"
    then obtain r a where r: "l = XIR_LREG_LOC_REG r" "r \<in> set (scratch c)" "a \<in> act s" "loc s a = XIR_LREG_LOC_REG r"
      using occ by force
    have "r \<noteq> X64_RBP" using sc r(2) by (auto simp: scratch_ok_def)
    then have "r \<in> set (scratch (rr_class (R ! a)))"
      using active_home[OF inv r(3)] r(4) by (auto simp: home_regs_def split: if_splits)
    then have "rr_class (R ! a) = c" using sc r(2) unfolding scratch_ok_def by metis
    then show "l \<in> loc s ` {a \<in> act s. rr_class (R ! a) = c}" using r by force
  qed
  then have "card (XIR_LREG_LOC_REG ` set (scratch c)) \<le> card (loc s ` {a \<in> act s. rr_class (R ! a) = c})"
    by (intro card_mono) auto
  then have "length (scratch c) \<le> il_class_counts (active s) c" by (simp add: card_class_regs[OF inv] card_scratch[OF sc])
  then show False using w ne by (simp add: within_def le_antisym)
qed

lemma next_reg_returns:
  assumes "scratch_ok scratch" "\<And>h. hint = Some h \<Longrightarrow> h \<in> set (scratch c)"
  shows "\<exists>x s'. X64_next_reg target scratch l c banned hint s = Some (x, s') \<and>
    (x = None \<longrightarrow> (\<forall>r \<in> set (scratch c). rmap s r = XIR_REG_COUNT \<longrightarrow> bit banned (reg_num r)))"
proof -
  have cls: "x64_reg_classes r = c" "r \<noteq> X64_RBP \<and> r \<noteq> X64_RSP" if "r \<in> set (scratch c)" for r
    using assms(1) that by (auto simp: scratch_ok_def)
  have "\<exists>x s'. scan_scratch_regs target (scratch c) l c banned s = Some (x, s')"
  proof (cases "find (\<lambda>r. rmap s r = XIR_REG_COUNT \<and> \<not> u32_is_bit_set banned (reg_bit r)) (scratch c)")
    case (Some r)
    then have "r \<in> set (scratch c)" by (auto simp: find_Some_iff)
    then show ?thesis using Some cls[of r] by (simp add: scan_scratch_regs_def)
  qed (simp add: scan_scratch_regs_def)
  then have "\<exists>x s'. X64_next_reg target scratch l c banned hint s = Some (x, s')"
    using cls assms(2) by (cases hint) (auto simp: X64_next_reg_def)
  then show ?thesis using next_reg_result[of target scratch l c banned hint s] by fastforce
qed

lemma preg_hint_returns:
  "ctrl_regs_ok scratch R i \<Longrightarrow> length (ra_ranges s) = length R \<Longrightarrow> \<exists>h. preg_hint_of s (rr_ctrl (R ! i)) = Some h"
  by (cases "rr_ctrl (R ! i)") (auto simp: preg_hint_of_def ctrl_regs_ok_def)

lemma alloc_uncontrolled_returns:
  assumes inv: "alloc_inv target scratch R init t s" and sc: "scratch_ok scratch" and w: "within scratch s"
    and c: "ctrl_regs_ok scratch R i"
    and i: "i < length R" "i \<notin> placed s" "\<not> is_forced (rr_ctrl (R ! i))"
  shows "\<exists>ok s'. alloc_uncontrolled target scratch i rest s = Some (ok, s') \<and>
    (\<not> ok \<longrightarrow> (\<exists>j \<in> set rest. \<exists>p. p \<noteq> X64_RBP \<and> rr_ctrl (R ! j) = XIR_REG_ALLOC_CTRL_FORCE_REG p))"
proof -
  have li: "lists_inv R s" and occ: "occupied_inv s" using inv by (simp_all add: alloc_inv_def)
  note st = lists_inv_static[OF li]
  let ?b = "banned_regs_of R (rr_end (R ! i)) rest 0"
  have b: "banned_regs_of (ra_ranges s) (rr_end (R ! i)) rest 0 = ?b" by (rule banned_static[OF st(7)])
  note out = out_of_regs_returns[OF w, of "rr_class (R ! i)"]
  show ?thesis
  proof (cases "il_class_counts (active s) (rr_class (R ! i)) = length (scratch (rr_class (R ! i)))")
    case True
    have out: "X64_out_of_regs scratch s (rr_class (R ! i)) = Some True" using out True by simp
    let ?f = "find (spill_candidate (ra_ranges s) (rr_class (R ! i)) ?b) (rev (il_list (active s)))"
    show ?thesis
    proof (cases ?f)
      case None
      then show ?thesis using i(3) by (auto simp: alloc_uncontrolled_def st Let_def b out)
    next
      case (Some j)
      then have j: "j \<in> act s" by (auto simp: find_Some_iff) (metis length_rev nth_mem set_rev)
      obtain r where "loc s j = XIR_LREG_LOC_REG r"
        using occ j unfolding occupied_inv_def by (cases "loc s j") auto
      then obtain s' where "X64_steal_reg j i s = Some s'" using steal_effect[OF li j _ i(1,2)] by blast
      then show ?thesis using Some i(3) by (auto simp: alloc_uncontrolled_def st Let_def b out)
    qed
  next
    case False
    have out: "X64_out_of_regs scratch s (rr_class (R ! i)) = Some False" using out False by simp
    obtain h where h: "preg_hint_of s (rr_ctrl (R ! i)) = Some h" using preg_hint_returns[OF c] st(6) by blast
    have hs: "r \<in> set (scratch (rr_class (R ! i)))" if "h = Some r" for r
      using preg_hint_in_scratch[OF inv c] h that by simp
    obtain x s1 where x: "X64_next_reg target scratch (rr_lreg (R ! i)) (rr_class (R ! i)) ?b h s = Some (x, s1)"
        "x = None \<longrightarrow> (\<forall>r \<in> set (scratch (rr_class (R ! i))). rmap s r = XIR_REG_COUNT \<longrightarrow> bit ?b (reg_num r))"
      using next_reg_returns[OF sc hs] by blast
    have "\<exists>j \<in> set rest. \<exists>p. p \<noteq> X64_RBP \<and> rr_ctrl (R ! j) = XIR_REG_ALLOC_CTRL_FORCE_REG p" if none: "x = None"
    proof -
      obtain r where r: "r \<in> set (scratch (rr_class (R ! i)))" "bit ?b (reg_num r)"
        using free_scratch_reg[OF inv sc w False] x(2) none by auto
      then have "r \<noteq> X64_RBP" using sc by (auto simp: scratch_ok_def)
      then show ?thesis using banned_regs_from[OF r(2)] by auto
    qed
    then show ?thesis using h x(1) by (cases x) (auto simp: alloc_uncontrolled_def st Let_def b out)
  qed
qed

lemma alloc_interval_returns:
  assumes inv: "alloc_inv target scratch R init t s" and sc: "scratch_ok scratch" and w: "within scratch s"
    and c: "ctrl_regs_ok scratch R i"
    and i: "i < length R" "i \<notin> placed s" "ctrl_checked (rr_ctrl (R ! i))"
    and f: "\<And>p. rr_ctrl (R ! i) = XIR_REG_ALLOC_CTRL_FORCE_REG p \<Longrightarrow> rmap s p = XIR_REG_COUNT"
  shows "\<exists>ok s'. alloc_interval target scratch i rest s = Some (ok, s') \<and>
    (\<not> ok \<longrightarrow> (\<exists>j \<in> set rest. \<exists>p. p \<noteq> X64_RBP \<and> rr_ctrl (R ! j) = XIR_REG_ALLOC_CTRL_FORCE_REG p))"
proof -
  have li: "lists_inv R s" using inv by (simp add: alloc_inv_def)
  note st = lists_inv_static[OF li]
  show ?thesis
  proof (cases "rr_ctrl (R ! i)")
    case (XIR_REG_ALLOC_CTRL_FORCE_REG p)
    then show ?thesis using f by (auto simp: alloc_interval_def st)
  next
    case (XIR_REG_ALLOC_CTRL_FORCE_ANY_REG m)
    then show ?thesis using i(3) by simp
  next
    case (XIR_REG_ALLOC_CTRL_FORCE_REG_OR_SPILL m)
    obtain x s1 where "X64_next_reg target scratch (rr_lreg (R ! i)) (rr_class (R ! i)) (NOT m) None s = Some (x, s1)"
      using next_reg_returns[OF sc, of None] by blast
    then show ?thesis using XIR_REG_ALLOC_CTRL_FORCE_REG_OR_SPILL i(3)
      by (cases x) (auto simp: alloc_interval_def st)
  qed (use alloc_uncontrolled_returns[OF inv sc w c i(1,2)] in \<open>simp_all add: alloc_interval_def st\<close>)
qed

section \<open>The scan returns\<close>

lemma unhandled_fields:
  "unhandled (X64_alloc_reg t r l s) = unhandled s" "unhandled (set_loc i lo s) = unhandled s"
  "unhandled (add_active i s) = unhandled s" "unhandled (add_handled i s) = unhandled s"
  "unhandled (X64_spill_reg_loc i s) = unhandled s" "unhandled (give_reg t i r s) = unhandled s"
  by (auto simp: X64_alloc_reg_def set_loc_def add_active_def add_handled_def X64_spill_reg_loc_def give_reg_def
      assign_reg_def Let_def)

lemma rm_active_unhandled: "rm_active i s = Some s' \<Longrightarrow> unhandled s' = unhandled s"
  by (cases "X64_lreg_interval_list_rm (ra_ranges s) i (active s)") (auto simp: rm_active_def)

lemma steal_unhandled: "X64_steal_reg j i s = Some s' \<Longrightarrow> unhandled s' = unhandled s"
  by (auto simp: X64_steal_reg_def Let_def unhandled_fields split: XIR_RegLoc.splits bind_splits dest!: rm_active_unhandled)

lemma alloc_interval_unhandled:
  assumes "alloc_inv target scratch R init t s" "ctrl_regs_ok scratch R i" "i < length R"
    "alloc_interval target scratch i rest s = Some (True, s')"
  shows "unhandled s' = unhandled s"
  using alloc_interval_outcome[OF assms]
  by (auto simp: takes_free_def is_spilled_def steals_def unhandled_fields dest: steal_unhandled)

text \<open>
  The frame pointer counts as a used register although it is no scratch register. So where it is in use, an interval that
  does not check the count (one that is forced into a register) needs to find fewer live ranges than scratch registers.
\<close>

definition frame_fits :: "(X64_RegClass \<Rightarrow> X64_Reg list) \<Rightarrow> XIR_RegRange list \<Rightarrow> nat set \<Rightarrow> bool" where
  "frame_fits scratch R S \<longleftrightarrow> (\<forall>x \<in> S. rr_ctrl (R ! x) \<noteq> XIR_REG_ALLOC_CTRL_FORCE_REG X64_RBP) \<or>
     (\<forall>x \<in> S. \<not> uncontrolled (rr_ctrl (R ! x)) \<longrightarrow>
        card {y \<in> S - {x}. rr_class (R ! y) = rr_class (R ! x) \<and> rr_start (R ! y) \<le> rr_start (R ! x) \<and>
          rr_start (R ! x) < rr_end (R ! y)} < length (scratch (rr_class (R ! x))))"

lemma frame_fits_room:
  assumes inv: "alloc_inv target scratch R init (rr_start (R ! i)) s" and e: "\<forall>a \<in> act s. rr_start (R ! i) < rr_end (R ! a)"
    and S: "finite S" "placed s \<subseteq> S" "i \<in> S" "i \<notin> placed s"
    and f: "\<forall>x \<in> S. \<not> uncontrolled (rr_ctrl (R ! x)) \<longrightarrow>
        card {y \<in> S - {x}. rr_class (R ! y) = rr_class (R ! x) \<and> rr_start (R ! y) \<le> rr_start (R ! x) \<and>
          rr_start (R ! x) < rr_end (R ! y)} < length (scratch (rr_class (R ! x)))" "\<not> uncontrolled (rr_ctrl (R ! i))"
  shows "il_class_counts (active s) (rr_class (R ! i)) < length (scratch (rr_class (R ! i)))"
proof -
  let ?Y = "{y \<in> S - {i}. rr_class (R ! y) = rr_class (R ! i) \<and> rr_start (R ! y) \<le> rr_start (R ! i) \<and>
      rr_start (R ! i) < rr_end (R ! y)}"
  have "\<forall>a \<in> act s. rr_start (R ! a) \<le> rr_start (R ! i)" using inv by (simp add: alloc_inv_def past_inv_def)
  then have "{a \<in> act s. rr_class (R ! a) = rr_class (R ! i)} \<subseteq> ?Y" using e S by auto
  then have "card {a \<in> act s. rr_class (R ! a) = rr_class (R ! i)} \<le> card ?Y" using S(1) by (intro card_mono) auto
  also have "\<dots> < length (scratch (rr_class (R ! i)))" using f S(3) by blast
  finally show ?thesis by (simp add: class_count[OF inv])
qed

lemma scan_intervals_returns:
  assumes "alloc_inv target scratch R init t s" "scan_ok scratch R js" "\<forall>i \<in> set js. t \<le> rr_start (R ! i)"
    "set js \<inter> placed s = {}" "scratch_ok scratch" "no_clash R S" "set js \<subseteq> S" "reserved_inv R js s"
    "frame_fits scratch R S" "finite S" "placed s \<subseteq> S" "within scratch s" "list_ok R (unhandled s)" "il_list (unhandled s) = js"
  shows "\<exists>ok s'. scan_intervals target scratch js s = Some (ok, s') \<and>
    (\<not> ok \<longrightarrow> (\<exists>j \<in> set js. \<exists>p. p \<noteq> X64_RBP \<and> rr_ctrl (R ! j) = XIR_REG_ALLOC_CTRL_FORCE_REG p))"
  using assms
proof (induction js arbitrary: s t)
  case Nil
  show ?case by (intro exI[of _ True]) simp
next
  case (Cons i js)
  let ?t = "rr_start (R ! i)"
  have i: "i < length R" "i \<notin> placed s" "rr_lreg (R ! i) \<noteq> XIR_REG_COUNT" "ctrl_regs_ok scratch R i" "i \<notin> set js"
    using Cons.prems(2,4) by (auto simp: scan_ok_def)
  have so: "sorted (map (\<lambda>i. rr_start (R ! i)) (i # js))" using Cons.prems(2) by (simp add: scan_ok_def)
  have li0: "lists_inv R s" using Cons.prems(1) by (simp add: alloc_inv_def)
  have "list_ok (ra_ranges s) (unhandled s)" using Cons.prems(13) list_ok_static[OF lists_inv_static(7)[OF li0]] by simp
  then obtain u where u: "X64_lreg_interval_list_rm (ra_ranges s) i (unhandled s) = Some u" "list_ok (ra_ranges s) u" "il_list u = js"
    using by_start.rm_head[of "ra_ranges s" "unhandled s" i js] Cons.prems(14) by auto
  have uok: "list_ok R u" using u(2) list_ok_static[OF lists_inv_static(7)[OF li0]] by simp
  let ?s = "s\<lparr>unhandled := u\<rparr>"
  have inv: "alloc_inv target scratch R init ?t ?s"
    using alloc_inv_mono[OF Cons.prems(1)] Cons.prems(3) by (simp add: alloc_inv_unhandled)
  have st: "rr_start (ra_ranges ?s ! i) = ?t"
    using inv lists_inv_static(2)[of R ?s i] by (simp add: alloc_inv_def)
  have loc0: "loc ?s = loc s" by (simp add: loc_def fun_eq_iff)
  obtain s1 where s1: "expire_old_intervals ?t (il_list (active ?s)) ?s = Some s1" "alloc_inv target scratch R init ?t s1"
      "placed s1 = placed ?s" "loc s1 = loc s" "act s1 = {a \<in> act s. rr_end (R ! a) > ?t}" "unhandled s1 = u"
    using expire_old_intervals_inv[OF inv refl] loc0 by auto
  have res: "reserved_inv R (i # js) s1" using Cons.prems(8) unfolding reserved_inv_def s1(4,5) by blast
  have ip: "i \<notin> placed s1" using i(2) s1(3) by simp
  have chk: "ctrl_checked (rr_ctrl (R ! i))" using Cons.prems(6,7) by (auto simp: no_clash_def)
  have free: "rmap s1 p = XIR_REG_COUNT" if "rr_ctrl (R ! i) = XIR_REG_ALLOC_CTRL_FORCE_REG p" for p
  proof (rule ccontr)
    assume "rmap s1 p \<noteq> XIR_REG_COUNT"
    then obtain a where a: "a \<in> act s1" "XIR_LREG_LOC_REG p = loc s1 a"
      using s1(2) unfolding alloc_inv_def occupied_inv_def by blast
    then show False using res that s1(5) by (auto simp: reserved_inv_def)
  qed
  have w1: "within scratch s1" using within_subset[OF Cons.prems(1) s1(2) _ Cons.prems(12)] s1(5) by auto
  obtain ok s2 where s2: "alloc_interval target scratch i js s1 = Some (ok, s2)"
      "\<not> ok \<longrightarrow> (\<exists>j \<in> set js. \<exists>p. p \<noteq> X64_RBP \<and> rr_ctrl (R ! j) = XIR_REG_ALLOC_CTRL_FORCE_REG p)"
    using alloc_interval_returns[OF s1(2) Cons.prems(5) w1 i(4,1) ip chk free] by blast
  have run: "scan_intervals target scratch (i # js) s = (if ok then scan_intervals target scratch js s2 else Some (False, s2))"
    using u(1) s1(1) st s2(1) by simp
  show ?case
  proof (cases ok)
    case False
    then show ?thesis using run s2(2) by auto
  next
    case True
    note a = s2(1)[unfolded eqTrueI[OF True]]
    have inv2: "alloc_inv target scratch R init ?t s2" "placed s2 = insert i (placed s1)"
      using alloc_interval_inv[OF s1(2) i(4,1) ip refl i(3) a] by auto
    have "reserved_inv R js s1" using res by (simp add: reserved_inv_def)
    then have res2: "reserved_inv R js s2"
      by (rule reserved_step[OF s1(2) i(4,1) ip a _ Cons.prems(6) _ i(5) so]) (use Cons.prems(7) in simp)
    have S: "placed s1 \<subseteq> S" "i \<in> S" "placed s2 \<subseteq> S" using Cons.prems(7,11) s1(3) inv2(2) by auto
    have w2: "within scratch s2"
    proof (cases "\<forall>x \<in> S. rr_ctrl (R ! x) \<noteq> XIR_REG_ALLOC_CTRL_FORCE_REG X64_RBP")
      case True
      then show ?thesis using S(3) by (intro within_no_frame[OF inv2(1) Cons.prems(5)]) blast
    next
      case False
      then show ?thesis using Cons.prems(9) s1(5)
        by (intro within_step[OF s1(2) inv2(1) w1 i(4,1) ip a] frame_fits_room[OF s1(2) _ Cons.prems(10) S(1,2) ip])
          (auto simp: frame_fits_def)
    qed
    have un: "unhandled s2 = u" using alloc_interval_unhandled[OF s1(2) i(4,1) a] s1(6) by simp
    have "\<exists>ok s'. scan_intervals target scratch js s2 = Some (ok, s') \<and>
       (\<not> ok \<longrightarrow> (\<exists>j \<in> set js. \<exists>p. p \<noteq> X64_RBP \<and> rr_ctrl (R ! j) = XIR_REG_ALLOC_CTRL_FORCE_REG p))"
      by (rule Cons.IH[OF inv2(1) _ _ _ Cons.prems(5,6) _ res2 Cons.prems(9,10) S(3) w2])
        (use Cons.prems(2,4,7) inv2(2) s1(3) i(5) so un uok u(3) in \<open>auto simp: scan_ok_def\<close>)
    then show ?thesis using run True by auto
  qed
qed

text \<open>
  C13. The allocator returns, that is none of its assertions can fail, when no live range may hold a register
  that another range is forced into while it is live, and the frame pointer is not in use where a forced range starts
  with all scratch registers taken; and it succeeds when no range but the frame pointer's is forced into a register (it
  can fail when all free registers are reserved for later forced ranges).
\<close>

theorem reg_alloc_returns:
  assumes "allocatable scratch b" "no_clash (lreg_ranges b) {i. is_root b i}"
    "frame_fits scratch (lreg_ranges b) {i. is_root b i}"
  shows "\<exists>res. X64_linear_scan_reg_alloc target b calls scratch init = Some res \<and>
    (res_success res \<or> (\<exists>j p. is_root b j \<and> p \<noteq> X64_RBP \<and> rr_ctrl (lreg_ranges b ! j) = XIR_REG_ALLOC_CTRL_FORCE_REG p))"
proof -
  obtain b' l where l: "init_unhandled (length (lreg_ranges b)) b empty_list = Some (b', l)" "lreg_ranges b' = lreg_ranges b"
     "list_ok (lreg_ranges b) l" "scan_ok scratch (lreg_ranges b) (il_list l)" "set (il_list l) = {i. is_root b i}"
    using init_unhandled_roots[OF assms(1)] by blast
  obtain t where t: "\<forall>i \<in> set (il_list l). t \<le> rr_start (lreg_ranges b ! i)"
    using lower_bound[of "il_list l" "\<lambda>i. rr_start (lreg_ranges b ! i)"] by blast
  have sc: "scratch_ok scratch" using assms(1) by (simp add: allocatable_def)
  have e: "placed (init_state b l init) = {}" "unhandled (init_state b l init) = l" "act (init_state b l init) = {}"
      "hdl (init_state b l init) = {}"
    by (simp_all add: init_state_def)
  have d: "set (il_list l) \<inter> placed (init_state b l init) = {}" by (simp add: e(1))
  have fin: "finite {i. is_root b i}" using l(5) by (metis List.finite_set)
  have w: "within scratch (init_state b l init)" by (simp add: within_def init_state_def empty_list_def)
  have r: "reserved_inv (lreg_ranges b) (il_list l) (init_state b l init)" by (simp add: reserved_inv_def e(3))
  have "\<exists>ok s. scan_intervals target scratch (il_list l) (init_state b l init) = Some (ok, s) \<and>
      (\<not> ok \<longrightarrow> (\<exists>j \<in> set (il_list l). \<exists>p. p \<noteq> X64_RBP \<and> rr_ctrl (lreg_ranges b ! j) = XIR_REG_ALLOC_CTRL_FORCE_REG p))"
    by (rule scan_intervals_returns[OF init_state_inv[OF assms(1)] l(4) t d sc assms(2) _ r assms(3) fin _ w]) (simp_all add: e l(3,5))
  then obtain ok s where s: "scan_intervals target scratch (il_list l) (init_state b l init) = Some (ok, s)"
      "\<not> ok \<longrightarrow> (\<exists>j \<in> set (il_list l). \<exists>p. p \<noteq> X64_RBP \<and> rr_ctrl (lreg_ranges b ! j) = XIR_REG_ALLOC_CTRL_FORCE_REG p)"
    by blast
  show ?thesis
  proof (cases ok)
    case False
    then show ?thesis using l(1,2,5) s by (auto simp: X64_linear_scan_reg_alloc_def init_state_def)
  next
    case True
    obtain t' where inv: "alloc_inv target scratch (lreg_ranges b) init t' s" "placed s = {i. is_root b i}"
      using scan_intervals_inv[OF init_state_inv[OF assms(1)] l(4) t d s(1)[unfolded eqTrueI[OF True]]] e(1) l(5) by auto
    obtain s' where s': "finish_active (il_list (active s)) s = Some s'" "final_state target scratch b init s'"
        "il_count (handled s') = length (il_list (handled s'))"
      using finish_final[OF inv] by blast
    have "distinct (il_list (handled s'))" "distinct (il_list l)" "set (il_list (handled s')) = set (il_list l)"
      using s'(2) l(4,5) by (auto simp: final_state_def lists_inv_def scan_ok_def)
    then have "length (il_list l) = il_count (handled s')" using s'(3) by (metis distinct_card)
    then show ?thesis using l(1,2) s(1) s'(1) True by (auto simp: X64_linear_scan_reg_alloc_def init_state_def)
  qed
qed

lemma reg_alloc_returns_witness:
  "\<exists>res. X64_linear_scan_reg_alloc sample_target sample_alloc [4] sample_scratch 0 = Some res \<and>
    (res_success res \<or> (\<exists>j p. is_root sample_alloc j \<and> p \<noteq> X64_RBP \<and> rr_ctrl (lreg_ranges sample_alloc ! j) = XIR_REG_ALLOC_CTRL_FORCE_REG p))"
  by (rule reg_alloc_returns[OF sample_allocatable])
    (auto simp: no_clash_def frame_fits_def sample_root, auto simp: sample_alloc_def sample_range_def)

section \<open>The Linux tables\<close>

lemma mask_regs_eqI:
  "list_all (\<lambda>r. bit m (reg_num r) = (r \<in> S)) all_regs \<Longrightarrow> regs_of_mask m = S"
  unfolding all_reg_iff[symmetric] regs_of_mask_def by auto

text \<open>
  C22. The tables of the Linux target agree with each other and with the System V calling convention: the
  masks of argument, return and scratch registers name the registers of the corresponding arrays, the leaf
  and the non-leaf scratch arrays are permutations of each other that satisfy what the allocator relies on,
  and with the stack and frame pointers they are all the registers.
\<close>

theorem linux_tables_agree:
  "\<exists>t. x64_init_target OS_LINUX = Some t \<and>
     scratch_ok (leaf_scratch_regs t) \<and> scratch_ok (nonleaf_scratch_regs t) \<and>
     (\<forall>c. mset (leaf_scratch_regs t c) = mset (nonleaf_scratch_regs t c)) \<and>
     set (leaf_scratch_regs t X64_REG_CLASS_INT) \<union> set (leaf_scratch_regs t X64_REG_CLASS_FLOAT) \<union> {X64_RSP, X64_RBP} = UNIV \<and>
     regs_of_mask (scratch_reg_mask t) = set (leaf_scratch_regs t X64_REG_CLASS_INT) \<and>
     regs_of_mask (arg_reg_mask t) = set (arg_regs t X64_REG_CLASS_INT) \<union> set (arg_regs t X64_REG_CLASS_FLOAT) \<and>
     regs_of_mask (ret_reg_mask t) = set (ret_regs t X64_REG_CLASS_INT) \<union> set (ret_regs t X64_REG_CLASS_FLOAT) \<and>
     regs_of_mask (arg_reg_mask t) \<union> regs_of_mask (ret_reg_mask t) \<subseteq> regs_of_mask (caller_saved_reg_mask t) \<and>
     {r. X64_is_callee_saved_reg t r} = {X64_RBX, X64_RSP, X64_RBP, X64_R12, X64_R13, X64_R14, X64_R15}"
proof -
  let ?t = "sample_target"
  have t: "x64_init_target OS_LINUX = Some ?t" by (simp add: sample_target_def)
  note ld = x64_linux_leaf_scratch_int_regs_def x64_linux_leaf_scratch_flt_regs_def
    x64_linux_nonleaf_scratch_int_regs_def x64_linux_nonleaf_scratch_flt_regs_def
  have sc: "scratch_ok (leaf_scratch_regs ?t)" "scratch_ok (nonleaf_scratch_regs ?t)"
    unfolding scratch_ok_def by (intro conjI allI; case_tac c; simp add: sample_target_def ld x64_reg_classes_def)+
  have perm: "mset (leaf_scratch_regs ?t c) = mset (nonleaf_scratch_regs ?t c)" for c
    by (cases c) (simp_all add: sample_target_def ld add_mset_commute)
  have all: "r \<in> set (leaf_scratch_regs ?t X64_REG_CLASS_INT) \<union> set (leaf_scratch_regs ?t X64_REG_CLASS_FLOAT) \<union> {X64_RSP, X64_RBP}" for r
    by (cases r) (simp_all add: sample_target_def ld)
  have masks: "regs_of_mask (scratch_reg_mask ?t) = set (leaf_scratch_regs ?t X64_REG_CLASS_INT)"
    "regs_of_mask (arg_reg_mask ?t) = set (arg_regs ?t X64_REG_CLASS_INT) \<union> set (arg_regs ?t X64_REG_CLASS_FLOAT)"
    "regs_of_mask (ret_reg_mask ?t) = set (ret_regs ?t X64_REG_CLASS_INT) \<union> set (ret_regs ?t X64_REG_CLASS_FLOAT)"
    by (rule mask_regs_eqI; simp add: sample_target_def ld all_regs_def x64_linux_arg_reg_mask_def x64_linux_ret_reg_mask_def)+
  have caller: "regs_of_mask (caller_saved_reg_mask ?t) = UNIV - {X64_RBX, X64_RSP, X64_RBP, X64_R12, X64_R13, X64_R14, X64_R15}"
    by (rule mask_regs_eqI; simp add: sample_target_def all_regs_def x64_linux_caller_saved_reg_mask_def)
  then have callee: "{r. X64_is_callee_saved_reg ?t r} = {X64_RBX, X64_RSP, X64_RBP, X64_R12, X64_R13, X64_R14, X64_R15}"
    by (auto simp: X64_is_callee_saved_reg_def regs_of_mask_def set_eq_iff)
  have "regs_of_mask (arg_reg_mask ?t) \<union> regs_of_mask (ret_reg_mask ?t) \<subseteq> regs_of_mask (caller_saved_reg_mask ?t)"
    unfolding masks caller by (simp add: sample_target_def)
  then show ?thesis using t sc perm all masks callee by (intro exI[of _ ?t]) blast
qed

end
