(* ===== verification/Reg_Alloc_Pressure.thy ===== *)
theory Reg_Alloc_Pressure
  imports Reg_Alloc_Total
begin

text \<open>
  What the frame pointer does to the count of used registers: an allocation that fails an assertion although every
  interval could have been given a register or a stack slot.
\<close>

text \<open>
  Thirteen values that are all in use when a shift needs its count in \<open>RCX\<close>, and a value that is computed then.
\<close>

definition pressure_alloc :: XIR_Builder where
  "pressure_alloc = \<lparr>num_regs = 16,
     lreg_ranges = sample_range 0 0 40 (XIR_REG_ALLOC_CTRL_FORCE_REG X64_RBP) #
       map (\<lambda>i. sample_range i (int i) 40 XIR_REG_ALLOC_CTRL_NONE) [1, 2, 3, 4, 5, 6, 7, 8, 9, 10, 11, 12, 13] @
       [sample_range 14 14 16 (XIR_REG_ALLOC_CTRL_FORCE_REG X64_RCX), sample_range 15 15 20 XIR_REG_ALLOC_CTRL_NONE],
     lreg_aliases = [0, 1, 2, 3, 4, 5, 6, 7, 8, 9, 10, 11, 12, 13, 14, 15], lreg_sizes = replicate 16 1, reg_map = [],
     stack_reg_mask = 0\<rparr>"

lemma less_16: "i < 16 \<longleftrightarrow> i \<in> {0, 1, 2, 3, 4, 5, 6, 7, 8, 9, 10, 11, 12, 13, 14, 15}" for i :: nat
  by (simp only: insert_iff empty_iff) arith

lemma pressure_find: "i < 16 \<Longrightarrow> XIR_find_alias_reg pressure_alloc i = Some (i, pressure_alloc)"
  unfolding less_16 by (auto simp: XIR_find_alias_reg_def pressure_alloc_def find_alias.simps)

lemma pressure_ranges:
  "i < 16 \<Longrightarrow> rr_start (lreg_ranges pressure_alloc ! i) = int i"
  "i < 16 \<Longrightarrow> rr_class (lreg_ranges pressure_alloc ! i) = X64_REG_CLASS_INT"
  unfolding less_16 by (auto simp: pressure_alloc_def sample_range_def)

lemma pressure_init:
  "init_unhandled (length (lreg_ranges pressure_alloc)) pressure_alloc empty_list = Some (pressure_alloc,
     \<lparr>il_list = [0, 1, 2, 3, 4, 5, 6, 7, 8, 9, 10, 11, 12, 13, 14, 15], il_count = 16,
      il_class_counts = (\<lambda>_. 0)(X64_REG_CLASS_INT := 16)\<rparr>)"
proof -
  have l: "length (lreg_ranges pressure_alloc) = 16" by (simp add: pressure_alloc_def)
  have z: "XIR_find_alias_reg pressure_alloc (Suc 0) = Some (Suc 0, pressure_alloc)"
    "rr_start (lreg_ranges pressure_alloc ! Suc 0) = 1" "rr_class (lreg_ranges pressure_alloc ! Suc 0) = X64_REG_CLASS_INT"
    using pressure_find[of 1] pressure_ranges[of 1] by simp_all
  show ?thesis unfolding l
    by (simp add: init_unhandled_numeral pressure_find pressure_ranges list_run_simps Let_def z)
      (simp add: eval_nat_numeral)
qed

definition linux_target :: X64_Target where
  "linux_target = the (x64_init_target OS_LINUX)"

lemma pressure_run: "X64_linear_scan_reg_alloc linux_target pressure_alloc [] (leaf_scratch_regs linux_target) 0 = None"
  unfolding X64_linear_scan_reg_alloc_def pressure_init
  by (simp add: alloc_run_simps Let_def pressure_alloc_def sample_range_def linux_target_def
      x64_linux_caller_saved_reg_mask_def x64_linux_leaf_scratch_int_regs_def cong: bind_weak_cong option.case_cong_weak if_weak_cong)

lemma pressure_alias: "i < 16 \<Longrightarrow> lreg_aliases pressure_alloc ! i = i"
  unfolding less_16 by (auto simp: pressure_alloc_def)

lemma pressure_root: "is_root pressure_alloc i \<longleftrightarrow> i < 16"
  using pressure_alias[of i] by (auto simp: is_root_def) (auto simp: pressure_alloc_def)

lemma pressure_allocatable: "allocatable (leaf_scratch_regs linux_target) pressure_alloc"
proof -
  have "forest (lreg_aliases pressure_alloc) (\<lambda>i. i)"
  proof -
    have "length (lreg_aliases pressure_alloc) = 16" by (simp add: pressure_alloc_def)
    then show ?thesis using pressure_alias unfolding forest_def by auto
  qed
  then have "builder_wf pressure_alloc"
    unfolding builder_wf_def dsu_wf_def by (auto simp: pressure_alloc_def XIR_REG_COUNT_def less_16 sample_range_def)
  moreover have "scratch_ok (leaf_scratch_regs linux_target)"
    unfolding scratch_ok_def
    by (intro conjI allI; case_tac c; simp add: linux_target_def x64_linux_leaf_scratch_int_regs_def
        x64_linux_leaf_scratch_flt_regs_def x64_reg_classes_def)
  moreover have "ctrl_regs_ok (leaf_scratch_regs linux_target) (lreg_ranges pressure_alloc) i" if "is_root pressure_alloc i" for i
    using that unfolding pressure_root less_16
    by (auto simp: ctrl_regs_ok_def pressure_alloc_def sample_range_def home_regs_def linux_target_def
        x64_linux_leaf_scratch_int_regs_def)
  moreover have "rr_loc (lreg_ranges pressure_alloc ! i) = XIR_LREG_LOC_UNASSIGNED" if "i < 16" for i
    using that unfolding less_16 by (auto simp: pressure_alloc_def sample_range_def)
  ultimately show ?thesis by (simp add: allocatable_def) (simp add: pressure_alloc_def)
qed

lemma pressure_no_clash: "no_clash (lreg_ranges pressure_alloc) {i. is_root pressure_alloc i}"
proof -
  have c: "rr_ctrl (lreg_ranges pressure_alloc ! i) = (if i = 0 then XIR_REG_ALLOC_CTRL_FORCE_REG X64_RBP
      else if i = 14 then XIR_REG_ALLOC_CTRL_FORCE_REG X64_RCX else XIR_REG_ALLOC_CTRL_NONE)" if "i < 16" for i
    using that unfolding less_16 by (auto simp: pressure_alloc_def sample_range_def)
  show ?thesis unfolding no_clash_def pressure_root using c by auto
qed

text \<open>
  C19. The count of used registers includes the frame pointer, which is not one of the counted scratch registers. So
  thirteen live values, a shift whose count must be in \<open>RCX\<close> and one more value make the allocator fail an assertion,
  with the registers of the Linux target and although no two ranges need the same register.
\<close>

theorem frame_pointer_exhausts_registers:
  "allocatable (leaf_scratch_regs linux_target) pressure_alloc \<and>
   no_clash (lreg_ranges pressure_alloc) {i. is_root pressure_alloc i} \<and>
   X64_linear_scan_reg_alloc linux_target pressure_alloc [] (leaf_scratch_regs linux_target) 0 = None"
  using pressure_allocatable pressure_no_clash pressure_run by blast

end
