(* ===== verification/Xir_Instrs.thy ===== *)
theory Xir_Instrs
  imports Xir_Regs X64_Instrs
begin

text \<open>
  The instructions of the low-level form (\<open>src/src/x64_gen/xir.h\<close> lines 16-640) and the functions that append
  them to a basic block (\<open>src/src/x64_gen/xir.c\<close>). Structures that the source gives several names, one for each
  operation, are one constructor with the operation as its first argument. The type of a register is a parameter, so
  that the registers of an instruction are the elements of its set function. The instructions of a block are a list;
  the source keeps them as a linked list with a pointer to its last node.
\<close>

section \<open>Operands\<close>

datatype 'r XIR_MemAddr =
    XIR_ADDR_GLOBAL_SYM Symbol
  | XIR_ADDR_SIBD (sibd_base: 'r) (sibd_index: 'r) (sibd_disp: s32) (sibd_scale: u8)
  | XIR_ADDR_STR_LIT u64
  | XIR_ADDR_FLOAT_LIT u64

datatype XIR_IntOp = XIR_Add | XIR_Sub | XIR_IMul | XIR_And | XIR_Or | XIR_Xor

datatype XIR_FltOp =
    XIR_AddSS | XIR_AddSD | XIR_SubSS | XIR_SubSD | XIR_MulSS | XIR_MulSD | XIR_DivSS | XIR_DivSD

datatype XIR_DivMulOp = XIR_Div | XIR_IDiv | XIR_Mul | XIR_IMulBase

datatype XIR_ShiftOp = XIR_Sar | XIR_Shl

datatype XIR_UnaryOp = XIR_Not | XIR_Neg

datatype XIR_ConvertOp = XIR_MovZX | XIR_MovSX

text \<open>A constant operand: the bits of the union.\<close>

type_synonym Scalar = u64

datatype 'r XIR_ArithInstr =
    XIR_Binary_R_R XIR_IntOp u8 'r 'r
  | XIR_Binary_R_I XIR_IntOp u8 'r Scalar
  | XIR_Binary_R_M XIR_IntOp u8 'r "'r XIR_MemAddr"
  | XIR_BinaryFlt_R_R XIR_FltOp 'r 'r
  | XIR_BinaryFlt_R_M XIR_FltOp 'r "'r XIR_MemAddr"
  | XIR_OneOpDivMulBase_R XIR_DivMulOp u8 'r 'r 'r
  | XIR_OneOpDivMulBase_M XIR_DivMulOp u8 'r 'r "'r XIR_MemAddr"
  | XIR_Shift_R_R XIR_ShiftOp u8 'r 'r
  | XIR_Shift_R_I XIR_ShiftOp u8 'r Scalar
  | XIR_Unary XIR_UnaryOp u8 'r

text \<open>
  Moves and conversions. The floating-point moves and the conversions between floats have the kind of the source,
  those from integers the kind of the destination.
\<close>

datatype 'r XIR_MovInstr =
    XIR_Mov_R_R u8 'r 'r
  | XIR_Mov_R_I u8 'r Scalar
  | XIR_Mov_R_M u8 'r "'r XIR_MemAddr"
  | XIR_Mov_R_RH 'r 'r
  | XIR_Mov_M_R u8 "'r XIR_MemAddr" 'r
  | XIR_Mov_M_I u8 "'r XIR_MemAddr" Scalar
  | XIR_Convert_R_R XIR_ConvertOp u8 u8 'r 'r
  | XIR_Convert_R_M XIR_ConvertOp u8 u8 'r "'r XIR_MemAddr"
  | XIR_SExtAxToDx u8 'r 'r
  | XIR_MovFlt_R_R FloatKind 'r 'r
  | XIR_MovFlt_R_M FloatKind 'r "'r XIR_MemAddr"
  | XIR_MovFlt_M_R FloatKind "'r XIR_MemAddr" 'r
  | XIR_Flt2Flt_R_R FloatKind 'r 'r
  | XIR_Flt2Flt_R_M FloatKind 'r "'r XIR_MemAddr"
  | XIR_Flt2Int_R_R FloatKind u8 'r 'r
  | XIR_Flt2Int_R_M FloatKind u8 'r "'r XIR_MemAddr"
  | XIR_Int2Flt_R_R FloatKind u8 'r 'r
  | XIR_Int2Flt_R_M FloatKind u8 'r "'r XIR_MemAddr"
  | XIR_LEA 'r "'r XIR_MemAddr"

record X64_StackArgsInfo =
  sa_size :: u64
  sa_offset :: u64

text \<open>
  The slots of arguments. Of the type of an argument and of the return type, the data keeps which member of the union
  they select: a register, or the address of an object; or nothing is returned.
\<close>

datatype XIR_PrimArgSlot = PrimInReg X64_Reg | PrimOnStack u32

datatype XIR_ObjLoc = ObjOnStack u32 | ObjInRegs "X64_Reg list"

record XIR_ObjArgSlot =
  oa_loc :: XIR_ObjLoc
  oa_as_ptr :: bool
  oa_ptr_sp_offset :: u32

datatype 'r XIR_InstrCallArg = XIR_PrimArg 'r XIR_PrimArgSlot | XIR_ObjArg "'r XIR_MemAddr" XIR_ObjArgSlot

datatype 'r XIR_CallValue = XIR_CallNoValue | XIR_CallReg 'r | XIR_CallAddr "'r XIR_MemAddr"

datatype 'r XIR_CtrlInstr =
    XIR_Cmp_R_R u8 'r 'r
  | XIR_Cmp_R_I u8 'r Scalar
  | XIR_Cmp_R_M u8 'r "'r XIR_MemAddr"
  | XIR_Cmp_M_R u8 "'r XIR_MemAddr" 'r
  | XIR_Cmp_M_I u8 "'r XIR_MemAddr" Scalar
  | XIR_CmpFlt_R_R FloatKind 'r 'r
  | XIR_CmpFlt_R_M FloatKind 'r "'r XIR_MemAddr"
  | XIR_Jmp int
  | XIR_JmpCC ConditionKind int int
  | XIR_SetCC ConditionKind 'r
  | XIR_RepMovsb 'r 'r 'r
  | XIR_RepStosb 'r 'r 'r
  | XIR_Syscall 'r 'r 'r "'r list"
  | XIR_Ret 'r 'r
  | XIR_Call Symbol "'r XIR_CallValue" "'r XIR_InstrCallArg list" X64_StackArgsInfo u32
  | XIR_Call_R 'r "'r XIR_CallValue" "'r XIR_InstrCallArg list" X64_StackArgsInfo u32

datatype 'r XIR_Instr = XIR_Arith "'r XIR_ArithInstr" | XIR_Move "'r XIR_MovInstr" | XIR_Ctrl "'r XIR_CtrlInstr"

section \<open>Blocks\<close>

text \<open>An instruction with its number.\<close>

record XIR_BBlock =
  xb_id :: int
  xb_flags :: u32
  xb_instrs :: "(u32 \<times> nat XIR_Instr) list"

record XIR_Code =
  xc_num_instrs :: nat
  xc_bblocks :: "XIR_BBlock list"

definition XIR_bblock_add_instr :: "XIR_BBlock \<Rightarrow> u32 \<times> nat XIR_Instr \<Rightarrow> XIR_BBlock" where
  "XIR_bblock_add_instr bblock instr = bblock\<lparr>xb_instrs := xb_instrs bblock @ [instr]\<rparr>"

definition XIR_add_lir_instr :: "nat XIR_Instr \<Rightarrow> nat \<Rightarrow> XIR_Code \<Rightarrow> XIR_Code option" where
  "XIR_add_lir_instr instr xbblock c = do {
     assert_opt (xbblock < length (xc_bblocks c));
     let ino = of_nat (xc_num_instrs c);
     Some (c\<lparr>xc_num_instrs := xc_num_instrs c + 1,
       xc_bblocks := (xc_bblocks c)[xbblock := XIR_bblock_add_instr (xc_bblocks c ! xbblock) (ino, instr)]\<rparr>) }"

section \<open>Emission\<close>

definition XIR_emit_instr_binary_r_r :: "XIR_IntOp \<Rightarrow> u8 \<Rightarrow> nat \<Rightarrow> nat \<Rightarrow> nat \<Rightarrow> XIR_Code \<Rightarrow> XIR_Code option" where
  "XIR_emit_instr_binary_r_r op sz dst src = XIR_add_lir_instr (XIR_Arith (XIR_Binary_R_R op sz dst src))"

definition XIR_emit_instr_binary_r_i :: "XIR_IntOp \<Rightarrow> u8 \<Rightarrow> nat \<Rightarrow> Scalar \<Rightarrow> nat \<Rightarrow> XIR_Code \<Rightarrow> XIR_Code option" where
  "XIR_emit_instr_binary_r_i op sz dst src = XIR_add_lir_instr (XIR_Arith (XIR_Binary_R_I op sz dst src))"

definition XIR_emit_instr_binary_r_m :: "XIR_IntOp \<Rightarrow> u8 \<Rightarrow> nat \<Rightarrow> nat XIR_MemAddr \<Rightarrow> nat \<Rightarrow> XIR_Code \<Rightarrow> XIR_Code option" where
  "XIR_emit_instr_binary_r_m op sz dst src = XIR_add_lir_instr (XIR_Arith (XIR_Binary_R_M op sz dst src))"

definition XIR_emit_instr_binaryflt_r_r :: "XIR_FltOp \<Rightarrow> nat \<Rightarrow> nat \<Rightarrow> nat \<Rightarrow> XIR_Code \<Rightarrow> XIR_Code option" where
  "XIR_emit_instr_binaryflt_r_r op dst src = XIR_add_lir_instr (XIR_Arith (XIR_BinaryFlt_R_R op dst src))"

definition XIR_emit_instr_binaryflt_r_m :: "XIR_FltOp \<Rightarrow> nat \<Rightarrow> nat XIR_MemAddr \<Rightarrow> nat \<Rightarrow> XIR_Code \<Rightarrow> XIR_Code option" where
  "XIR_emit_instr_binaryflt_r_m op dst src = XIR_add_lir_instr (XIR_Arith (XIR_BinaryFlt_R_M op dst src))"

definition XIR_emit_instr_shift_r_r :: "XIR_ShiftOp \<Rightarrow> u8 \<Rightarrow> nat \<Rightarrow> nat \<Rightarrow> nat \<Rightarrow> XIR_Code \<Rightarrow> XIR_Code option" where
  "XIR_emit_instr_shift_r_r op sz dst src = XIR_add_lir_instr (XIR_Arith (XIR_Shift_R_R op sz dst src))"

definition XIR_emit_instr_shift_r_i :: "XIR_ShiftOp \<Rightarrow> u8 \<Rightarrow> nat \<Rightarrow> Scalar \<Rightarrow> nat \<Rightarrow> XIR_Code \<Rightarrow> XIR_Code option" where
  "XIR_emit_instr_shift_r_i op sz dst src = XIR_add_lir_instr (XIR_Arith (XIR_Shift_R_I op sz dst src))"

definition XIR_emit_instr_divmul_r :: "XIR_DivMulOp \<Rightarrow> u8 \<Rightarrow> nat \<Rightarrow> nat \<Rightarrow> nat \<Rightarrow> nat \<Rightarrow> XIR_Code \<Rightarrow> XIR_Code option" where
  "XIR_emit_instr_divmul_r op sz rdx rax src = XIR_add_lir_instr (XIR_Arith (XIR_OneOpDivMulBase_R op sz rdx rax src))"

definition XIR_emit_instr_divmul_m :: "XIR_DivMulOp \<Rightarrow> u8 \<Rightarrow> nat \<Rightarrow> nat \<Rightarrow> nat XIR_MemAddr \<Rightarrow> nat \<Rightarrow> XIR_Code \<Rightarrow> XIR_Code option" where
  "XIR_emit_instr_divmul_m op sz rdx rax src = XIR_add_lir_instr (XIR_Arith (XIR_OneOpDivMulBase_M op sz rdx rax src))"

definition XIR_emit_instr_unary :: "XIR_UnaryOp \<Rightarrow> u8 \<Rightarrow> nat \<Rightarrow> nat \<Rightarrow> XIR_Code \<Rightarrow> XIR_Code option" where
  "XIR_emit_instr_unary op sz dst = XIR_add_lir_instr (XIR_Arith (XIR_Unary op sz dst))"

definition XIR_emit_instr_convert_r_r :: "XIR_ConvertOp \<Rightarrow> u8 \<Rightarrow> nat \<Rightarrow> u8 \<Rightarrow> nat \<Rightarrow> nat \<Rightarrow> XIR_Code \<Rightarrow> XIR_Code option" where
  "XIR_emit_instr_convert_r_r op dst_size dst src_size src = XIR_add_lir_instr (XIR_Move (XIR_Convert_R_R op dst_size src_size dst src))"

definition XIR_emit_instr_convert_r_m :: "XIR_ConvertOp \<Rightarrow> u8 \<Rightarrow> nat \<Rightarrow> u8 \<Rightarrow> nat XIR_MemAddr \<Rightarrow> nat \<Rightarrow> XIR_Code \<Rightarrow> XIR_Code option" where
  "XIR_emit_instr_convert_r_m op dst_size dst src_size src = XIR_add_lir_instr (XIR_Move (XIR_Convert_R_M op dst_size src_size dst src))"

definition XIR_emit_instr_flt2flt_r_r :: "FloatKind \<Rightarrow> nat \<Rightarrow> nat \<Rightarrow> nat \<Rightarrow> XIR_Code \<Rightarrow> XIR_Code option" where
  "XIR_emit_instr_flt2flt_r_r k dst src = XIR_add_lir_instr (XIR_Move (XIR_Flt2Flt_R_R k dst src))"

definition XIR_emit_instr_flt2flt_r_m :: "FloatKind \<Rightarrow> nat \<Rightarrow> nat XIR_MemAddr \<Rightarrow> nat \<Rightarrow> XIR_Code \<Rightarrow> XIR_Code option" where
  "XIR_emit_instr_flt2flt_r_m k dst src = XIR_add_lir_instr (XIR_Move (XIR_Flt2Flt_R_M k dst src))"

definition XIR_emit_instr_flt2int_r_r :: "FloatKind \<Rightarrow> u8 \<Rightarrow> nat \<Rightarrow> nat \<Rightarrow> nat \<Rightarrow> XIR_Code \<Rightarrow> XIR_Code option" where
  "XIR_emit_instr_flt2int_r_r k dst_size dst src = XIR_add_lir_instr (XIR_Move (XIR_Flt2Int_R_R k dst_size dst src))"

definition XIR_emit_instr_flt2int_r_m :: "FloatKind \<Rightarrow> u8 \<Rightarrow> nat \<Rightarrow> nat XIR_MemAddr \<Rightarrow> nat \<Rightarrow> XIR_Code \<Rightarrow> XIR_Code option" where
  "XIR_emit_instr_flt2int_r_m k dst_size dst src = XIR_add_lir_instr (XIR_Move (XIR_Flt2Int_R_M k dst_size dst src))"

definition XIR_emit_instr_int2flt_r_r :: "FloatKind \<Rightarrow> nat \<Rightarrow> u8 \<Rightarrow> nat \<Rightarrow> nat \<Rightarrow> XIR_Code \<Rightarrow> XIR_Code option" where
  "XIR_emit_instr_int2flt_r_r k dst src_size src = XIR_add_lir_instr (XIR_Move (XIR_Int2Flt_R_R k src_size dst src))"

definition XIR_emit_instr_int2flt_r_m :: "FloatKind \<Rightarrow> nat \<Rightarrow> u8 \<Rightarrow> nat XIR_MemAddr \<Rightarrow> nat \<Rightarrow> XIR_Code \<Rightarrow> XIR_Code option" where
  "XIR_emit_instr_int2flt_r_m k dst src_size src = XIR_add_lir_instr (XIR_Move (XIR_Int2Flt_R_M k src_size dst src))"

definition XIR_emit_instr_mov_r_r :: "u8 \<Rightarrow> nat \<Rightarrow> nat \<Rightarrow> nat \<Rightarrow> XIR_Code \<Rightarrow> XIR_Code option" where
  "XIR_emit_instr_mov_r_r sz dst src = XIR_add_lir_instr (XIR_Move (XIR_Mov_R_R sz dst src))"

definition XIR_emit_instr_mov_r_rh :: "nat \<Rightarrow> nat \<Rightarrow> nat \<Rightarrow> XIR_Code \<Rightarrow> XIR_Code option" where
  "XIR_emit_instr_mov_r_rh dst src = XIR_add_lir_instr (XIR_Move (XIR_Mov_R_RH dst src))"

definition XIR_emit_instr_mov_r_m :: "u8 \<Rightarrow> nat \<Rightarrow> nat XIR_MemAddr \<Rightarrow> nat \<Rightarrow> XIR_Code \<Rightarrow> XIR_Code option" where
  "XIR_emit_instr_mov_r_m sz dst src = XIR_add_lir_instr (XIR_Move (XIR_Mov_R_M sz dst src))"

definition XIR_emit_instr_mov_r_i :: "u8 \<Rightarrow> nat \<Rightarrow> Scalar \<Rightarrow> nat \<Rightarrow> XIR_Code \<Rightarrow> XIR_Code option" where
  "XIR_emit_instr_mov_r_i sz dst src = XIR_add_lir_instr (XIR_Move (XIR_Mov_R_I sz dst src))"

definition XIR_emit_instr_mov_m_r :: "u8 \<Rightarrow> nat XIR_MemAddr \<Rightarrow> nat \<Rightarrow> nat \<Rightarrow> XIR_Code \<Rightarrow> XIR_Code option" where
  "XIR_emit_instr_mov_m_r sz dst src = XIR_add_lir_instr (XIR_Move (XIR_Mov_M_R sz dst src))"

definition XIR_emit_instr_mov_m_i :: "u8 \<Rightarrow> nat XIR_MemAddr \<Rightarrow> Scalar \<Rightarrow> nat \<Rightarrow> XIR_Code \<Rightarrow> XIR_Code option" where
  "XIR_emit_instr_mov_m_i sz dst src = XIR_add_lir_instr (XIR_Move (XIR_Mov_M_I sz dst src))"

definition XIR_emit_instr_movflt_r_r :: "FloatKind \<Rightarrow> nat \<Rightarrow> nat \<Rightarrow> nat \<Rightarrow> XIR_Code \<Rightarrow> XIR_Code option" where
  "XIR_emit_instr_movflt_r_r k dst src = XIR_add_lir_instr (XIR_Move (XIR_MovFlt_R_R k dst src))"

definition XIR_emit_instr_movflt_r_m :: "FloatKind \<Rightarrow> nat \<Rightarrow> nat XIR_MemAddr \<Rightarrow> nat \<Rightarrow> XIR_Code \<Rightarrow> XIR_Code option" where
  "XIR_emit_instr_movflt_r_m k dst src = XIR_add_lir_instr (XIR_Move (XIR_MovFlt_R_M k dst src))"

definition XIR_emit_instr_movflt_m_r :: "FloatKind \<Rightarrow> nat XIR_MemAddr \<Rightarrow> nat \<Rightarrow> nat \<Rightarrow> XIR_Code \<Rightarrow> XIR_Code option" where
  "XIR_emit_instr_movflt_m_r k dst src = XIR_add_lir_instr (XIR_Move (XIR_MovFlt_M_R k dst src))"

definition XIR_emit_instr_sext_ax_to_dx :: "u8 \<Rightarrow> nat \<Rightarrow> nat \<Rightarrow> nat \<Rightarrow> XIR_Code \<Rightarrow> XIR_Code option" where
  "XIR_emit_instr_sext_ax_to_dx sz rdx rax = XIR_add_lir_instr (XIR_Move (XIR_SExtAxToDx sz rdx rax))"

definition XIR_emit_instr_lea :: "nat \<Rightarrow> nat XIR_MemAddr \<Rightarrow> nat \<Rightarrow> XIR_Code \<Rightarrow> XIR_Code option" where
  "XIR_emit_instr_lea dst mem = XIR_add_lir_instr (XIR_Move (XIR_LEA dst mem))"

definition XIR_emit_instr_cmp_r_r :: "u8 \<Rightarrow> nat \<Rightarrow> nat \<Rightarrow> nat \<Rightarrow> XIR_Code \<Rightarrow> XIR_Code option" where
  "XIR_emit_instr_cmp_r_r sz op1 op2 = XIR_add_lir_instr (XIR_Ctrl (XIR_Cmp_R_R sz op1 op2))"

definition XIR_emit_instr_cmp_r_i :: "u8 \<Rightarrow> nat \<Rightarrow> Scalar \<Rightarrow> nat \<Rightarrow> XIR_Code \<Rightarrow> XIR_Code option" where
  "XIR_emit_instr_cmp_r_i sz op1 op2 = XIR_add_lir_instr (XIR_Ctrl (XIR_Cmp_R_I sz op1 op2))"

definition XIR_emit_instr_cmp_r_m :: "u8 \<Rightarrow> nat \<Rightarrow> nat XIR_MemAddr \<Rightarrow> nat \<Rightarrow> XIR_Code \<Rightarrow> XIR_Code option" where
  "XIR_emit_instr_cmp_r_m sz op1 op2 = XIR_add_lir_instr (XIR_Ctrl (XIR_Cmp_R_M sz op1 op2))"

definition XIR_emit_instr_cmp_m_r :: "u8 \<Rightarrow> nat XIR_MemAddr \<Rightarrow> nat \<Rightarrow> nat \<Rightarrow> XIR_Code \<Rightarrow> XIR_Code option" where
  "XIR_emit_instr_cmp_m_r sz op1 op2 = XIR_add_lir_instr (XIR_Ctrl (XIR_Cmp_M_R sz op1 op2))"

definition XIR_emit_instr_cmp_m_i :: "u8 \<Rightarrow> nat XIR_MemAddr \<Rightarrow> Scalar \<Rightarrow> nat \<Rightarrow> XIR_Code \<Rightarrow> XIR_Code option" where
  "XIR_emit_instr_cmp_m_i sz op1 op2 = XIR_add_lir_instr (XIR_Ctrl (XIR_Cmp_M_I sz op1 op2))"

definition XIR_emit_instr_cmpflt_r_r :: "FloatKind \<Rightarrow> nat \<Rightarrow> nat \<Rightarrow> nat \<Rightarrow> XIR_Code \<Rightarrow> XIR_Code option" where
  "XIR_emit_instr_cmpflt_r_r k op1 op2 = XIR_add_lir_instr (XIR_Ctrl (XIR_CmpFlt_R_R k op1 op2))"

definition XIR_emit_instr_cmpflt_r_m :: "FloatKind \<Rightarrow> nat \<Rightarrow> nat XIR_MemAddr \<Rightarrow> nat \<Rightarrow> XIR_Code \<Rightarrow> XIR_Code option" where
  "XIR_emit_instr_cmpflt_r_m k op1 op2 = XIR_add_lir_instr (XIR_Ctrl (XIR_CmpFlt_R_M k op1 op2))"

definition XIR_emit_instr_jmp :: "int \<Rightarrow> nat \<Rightarrow> XIR_Code \<Rightarrow> XIR_Code option" where
  "XIR_emit_instr_jmp target = XIR_add_lir_instr (XIR_Ctrl (XIR_Jmp target))"

definition XIR_emit_instr_jmpcc :: "ConditionKind \<Rightarrow> int \<Rightarrow> int \<Rightarrow> nat \<Rightarrow> XIR_Code \<Rightarrow> XIR_Code option" where
  "XIR_emit_instr_jmpcc cond true_bb false_bb = XIR_add_lir_instr (XIR_Ctrl (XIR_JmpCC cond true_bb false_bb))"

definition XIR_emit_instr_setcc :: "ConditionKind \<Rightarrow> nat \<Rightarrow> nat \<Rightarrow> XIR_Code \<Rightarrow> XIR_Code option" where
  "XIR_emit_instr_setcc cond dst = XIR_add_lir_instr (XIR_Ctrl (XIR_SetCC cond dst))"

definition XIR_emit_instr_rep_movsb :: "nat \<Rightarrow> nat \<Rightarrow> nat \<Rightarrow> nat \<Rightarrow> XIR_Code \<Rightarrow> XIR_Code option" where
  "XIR_emit_instr_rep_movsb rdi rsi rcx = XIR_add_lir_instr (XIR_Ctrl (XIR_RepMovsb rdi rsi rcx))"

definition XIR_emit_instr_rep_stosb :: "nat \<Rightarrow> nat \<Rightarrow> nat \<Rightarrow> nat \<Rightarrow> XIR_Code \<Rightarrow> XIR_Code option" where
  "XIR_emit_instr_rep_stosb rdi rax rcx = XIR_add_lir_instr (XIR_Ctrl (XIR_RepStosb rdi rax rcx))"

definition XIR_emit_instr_syscall :: "nat \<Rightarrow> nat list \<Rightarrow> nat \<Rightarrow> nat \<Rightarrow> nat \<Rightarrow> XIR_Code \<Rightarrow> XIR_Code option" where
  "XIR_emit_instr_syscall rax args rcx r11 = XIR_add_lir_instr (XIR_Ctrl (XIR_Syscall rax rcx r11 args))"

definition XIR_emit_instr_ret :: "nat \<Rightarrow> nat \<Rightarrow> nat \<Rightarrow> XIR_Code \<Rightarrow> XIR_Code option" where
  "XIR_emit_instr_ret rax rdx = XIR_add_lir_instr (XIR_Ctrl (XIR_Ret rax rdx))"

definition XIR_emit_instr_call :: "Symbol \<Rightarrow> nat XIR_CallValue \<Rightarrow> nat XIR_InstrCallArg list \<Rightarrow> X64_StackArgsInfo \<Rightarrow> nat \<Rightarrow> XIR_Code \<Rightarrow> XIR_Code option" where
  "XIR_emit_instr_call proc_sym dst args stack_info = XIR_add_lir_instr (XIR_Ctrl (XIR_Call proc_sym dst args stack_info 0))"

definition XIR_emit_instr_call_r :: "nat \<Rightarrow> nat XIR_CallValue \<Rightarrow> nat XIR_InstrCallArg list \<Rightarrow> X64_StackArgsInfo \<Rightarrow> nat \<Rightarrow> XIR_Code \<Rightarrow> XIR_Code option" where
  "XIR_emit_instr_call_r proc_loc dst args stack_info = XIR_add_lir_instr (XIR_Ctrl (XIR_Call_R proc_loc dst args stack_info 0))"

end
