(* ===== verification/Livevar.thy ===== *)
theory Livevar
  imports Xir_Instrs
begin

text \<open>
  The live intervals of the virtual registers (\<open>src/src/x64_gen/livevar.c\<close>): the instructions are visited in the
  order of the blocks, and the range of the root of every register that an instruction names is extended to it.
\<close>

definition touch_range :: "XIR_RegRange \<Rightarrow> int \<Rightarrow> XIR_RegRange option" where
  "touch_range rng ino =
     (if rr_start rng = -1 then Some (rng\<lparr>rr_start := ino, rr_end := ino\<rparr>)
      else do {
        assert_opt (rr_end rng \<le> ino);
        Some (rng\<lparr>rr_end := ino\<rparr>) })"

definition XIR_touch_lreg :: "XIR_Builder \<Rightarrow> nat \<Rightarrow> int \<Rightarrow> XIR_Builder option" where
  "XIR_touch_lreg b lreg ino =
     (if lreg = XIR_REG_COUNT then Some b
      else do {
        assert_opt (lreg < num_regs b);
        (root, b) \<leftarrow> XIR_find_alias_reg b lreg;
        assert_opt (root < length (lreg_ranges b));
        rng \<leftarrow> touch_range (lreg_ranges b ! root) ino;
        Some (b\<lparr>lreg_ranges := (lreg_ranges b)[root := rng]\<rparr>) })"

fun touch_lregs :: "XIR_Builder \<Rightarrow> nat list \<Rightarrow> int \<Rightarrow> XIR_Builder option" where
  "touch_lregs b [] ino = Some b"
| "touch_lregs b (lreg # lregs) ino = do {
     b \<leftarrow> XIR_touch_lreg b lreg ino;
     touch_lregs b lregs ino }"

text \<open>The registers that \<open>XIR_touch_mem_lregs\<close> touches, in its order.\<close>

fun mem_lregs :: "nat XIR_MemAddr \<Rightarrow> nat list" where
  "mem_lregs (XIR_ADDR_SIBD base_reg index_reg disp scale) =
     (if base_reg \<noteq> XIR_REG_COUNT then [base_reg] else []) @
     (if scale \<noteq> 0 \<and> index_reg \<noteq> XIR_REG_COUNT then [index_reg] else [])"
| "mem_lregs _ = []"

definition XIR_touch_mem_lregs :: "XIR_Builder \<Rightarrow> nat XIR_MemAddr \<Rightarrow> int \<Rightarrow> XIR_Builder option" where
  "XIR_touch_mem_lregs b addr ino = touch_lregs b (mem_lregs addr) ino"

text \<open>The registers that each case of the switch touches, in its order.\<close>

fun arith_lregs :: "nat XIR_ArithInstr \<Rightarrow> nat list" where
  "arith_lregs (XIR_Binary_R_R op sz dst src) = [dst, src]"
| "arith_lregs (XIR_Binary_R_I op sz dst src) = [dst]"
| "arith_lregs (XIR_Binary_R_M op sz dst src) = dst # mem_lregs src"
| "arith_lregs (XIR_BinaryFlt_R_R op dst src) = [dst, src]"
| "arith_lregs (XIR_BinaryFlt_R_M op dst src) = dst # mem_lregs src"
| "arith_lregs (XIR_OneOpDivMulBase_R op sz rdx rax src) = [rdx, rax, src]"
| "arith_lregs (XIR_OneOpDivMulBase_M op sz rdx rax src) = rdx # rax # mem_lregs src"
| "arith_lregs (XIR_Shift_R_R op sz dst src) = [dst, src]"
| "arith_lregs (XIR_Shift_R_I op sz dst src) = [dst]"
| "arith_lregs (XIR_Unary op sz dst) = [dst]"

definition sext_lregs :: "nat \<Rightarrow> nat \<Rightarrow> nat list" where
  [simp]: "sext_lregs rdx rax = [rax, rdx]"

fun mov_lregs :: "nat XIR_MovInstr \<Rightarrow> nat list" where
  "mov_lregs (XIR_Mov_R_R sz dst src) = [src, dst]"
| "mov_lregs (XIR_Mov_R_I sz dst src) = [dst]"
| "mov_lregs (XIR_Mov_R_M sz dst src) = mem_lregs src @ [dst]"
| "mov_lregs (XIR_Mov_R_RH dst src) = [src, dst]"
| "mov_lregs (XIR_Mov_M_R sz dst src) = mem_lregs dst @ [src]"
| "mov_lregs (XIR_Mov_M_I sz dst src) = mem_lregs dst"
| "mov_lregs (XIR_Convert_R_R op dst_size src_size dst src) = [src, dst]"
| "mov_lregs (XIR_Convert_R_M op dst_size src_size dst src) = mem_lregs src @ [dst]"
| "mov_lregs (XIR_SExtAxToDx sz rdx rax) = sext_lregs rdx rax"
| "mov_lregs (XIR_MovFlt_R_R k dst src) = [src, dst]"
| "mov_lregs (XIR_MovFlt_R_M k dst src) = mem_lregs src @ [dst]"
| "mov_lregs (XIR_MovFlt_M_R k dst src) = src # mem_lregs dst"
| "mov_lregs (XIR_Flt2Flt_R_R k dst src) = [src, dst]"
| "mov_lregs (XIR_Flt2Flt_R_M k dst src) = mem_lregs src @ [dst]"
| "mov_lregs (XIR_Flt2Int_R_R k dst_size dst src) = [src, dst]"
| "mov_lregs (XIR_Flt2Int_R_M k dst_size dst src) = mem_lregs src @ [dst]"
| "mov_lregs (XIR_Int2Flt_R_R k src_size dst src) = [src, dst]"
| "mov_lregs (XIR_Int2Flt_R_M k src_size dst src) = mem_lregs src @ [dst]"
| "mov_lregs (XIR_LEA dst mem) = mem_lregs mem @ [dst]"

fun arg_lregs :: "nat XIR_InstrCallArg \<Rightarrow> nat list" where
  "arg_lregs (XIR_PrimArg reg slot) = [reg]"
| "arg_lregs (XIR_ObjArg addr slot) = mem_lregs addr"

fun call_value_lregs :: "nat XIR_CallValue \<Rightarrow> nat list" where
  "call_value_lregs XIR_CallNoValue = []"
| "call_value_lregs (XIR_CallReg reg) = [reg]"
| "call_value_lregs (XIR_CallAddr addr) = mem_lregs addr"

fun ctrl_lregs :: "nat XIR_CtrlInstr \<Rightarrow> nat list" where
  "ctrl_lregs (XIR_Cmp_R_R sz op1 op2) = [op1, op2]"
| "ctrl_lregs (XIR_Cmp_R_I sz op1 op2) = [op1]"
| "ctrl_lregs (XIR_Cmp_R_M sz op1 op2) = op1 # mem_lregs op2"
| "ctrl_lregs (XIR_Cmp_M_R sz op1 op2) = mem_lregs op1 @ [op2]"
| "ctrl_lregs (XIR_Cmp_M_I sz op1 op2) = mem_lregs op1"
| "ctrl_lregs (XIR_CmpFlt_R_R k op1 op2) = [op1, op2]"
| "ctrl_lregs (XIR_CmpFlt_R_M k op1 op2) = op1 # mem_lregs op2"
| "ctrl_lregs (XIR_Jmp target) = []"
| "ctrl_lregs (XIR_JmpCC cond true_bb false_bb) = []"
| "ctrl_lregs (XIR_SetCC cond dst) = [dst]"
| "ctrl_lregs (XIR_RepMovsb rdi rsi rcx) = [rdi, rsi, rcx]"
| "ctrl_lregs (XIR_RepStosb rdi rax rcx) = [rdi, rax, rcx]"
| "ctrl_lregs (XIR_Syscall rax rcx r11 args) = rax # rcx # r11 # args"
| "ctrl_lregs (XIR_Ret rax rdx) =
     (if rax \<noteq> XIR_REG_COUNT then [rax] else []) @ (if rdx \<noteq> XIR_REG_COUNT then [rdx] else [])"
| "ctrl_lregs (XIR_Call proc_sym dst args stack_info save_reg_mask) = concat (map arg_lregs args) @ call_value_lregs dst"
| "ctrl_lregs (XIR_Call_R proc_loc dst args stack_info save_reg_mask) =
     proc_loc # concat (map arg_lregs args) @ call_value_lregs dst"

fun instr_lregs :: "nat XIR_Instr \<Rightarrow> nat list" where
  "instr_lregs (XIR_Arith i) = arith_lregs i"
| "instr_lregs (XIR_Move i) = mov_lregs i"
| "instr_lregs (XIR_Ctrl i) = ctrl_lregs i"

text \<open>The last instruction number of a block, zero for a block without instructions.\<close>

fun bblock_intervals :: "XIR_Builder \<Rightarrow> (u32 \<times> nat XIR_Instr) list \<Rightarrow> int \<Rightarrow> (int \<times> XIR_Builder) option" where
  "bblock_intervals b [] ino = Some (ino, b)"
| "bblock_intervals b ((n, instr) # instrs) ino = do {
     let ino = uint n;
     b \<leftarrow> touch_lregs b (instr_lregs instr) ino;
     bblock_intervals b instrs ino }"

definition XIR_compute_bblock_live_intervals :: "XIR_Builder \<Rightarrow> XIR_BBlock \<Rightarrow> (int \<times> XIR_Builder) option" where
  "XIR_compute_bblock_live_intervals b bblock = bblock_intervals b (xb_instrs bblock) 0"

fun bblocks_intervals :: "XIR_Builder \<Rightarrow> XIR_BBlock list \<Rightarrow> int \<Rightarrow> (int \<times> XIR_Builder) option" where
  "bblocks_intervals b [] ino = Some (ino, b)"
| "bblocks_intervals b (bblock # bblocks) ino = do {
     (ino, b) \<leftarrow> XIR_compute_bblock_live_intervals b bblock;
     bblocks_intervals b bblocks ino }"

definition XIR_compute_live_intervals :: "XIR_Code \<Rightarrow> nat \<Rightarrow> XIR_Builder \<Rightarrow> XIR_Builder option" where
  "XIR_compute_live_intervals code lreg_rbp b = do {
     (ino, b) \<leftarrow> bblocks_intervals b (xc_bblocks code) 0;
     XIR_touch_lreg b lreg_rbp ino }"

end
