(* ===== verification/Livevar_Correct.thy ===== *)
theory Livevar_Correct
  imports Livevar Reg_Alloc_Main
begin

text \<open>
  Correctness of the live intervals: the range of a root is exactly the span of the instructions that name one of its
  aliases. Together with the register allocator: two registers of which one is in use before and after an instruction
  that names the other do not share a physical register.
\<close>

section \<open>The registers of an instruction\<close>

text \<open>
  The set function of the datatype gives every register that an instruction names; the touched registers are these,
  when an address without a scale has no index register.
\<close>

fun addr_wf :: "nat XIR_MemAddr \<Rightarrow> bool" where
  "addr_wf (XIR_ADDR_SIBD base_reg index_reg disp scale) = (scale = 0 \<longrightarrow> index_reg = XIR_REG_COUNT)"
| "addr_wf _ = True"

fun arith_addrs :: "'r XIR_ArithInstr \<Rightarrow> 'r XIR_MemAddr list" where
  "arith_addrs (XIR_Binary_R_M op sz dst src) = [src]"
| "arith_addrs (XIR_BinaryFlt_R_M op dst src) = [src]"
| "arith_addrs (XIR_OneOpDivMulBase_M op sz rdx rax src) = [src]"
| "arith_addrs _ = []"

fun mov_addrs :: "'r XIR_MovInstr \<Rightarrow> 'r XIR_MemAddr list" where
  "mov_addrs (XIR_Mov_R_M sz dst src) = [src]"
| "mov_addrs (XIR_Mov_M_R sz dst src) = [dst]"
| "mov_addrs (XIR_Mov_M_I sz dst src) = [dst]"
| "mov_addrs (XIR_Convert_R_M op dst_size src_size dst src) = [src]"
| "mov_addrs (XIR_MovFlt_R_M k dst src) = [src]"
| "mov_addrs (XIR_MovFlt_M_R k dst src) = [dst]"
| "mov_addrs (XIR_Flt2Flt_R_M k dst src) = [src]"
| "mov_addrs (XIR_Flt2Int_R_M k dst_size dst src) = [src]"
| "mov_addrs (XIR_Int2Flt_R_M k src_size dst src) = [src]"
| "mov_addrs (XIR_LEA dst mem) = [mem]"
| "mov_addrs _ = []"

fun arg_addrs :: "'r XIR_InstrCallArg \<Rightarrow> 'r XIR_MemAddr list" where
  "arg_addrs (XIR_PrimArg reg place) = []"
| "arg_addrs (XIR_ObjArg addr place) = [addr]"

fun call_value_addrs :: "'r XIR_CallValue \<Rightarrow> 'r XIR_MemAddr list" where
  "call_value_addrs (XIR_CallAddr addr) = [addr]"
| "call_value_addrs _ = []"

fun ctrl_addrs :: "'r XIR_CtrlInstr \<Rightarrow> 'r XIR_MemAddr list" where
  "ctrl_addrs (XIR_Cmp_R_M sz op1 op2) = [op2]"
| "ctrl_addrs (XIR_Cmp_M_R sz op1 op2) = [op1]"
| "ctrl_addrs (XIR_Cmp_M_I sz op1 op2) = [op1]"
| "ctrl_addrs (XIR_CmpFlt_R_M k op1 op2) = [op2]"
| "ctrl_addrs (XIR_Call proc_sym dst args stack_info m) = concat (map arg_addrs args) @ call_value_addrs dst"
| "ctrl_addrs (XIR_Call_R proc_loc dst args stack_info m) = concat (map arg_addrs args) @ call_value_addrs dst"
| "ctrl_addrs _ = []"

fun instr_addrs :: "'r XIR_Instr \<Rightarrow> 'r XIR_MemAddr list" where
  "instr_addrs (XIR_Arith i) = arith_addrs i"
| "instr_addrs (XIR_Move i) = mov_addrs i"
| "instr_addrs (XIR_Ctrl i) = ctrl_addrs i"

definition instr_wf :: "nat XIR_Instr \<Rightarrow> bool" where
  "instr_wf i \<longleftrightarrow> (\<forall>a \<in> set (instr_addrs i). addr_wf a)"

lemma mem_lregs_set: "addr_wf a \<Longrightarrow> set (mem_lregs a) - {XIR_REG_COUNT} = set_XIR_MemAddr a - {XIR_REG_COUNT}"
  by (cases a) auto

lemma mem_lregs_iff: "addr_wf a \<Longrightarrow> r \<noteq> XIR_REG_COUNT \<Longrightarrow> r \<in> set (mem_lregs a) \<longleftrightarrow> r \<in> set_XIR_MemAddr a"
  using mem_lregs_set by blast

lemma arg_lregs_iff:
  "\<forall>a \<in> set (arg_addrs i). addr_wf a \<Longrightarrow> r \<noteq> XIR_REG_COUNT \<Longrightarrow> r \<in> set (arg_lregs i) \<longleftrightarrow> r \<in> set_XIR_InstrCallArg i"
  by (cases i) (auto simp: mem_lregs_iff)

lemma call_value_lregs_iff:
  "\<forall>a \<in> set (call_value_addrs v). addr_wf a \<Longrightarrow> r \<noteq> XIR_REG_COUNT \<Longrightarrow>
   r \<in> set (call_value_lregs v) \<longleftrightarrow> r \<in> set_XIR_CallValue v"
  by (cases v) (auto simp: mem_lregs_iff)

lemma arith_lregs_iff:
  "\<forall>a \<in> set (arith_addrs i). addr_wf a \<Longrightarrow> r \<noteq> XIR_REG_COUNT \<Longrightarrow> r \<in> set (arith_lregs i) \<longleftrightarrow> r \<in> set_XIR_ArithInstr i"
  by (cases i) (auto simp: mem_lregs_iff)

lemma mov_lregs_iff:
  "\<forall>a \<in> set (mov_addrs i). addr_wf a \<Longrightarrow> r \<noteq> XIR_REG_COUNT \<Longrightarrow> r \<in> set (mov_lregs i) \<longleftrightarrow> r \<in> set_XIR_MovInstr i"
  by (cases i) (auto simp: mem_lregs_iff)

lemma ctrl_lregs_iff:
  "\<forall>a \<in> set (ctrl_addrs i). addr_wf a \<Longrightarrow> r \<noteq> XIR_REG_COUNT \<Longrightarrow> r \<in> set (ctrl_lregs i) \<longleftrightarrow> r \<in> set_XIR_CtrlInstr i"
  by (cases i) (auto simp: mem_lregs_iff arg_lregs_iff call_value_lregs_iff ball_Un)

lemma instr_lregs_iff: "instr_wf i \<Longrightarrow> r \<noteq> XIR_REG_COUNT \<Longrightarrow> r \<in> set (instr_lregs i) \<longleftrightarrow> r \<in> set_XIR_Instr i"
  by (cases i) (auto simp: instr_wf_def arith_lregs_iff mov_lregs_iff ctrl_lregs_iff)

section \<open>The numbers of the instructions\<close>

definition stream :: "XIR_Code \<Rightarrow> (u32 \<times> nat XIR_Instr) list" where
  "stream c = concat (map xb_instrs (xc_bblocks c))"

definition numbered :: "XIR_Code \<Rightarrow> bool" where
  "numbered c \<longleftrightarrow> xc_num_instrs c < 2 ^ 32 \<and> map fst (stream c) = map of_nat [0..<xc_num_instrs c]"

text \<open>Blocks are filled one after the other: an instruction goes to a block after which all are empty.\<close>

definition is_open :: "XIR_Code \<Rightarrow> nat \<Rightarrow> bool" where
  "is_open c k \<longleftrightarrow> k < length (xc_bblocks c) \<and> (\<forall>j < length (xc_bblocks c). k < j \<longrightarrow> xb_instrs (xc_bblocks c ! j) = [])"

lemma stream_add:
  assumes "is_open c k" "XIR_add_lir_instr i k c = Some c'"
  shows "stream c' = stream c @ [(of_nat (xc_num_instrs c), i)]" "xc_num_instrs c' = xc_num_instrs c + 1"
proof -
  let ?bs = "xc_bblocks c"
  have k: "k < length ?bs" and e: "concat (map xb_instrs (drop (Suc k) ?bs)) = []"
    using assms(1) by (auto simp: is_open_def concat_eq_Nil_conv in_set_conv_nth)
  have c': "c' = c\<lparr>xc_num_instrs := xc_num_instrs c + 1,
      xc_bblocks := ?bs[k := XIR_bblock_add_instr (?bs ! k) (of_nat (xc_num_instrs c), i)]\<rparr>"
    using assms(2) k by (simp add: XIR_add_lir_instr_def Let_def)
  have s: "stream c = concat (map xb_instrs (take k ?bs)) @ xb_instrs (?bs ! k)"
    unfolding stream_def using e arg_cong[OF id_take_nth_drop[OF k], of "concat \<circ> map xb_instrs"] by simp
  show "stream c' = stream c @ [(of_nat (xc_num_instrs c), i)]"
    unfolding s using k e by (simp add: stream_def c' upd_conv_take_nth_drop XIR_bblock_add_instr_def)
  show "xc_num_instrs c' = xc_num_instrs c + 1" by (simp add: c')
qed

lemma numbered_add:
  assumes "numbered c" "is_open c k" "XIR_add_lir_instr i k c = Some c'" "xc_num_instrs c' < 2 ^ 32"
  shows "numbered c'"
  using assms stream_add[OF assms(2,3)] by (simp add: numbered_def)

lemma numbered_map:
  assumes "numbered c"
  shows "map (\<lambda>x. uint (fst x)) (stream c) = map int [0..<xc_num_instrs c]"
proof -
  have "map (\<lambda>x. uint (fst x)) (stream c) = map uint (map fst (stream c))" by simp
  also have "\<dots> = map int [0..<xc_num_instrs c]"
    using assms by (auto simp: numbered_def uint_nat take_bit_nat_eq_self unat_of_nat intro!: map_cong)
  finally show ?thesis .
qed

section \<open>The touches of a procedure\<close>

text \<open>What the traversal does is to touch registers one after the other, each with the number of its instruction.\<close>

fun touch_all :: "XIR_Builder \<Rightarrow> (int \<times> nat) list \<Rightarrow> XIR_Builder option" where
  "touch_all b [] = Some b"
| "touch_all b ((ino, r) # es) = do {
     b \<leftarrow> XIR_touch_lreg b r ino;
     touch_all b es }"

definition touches :: "(u32 \<times> nat XIR_Instr) list \<Rightarrow> (int \<times> nat) list" where
  "touches instrs = concat (map (\<lambda>(n, i). map (Pair (uint n)) (instr_lregs i)) instrs)"

lemma touch_all_append: "touch_all b (xs @ ys) = Option.bind (touch_all b xs) (\<lambda>b. touch_all b ys)"
  by (induction b xs rule: touch_all.induct) (auto simp: bind_eq_None_conv split: bind_splits)

lemma touch_lregs_all: "touch_lregs b rs ino = touch_all b (map (Pair ino) rs)"
  by (induction b rs ino rule: touch_lregs.induct) (auto split: bind_splits)

lemma bblock_intervals_all:
  "bblock_intervals b instrs ino =
   map_option (Pair (if instrs = [] then ino else uint (fst (last instrs)))) (touch_all b (touches instrs))"
proof (induction b instrs ino rule: bblock_intervals.induct)
  case (2 b n instr instrs ino)
  show ?case
    by (cases "touch_all b (map (Pair (uint n)) (instr_lregs instr))")
      (auto simp: touches_def touch_lregs_all touch_all_append 2 Let_def)
qed (simp add: touches_def)

lemma bblocks_intervals_all:
  "bblocks_intervals b bbs ino =
   map_option (Pair (if bbs = [] then ino else if xb_instrs (last bbs) = [] then 0 else uint (fst (last (xb_instrs (last bbs))))))
     (touch_all b (touches (concat (map xb_instrs bbs))))"
proof (induction b bbs ino rule: bblocks_intervals.induct)
  case (2 b bblock bblocks ino)
  show ?case
    by (cases "touch_all b (touches (xb_instrs bblock))")
      (auto simp: touches_def XIR_compute_bblock_live_intervals_def bblock_intervals_all touch_all_append 2)
qed (simp add: touches_def)

text \<open>The touches of a root, and the range that they leave.\<close>

definition hits :: "nat list \<Rightarrow> (int \<times> nat) list \<Rightarrow> nat \<Rightarrow> int list" where
  "hits roots es x = map fst (filter (\<lambda>(ino, r). r \<noteq> XIR_REG_COUNT \<and> leads roots r x) es)"

definition span_of :: "XIR_RegRange \<Rightarrow> int list \<Rightarrow> XIR_RegRange" where
  "span_of rng is = (if is = [] then rng else rng\<lparr>rr_start := hd is, rr_end := last is\<rparr>)"

lemma hits_append: "hits roots (es @ es') x = hits roots es x @ hits roots es' x"
  by (simp add: hits_def)

lemma hits_fst: "set (hits roots es x) \<subseteq> fst ` set es"
  by (auto simp: hits_def)

lemma touch_range_span:
  assumes "rr_start rng = -1" "\<forall>i \<in> set is. 0 \<le> i \<and> i \<le> ino"
  shows "touch_range (span_of rng is) ino = Some (span_of rng (is @ [ino]))"
proof (cases "is = []")
  case False
  then have "hd is \<noteq> -1" "last is \<le> ino" using assms(2) hd_in_set[of "is"] last_in_set[of "is"] by force+
  then show ?thesis using False by (simp add: touch_range_def span_of_def)
qed (use assms in \<open>simp add: touch_range_def span_of_def\<close>)

definition spans :: "XIR_Builder \<Rightarrow> (int \<times> nat) list \<Rightarrow> XIR_RegRange list" where
  "spans b es = map (\<lambda>x. span_of (lreg_ranges b ! x) (hits (lreg_aliases b) es x)) [0..<num_regs b]"

lemma touch_all_effect:
  assumes wf: "builder_wf b" and st: "\<forall>x < num_regs b. rr_start (lreg_ranges b ! x) = -1"
  shows "sorted (map fst es) \<Longrightarrow> \<forall>(ino, r) \<in> set es. 0 \<le> ino \<and> (r = XIR_REG_COUNT \<or> r < num_regs b) \<Longrightarrow>
    \<exists>roots. touch_all b es = Some (b\<lparr>lreg_aliases := roots, lreg_ranges := spans b es\<rparr>) \<and>
      builder_wf (b\<lparr>lreg_aliases := roots, lreg_ranges := spans b es\<rparr>) \<and> same_aliases b (b\<lparr>lreg_aliases := roots\<rparr>)"
proof (induction es rule: rev_induct)
  case Nil
  have "spans b [] = lreg_ranges b"
    using wf by (auto simp: spans_def hits_def span_of_def builder_wf_def intro: nth_equalityI)
  then show ?case using wf by (intro exI[of _ "lreg_aliases b"]) (simp add: same_aliases_def)
next
  case (snoc e es)
  obtain ino r where e: "e = (ino, r)" by (cases e)
  obtain roots where b1: "touch_all b es = Some (b\<lparr>lreg_aliases := roots, lreg_ranges := spans b es\<rparr>)"
      "builder_wf (b\<lparr>lreg_aliases := roots, lreg_ranges := spans b es\<rparr>)" "same_aliases b (b\<lparr>lreg_aliases := roots\<rparr>)"
    using snoc by (auto simp: sorted_append)
  let ?b1 = "b\<lparr>lreg_aliases := roots, lreg_ranges := spans b es\<rparr>"
  show ?case
  proof (cases "r = XIR_REG_COUNT")
    case True
    have "spans b (es @ [e]) = spans b es" by (simp add: spans_def hits_append, simp add: hits_def e True)
    then show ?thesis using b1 e True by (intro exI[of _ roots]) (simp add: touch_all_append XIR_touch_lreg_def)
  next
    case False
    then have r: "r < num_regs ?b1" using snoc.prems(2) e by auto
    obtain x roots' where x: "XIR_find_alias_reg ?b1 r = Some (x, ?b1\<lparr>lreg_aliases := roots'\<rparr>)"
        "leads (lreg_aliases ?b1) r x" "builder_wf (?b1\<lparr>lreg_aliases := roots'\<rparr>)" "same_aliases ?b1 (?b1\<lparr>lreg_aliases := roots'\<rparr>)"
      using find_alias_reg_wf[OF b1(2) r] by blast
    have rx: "leads (lreg_aliases b) r y \<longleftrightarrow> y = x" for y
      using x(2) b1(3) leads_iff by (auto simp: same_aliases_def)
    have xl: "x < num_regs b" using leads_props[OF x(2)] b1(2) by (simp add: builder_wf_def)
    have h: "\<forall>i \<in> set (hits (lreg_aliases b) es x). 0 \<le> i \<and> i \<le> ino"
      using snoc.prems hits_fst[of "lreg_aliases b" es x] unfolding e by (fastforce simp: sorted_append)
    have t: "touch_range (spans b es ! x) ino = Some (span_of (lreg_ranges b ! x) (hits (lreg_aliases b) es x @ [ino]))"
      using touch_range_span[OF _ h] st xl by (simp add: spans_def)
    have new: "spans b (es @ [e]) = (spans b es)[x := span_of (lreg_ranges b ! x) (hits (lreg_aliases b) es x @ [ino])]"
      using False unfolding spans_def hits_append
      by (intro nth_equalityI) (auto simp: nth_list_update hits_def e rx)
    have lr: "length (spans b es) = num_regs b" by (simp add: spans_def)
    have ll: "rr_lreg (span_of rng is) = rr_lreg rng" for rng "is" by (simp add: span_of_def)
    have "builder_wf (b\<lparr>lreg_aliases := roots', lreg_ranges := spans b (es @ [e])\<rparr>)"
      using x(3) wf by (auto simp: builder_wf_def spans_def ll)
    moreover have "touch_all b (es @ [e]) = Some (b\<lparr>lreg_aliases := roots', lreg_ranges := spans b (es @ [e])\<rparr>)"
      using b1(1) x(1) t r xl lr False by (simp add: touch_all_append e XIR_touch_lreg_def new[unfolded e])
    ultimately show ?thesis using x(4) b1(3) by (auto simp: same_aliases_def)
  qed
qed

section \<open>The intervals are exact\<close>

text \<open>
  What the emission of a procedure leaves: registers without a range, instructions numbered in order that name
  registers of the builder, and a last block that is not empty (it ends with a jump or a return).
\<close>

definition procedure_ok :: "XIR_Code \<Rightarrow> nat \<Rightarrow> XIR_Builder \<Rightarrow> bool" where
  "procedure_ok c rbp b \<longleftrightarrow> builder_wf b \<and> (\<forall>x < num_regs b. rr_start (lreg_ranges b ! x) = -1) \<and> numbered c \<and>
     (\<forall>(n, i) \<in> set (stream c). instr_wf i \<and> (\<forall>r \<in> set_XIR_Instr i. r = XIR_REG_COUNT \<or> r < num_regs b)) \<and>
     xc_bblocks c \<noteq> [] \<and> xb_instrs (last (xc_bblocks c)) \<noteq> [] \<and> rbp < num_regs b"

definition named_at :: "XIR_Code \<Rightarrow> XIR_Builder \<Rightarrow> nat \<Rightarrow> int set" where
  "named_at c b x = {uint n |n i r. (n, i) \<in> set (stream c) \<and> r \<in> set_XIR_Instr i \<and> r \<noteq> XIR_REG_COUNT \<and>
     leads (lreg_aliases b) r x}"

text \<open>The frame pointer is in use up to the last instruction.\<close>

definition used_at :: "XIR_Code \<Rightarrow> nat \<Rightarrow> XIR_Builder \<Rightarrow> nat \<Rightarrow> int set" where
  "used_at c rbp b x =
     named_at c b x \<union> {ino. leads (lreg_aliases b) rbp x \<and> ino = int (xc_num_instrs c) - 1}"

lemma last_stream:
  assumes "procedure_ok c rbp b"
  shows "uint (fst (last (xb_instrs (last (xc_bblocks c))))) = int (xc_num_instrs c) - 1"
proof -
  let ?bs = "xc_bblocks c"
  have n: "xc_num_instrs c < 2 ^ 32" "map fst (stream c) = map of_nat [0..<xc_num_instrs c]"
    and ne: "?bs \<noteq> []" "xb_instrs (last ?bs) \<noteq> []"
    using assms by (auto simp: procedure_ok_def numbered_def)
  have s: "stream c = concat (map xb_instrs (butlast ?bs)) @ xb_instrs (last ?bs)"
    unfolding stream_def using arg_cong[OF append_butlast_last_id[OF ne(1)], of "concat \<circ> map xb_instrs"] by simp
  then have l: "last (stream c) = last (xb_instrs (last ?bs))" and sn: "stream c \<noteq> []" using ne(2) by simp_all
  have p: "0 < xc_num_instrs c" using n(2) sn by (cases "xc_num_instrs c") auto
  have "fst (last (stream c)) = last (map fst (stream c))" using sn by (simp add: last_map)
  also have "\<dots> = of_nat (xc_num_instrs c - 1)" unfolding n(2) using p by (simp add: last_map)
  finally have "uint (fst (last (stream c))) = int (xc_num_instrs c - 1)"
    using n(1) by (simp add: uint_nat take_bit_nat_eq_self unat_of_nat)
  then show ?thesis using p by (simp add: l of_nat_diff)
qed

abbreviation all_touches :: "XIR_Code \<Rightarrow> nat \<Rightarrow> (int \<times> nat) list" where
  "all_touches c rbp \<equiv> touches (stream c) @ [(int (xc_num_instrs c) - 1, rbp)]"

lemma sorted_touches: "sorted (map (uint \<circ> fst) instrs) \<Longrightarrow> sorted (map fst (touches instrs))"
  by (induction instrs) (auto simp: touches_def sorted_append split_beta comp_def map_replicate_const)

lemma touches_iff: "(ino, r) \<in> set (touches s) \<longleftrightarrow> (\<exists>n i. (n, i) \<in> set s \<and> ino = uint n \<and> r \<in> set (instr_lregs i))"
  by (auto simp: touches_def)

lemma touches_props:
  assumes "procedure_ok c rbp b"
  shows "sorted (map fst (all_touches c rbp))"
    "\<forall>(ino, r) \<in> set (all_touches c rbp). 0 \<le> ino \<and> (r = XIR_REG_COUNT \<or> r < num_regs b)"
    "set (hits (lreg_aliases b) (all_touches c rbp) x) = used_at c rbp b x"
proof -
  have n: "numbered c" and w: "builder_wf b" "rbp < num_regs b"
    and i: "\<And>n i. (n, i) \<in> set (stream c) \<Longrightarrow> instr_wf i \<and> (\<forall>r \<in> set_XIR_Instr i. r = XIR_REG_COUNT \<or> r < num_regs b)"
    using assms by (auto simp: procedure_ok_def)
  have rn: "rbp \<noteq> XIR_REG_COUNT" using w by (simp add: builder_wf_def)
  have b: "uint m < int (xc_num_instrs c)" if "(m, i) \<in> set (stream c)" for m i
  proof -
    have "uint m \<in> set (map (\<lambda>x. uint (fst x)) (stream c))" using that by force
    then show ?thesis unfolding numbered_map[OF n] by auto
  qed
  have sl: "sorted (map fst (touches (stream c)))"
    using numbered_map[OF n] by (intro sorted_touches) (simp add: comp_def sorted_iff_nth_mono)
  have tb: "fst ` set (touches (stream c)) \<subseteq> {0..int (xc_num_instrs c) - 1}"
    using b by (fastforce simp: touches_def)
  then show "sorted (map fst (all_touches c rbp))" using sl by (auto simp: sorted_append)
  have "0 \<le> int (xc_num_instrs c) - 1" using last_stream[OF assms] uint_ge_0 by metis
  moreover have "r = XIR_REG_COUNT \<or> r < num_regs b" if t: "(ino, r) \<in> set (touches (stream c))" for ino r
    proof -
    obtain n j where j: "(n, j) \<in> set (stream c)" "r \<in> set (instr_lregs j)" using t unfolding touches_iff by blast
    then show ?thesis using i[OF j(1)] instr_lregs_iff by blast
  qed
  ultimately show "\<forall>(ino, r) \<in> set (all_touches c rbp). 0 \<le> ino \<and> (r = XIR_REG_COUNT \<or> r < num_regs b)"
    using tb w(2) by force
  have named: "set (hits (lreg_aliases b) (touches (stream c)) x) = named_at c b x"
  proof (intro set_eqI iffI)
    fix ino assume "ino \<in> set (hits (lreg_aliases b) (touches (stream c)) x)"
    then obtain n j r where r: "(n, j) \<in> set (stream c)" "ino = uint n" "r \<in> set (instr_lregs j)" "r \<noteq> XIR_REG_COUNT"
       "leads (lreg_aliases b) r x"
      by (auto simp: hits_def touches_iff)
    then show "ino \<in> named_at c b x" using i[OF r(1)] instr_lregs_iff by (auto simp: named_at_def)
  next
    fix ino assume "ino \<in> named_at c b x"
    then obtain n j r where r: "(n, j) \<in> set (stream c)" "ino = uint n" "r \<in> set_XIR_Instr j" "r \<noteq> XIR_REG_COUNT"
       "leads (lreg_aliases b) r x"
      by (auto simp: named_at_def)
    then have "(ino, r) \<in> set (touches (stream c))" using i[OF r(1)] instr_lregs_iff by (auto simp: touches_iff)
    then show "ino \<in> set (hits (lreg_aliases b) (touches (stream c)) x)" using r(4,5) by (force simp: hits_def)
  qed
  show "set (hits (lreg_aliases b) (all_touches c rbp) x) = used_at c rbp b x"
  proof -
    have "set (hits (lreg_aliases b) [(int (xc_num_instrs c) - 1, rbp)] x) =
        {ino. leads (lreg_aliases b) rbp x \<and> ino = int (xc_num_instrs c) - 1}"
      using rn by (simp add: hits_def)
    then show ?thesis using named by (simp only: hits_append set_append used_at_def)
  qed
qed

lemma span_of_sorted:
  "sorted is \<Longrightarrow> span_of rng is =
     (if set is = {} then rng else rng\<lparr>rr_start := Min (set is), rr_end := Max (set is)\<rparr>)"
proof (cases "is = []")
  case False
  assume s: "sorted is"
  have "Min (set is) = hd is" using s False by (cases "is") (auto intro!: Min_eqI)
  moreover have "Max (set is) = last is"
  proof (rule Max_eqI)
    fix y assume "y \<in> set is"
    then obtain k where "k < length is" "y = is ! k" by (auto simp: in_set_conv_nth)
    then show "y \<le> last is" using s False by (simp add: last_conv_nth sorted_nth_mono)
  qed (use False in simp_all)
  ultimately show ?thesis using False by (simp add: span_of_def)
qed (simp add: span_of_def)

lemma live_intervals_run:
  assumes ok: "procedure_ok c rbp b"
  shows "\<exists>roots. XIR_compute_live_intervals c rbp b =
      Some (b\<lparr>lreg_aliases := roots, lreg_ranges := spans b (all_touches c rbp)\<rparr>) \<and>
    builder_wf (b\<lparr>lreg_aliases := roots, lreg_ranges := spans b (all_touches c rbp)\<rparr>) \<and>
    same_aliases b (b\<lparr>lreg_aliases := roots\<rparr>)"
proof -
  let ?ino = "int (xc_num_instrs c) - 1"
  have run: "XIR_compute_live_intervals c rbp b = touch_all b (all_touches c rbp)"
    using ok last_stream[OF ok]
    by (cases "touch_all b (touches (stream c))")
      (auto simp: XIR_compute_live_intervals_def bblocks_intervals_all stream_def[symmetric] touch_all_append procedure_ok_def
        split: Option.bind_splits)
  show ?thesis unfolding run
    using ok touches_props(1,2)[OF ok] by (intro touch_all_effect) (auto simp: procedure_ok_def)
qed

lemma spans_nth:
  assumes ok: "procedure_ok c rbp b" and x: "x < num_regs b"
  shows "spans b (all_touches c rbp) ! x =
    (if used_at c rbp b x = {} then lreg_ranges b ! x
     else (lreg_ranges b ! x)\<lparr>rr_start := Min (used_at c rbp b x), rr_end := Max (used_at c rbp b x)\<rparr>)"
proof -
  let ?h = "hits (lreg_aliases b) (all_touches c rbp) x"
  have "sorted ?h" using touches_props(1)[OF ok] unfolding hits_def by (rule sorted_filter)
  then show ?thesis using x span_of_sorted[of ?h] by (simp only: touches_props(3)[OF ok]) (simp add: spans_def)
qed

text \<open>
  C18. For a procedure whose instructions are numbered in order, the live intervals are computed without a failing
  assertion, no register changes its root, and the range of every root runs exactly from the first to the last
  instruction that names one of its aliases (the frame pointer stays in use up to the last instruction); a root that
  nothing names keeps its unset range, and nothing else of a range changes.
\<close>

theorem live_intervals_exact:
  assumes "procedure_ok c rbp b" "is_root b x"
  shows "\<exists>b'. XIR_compute_live_intervals c rbp b = Some b' \<and> builder_wf b' \<and> same_aliases b b' \<and>
    num_regs b' = num_regs b \<and>
    lreg_ranges b' ! x =
      (if used_at c rbp b x = {} then lreg_ranges b ! x
       else (lreg_ranges b ! x)\<lparr>rr_start := Min (used_at c rbp b x), rr_end := Max (used_at c rbp b x)\<rparr>)"
proof -
  obtain roots where r: "XIR_compute_live_intervals c rbp b =
      Some (b\<lparr>lreg_aliases := roots, lreg_ranges := spans b (all_touches c rbp)\<rparr>)"
    "builder_wf (b\<lparr>lreg_aliases := roots, lreg_ranges := spans b (all_touches c rbp)\<rparr>)"
    "same_aliases b (b\<lparr>lreg_aliases := roots\<rparr>)"
    using live_intervals_run[OF assms(1)] by blast
  then show ?thesis using spans_nth[OF assms(1), of x] assms(2) by (auto simp: is_root_def same_aliases_def)
qed

lemma allocatable_spans:
  assumes "allocatable scratch b" "procedure_ok c rbp b"
    "builder_wf (b\<lparr>lreg_aliases := roots, lreg_ranges := spans b es\<rparr>)" "same_aliases b (b\<lparr>lreg_aliases := roots\<rparr>)"
  shows "allocatable scratch (b\<lparr>lreg_aliases := roots, lreg_ranges := spans b es\<rparr>)"
    "is_root (b\<lparr>lreg_aliases := roots, lreg_ranges := spans b es\<rparr>) x = is_root b x"
proof -
  let ?b = "b\<lparr>lreg_aliases := roots, lreg_ranges := spans b es\<rparr>"
  have root: "is_root ?b x = is_root b x" for x
    using assms(3,4) leads_self[OF assms(3)] leads_self[of b] assms(2) by (simp add: same_aliases_def procedure_ok_def)
  have f: "rr_loc (spans b es ! i) = rr_loc (lreg_ranges b ! i)" "rr_ctrl (spans b es ! i) = rr_ctrl (lreg_ranges b ! i)"
      "rr_class (spans b es ! i) = rr_class (lreg_ranges b ! i)" if "i < num_regs b" for i
    using that by (simp_all add: spans_def span_of_def)
  have len: "length (spans b es) = num_regs b" "length (lreg_ranges b) = num_regs b"
    using assms(2) by (simp_all add: spans_def procedure_ok_def builder_wf_def)
  have "ctrl_regs_ok scratch (spans b es) i = ctrl_regs_ok scratch (lreg_ranges b) i" if "i < num_regs b" for i
    using that f len by (cases "rr_ctrl (lreg_ranges b ! i)") (auto simp: ctrl_regs_ok_def home_regs_def)
  then have "ctrl_regs_ok scratch (lreg_ranges ?b) i" if "is_root ?b i" for i
    using that root assms(1) by (simp add: allocatable_def is_root_def)
  then show "allocatable scratch ?b" using assms(1,3) f by (simp add: allocatable_def)
  show "is_root ?b x = is_root b x" by (rule root)
qed

lemma used_finite: "procedure_ok c rbp b \<Longrightarrow> finite (used_at c rbp b x)"
  using touches_props(3) by (metis List.finite_set)

section \<open>Two registers in use at the same time\<close>

text \<open>
  C17. When the live intervals of a procedure are given to the register allocator and it succeeds, a register in use
  before and after an instruction never shares its physical register with another register that the instruction names
  (unless the two are aliases).
\<close>

theorem live_registers_kept_apart:
  assumes ok: "procedure_ok c rbp b" and al: "allocatable scratch b"
    and li: "XIR_compute_live_intervals c rbp b = Some b'"
    and ra: "X64_linear_scan_reg_alloc target b' calls scratch init = Some res" "res_success res"
    and xy: "is_root b x" "is_root b y" "x \<noteq> y"
    and use: "i \<in> used_at c rbp b x" "j \<in> used_at c rbp b y" "k \<in> used_at c rbp b x" "i < j" "j < k"
    and r: "rr_loc (res_ranges res ! x) = XIR_LREG_LOC_REG r"
  shows "rr_loc (res_ranges res ! y) \<noteq> XIR_LREG_LOC_REG r"
proof
  assume ry: "rr_loc (res_ranges res ! y) = XIR_LREG_LOC_REG r"
  obtain roots where b': "b' = b\<lparr>lreg_aliases := roots, lreg_ranges := spans b (all_touches c rbp)\<rparr>"
     "builder_wf b'" "same_aliases b (b\<lparr>lreg_aliases := roots\<rparr>)"
    using live_intervals_run[OF ok] li by auto
  note al' = allocatable_spans[OF al ok b'(2)[unfolded b'(1)] b'(3), folded b'(1)]
  obtain s where s: "final_state target scratch b' init s" "res_ranges res = ra_ranges s"
    using linear_scan_result[OF al'(1) ra] by blast
  have "apart_inv (lreg_ranges b') s" using s(1) by (simp add: final_state_def)
  then have "ranges_apart (lreg_ranges b' ! x) (lreg_ranges b' ! y)"
    using xy r ry al'(2) unfolding apart_inv_def final_state_static(3)[OF s(1)] s(2) loc_def by auto
  moreover have "lreg_ranges b' ! z = (lreg_ranges b ! z)\<lparr>rr_start := Min (used_at c rbp b z), rr_end := Max (used_at c rbp b z)\<rparr>"
    if "z \<in> {x, y}" for z
    using that xy use spans_nth[OF ok, of z] by (auto simp: b'(1) is_root_def)
  ultimately have "Max (used_at c rbp b x) \<le> Min (used_at c rbp b y) \<or> Max (used_at c rbp b y) \<le> Min (used_at c rbp b x)"
    by (simp add: ranges_apart_def)
  moreover have "k \<le> Max (used_at c rbp b x)" "Min (used_at c rbp b x) \<le> i" "j \<le> Max (used_at c rbp b y)"
     "Min (used_at c rbp b y) \<le> j"
    using use used_finite[OF ok] by simp_all
  ultimately show False using use(4,5) by linarith
qed

section \<open>A sample\<close>

text \<open>A value that is kept while another one is loaded from the frame.\<close>

definition sample_code :: XIR_Code where
  "sample_code = \<lparr>xc_num_instrs = 4, xc_bblocks = [\<lparr>xb_id = 0, xb_flags = 0, xb_instrs =
     [(0, XIR_Move (XIR_Mov_R_I 8 1 5)),
      (1, XIR_Move (XIR_Mov_R_M 8 2 (XIR_ADDR_SIBD 0 XIR_REG_COUNT (- 8) 0))),
      (2, XIR_Arith (XIR_Unary XIR_Neg 8 1)),
      (3, XIR_Ctrl (XIR_Ret XIR_REG_COUNT XIR_REG_COUNT))]\<rparr>]\<rparr>"

definition sample_regs :: XIR_Builder where
  "sample_regs = \<lparr>num_regs = 3, lreg_ranges = [sample_range 0 (-1) (-1) (XIR_REG_ALLOC_CTRL_FORCE_REG X64_RBP),
     sample_range 1 (-1) (-1) XIR_REG_ALLOC_CTRL_NONE, sample_range 2 (-1) (-1) XIR_REG_ALLOC_CTRL_NONE],
     lreg_aliases = [0, 1, 2], lreg_sizes = [1, 1, 1], reg_map = [], stack_reg_mask = 0\<rparr>"

lemma less_three: "i < 3 \<longleftrightarrow> i = 0 \<or> i = 1 \<or> i = 2" for i :: nat
  by arith

lemma sample_alias: "r < 3 \<Longrightarrow> lreg_aliases sample_regs ! r = r" "length (lreg_aliases sample_regs) = 3"
  by (auto simp: sample_regs_def less_three)

lemma sample_leads: "leads (lreg_aliases sample_regs) r x \<longleftrightarrow> r < 3 \<and> x = r"
  using sample_alias by (auto intro: leads_root elim: leadsE)

lemma sample_regs_root: "is_root sample_regs i \<longleftrightarrow> i < 3"
  by (auto simp: is_root_def sample_regs_def less_three)

lemma sample_regs_wf: "builder_wf sample_regs"
proof -
  have "forest (lreg_aliases sample_regs) (\<lambda>i. i)"
    by (auto simp: forest_def sample_regs_def less_Suc_eq)
  then show ?thesis
    by (auto simp: builder_wf_def dsu_wf_def sample_regs_def XIR_REG_COUNT_def less_three sample_range_def)
qed

lemma sample_stream: "stream sample_code = xb_instrs (xc_bblocks sample_code ! 0)"
  by (simp add: stream_def sample_code_def)

lemma sample_procedure: "procedure_ok sample_code 0 sample_regs"
  unfolding procedure_ok_def numbered_def sample_stream using sample_regs_wf
  by (auto simp: sample_code_def sample_regs_def less_three sample_range_def instr_wf_def upt_rec)

lemma sample_used: "used_at sample_code 0 sample_regs 1 = {0, 2}" "used_at sample_code 0 sample_regs 2 = {1}"
  unfolding used_at_def named_at_def sample_leads sample_stream
  by (auto simp: sample_code_def XIR_REG_COUNT_def) (rule exI[of _ 0], auto, rule exI[of _ 2], auto, rule exI[of _ 1], auto)

lemma sample_regs_allocatable: "allocatable sample_scratch sample_regs"
proof -
  have "ctrl_regs_ok sample_scratch (lreg_ranges sample_regs) i" if "is_root sample_regs i" for i
    using that unfolding sample_regs_root less_three
    by (auto simp: ctrl_regs_ok_def sample_regs_def sample_range_def home_regs_def)
  then show ?thesis using sample_regs_wf sample_allocatable
    by (auto simp: allocatable_def) (auto simp: sample_regs_def less_three sample_range_def)
qed

definition sample_live :: XIR_Builder where
  "sample_live = sample_regs\<lparr>lreg_ranges := [sample_range 0 1 3 (XIR_REG_ALLOC_CTRL_FORCE_REG X64_RBP),
     sample_range 1 0 2 XIR_REG_ALLOC_CTRL_NONE, sample_range 2 1 1 XIR_REG_ALLOC_CTRL_NONE]\<rparr>"

lemma sample_live_run: "XIR_compute_live_intervals sample_code 0 sample_regs = Some sample_live"
  by (simp add: XIR_compute_live_intervals_def sample_code_def XIR_compute_bblock_live_intervals_def Let_def
      XIR_touch_lreg_def XIR_find_alias_reg_def sample_regs_def sample_live_def find_alias.simps touch_range_def
      sample_range_def XIR_REG_COUNT_def)

definition sample_live_result :: X64_RegAllocResult where
  "sample_live_result = \<lparr>res_stack_offset = 0, res_used_callee_regs = 32, res_success = True,
     res_ranges = [(lreg_ranges sample_live ! 0)\<lparr>rr_loc := XIR_LREG_LOC_REG X64_RBP\<rparr>,
       (lreg_ranges sample_live ! 1)\<lparr>rr_loc := XIR_LREG_LOC_REG X64_RAX\<rparr>,
       (lreg_ranges sample_live ! 2)\<lparr>rr_loc := XIR_LREG_LOC_REG X64_RCX\<rparr>],
     res_save_masks = []\<rparr>"

lemma sample_live_alloc: "X64_linear_scan_reg_alloc sample_target sample_live [] sample_scratch 0 = Some sample_live_result"
  unfolding X64_linear_scan_reg_alloc_def
  by (simp add: alloc_run_simps Let_def sample_live_def sample_regs_def sample_range_def sample_target_def
      sample_live_result_def XIR_find_alias_reg_def find_alias.simps x64_linux_caller_saved_reg_mask_def
      init_unhandled_numeral cong: bind_weak_cong option.case_cong_weak if_weak_cong)

lemma live_intervals_exact_witness:
  "\<exists>b'. XIR_compute_live_intervals sample_code 0 sample_regs = Some b' \<and> builder_wf b' \<and> same_aliases sample_regs b' \<and>
    num_regs b' = 3 \<and> lreg_ranges b' ! 1 = sample_range 1 0 2 XIR_REG_ALLOC_CTRL_NONE"
proof -
  have r: "is_root sample_regs 1" by (simp add: sample_regs_root)
  have m: "Min {0, 2} = (0 :: int)" "Max {0, 2} = (2 :: int)" by simp_all
  from live_intervals_exact[OF sample_procedure r, unfolded sample_used(1) m] show ?thesis
    by (simp add: sample_regs_def sample_range_def)
qed

lemma live_registers_kept_apart_witness:
  "rr_loc (res_ranges sample_live_result ! 2) \<noteq> XIR_LREG_LOC_REG X64_RAX"
  by (rule live_registers_kept_apart[OF sample_procedure sample_regs_allocatable sample_live_run sample_live_alloc,
        of 1 2 0 1 2])
    (simp_all add: sample_live_result_def sample_regs_root sample_used[unfolded One_nat_def] sample_used)

end
