(* ===== verification/Hash_Map.thy ===== *)
theory Hash_Map
  imports Prelude
begin

text \<open>
  The hash functions and the hash table of \<open>src/src/hash_map.c\<close>: open addressing with linear probing,
  a power of two of slots, and the key zero for an empty slot. Sizes and counts are natural numbers (the
  \<open>size_t\<close> of the code: an array of 2 to the 56 entries of 16 bytes still has a size in it, and the
  properties ask for no larger one); hashes, keys, values and the mask are 64-bit words. A null
  table is the empty list of entries. The allocator is a predicate that says for which capacities memory
  can be had.
\<close>

section \<open>Hash functions\<close>

text \<open>The logarithm of the least power of two that is not below \<open>c\<close>.\<close>

partial_function (option) calc_hmap_loop :: "u64 \<Rightarrow> u64 \<Rightarrow> u64 \<Rightarrow> u64 option" where
  "calc_hmap_loop c pow2_cap log2_cap =
     (if c > pow2_cap then calc_hmap_loop c (push_bit 1 pow2_cap) (log2_cap + 1) else Some log2_cap)"

declare calc_hmap_loop.simps [code]

definition calc_hmap_size :: "u64 \<Rightarrow> u64 option" where
  "calc_hmap_size c = calc_hmap_loop c 1 0"

definition hash_uint64 :: "u64 \<Rightarrow> u64" where
  "hash_uint64 h =
     (let h = h XOR drop_bit 27 h;
          h = h * 0x3C79AC492BA7B653;
          h = h XOR drop_bit 33 h;
          h = h * 0x1C69B3F74AC4AE35
      in h XOR drop_bit 27 h)"

definition hash_ptr :: "u64 \<Rightarrow> u64" where
  "hash_ptr ptr = hash_uint64 ptr"

definition hash_mix_uint64 :: "u64 \<Rightarrow> u64 \<Rightarrow> u64" where
  "hash_mix_uint64 a b = hash_uint64 (a XOR b)"

definition FNV_INIT :: u64 where
  "FNV_INIT = 0xcbf29ce484222325"

text \<open>A \<open>char\<close> is signed: it is extended with its sign before the exclusive or.\<close>

fun hash_bytes :: "string \<Rightarrow> u64 \<Rightarrow> u64" where
  "hash_bytes [] hash = hash"
| "hash_bytes (b # bs) hash = hash_bytes bs ((hash XOR scast (of_char b :: 8 word)) * 0x00000100000001b3)"

section \<open>The table\<close>

type_synonym HMapEntry = "u64 \<times> u64"

record HMap =
  entries :: "HMapEntry list"
  hm_cap :: nat
  hm_len :: nat
  hm_mask :: u64
  hm_alloc :: "nat \<Rightarrow> bool"

text \<open>The slot where a key is or would be stored; \<open>None\<close> when the loop does not end or leaves the table.\<close>

partial_function (option) put_slot :: "HMapEntry list \<Rightarrow> u64 \<Rightarrow> u64 \<Rightarrow> u64 \<Rightarrow> nat option" where
  "put_slot es msk key i = do {
     let i = i AND msk;
     assert_opt (unat i < length es);
     if fst (es ! unat i) = 0 \<or> fst (es ! unat i) = key then Some (unat i)
     else put_slot es msk key (i + 1) }"

declare put_slot.simps [code]

text \<open>Storing without a check of the load.\<close>

definition put_entry :: "HMap \<Rightarrow> u64 \<Rightarrow> u64 \<Rightarrow> HMap option" where
  "put_entry m key val = do {
     j \<leftarrow> put_slot (entries m) (hm_mask m) key (hash_uint64 key);
     Some (m\<lparr>entries := (entries m)[j := (key, val)],
             hm_len := (if fst (entries m ! j) = 0 then hm_len m + 1 else hm_len m)\<rparr>) }"

text \<open>
  A table that expands puts its entries into the new array, which may in turn expand it. The first
  argument bounds the depth of this recursion; two levels suffice (\<open>hmap_put_correct\<close>). The result
  \<open>False\<close> is the null pointer of an allocation that failed.
\<close>

fun hmap_put :: "nat \<Rightarrow> HMap \<Rightarrow> u64 \<Rightarrow> u64 \<Rightarrow> (bool \<times> HMap) option"
  and hmap_put_all :: "nat \<Rightarrow> HMapEntry list \<Rightarrow> HMap \<Rightarrow> HMap option"
  and hmap_expand :: "nat \<Rightarrow> HMap \<Rightarrow> nat \<Rightarrow> (bool \<times> HMap) option" where
  "hmap_put 0 m key val = None"
| "hmap_put (Suc d) m key val = do {
     assert_opt (key \<noteq> 0);
     (ok, m) \<leftarrow> (if 10 * (hm_len m + 1) \<ge> 6 * hm_cap m then hmap_expand d m (hm_cap m * 2) else Some (True, m));
     if \<not> ok then Some (False, m)
     else do { m \<leftarrow> put_entry m key val; Some (True, m) } }"
| "hmap_put_all d [] m = Some m"
| "hmap_put_all d (e # es) m =
     (if fst e > 0 then do { (ok, m) \<leftarrow> hmap_put d m (fst e) (snd e); hmap_put_all d es m }
      else hmap_put_all d es m)"
| "hmap_expand d m new_cap =
     (if new_cap \<le> hm_cap m then Some (True, m)
      else if \<not> hm_alloc m new_cap then Some (False, m)
      else do {
        let old = entries m;
        m \<leftarrow> hmap_put_all d old (m\<lparr>entries := replicate new_cap (0, 0), hm_cap := new_cap, hm_len := 0,
                                     hm_mask := of_nat new_cap - 1\<rparr>);
        Some (True, m) })"

text \<open>
  The first capacity is the \<open>int\<close> expression \<open>1 << cap_log2\<close>: from 31 on the shift overflows, which C leaves
  undefined.
\<close>

definition hmap :: "nat \<Rightarrow> (nat \<Rightarrow> bool) \<Rightarrow> HMap option" where
  "hmap cap_log2 alloc = do {
     assert_opt (cap_log2 < 31);
     (_, m) \<leftarrow> hmap_expand 2 \<lparr>entries = [], hm_cap = 0, hm_len = 0, hm_mask = 0, hm_alloc = alloc\<rparr> (2 ^ cap_log2);
     Some m }"

definition hmap_destroy :: "HMap \<Rightarrow> HMap" where
  "hmap_destroy m = m\<lparr>entries := [], hm_cap := 0, hm_len := 0, hm_mask := 0, hm_alloc := (\<lambda>_. True)\<rparr>"

partial_function (option) get_loop :: "HMapEntry list \<Rightarrow> u64 \<Rightarrow> u64 \<Rightarrow> u64 \<Rightarrow> u64 option option" where
  "get_loop es msk key i = do {
     let i = (i + 1) AND msk;
     assert_opt (unat i < length es);
     if fst (es ! unat i) = key then Some (Some (snd (es ! unat i)))
     else if fst (es ! unat i) \<noteq> 0 then get_loop es msk key i
     else Some None }"

declare get_loop.simps [code]

text \<open>The result \<open>Some None\<close> is the null pointer.\<close>

definition hmap_get :: "HMap \<Rightarrow> u64 \<Rightarrow> u64 option option" where
  "hmap_get m key = do {
     assert_opt (key \<noteq> 0);
     if entries m = [] then Some None
     else do {
       let i = hash_uint64 key AND hm_mask m;
       assert_opt (unat i < length (entries m));
       if fst (entries m ! unat i) = key then Some (Some (snd (entries m ! unat i)))
       else if fst (entries m ! unat i) = 0 then Some None
       else get_loop (entries m) (hm_mask m) key i } }"

definition hmap_get_obj :: "HMap \<Rightarrow> u64 \<Rightarrow> u64 option" where
  "hmap_get_obj m key = do { p \<leftarrow> hmap_get m key; Some (case p of Some v \<Rightarrow> v | None \<Rightarrow> 0) }"

end
