(* ===== verification/Cstring.thy ===== *)
theory Cstring
  imports Prelude
begin

text \<open>
  The C string functions and the character tables of \<open>src/src/cstring.c\<close>. A \<open>char*\<close> is the memory
  from the character it points to up to the end of its object, as a list of characters: a read past the end is
  \<open>None\<close>, and so is a loop that runs into it. A \<open>char\<close> is a character of HOL, whose number is its value as
  an unsigned char. (The bit masks and bit arrays of the same source file are in the theory \<open>Bits\<close>.)
\<close>

section \<open>Characters\<close>

abbreviation NUL :: char where "NUL \<equiv> CHR 0x00"
abbreviation NL :: char where "NL \<equiv> CHR 0x0A"
abbreviation BSLASH :: char where "BSLASH \<equiv> CHR 0x5C"
abbreviation SQUOTE :: char where "SQUOTE \<equiv> CHR 0x27"
abbreviation DQUOTE :: char where "DQUOTE \<equiv> CHR 0x22"

definition char_props :: "nat list" where
  "char_props =
   [8, 8, 8, 8, 8, 8, 8, 8, 8, 9, 9, 9, 8, 9, 8, 8, 8, 8, 8, 8, 8, 8, 8, 8, 8, 8, 8, 8, 8, 8, 8, 8,
    1, 0, 0, 0, 0, 0, 0, 0, 0, 0, 0, 0, 0, 0, 0, 0, 6, 6, 6, 6, 6, 6, 6, 6, 6, 6, 0, 0, 0, 0, 0, 0,
    0, 4, 4, 4, 4, 4, 4, 4, 4, 4, 4, 4, 4, 4, 4, 4, 4, 4, 4, 4, 4, 4, 4, 4, 4, 4, 4, 0, 0, 0, 0, 4,
    0, 4, 4, 4, 4, 4, 4, 4, 4, 4, 4, 4, 4, 4, 4, 4, 4, 4, 4, 4, 4, 4, 4, 4, 4, 4, 4, 0, 0, 0, 0, 8,
    0, 0, 0, 0, 0, 0, 0, 0, 0, 0, 0, 0, 0, 0, 0, 0, 0, 0, 0, 0, 0, 0, 0, 0, 0, 0, 0, 0, 0, 0, 0, 0,
    0, 0, 0, 0, 0, 0, 0, 0, 0, 0, 0, 0, 0, 0, 0, 0, 0, 0, 0, 0, 0, 0, 0, 0, 0, 0, 0, 0, 0, 0, 0, 0,
    0, 0, 0, 0, 0, 0, 0, 0, 0, 0, 0, 0, 0, 0, 0, 0, 0, 0, 0, 0, 0, 0, 0, 0, 0, 0, 0, 0, 0, 0, 0, 0,
    0, 0, 0, 0, 0, 0, 0, 0, 0, 0, 0, 0, 0, 0, 0, 0, 0, 0, 0, 0, 0, 0, 0, 0, 0, 0, 0, 0, 0, 0, 0, 0]"

definition is_whitespace :: "char \<Rightarrow> bool" where
  "is_whitespace c \<longleftrightarrow> and (char_props ! of_char c) 1 \<noteq> 0"

definition is_dec_digit :: "char \<Rightarrow> bool" where
  "is_dec_digit c \<longleftrightarrow> and (char_props ! of_char c) 2 \<noteq> 0"

definition is_alphanum :: "char \<Rightarrow> bool" where
  "is_alphanum c \<longleftrightarrow> and (char_props ! of_char c) 4 \<noteq> 0"

definition is_cntrl :: "char \<Rightarrow> bool" where
  "is_cntrl c \<longleftrightarrow> and (char_props ! of_char c) 8 \<noteq> 0"

text \<open>The tables with designated initialisers are zero elsewhere.\<close>

definition char_to_biased_digit :: "(char \<times> nat) list" where
  "char_to_biased_digit =
     [(CHR ''0'', 1), (CHR ''1'', 2), (CHR ''2'', 3), (CHR ''3'', 4), (CHR ''4'', 5), (CHR ''5'', 6),
      (CHR ''6'', 7), (CHR ''7'', 8), (CHR ''8'', 9), (CHR ''9'', 10), (CHR ''a'', 11), (CHR ''b'', 12),
      (CHR ''c'', 13), (CHR ''d'', 14), (CHR ''e'', 15), (CHR ''f'', 16), (CHR ''A'', 11), (CHR ''B'', 12),
      (CHR ''C'', 13), (CHR ''D'', 14), (CHR ''E'', 15), (CHR ''F'', 16)]"

definition biased_digit :: "char \<Rightarrow> nat" where
  "biased_digit c = (case map_of char_to_biased_digit c of Some d \<Rightarrow> d | None \<Rightarrow> 0)"

definition escaped_to_char :: "(char \<times> char) list" where
  "escaped_to_char =
     [(CHR ''0'', NUL), (CHR ''a'', CHR 0x07), (CHR ''b'', CHR 0x08), (CHR ''f'', CHR 0x0C), (CHR ''n'', NL),
      (CHR ''r'', CHR 0x0D), (CHR ''t'', CHR 0x09), (CHR ''v'', CHR 0x0B), (BSLASH, BSLASH), (SQUOTE, SQUOTE),
      (DQUOTE, DQUOTE), (CHR ''?'', CHR ''?'')]"

definition unescape_char :: "char \<Rightarrow> char" where
  "unescape_char c = (case map_of escaped_to_char c of Some d \<Rightarrow> d | None \<Rightarrow> NUL)"

section \<open>Comparison and copying\<close>

fun cstr_cmp :: "string \<Rightarrow> string \<Rightarrow> int option" where
  "cstr_cmp (a # s) (b # t) =
     (if a = b \<and> a \<noteq> NUL \<and> b \<noteq> NUL then cstr_cmp s t else Some (of_char a - of_char b))"
| "cstr_cmp _ _ = None"

fun ncmp_loop :: "string \<Rightarrow> string \<Rightarrow> nat \<Rightarrow> int option" where
  "ncmp_loop (a # s) (b # t) num =
     (if a = b \<and> a \<noteq> NUL \<and> b \<noteq> NUL \<and> num \<noteq> 0 then ncmp_loop s t (num - 1) else Some (of_char a - of_char b))"
| "ncmp_loop _ _ _ = None"

definition cstr_ncmp :: "string \<Rightarrow> string \<Rightarrow> nat \<Rightarrow> int option" where
  "cstr_ncmp s t num = (if num = 0 then Some 0 else ncmp_loop s t (num - 1))"

text \<open>The destination, the index of the next character of it, and the rest of the source.\<close>

fun ncpy_loop :: "string \<Rightarrow> nat \<Rightarrow> string \<Rightarrow> nat \<Rightarrow> string option" where
  "ncpy_loop dst i src 0 = Some dst"
| "ncpy_loop dst i (c # src) (Suc n) = do {
     assert_opt (i < length dst);
     if c \<noteq> NUL then ncpy_loop (dst[i := c]) (i + 1) src n
     else ncpy_loop (dst[i := NUL]) (i + 1) (c # src) n }"
| "ncpy_loop dst i [] (Suc n) = None"

definition cstr_ncpy :: "string \<Rightarrow> string \<Rightarrow> nat \<Rightarrow> string option" where
  "cstr_ncpy dst src n = ncpy_loop dst 0 src n"

section \<open>Lengths\<close>

definition U32_ONE_BYTES :: u32 where "U32_ONE_BYTES = 0x01010101"
definition U32_EIGHT_BYTES :: u32 where "U32_EIGHT_BYTES = 0x80808080"

definition U32_HAS_ZERO_BYTE :: "u32 \<Rightarrow> bool" where
  "U32_HAS_ZERO_BYTE x \<longleftrightarrow> (x - U32_ONE_BYTES) AND NOT x AND U32_EIGHT_BYTES \<noteq> 0"

text \<open>The counting of single characters up to the terminator.\<close>

fun len_bytes :: "string \<Rightarrow> nat \<Rightarrow> nat option" where
  "len_bytes (c # s) n = (if c \<noteq> NUL then len_bytes s (n + 1) else Some n)"
| "len_bytes [] n = None"

text \<open>A little-endian load of four characters.\<close>

definition load_u32 :: "char \<Rightarrow> char \<Rightarrow> char \<Rightarrow> char \<Rightarrow> u32" where
  "load_u32 a b c d = of_nat (of_char a + 2 ^ 8 * of_char b + 2 ^ 16 * of_char c + 2 ^ 24 * of_char d)"

fun len_words :: "string \<Rightarrow> nat \<Rightarrow> nat option" where
  "len_words (a # b # c # d # s) n =
     (if \<not> U32_HAS_ZERO_BYTE (load_u32 a b c d) then len_words s (n + 4) else len_bytes (a # b # c # d # s) n)"
| "len_words _ n = None"

text \<open>The address decides how many characters come before the first aligned word.\<close>

fun len_align :: "u64 \<Rightarrow> string \<Rightarrow> nat \<Rightarrow> nat option" where
  "len_align addr s n =
     (if addr AND 3 \<noteq> 0 then
        (case s of [] \<Rightarrow> None
         | c # s' \<Rightarrow> if c = NUL then Some n else len_align (addr + 1) s' (n + 1))
      else len_words s n)"

definition cstr_len :: "u64 \<Rightarrow> string \<Rightarrow> nat option" where
  "cstr_len addr s = len_align addr s 0"

definition cstr_dup :: "u64 \<Rightarrow> string \<Rightarrow> string option" where
  "cstr_dup addr s = do { n \<leftarrow> cstr_len addr s; Some (take (n + 1) s) }"

fun nlen_loop :: "string \<Rightarrow> nat \<Rightarrow> nat \<Rightarrow> nat option" where
  "nlen_loop s len max_len =
     (if len < max_len then
        (case s of [] \<Rightarrow> None | c # s' \<Rightarrow> if c \<noteq> NUL then nlen_loop s' (len + 1) max_len else Some len)
      else Some len)"

definition cstr_nlen :: "string \<Rightarrow> nat \<Rightarrow> nat option" where
  "cstr_nlen s max_len = nlen_loop s 0 max_len"

text \<open>In place: the memory afterwards.\<close>

fun cstr_tolower :: "string \<Rightarrow> string option" where
  "cstr_tolower [] = None"
| "cstr_tolower (c # s) =
     (if c = NUL then Some (c # s)
      else do {
        s \<leftarrow> cstr_tolower s;
        Some ((if (65 :: nat) \<le> of_char c \<and> of_char c \<le> (90 :: nat) then char_of ((of_char c :: nat) + 32) else c) # s) })"

end
