(* ===== verification/Intern.thy ===== *)
theory Intern
  imports Hash_Map Cstring
begin

text \<open>
  The interning of \<open>src/src/nibble.c\<close> (lines 59-64 and 130-235): one node for every identifier, string and float
  literal, found by the hash of its contents and a chain of the nodes that share a hash; and the tables of
  keywords, intrinsics, annotations and field names that \<open>src/src/compiler.c\<close> interns at the start (lines 345-373,
  446-527). Nodes live in a heap of addresses; the allocator is the list of addresses it will hand out, where zero is
  the null pointer, on which the program exits.
\<close>

section \<open>Positions and literals\<close>

type_synonym ProgPos = u32

record ProgRange =
  rg_start :: ProgPos
  rg_end :: ProgPos

definition merge_ranges :: "ProgRange \<Rightarrow> ProgRange \<Rightarrow> ProgRange" where
  "merge_ranges a b =
     \<lparr>rg_start = (if rg_start a < rg_start b then rg_start a else rg_start b),
      rg_end = (if rg_end a > rg_end b then rg_end a else rg_end b)\<rparr>"

datatype Keyword =
    KW_VAR | KW_CONST | KW_ENUM | KW_UNION | KW_STRUCT | KW_PROC | KW_TYPEDEF | KW_SIZEOF | KW_TYPEOF | KW_TYPEID
  | KW_INDEXOF | KW_OFFSETOF | KW_LENGTH | KW_STATIC_ASSERT | KW_RET_TYPE | KW_EXPORT | KW_IMPORT | KW_FROM | KW_AS
  | KW_INCLUDE | KW_LABEL | KW_GOTO | KW_BREAK | KW_CONTINUE | KW_RETURN | KW_IF | KW_ELSE | KW_WHILE | KW_DO | KW_FOR
  | KW_SWITCH | KW_CASE | KW_UNDERSCORE | KW_TRUE | KW_FALSE | KW_NULL

datatype Intrinsic =
    INTRINSIC_READIN | INTRINSIC_WRITEOUT | INTRINSIC_MEMCPY | INTRINSIC_MEMSET | INTRINSIC_SYSCALL0 | INTRINSIC_SYSCALL1
  | INTRINSIC_SYSCALL2 | INTRINSIC_SYSCALL3 | INTRINSIC_SYSCALL4 | INTRINSIC_SYSCALL5 | INTRINSIC_SYSCALL6

datatype Annotation = ANNOTATION_CUSTOM | ANNOTATION_EXPORTED | ANNOTATION_FOREIGN | ANNOTATION_PACKED

datatype BuiltinStructField =
    BUILTIN_STRUCT_FIELD_LENGTH | BUILTIN_STRUCT_FIELD_DATA | BUILTIN_STRUCT_FIELD_TYPE | BUILTIN_STRUCT_FIELD_PTR

text \<open>The kind with the member of the union it selects.\<close>

datatype IdentifierKind = IDENTIFIER_NAME | IDENTIFIER_KEYWORD Keyword | IDENTIFIER_INTRINSIC Intrinsic

record Identifier =
  id_next :: u64
  id_kind :: IdentifierKind
  id_len :: nat
  id_str :: string

record StrLit =
  sl_next :: u64
  sl_used :: bool
  sl_index :: nat
  sl_len :: nat
  sl_str :: string

text \<open>The bits of the member that the kind selects; those of a single are the low half.\<close>

record FloatLit =
  fl_next :: u64
  fl_used :: bool
  fl_index :: nat
  fl_kind :: FloatKind
  fl_value :: u64

text \<open>Floating-point equality of IEEE 754 on the bits: no NaN equals anything, the two zeros are equal.\<close>

definition ieee_eq :: "nat \<Rightarrow> nat \<Rightarrow> u64 \<Rightarrow> u64 \<Rightarrow> bool" where
  "ieee_eq ebits fbits a b =
     (let mag = (\<lambda>x. unat x mod 2 ^ (ebits + fbits));
          inf = (2 ^ ebits - 1) * 2 ^ fbits
      in mag a \<le> inf \<and> mag b \<le> inf \<and>
         (mag a = 0 \<and> mag b = 0 \<or> unat a mod 2 ^ (ebits + fbits + 1) = unat b mod 2 ^ (ebits + fbits + 1)))"

definition float_eq :: "FloatKind \<Rightarrow> u64 \<Rightarrow> u64 \<Rightarrow> bool" where
  "float_eq kind a b = (case kind of FLOAT_F64 \<Rightarrow> ieee_eq 11 52 a b | FLOAT_F32 \<Rightarrow> ieee_eq 8 23 a b)"

fun float_kind_sizes :: "FloatKind \<Rightarrow> nat" where
  "float_kind_sizes FLOAT_F64 = 8"
| "float_kind_sizes FLOAT_F32 = 4"

text \<open>The bytes of a float in memory.\<close>

definition float_bytes :: "FloatKind \<Rightarrow> u64 \<Rightarrow> string" where
  "float_bytes kind v = map (\<lambda>b. char_of (unat b)) (le_bytes (float_kind_sizes kind) v)"

section \<open>Interning\<close>

record 'n InternTab =
  it_map :: HMap
  it_heap :: "u64 \<Rightarrow> 'n option"
  it_count :: nat
  it_addr :: "nat \<Rightarrow> u64"

text \<open>The walk of a chain; the null pointer when no node is the one searched for.\<close>

partial_function (option) find_node ::
    "('n \<Rightarrow> u64) \<Rightarrow> (u64 \<Rightarrow> 'n option) \<Rightarrow> ('n \<Rightarrow> bool option) \<Rightarrow> u64 \<Rightarrow> u64 option" where
  "find_node nxt heap same it =
     (if it = 0 then Some 0
      else do {
        n \<leftarrow> heap it;
        b \<leftarrow> same n;
        if b then Some it else find_node nxt heap same (nxt n) })"

declare find_node.simps [code]

text \<open>What the three functions share: \<open>mk\<close> makes the new node from the first node of the chain.\<close>

definition intern_node ::
    "('n \<Rightarrow> u64) \<Rightarrow> ('n \<Rightarrow> bool option) \<Rightarrow> (u64 \<Rightarrow> 'n) \<Rightarrow> u64 \<Rightarrow> 'n InternTab \<Rightarrow> (u64 \<times> 'n InternTab) option" where
  "intern_node nxt same mk key tab = do {
     pval \<leftarrow> hmap_get (it_map tab) key;
     let intern = (case pval of Some v \<Rightarrow> v | None \<Rightarrow> 0);
     it \<leftarrow> find_node nxt (it_heap tab) same intern;
     if it \<noteq> 0 then Some (it, tab)
     else do {
       let new_intern = it_addr tab (it_count tab);
       assert_opt (new_intern \<noteq> 0);
       (ok, m) \<leftarrow> hmap_put 2 (it_map tab) key new_intern;
       Some (new_intern, tab\<lparr>it_map := m, it_heap := (it_heap tab)(new_intern \<mapsto> mk intern), it_count := it_count tab + 1\<rparr>) } }"

definition intern_float_lit :: "FloatLit InternTab \<Rightarrow> FloatKind \<Rightarrow> u64 \<Rightarrow> (u64 \<times> FloatLit InternTab) option" where
  "intern_float_lit tab kind v =
     intern_node fl_next (\<lambda>n. Some (fl_kind n = kind \<and> float_eq kind (fl_value n) v))
       (\<lambda>nxt. \<lparr>fl_next = nxt, fl_used = False, fl_index = 0, fl_kind = kind, fl_value = v\<rparr>)
       (hash_bytes (float_bytes kind v) FNV_INIT) tab"

text \<open>The string is the \<open>len\<close> characters from the pointer.\<close>

definition same_str :: "string \<Rightarrow> nat \<Rightarrow> string \<Rightarrow> bool option" where
  "same_str it_str it_len str =
     (if it_len = length str then do { r \<leftarrow> cstr_ncmp it_str str (length str); Some (r = 0) } else Some False)"

definition intern_str_lit :: "StrLit InternTab \<Rightarrow> string \<Rightarrow> (u64 \<times> StrLit InternTab) option" where
  "intern_str_lit tab str =
     intern_node sl_next (\<lambda>n. same_str (sl_str n) (sl_len n) str)
       (\<lambda>nxt. \<lparr>sl_next = nxt, sl_used = False, sl_index = 0, sl_len = length str, sl_str = str @ [NUL]\<rparr>)
       (hash_bytes str FNV_INIT) tab"

definition intern_ident :: "Identifier InternTab \<Rightarrow> string \<Rightarrow> (u64 \<times> Identifier InternTab) option" where
  "intern_ident tab str =
     intern_node id_next (\<lambda>n. same_str (id_str n) (id_len n) str)
       (\<lambda>nxt. \<lparr>id_next = nxt, id_kind = IDENTIFIER_NAME, id_len = length str, id_str = str @ [NUL]\<rparr>)
       (hash_bytes str FNV_INIT) tab"

section \<open>The names interned at the start\<close>

definition keyword_table :: "(Keyword \<times> string) list" where
  "keyword_table =
     [(KW_VAR, ''var''), (KW_CONST, ''const''), (KW_ENUM, ''enum''), (KW_UNION, ''union''), (KW_STRUCT, ''struct''),
      (KW_PROC, ''proc''), (KW_TYPEDEF, ''typedef''), (KW_SIZEOF, ''#sizeof''), (KW_TYPEOF, ''#typeof''),
      (KW_TYPEID, ''#typeid''), (KW_INDEXOF, ''#indexof''), (KW_OFFSETOF, ''#offsetof''), (KW_LENGTH, ''#length''),
      (KW_STATIC_ASSERT, ''#static_assert''), (KW_RET_TYPE, ''#ret_type''), (KW_EXPORT, ''export''), (KW_IMPORT, ''import''),
      (KW_FROM, ''from''), (KW_AS, ''as''), (KW_INCLUDE, ''#include''), (KW_LABEL, ''label''), (KW_GOTO, ''goto''),
      (KW_BREAK, ''break''), (KW_CONTINUE, ''continue''), (KW_RETURN, ''return''), (KW_IF, ''if''), (KW_ELSE, ''else''),
      (KW_WHILE, ''while''), (KW_DO, ''do''), (KW_FOR, ''for''), (KW_SWITCH, ''switch''), (KW_CASE, ''case''),
      (KW_UNDERSCORE, ''_''), (KW_TRUE, ''true''), (KW_FALSE, ''false''), (KW_NULL, ''null'')]"

definition intrinsic_table :: "(Intrinsic \<times> string) list" where
  "intrinsic_table =
     [(INTRINSIC_READIN, ''#readin''), (INTRINSIC_WRITEOUT, ''#writeout''), (INTRINSIC_MEMCPY, ''#memcpy''),
      (INTRINSIC_MEMSET, ''#memset''), (INTRINSIC_SYSCALL0, ''#syscall0''), (INTRINSIC_SYSCALL1, ''#syscall1''),
      (INTRINSIC_SYSCALL2, ''#syscall2''), (INTRINSIC_SYSCALL3, ''#syscall3''), (INTRINSIC_SYSCALL4, ''#syscall4''),
      (INTRINSIC_SYSCALL5, ''#syscall5''), (INTRINSIC_SYSCALL6, ''#syscall6'')]"

text \<open>No name is given to the custom annotation: its entry is the empty string.\<close>

definition annotation_table :: "string list" where
  "annotation_table = [[], ''exported'', ''foreign'', ''packed'']"

definition builtin_struct_field_table :: "string list" where
  "builtin_struct_field_table = [''length'', ''data'', ''type'', ''ptr'']"

definition set_ident_kind :: "Identifier InternTab \<Rightarrow> u64 \<Rightarrow> IdentifierKind \<Rightarrow> Identifier InternTab option" where
  "set_ident_kind tab p k = do {
     n \<leftarrow> it_heap tab p;
     Some (tab\<lparr>it_heap := (it_heap tab)(p \<mapsto> n\<lparr>id_kind := k\<rparr>)\<rparr>) }"

fun intern_kinds :: "Identifier InternTab \<Rightarrow> (IdentifierKind \<times> string) list \<Rightarrow> (u64 list \<times> Identifier InternTab) option" where
  "intern_kinds tab [] = Some ([], tab)"
| "intern_kinds tab ((k, name) # names) = do {
     (p, tab) \<leftarrow> intern_ident tab name;
     tab \<leftarrow> set_ident_kind tab p k;
     (ps, tab) \<leftarrow> intern_kinds tab names;
     Some (p # ps, tab) }"

fun intern_names :: "Identifier InternTab \<Rightarrow> string list \<Rightarrow> (u64 list \<times> Identifier InternTab) option" where
  "intern_names tab [] = Some ([], tab)"
| "intern_names tab (name # names) = do {
     (p, tab) \<leftarrow> intern_ident tab name;
     (ps, tab) \<leftarrow> intern_names tab names;
     Some (p # ps, tab) }"

definition init_keywords :: "Identifier InternTab \<Rightarrow> (u64 list \<times> Identifier InternTab) option" where
  "init_keywords tab = intern_kinds tab (map (\<lambda>(k, s). (IDENTIFIER_KEYWORD k, s)) keyword_table)"

definition init_intrinsics :: "Identifier InternTab \<Rightarrow> (u64 list \<times> Identifier InternTab) option" where
  "init_intrinsics tab = intern_kinds tab (map (\<lambda>(k, s). (IDENTIFIER_INTRINSIC k, s)) intrinsic_table)"

definition init_annotations :: "Identifier InternTab \<Rightarrow> (u64 list \<times> Identifier InternTab) option" where
  "init_annotations tab = intern_names tab annotation_table"

definition init_builtin_struct_fields :: "Identifier InternTab \<Rightarrow> (u64 list \<times> Identifier InternTab) option" where
  "init_builtin_struct_fields tab = intern_names tab builtin_struct_field_table"

text \<open>The part of \<open>nibble_init\<close> that fills the table of identifiers, with its assertion on the number of hashes.\<close>

definition init_idents :: "Identifier InternTab \<Rightarrow> (u64 \<times> Identifier InternTab) option" where
  "init_idents tab = do {
     (kws, tab) \<leftarrow> init_keywords tab;
     (ins, tab) \<leftarrow> init_intrinsics tab;
     (ans, tab) \<leftarrow> init_annotations tab;
     (fs, tab) \<leftarrow> init_builtin_struct_fields tab;
     (main_proc_ident, tab) \<leftarrow> intern_ident tab ''main'';
     assert_opt (hm_len (it_map tab) = length keyword_table + length annotation_table + length intrinsic_table +
       length builtin_struct_field_table + 1);
     Some (main_proc_ident, tab) }"

end
