(* ===== verification/Hash_Map_Correct.thy ===== *)
theory Hash_Map_Correct
  imports Hash_Map
begin

text \<open>
  The hash table as a finite map: the probing invariant, its preservation by insertion and expansion, and
  the functional correctness of lookup and insertion.
\<close>

section \<open>Probing\<close>

text \<open>Slots are counted from the home slot of a key, around the end of the table.\<close>

definition probe :: "HMapEntry list \<Rightarrow> nat \<Rightarrow> nat \<Rightarrow> u64" where
  "probe es i d = fst (es ! ((i + d) mod length es))"

definition home :: "HMapEntry list \<Rightarrow> u64 \<Rightarrow> nat" where
  "home es key = unat (hash_uint64 key) mod length es"

definition stops_at :: "HMapEntry list \<Rightarrow> u64 \<Rightarrow> nat \<Rightarrow> nat \<Rightarrow> bool" where
  "stops_at es key i d \<longleftrightarrow> probe es i d \<in> {0, key} \<and> (\<forall>e < d. probe es i e \<notin> {0, key})"

lemma stops_at_unique: "stops_at es key i d \<Longrightarrow> stops_at es key i e \<Longrightarrow> d = e"
  unfolding stops_at_def by (metis linorder_neqE_nat)

lemma stops_at_ex:
  assumes "j < length es" "fst (es ! j) = 0"
  shows "\<exists>d < length es. stops_at es key i d"
proof -
  let ?n = "length es"
  have n: "?n > 0" using assms(1) by auto
  let ?d = "(j + (?n - i mod ?n)) mod ?n"
  have "(i + ?d) mod ?n = (i mod ?n + (j + (?n - i mod ?n))) mod ?n" by (simp add: mod_add_left_eq mod_add_right_eq)
  also have "\<dots> = (j + ?n) mod ?n" using mod_less_divisor[OF n, of i] by (simp add: ac_simps)
  also have "\<dots> = j" using assms(1) by simp
  finally have p: "probe es i ?d \<in> {0, key}" using assms(2) by (simp add: probe_def)
  define d where "d = (LEAST d. probe es i d \<in> {0, key})"
  have "probe es i d \<in> {0, key}" unfolding d_def by (rule LeastI[of "\<lambda>d. probe es i d \<in> {0, key}", OF p])
  moreover have "\<forall>e < d. probe es i e \<notin> {0, key}" unfolding d_def by (blast dest: not_less_Least)
  moreover have "d \<le> ?d" unfolding d_def by (rule Least_le[of "\<lambda>d. probe es i d \<in> {0, key}", OF p])
  ultimately show ?thesis using mod_less_divisor[OF n, of "j + (?n - i mod ?n)"]
    by (intro exI[of _ d]) (simp add: stops_at_def)
qed

text \<open>A table is a power of two of slots, addressed by its mask.\<close>

definition table_size :: "HMap \<Rightarrow> bool" where
  "table_size m \<longleftrightarrow> (\<exists>c \<le> 63. hm_cap m = 2 ^ c \<and> length (entries m) = 2 ^ c \<and> hm_mask m = mask c)"

lemma put_slot_stops:
  assumes "length es = 2 ^ c" "c \<le> 63"
  shows "stops_at es key (unat i) d \<Longrightarrow> put_slot es (mask c) key i = Some ((unat i + d) mod length es)"
proof (induction d arbitrary: i)
  case 0
  have "unat (i AND mask c) = unat i mod length es" using unat_and_mask[OF assms(2)] assms(1) by simp
  then show ?case using 0 assms(1) by (subst put_slot.simps) (auto simp: stops_at_def probe_def)
next
  case (Suc d)
  have u: "unat (i AND mask c) = unat i mod length es" using unat_and_mask[OF assms(2)] assms(1) by simp
  let ?i = "(i AND mask c) + 1"
  have m: "unat ?i mod length es = (unat i + 1) mod length es"
    using unat_step[OF assms(2), of "i AND mask c"] u assms(1) by (simp add: mod_Suc_eq)
  have q: "(unat ?i + e) mod length es = (unat i + Suc e) mod length es" for e
  proof -
    have "(unat ?i + e) mod length es = (unat ?i mod length es + e) mod length es" by (simp add: mod_add_left_eq)
    also have "\<dots> = (unat i + Suc e) mod length es" unfolding m by (simp add: mod_add_left_eq)
    finally show ?thesis .
  qed
  have p: "probe es (unat ?i) e = probe es (unat i) (Suc e)" for e by (simp add: probe_def q)
  have "stops_at es key (unat ?i) d" using Suc.prems by (auto simp: stops_at_def p)
  then have "put_slot es (mask c) key ?i = Some ((unat ?i + d) mod length es)" by (rule Suc.IH)
  moreover note q[of d]
  moreover have "probe es (unat i) 0 \<notin> {0, key}" using Suc.prems by (auto simp: stops_at_def)
  ultimately show ?case using assms(1) by (subst put_slot.simps) (auto simp: u probe_def Let_def)
qed

text \<open>Every key is where a search for it stops.\<close>

definition probe_ok :: "HMapEntry list \<Rightarrow> bool" where
  "probe_ok es \<longleftrightarrow> (\<forall>j < length es. fst (es ! j) \<noteq> 0 \<longrightarrow>
     (\<exists>d. stops_at es (fst (es ! j)) (home es (fst (es ! j))) d \<and> j = (home es (fst (es ! j)) + d) mod length es))"

definition contents :: "HMapEntry list \<Rightarrow> u64 \<Rightarrow> u64 option" where
  "contents es = map_of (filter (\<lambda>e. fst e \<noteq> 0) es)"

lemma keys_distinct:
  "probe_ok es \<Longrightarrow> i < length es \<Longrightarrow> j < length es \<Longrightarrow> fst (es ! i) \<noteq> 0 \<Longrightarrow> fst (es ! i) = fst (es ! j) \<Longrightarrow> i = j"
  unfolding probe_ok_def by (metis stops_at_unique)

lemma distinct_keys: "probe_ok es \<Longrightarrow> distinct (map fst (filter (\<lambda>e. fst e \<noteq> 0) es))"
proof -
  assume ok: "probe_ok es"
  have "(\<And>i j. i < length es \<Longrightarrow> j < length es \<Longrightarrow> fst (es ! i) \<noteq> 0 \<Longrightarrow> fst (es ! i) = fst (es ! j) \<Longrightarrow> i = j) \<Longrightarrow>
      distinct (map fst (filter (\<lambda>e. fst e \<noteq> 0) es))"
  proof (induction es)
    case (Cons e es)
    have "distinct (map fst (filter (\<lambda>e. fst e \<noteq> 0) es))"
    proof (rule Cons.IH)
      fix i j assume "i < length es" "j < length es" "fst (es ! i) \<noteq> 0" "fst (es ! i) = fst (es ! j)"
      then show "i = j" using Cons.prems[of "Suc i" "Suc j"] by simp
    qed
    moreover have "fst e \<notin> fst ` set (filter (\<lambda>e. fst e \<noteq> 0) es)" if "fst e \<noteq> 0"
    proof
      assume "fst e \<in> fst ` set (filter (\<lambda>e. fst e \<noteq> 0) es)"
      then obtain j where "j < length es" "fst (es ! j) = fst e" by (auto simp: in_set_conv_nth)
      then show False using Cons.prems[of 0 "Suc j"] that by simp
    qed
    ultimately show ?case by simp
  qed simp
  then show ?thesis using keys_distinct[OF ok] by blast
qed

lemma contents_at: "probe_ok es \<Longrightarrow> j < length es \<Longrightarrow> fst (es ! j) \<noteq> 0 \<Longrightarrow> contents es (fst (es ! j)) = Some (snd (es ! j))"
  unfolding contents_def by (rule map_of_is_SomeI) (auto simp: distinct_keys)

lemma contents_None: "contents es key = None \<longleftrightarrow> key \<notin> fst ` {e \<in> set es. fst e \<noteq> 0}"
  by (simp add: contents_def map_of_eq_None_iff)

text \<open>What a search finds is what the table holds.\<close>

lemma contents_stop:
  assumes ok: "probe_ok es" and n: "es \<noteq> []" and k: "key \<noteq> 0" and d: "stops_at es key (home es key) d"
  shows "contents es key = (let j = (home es key + d) mod length es in if fst (es ! j) = key then Some (snd (es ! j)) else None)"
proof (cases "fst (es ! ((home es key + d) mod length es)) = key")
  case True
  then show ?thesis using contents_at[OF ok, of "(home es key + d) mod length es"] k n by (simp add: Let_def)
next
  case False
  have "contents es key = None"
  proof (rule ccontr)
    assume "contents es key \<noteq> None"
    then obtain j where j: "j < length es" "fst (es ! j) = key"
      by (auto simp: contents_None in_set_conv_nth)
    then obtain d' where "stops_at es key (home es key) d'" "j = (home es key + d') mod length es"
      using ok k by (auto simp: probe_ok_def)
    then show False using stops_at_unique[OF d] False j by auto
  qed
  then show ?thesis using False by (simp add: Let_def)
qed

section \<open>The invariant of a table\<close>

definition count_keys :: "HMapEntry list \<Rightarrow> nat" where
  "count_keys es = length (filter (\<lambda>e. fst e \<noteq> 0) es)"

definition hmap_wf :: "HMap \<Rightarrow> bool" where
  "hmap_wf m \<longleftrightarrow> table_size m \<and> probe_ok (entries m) \<and> hm_len m = count_keys (entries m) \<and> hm_len m < hm_cap m"

definition hmap_abs :: "HMap \<Rightarrow> u64 \<Rightarrow> u64 option" where
  "hmap_abs m = contents (entries m)"

lemma contents_Some: "probe_ok es \<Longrightarrow> contents es key = Some x \<longleftrightarrow> key \<noteq> 0 \<and> (\<exists>i < length es. es ! i = (key, x))"
proof
  assume ok: "probe_ok es"
  show "key \<noteq> 0 \<and> (\<exists>i < length es. es ! i = (key, x))" if "contents es key = Some x"
    using map_of_SomeD[OF that[unfolded contents_def]] by (auto simp: in_set_conv_nth)
  show "contents es key = Some x" if k: "key \<noteq> 0 \<and> (\<exists>i < length es. es ! i = (key, x))"
  proof -
    obtain i where i: "i < length es" "es ! i = (key, x)" using k by blast
    then show ?thesis using contents_at[OF ok i(1)] k by simp
  qed
qed

lemma count_keys_update:
  "j < length es \<Longrightarrow> fst e \<noteq> 0 \<Longrightarrow>
   count_keys (es[j := e]) = (if fst (es ! j) = 0 then count_keys es + 1 else count_keys es)"
  unfolding count_keys_def by (induction es arbitrary: j) (auto split: nat.splits)

lemma empty_slot: "count_keys es < length es \<Longrightarrow> \<exists>j < length es. fst (es ! j) = 0"
proof (rule ccontr)
  assume c: "count_keys es < length es" and "\<not> (\<exists>j < length es. fst (es ! j) = 0)"
  then have "filter (\<lambda>e. fst e \<noteq> 0) es = es" by (intro filter_True ballI) (metis in_set_conv_nth)
  then show False using c by (simp add: count_keys_def)
qed

lemma home_update [simp]: "home (es[j := e]) key = home es key"
  by (simp add: home_def)

lemma probe_update:
  assumes "j < length es"
  shows "probe (es[j := (key, x)]) i d = (if (i + d) mod length es = j then key else probe es i d)"
  using assms by (auto simp: probe_def nth_list_update)

lemma insert_probe_ok:
  assumes ok: "probe_ok es" and k: "key \<noteq> 0" and d: "stops_at es key (home es key) d"
    and j: "j = (home es key + d) mod length es" "j < length es"
  shows "probe_ok (es[j := (key, x)])" "contents (es[j := (key, x)]) = (contents es)(key \<mapsto> x)"
proof -
  let ?es = "es[j := (key, x)]"
  have pj: "probe es (home es key) d = fst (es ! j)" using j(1) by (simp add: probe_def)
  have other: "fst (es ! i) \<noteq> key" if "i < length es" "i \<noteq> j" for i
  proof
    assume f: "fst (es ! i) = key"
    then have "\<exists>d'. stops_at es key (home es key) d' \<and> i = (home es key + d') mod length es"
      using ok k that(1) unfolding probe_ok_def by force
    then show False using stops_at_unique[OF d] that(2) j(1) by auto
  qed
  show ok': "probe_ok ?es" unfolding probe_ok_def
  proof (intro allI impI)
    fix i assume i: "i < length ?es" "fst (?es ! i) \<noteq> 0"
    show "\<exists>d. stops_at ?es (fst (?es ! i)) (home ?es (fst (?es ! i))) d \<and> i = (home ?es (fst (?es ! i)) + d) mod length ?es"
    proof (cases "i = j")
      case True
      have "(home es key + e) mod length es \<noteq> j" if "e < d" for e
      proof
        assume "(home es key + e) mod length es = j"
        then have "probe es (home es key) e = fst (es ! j)" by (simp add: probe_def)
        then show False using d that pj by (auto simp: stops_at_def)
      qed
      then have "stops_at ?es key (home es key) d"
        using d j unfolding stops_at_def probe_update[OF j(2)] by simp
      then show ?thesis using True j by (intro exI[of _ d]) simp
    next
      case False
      then have k': "?es ! i = es ! i" "i < length es" using i(1) by simp_all
      then obtain d' where d': "stops_at es (fst (es ! i)) (home es (fst (es ! i))) d'"
          "i = (home es (fst (es ! i)) + d') mod length es"
        using ok i(2) by (auto simp: probe_ok_def)
      have "stops_at ?es (fst (es ! i)) (home es (fst (es ! i))) d'"
        using d' False k other[OF k'(2) False] unfolding stops_at_def probe_update[OF j(2)] by auto
      then show ?thesis using d'(2) k' by (intro exI[of _ d']) simp
    qed
  qed
  show "contents ?es = (contents es)(key \<mapsto> x)"
  proof
    fix k0
    have "contents ?es k0 = Some y \<longleftrightarrow> ((contents es)(key \<mapsto> x)) k0 = Some y" for y
    proof (cases "k0 = key")
      case True
      have "(\<exists>i < length ?es. ?es ! i = (key, y)) \<longleftrightarrow> y = x"
        using other j(2) by (auto simp: nth_list_update) (metis fst_conv)
      then show ?thesis using True contents_Some[OF ok'] k by auto
    next
      case False
      have "(\<exists>i < length ?es. ?es ! i = (k0, y)) \<longleftrightarrow> (\<exists>i < length es. es ! i = (k0, y))" if k0: "k0 \<noteq> 0"
      proof
        show "\<exists>i < length es. es ! i = (k0, y)" if "\<exists>i < length ?es. ?es ! i = (k0, y)"
          using that False j(2) by (auto simp: nth_list_update split: if_splits)
        show "\<exists>i < length ?es. ?es ! i = (k0, y)" if ex: "\<exists>i < length es. es ! i = (k0, y)"
        proof -
          obtain i where i: "i < length es" "es ! i = (k0, y)" using ex by blast
          have "i \<noteq> j"
          proof
            assume "i = j"
            then have "probe es (home es key) d = k0" using i(2) pj by simp
            then show False using d False k0 by (auto simp: stops_at_def)
          qed
          then show ?thesis using i by (intro exI[of _ i]) simp
        qed
      qed
      then show ?thesis using False contents_Some[OF ok'] contents_Some[OF ok] by auto
    qed
    then show "contents ?es k0 = ((contents es)(key \<mapsto> x)) k0" by (metis not_None_eq)
  qed
qed

lemma home_stop:
  assumes "hmap_wf m"
  shows "\<exists>d < length (entries m). stops_at (entries m) key (home (entries m) key) d"
proof -
  have "count_keys (entries m) < length (entries m)" using assms by (auto simp: hmap_wf_def table_size_def)
  then obtain j where "j < length (entries m)" "fst (entries m ! j) = 0" using empty_slot by blast
  then show ?thesis using stops_at_ex by blast
qed

text \<open>A search may start anywhere in the residue class of the home slot.\<close>

lemma stops_at_mod: "stops_at es key (i mod length es) d = stops_at es key i d"
  by (simp add: stops_at_def probe_def mod_add_left_eq)

lemma put_entry_correct:
  assumes wf: "hmap_wf m" and k: "key \<noteq> 0" and room: "hm_len m + 1 < hm_cap m"
  shows "\<exists>m'. put_entry m key x = Some m' \<and> hmap_wf m' \<and> hmap_abs m' = (hmap_abs m)(key \<mapsto> x) \<and>
     hm_cap m' = hm_cap m \<and> hm_alloc m' = hm_alloc m \<and> hm_len m' \<le> hm_len m + 1"
proof -
  obtain c where c: "c \<le> 63" "hm_cap m = 2 ^ c" "length (entries m) = 2 ^ c" "hm_mask m = mask c"
    using wf by (auto simp: hmap_wf_def table_size_def)
  obtain d where d: "stops_at (entries m) key (home (entries m) key) d" using home_stop[OF wf] by blast
  let ?j = "(home (entries m) key + d) mod length (entries m)"
  have j: "?j < length (entries m)" using c(3) by simp
  have "put_slot (entries m) (hm_mask m) key (hash_uint64 key) = Some ?j"
    using put_slot_stops[OF c(3,1), of key "hash_uint64 key" d] d c(4)
    by (simp add: home_def stops_at_mod mod_add_left_eq)
  then have e: "put_entry m key x = Some (m\<lparr>entries := (entries m)[?j := (key, x)],
      hm_len := (if fst (entries m ! ?j) = 0 then hm_len m + 1 else hm_len m)\<rparr>)"
    by (simp add: put_entry_def)
  have ok: "probe_ok (entries m)" using wf by (simp add: hmap_wf_def)
  note ins = insert_probe_ok[OF ok k d refl j]
  show ?thesis unfolding e using wf ins c room count_keys_update[OF j, of "(key, x)"] k
    by (auto simp: hmap_wf_def hmap_abs_def table_size_def)
qed

section \<open>Lookup\<close>

lemma get_loop_stops:
  assumes "length es = 2 ^ c" "c \<le> 63" "key \<noteq> 0"
  shows "stops_at es key (unat i) (Suc d) \<Longrightarrow>
    get_loop es (mask c) key i = (let j = (unat i + Suc d) mod length es in
      Some (if fst (es ! j) = key then Some (snd (es ! j)) else None))"
proof (induction d arbitrary: i)
  case 0
  have "unat ((i + 1) AND mask c) = (unat i + 1) mod length es"
    using unat_and_mask[OF assms(2)] unat_step[OF assms(2)] assms(1) by simp
  then show ?case using 0 assms by (subst get_loop.simps) (auto simp: stops_at_def probe_def Let_def)
next
  case (Suc d)
  let ?i = "(i + 1) AND mask c"
  have u: "unat ?i = (unat i + 1) mod length es"
    using unat_and_mask[OF assms(2)] unat_step[OF assms(2)] assms(1) by simp
  have q: "(unat ?i + e) mod length es = (unat i + Suc e) mod length es" for e
    unfolding u by (simp add: mod_add_left_eq)
  have p: "probe es (unat ?i) e = probe es (unat i) (Suc e)" for e by (simp add: probe_def q)
  have "stops_at es key (unat ?i) (Suc d)" using Suc.prems by (auto simp: stops_at_def p)
  note ih = Suc.IH[OF this]
  have "probe es (unat i) (Suc 0) \<notin> {0, key}" using Suc.prems by (auto simp: stops_at_def)
  then have "fst (es ! unat ?i) \<notin> {0, key}" by (simp add: probe_def u)
  then show ?case using assms(1) ih q[of "Suc d"] by (subst get_loop.simps) (auto simp: u Let_def)
qed

lemma hmap_get_correct:
  assumes wf: "hmap_wf m" and k: "key \<noteq> 0"
  shows "hmap_get m key = Some (hmap_abs m key)"
proof -
  obtain c where c: "c \<le> 63" "hm_cap m = 2 ^ c" "length (entries m) = 2 ^ c" "hm_mask m = mask c"
    using wf by (auto simp: hmap_wf_def table_size_def)
  obtain d where d: "stops_at (entries m) key (home (entries m) key) d" using home_stop[OF wf] by blast
  let ?i = "hash_uint64 key AND hm_mask m" and ?es = "entries m"
  have u: "unat ?i = home ?es key" using unat_and_mask[OF c(1)] c by (simp add: home_def)
  have ne: "?es \<noteq> []" and il: "home ?es key < length ?es" using c(3) by (auto simp: home_def)
  have ok: "probe_ok ?es" using wf by (simp add: hmap_wf_def)
  note cs = contents_stop[OF ok ne k d]
  show ?thesis
  proof (cases d)
    case 0
    then have "fst (?es ! home ?es key) \<in> {0, key}" using d il by (simp add: stops_at_def probe_def)
    then show ?thesis using cs 0 il ne k by (auto simp: hmap_get_def hmap_abs_def u Let_def)
  next
    case (Suc e)
    then have "fst (?es ! home ?es key) \<notin> {0, key}" using d il by (auto simp: stops_at_def probe_def)
    moreover have "get_loop ?es (hm_mask m) key ?i = (let j = (home ?es key + Suc e) mod length ?es in
        Some (if fst (?es ! j) = key then Some (snd (?es ! j)) else None))"
      using get_loop_stops[OF c(3,1) k, of ?i e] d Suc u c(4) by simp
    ultimately show ?thesis using cs Suc il ne k by (auto simp: hmap_get_def hmap_abs_def u Let_def)
  qed
qed

section \<open>Expansion\<close>

definition fresh :: "HMap \<Rightarrow> nat \<Rightarrow> HMap" where
  "fresh m cap = m\<lparr>entries := replicate cap (0, 0), hm_cap := cap, hm_len := 0, hm_mask := of_nat cap - 1\<rparr>"

lemma fresh_wf: "c \<le> 63 \<Longrightarrow> hmap_wf (fresh m (2 ^ c)) \<and> hmap_abs (fresh m (2 ^ c)) = Map.empty"
  by (auto simp: hmap_wf_def table_size_def fresh_def probe_ok_def count_keys_def hmap_abs_def contents_def
      mask_eq_exp_minus_1 intro!: exI[of _ c])

text \<open>With less than six tenths of the slots used, nothing expands.\<close>

lemma hmap_put_roomy:
  assumes "hmap_wf m" "key \<noteq> 0" "10 * (hm_len m + 1) < 6 * hm_cap m"
  shows "\<exists>m'. hmap_put (Suc d) m key x = Some (True, m') \<and> hmap_wf m' \<and> hmap_abs m' = (hmap_abs m)(key \<mapsto> x) \<and>
     hm_cap m' = hm_cap m \<and> hm_alloc m' = hm_alloc m \<and> hm_len m' \<le> hm_len m + 1"
  using put_entry_correct[OF assms(1,2), of x] assms by auto

text \<open>Later entries win over earlier ones; the keys of a table are distinct.\<close>

definition overlay :: "HMapEntry list \<Rightarrow> (u64 \<Rightarrow> u64 option) \<Rightarrow> u64 \<Rightarrow> u64 option" where
  "overlay es f = foldl (\<lambda>f e. if fst e \<noteq> 0 then f(fst e \<mapsto> snd e) else f) f es"

lemma overlay_simps [simp]:
  "overlay [] f = f"
  "overlay (e # es) f = overlay es (if fst e \<noteq> 0 then f(fst e \<mapsto> snd e) else f)"
  by (simp_all add: overlay_def)

lemma overlay_contents:
  "distinct (map fst (filter (\<lambda>e. fst e \<noteq> 0) es)) \<Longrightarrow> overlay es f = f ++ contents es"
proof (induction es arbitrary: f)
  case (Cons e es)
  show ?case
  proof (cases "fst e = 0")
    case False
    then have "fst e \<notin> dom (contents es)" using Cons.prems by (auto simp: contents_def dom_map_of_conv_image_fst)
    then have "f(fst e \<mapsto> snd e) ++ contents es = f ++ (contents es)(fst e \<mapsto> snd e)"
      by (auto simp: map_add_def fun_eq_iff split: option.splits)
    then show ?thesis using Cons False by (simp add: contents_def fun_upd_def del: map_add_upd)
  qed (use Cons in \<open>simp add: contents_def\<close>)
qed (simp add: contents_def)

lemma hmap_put_all_correct:
  "hmap_wf m \<Longrightarrow> 10 * (hm_len m + count_keys es) < 6 * hm_cap m \<Longrightarrow>
   \<exists>m'. hmap_put_all (Suc d) es m = Some m' \<and> hmap_wf m' \<and> hmap_abs m' = overlay es (hmap_abs m) \<and>
     hm_cap m' = hm_cap m \<and> hm_alloc m' = hm_alloc m \<and> hm_len m' \<le> hm_len m + count_keys es"
proof (induction es arbitrary: m)
  case Nil
  then show ?case by simp
next
  case (Cons e es)
  show ?case
  proof (cases "fst e = 0")
    case True
    then show ?thesis using Cons by (simp add: count_keys_def word_gt_0)
  next
    case False
    then have c: "count_keys (e # es) = Suc (count_keys es)" by (simp add: count_keys_def)
    obtain m1 where m1: "hmap_put (Suc d) m (fst e) (snd e) = Some (True, m1)" "hmap_wf m1"
        "hmap_abs m1 = (hmap_abs m)(fst e \<mapsto> snd e)" "hm_cap m1 = hm_cap m" "hm_alloc m1 = hm_alloc m"
        "hm_len m1 \<le> hm_len m + 1"
      using hmap_put_roomy[OF Cons.prems(1) False, of d "snd e"] Cons.prems(2) c by auto
    obtain m2 where "hmap_put_all (Suc d) es m1 = Some m2" "hmap_wf m2" "hmap_abs m2 = overlay es (hmap_abs m1)"
        "hm_cap m2 = hm_cap m1" "hm_alloc m2 = hm_alloc m1" "hm_len m2 \<le> hm_len m1 + count_keys es"
      using Cons.IH[OF m1(2)] Cons.prems(2) m1(4,6) c by auto
    then show ?thesis using m1 False c by (simp add: word_gt_0 del: hmap_put.simps)
  qed
qed

lemma hmap_expand_correct:
  assumes wf: "hmap_wf m" and c: "c \<le> 63" "hm_cap m < 2 ^ c" and room: "10 * hm_len m < 6 * 2 ^ c"
    and mem: "hm_alloc m (2 ^ c)"
  shows "\<exists>m'. hmap_expand (Suc d) m (2 ^ c) = Some (True, m') \<and> hmap_wf m' \<and> hmap_abs m' = hmap_abs m \<and>
     hm_cap m' = 2 ^ c \<and> hm_alloc m' = hm_alloc m \<and> hm_len m' \<le> hm_len m"
proof -
  have len: "count_keys (entries m) = hm_len m" and ok: "probe_ok (entries m)" using wf by (simp_all add: hmap_wf_def)
  obtain m' where "hmap_put_all (Suc d) (entries m) (fresh m (2 ^ c)) = Some m'" "hmap_wf m'"
      "hmap_abs m' = overlay (entries m) Map.empty" "hm_cap m' = 2 ^ c" "hm_alloc m' = hm_alloc m"
      "hm_len m' \<le> hm_len m"
    using hmap_put_all_correct[of "fresh m (2 ^ c)" "entries m" d] fresh_wf[OF c(1), of m] room len
    by (auto simp: fresh_def)
  then show ?thesis using c mem overlay_contents[OF distinct_keys[OF ok], of Map.empty]
    by (simp add: fresh_def hmap_abs_def del: hmap_put.simps)
qed

section \<open>Insertion\<close>

text \<open>
  Insertion updates the map, or reports that the memory for twice the slots could not be had and leaves
  the table as it was. The capacity may double in the process, so it has to be below the largest power of two.
\<close>

lemma hmap_put_correct:
  assumes wf: "hmap_wf m" and k: "key \<noteq> 0" and c: "hm_cap m \<le> 2 ^ 62"
  shows "\<exists>ok m'. hmap_put (Suc (Suc d)) m key x = Some (ok, m') \<and> hmap_wf m' \<and> hm_alloc m' = hm_alloc m \<and>
     hm_cap m' \<le> max (hm_cap m) (4 * (hm_len m + 1)) \<and> hm_len m' \<le> hm_len m + 1 \<and>
     (if ok then hmap_abs m' = (hmap_abs m)(key \<mapsto> x)
      else m' = m \<and> 6 * hm_cap m \<le> 10 * (hm_len m + 1) \<and> \<not> hm_alloc m (2 * hm_cap m))"
proof (cases "10 * (hm_len m + 1) < 6 * hm_cap m")
  case True
  show ?thesis using hmap_put_roomy[OF wf k True, of "Suc d" x] by (metis max.cobounded1)
next
  case full: False
  obtain l where l: "l \<le> 63" "hm_cap m = 2 ^ l" "hm_len m < hm_cap m"
    using wf by (auto simp: hmap_wf_def table_size_def)
  have pos: "hm_cap m > 0" using l by simp
  have "l \<le> 62" by (rule power_le_imp_le_exp[of 2]) (use c l(2) in simp_all)
  then have l1: "Suc l \<le> 63" "hm_cap m < 2 ^ Suc l" "2 ^ Suc l = hm_cap m * 2" using l by simp_all
  show ?thesis
  proof (cases "hm_alloc m (2 ^ Suc l)")
    case False
    have no: "\<not> hm_alloc m (hm_cap m * 2)" using False unfolding l1(3) .
    then have "hmap_expand (Suc d) m (hm_cap m * 2) = Some (False, m)" using pos by simp
    then have p: "hmap_put (Suc (Suc d)) m key x = Some (False, m)" using full k by (simp del: hmap_expand.simps)
    show ?thesis using wf no full by (intro exI[of _ False] exI[of _ m]) (simp add: p mult.commute[of 2] del: hmap_put.simps)
  next
    case True
    have r: "10 * hm_len m < 6 * 2 ^ Suc l" using l(3) unfolding l1(3) by simp
    from hmap_expand_correct[OF wf l1(1,2) r True, of d]
    obtain m1 where m1: "hmap_expand (Suc d) m (hm_cap m * 2) = Some (True, m1)" "hmap_wf m1" "hmap_abs m1 = hmap_abs m"
        "hm_cap m1 = hm_cap m * 2" "hm_alloc m1 = hm_alloc m" "hm_len m1 \<le> hm_len m"
      unfolding l1(3) by blast
    have room: "hm_len m1 + 1 < hm_cap m1" using m1(4,6) l(3) pos by linarith
    from put_entry_correct[OF m1(2) k room, of x]
    obtain m2 where m2: "put_entry m1 key x = Some m2" "hmap_wf m2" "hmap_abs m2 = (hmap_abs m1)(key \<mapsto> x)"
        "hm_cap m2 = hm_cap m1" "hm_alloc m2 = hm_alloc m1" "hm_len m2 \<le> hm_len m1 + 1" by blast
    have cap: "hm_cap m * 2 \<le> max (hm_cap m) (4 * (hm_len m + 1))" using full by (simp add: le_max_iff_disj)
    have p: "hmap_put (Suc (Suc d)) m key x = Some (True, m2)"
      using full k m1(1) m2(1) by (simp del: hmap_expand.simps)
    show ?thesis unfolding p using m2 m1(3-6) cap by (intro exI[of _ True] exI[of _ m2]) simp
  qed
qed

section \<open>The interface of a table\<close>

text \<open>
  What the users of a table rely on, whatever its representation: \<open>val\<close> is the map it stands for,
  \<open>good\<close> its invariant. A failed insertion leaves the map as it was.
\<close>

locale lookup_table =
  fixes good :: "'t \<Rightarrow> bool"
    and val :: "'t \<Rightarrow> u64 \<Rightarrow> u64 option"
    and put :: "'t \<Rightarrow> u64 \<Rightarrow> u64 \<Rightarrow> (bool \<times> 't) option"
    and get :: "'t \<Rightarrow> u64 \<Rightarrow> u64 option option"
    and room :: "'t \<Rightarrow> bool"
  assumes get_val: "good t \<Longrightarrow> k \<noteq> 0 \<Longrightarrow> get t k = Some (val t k)"
    and put_val: "good t \<Longrightarrow> k \<noteq> 0 \<Longrightarrow> room t \<Longrightarrow>
      \<exists>ok t'. put t k x = Some (ok, t') \<and> good t' \<and> val t' = (if ok then (val t)(k \<mapsto> x) else val t)"
begin

lemma put_get:
  assumes "good t" "k \<noteq> 0" "k' \<noteq> 0" "room t" "put t k x = Some (True, t')"
  shows "get t' k' = (if k' = k then Some (Some x) else get t k')"
proof -
  have g: "good t'" "val t' = (val t)(k \<mapsto> x)" using put_val[OF assms(1,2,4), of x] assms(5) by auto
  then show ?thesis using get_val[OF g(1) assms(3)] get_val[OF assms(1,3)] by simp
qed

lemma put_total: "good t \<Longrightarrow> k \<noteq> 0 \<Longrightarrow> room t \<Longrightarrow> put t k x \<noteq> None"
  using put_val by blast

end

interpretation hm: lookup_table hmap_wf hmap_abs "hmap_put 2" hmap_get "\<lambda>m. hm_cap m \<le> 2 ^ 62"
proof unfold_locales
  fix m :: HMap and key x :: u64
  assume m: "hmap_wf m" "key \<noteq> 0" "hm_cap m \<le> 2 ^ 62"
  obtain ok m' where "hmap_put (Suc (Suc 0)) m key x = Some (ok, m')" "hmap_wf m'"
      "hmap_abs m' = (if ok then (hmap_abs m)(key \<mapsto> x) else hmap_abs m)"
    using hmap_put_correct[OF m, of 0 x] by (metis (full_types))
  then show "\<exists>ok t'. hmap_put 2 m key x = Some (ok, t') \<and> hmap_wf t' \<and>
      hmap_abs t' = (if ok then (hmap_abs m)(key \<mapsto> x) else hmap_abs m)"
    unfolding numeral_2_eq_2 by (intro exI[of _ ok] exI[of _ m']) (auto split: if_splits)
qed (rule hmap_get_correct)

section \<open>The size of a table\<close>

lemma pow_word_le: "n \<le> 63 \<Longrightarrow> ((2 :: u64) ^ n < c) = (2 ^ n < unat c)"
proof -
  assume "n \<le> 63"
  then have "(2 :: nat) ^ n < 2 ^ 64" by (intro power_strict_increasing) simp_all
  moreover have "unat ((2 :: u64) ^ n) = unat (of_nat (2 ^ n) :: u64)" by simp
  ultimately have "unat ((2 :: u64) ^ n) = 2 ^ n" by (simp only: unat_of_nat) simp
  then show "((2 :: u64) ^ n < c) = (2 ^ n < unat c)" by (simp add: word_less_nat_alt)
qed

lemma push_bit_pow: "push_bit 1 (2 ^ n) = (2 :: u64) ^ Suc n"
  by (simp add: push_bit_eq_mult)

lemma calc_hmap_loop_ends:
  "n \<le> k \<Longrightarrow> k \<le> 63 \<Longrightarrow> unat c \<le> 2 ^ k \<Longrightarrow> \<forall>j < k. 2 ^ j < unat c \<Longrightarrow>
   calc_hmap_loop c (2 ^ n) (of_nat n) = Some (of_nat k)"
proof (induction "k - n" arbitrary: n)
  case 0
  then have "n = k" by simp
  then show ?case using 0 pow_word_le[of k c] by (subst calc_hmap_loop.simps) simp
next
  case (Suc d)
  have n: "n < k" "n \<le> 63" using Suc.hyps(2) Suc.prems by simp_all
  have "calc_hmap_loop c (2 ^ Suc n) (of_nat (Suc n)) = Some (of_nat k)"
    by (rule Suc.hyps(1)) (use Suc.hyps(2) Suc.prems n in simp_all)
  then show ?case using pow_word_le[OF n(2), of c] Suc.prems(4) n(1)
    by (subst calc_hmap_loop.simps) (simp add: push_bit_pow add.commute mult.commute)
qed

lemma calc_hmap_loop_stuck: "c \<noteq> 0 \<Longrightarrow> calc_hmap_loop c 0 l = None"
proof (rule ccontr)
  assume c: "c \<noteq> 0" and "calc_hmap_loop c 0 l \<noteq> None"
  then obtain y where y: "calc_hmap_loop c 0 l = Some y" by auto
  have "0 = (0 :: u64) \<longrightarrow> c \<noteq> 0 \<longrightarrow> False"
  proof (rule calc_hmap_loop.raw_induct[OF _ y, of "\<lambda>c p l y. p = 0 \<longrightarrow> c \<noteq> 0 \<longrightarrow> False"])
    fix f c p l y
    assume "\<And>c p l y. f c p l = Some y \<Longrightarrow> p = 0 \<longrightarrow> c \<noteq> (0 :: u64) \<longrightarrow> False"
      and "(if c > p then f c (push_bit 1 p) (l + 1) else Some l) = Some y"
    then show "p = 0 \<longrightarrow> c \<noteq> 0 \<longrightarrow> False" by (metis push_bit_of_0 word_gt_0)
  qed
  then show False using c by simp
qed

lemma calc_hmap_loop_diverges:
  "n \<le> 63 \<Longrightarrow> 2 ^ 63 < unat c \<Longrightarrow> calc_hmap_loop c (2 ^ n) l = None"
proof (induction "63 - n" arbitrary: n l)
  case 0
  then have n: "n = 63" by simp
  have "c \<noteq> 0" using 0 by auto
  have z: "(18446744073709551616 :: u64) = 0" by (simp flip: unat_eq_0)
  then show ?case using 0(3) pow_word_le[of 63 c] calc_hmap_loop_stuck[OF \<open>c \<noteq> 0\<close>] unfolding n
    by (subst calc_hmap_loop.simps) (simp add: z)
next
  case (Suc d)
  have n: "n < 63" "n \<le> 63" using Suc.hyps(2) by simp_all
  have "(2 :: nat) ^ n \<le> 2 ^ 63" using n(2) by (intro power_increasing) simp_all
  then have "2 ^ n < unat c" using Suc.prems(2) by (rule le_less_trans)
  moreover have "calc_hmap_loop c (2 ^ Suc n) (l + 1) = None"
    by (rule Suc.hyps(1)) (use Suc.hyps(2) Suc.prems n in simp_all)
  ultimately show ?case using pow_word_le[OF n(2), of c]
    by (subst calc_hmap_loop.simps) (simp add: push_bit_pow mult.commute)
qed

text \<open>
  C24. The size computed for a table is the logarithm of the least power of two that is not below the
  capacity asked for, and the loop never ends for a capacity above 2 to the 63.
\<close>

theorem calc_hmap_size_correct:
  "calc_hmap_size c = (if unat c \<le> 2 ^ 63 then Some (of_nat (LEAST k. unat c \<le> 2 ^ k)) else None)"
proof (cases "unat c \<le> 2 ^ 63")
  case True
  let ?k = "LEAST k. unat c \<le> 2 ^ k"
  have "unat c \<le> 2 ^ ?k" using True by (rule LeastI)
  moreover have "?k \<le> 63" using True by (rule Least_le)
  moreover have "\<forall>j < ?k. 2 ^ j < unat c" using not_less_Least by (force simp: not_le)
  ultimately show ?thesis using calc_hmap_loop_ends[of 0 ?k c] True by (simp add: calc_hmap_size_def)
next
  case False
  then show ?thesis using calc_hmap_loop_diverges[of 0 c 0] by (simp add: calc_hmap_size_def)
qed

section \<open>Tables as maps\<close>

lemma hmap_new:
  assumes "c \<le> 30" "alloc (2 ^ c)"
  shows "\<exists>m. hmap c alloc = Some m \<and> hmap_wf m \<and> hmap_abs m = Map.empty \<and> hm_cap m = 2 ^ c \<and> hm_alloc m = alloc \<and>
    hm_len m = 0"
proof -
  let ?m = "\<lparr>entries = [], hm_cap = 0, hm_len = 0, hm_mask = 0, hm_alloc = alloc\<rparr>"
  have "hmap c alloc = Some (fresh ?m (2 ^ c))" using assms by (simp add: hmap_def fresh_def numeral_2_eq_2)
  then show ?thesis using fresh_wf[of c ?m] assms by (simp add: fresh_def)
qed

text \<open>A sequence of insertions; it stops at one that fails.\<close>

fun hmap_puts :: "HMap \<Rightarrow> (u64 \<times> u64) list \<Rightarrow> (bool \<times> HMap) option" where
  "hmap_puts m [] = Some (True, m)"
| "hmap_puts m ((k, x) # kxs) = do {
     (ok, m) \<leftarrow> hmap_put 2 m k x;
     if ok then hmap_puts m kxs else Some (False, m) }"

lemma hmap_puts_correct:
  "hmap_wf m \<Longrightarrow> list_all (\<lambda>kx. fst kx \<noteq> 0) kxs \<Longrightarrow> (\<And>n. n \<le> 56 \<Longrightarrow> hm_alloc m (2 ^ n)) \<Longrightarrow>
   hm_cap m \<le> 2 ^ 56 \<Longrightarrow> hm_len m + length kxs \<le> 2 ^ 54 \<Longrightarrow>
   \<exists>m'. hmap_puts m kxs = Some (True, m') \<and> hmap_wf m' \<and> hmap_abs m' = hmap_abs m ++ map_of (rev kxs)"
proof (induction kxs arbitrary: m)
  case (Cons kx kxs)
  obtain k x where kx: "kx = (k, x)" by fastforce
  obtain l where l: "hm_cap m = 2 ^ l" using Cons.prems(1) by (auto simp: hmap_wf_def table_size_def)
  have c62: "hm_cap m \<le> 2 ^ 62" using Cons.prems(4) by simp
  have mem: "hm_alloc m (2 * hm_cap m)" if full: "6 * hm_cap m \<le> 10 * (hm_len m + 1)"
  proof -
    have "(2 :: nat) ^ Suc l \<le> 2 ^ 56" using full Cons.prems(5) l by simp
    then have "Suc l \<le> 56" by (rule power_le_imp_le_exp[rotated]) simp
    then show ?thesis using Cons.prems(3)[of "Suc l"] l by simp
  qed
  obtain ok m1 where m1: "hmap_put 2 m k x = Some (ok, m1)" "hmap_wf m1" "hm_alloc m1 = hm_alloc m"
      "hm_cap m1 \<le> max (hm_cap m) (4 * (hm_len m + 1))" "hm_len m1 \<le> hm_len m + 1"
      "if ok then hmap_abs m1 = (hmap_abs m)(k \<mapsto> x)
       else m1 = m \<and> 6 * hm_cap m \<le> 10 * (hm_len m + 1) \<and> \<not> hm_alloc m (2 * hm_cap m)"
    using hmap_put_correct[OF Cons.prems(1) _ c62, of k 0 x] Cons.prems(2) kx unfolding numeral_2_eq_2 by fastforce
  then have ok: ok "hmap_abs m1 = (hmap_abs m)(k \<mapsto> x)" using mem by (auto split: if_splits)
  have "hm_cap m1 \<le> 2 ^ 56" "hm_len m1 + length kxs \<le> 2 ^ 54" using m1(4,5) Cons.prems(4,5) by auto
  then obtain m' where "hmap_puts m1 kxs = Some (True, m')" "hmap_wf m'" "hmap_abs m' = hmap_abs m1 ++ map_of (rev kxs)"
    using Cons.IH[OF m1(2)] Cons.prems m1(3) by auto
  then show ?case using m1 ok kx by (auto simp: map_add_assoc[symmetric] simp del: hmap_put.simps)
qed simp

text \<open>
  C23. After any sequence of insertions into a new table, a lookup finds for every key the value last stored
  under it, and null for a key that was never stored: through every collision, wrap around the end of the
  table and expansion. (Keys are not zero, the table is asked for with at most
  2 to the 30 slots, the largest power of two the \<open>int\<close> shift of \<open>hmap\<close> can make, the memory the expansions
  ask for can be had, and there are at most 2 to the 54 insertions.)
\<close>

theorem hmap_refines_map:
  assumes "c \<le> 30" "length kxs \<le> 2 ^ 54" and "list_all (\<lambda>kx. fst kx \<noteq> 0) kxs"
    and "\<And>n. n \<le> 56 \<Longrightarrow> alloc (2 ^ n)" and "key \<noteq> 0"
  shows "(do { m \<leftarrow> hmap c alloc; (ok, m) \<leftarrow> hmap_puts m kxs; hmap_get m key }) = Some (map_of (rev kxs) key)"
proof -
  obtain m where m: "hmap c alloc = Some m" "hmap_wf m" "hmap_abs m = Map.empty" "hm_cap m = 2 ^ c" "hm_alloc m = alloc"
      "hm_len m = 0"
    using hmap_new[of c alloc] assms(1,4) by auto
  have "hm_cap m \<le> 2 ^ 56" using assms(1) unfolding m(4) by (intro power_increasing) simp_all
  then obtain m' where "hmap_puts m kxs = Some (True, m')" "hmap_wf m'" "hmap_abs m' = map_of (rev kxs)"
    using hmap_puts_correct[OF m(2) assms(3)] assms(2,4) m(3,5,6) by auto
  then show ?thesis using m(1) hm.get_val[of m' key] assms(5) by simp
qed

theorem hmap_refines_map_witness:
  "(do { m \<leftarrow> hmap 1 (\<lambda>_. True); (ok, m) \<leftarrow> hmap_puts m [(1, 10), (2, 20), (1, 30)]; hmap_get m 1 }) = Some (Some 30)"
  using hmap_refines_map[of 1 "[(1, 10), (2, 20), (1, 30)]" "\<lambda>_. True" 1] by simp

section \<open>The mixer\<close>

text \<open>The inverse of the mixer: the inverses of its steps, in the opposite order.\<close>

definition unhash_uint64 :: "u64 \<Rightarrow> u64" where
  "unhash_uint64 h =
     (let h = h XOR drop_bit 27 h XOR drop_bit 54 h;
          h = h * 0xc47c8f6b6bafb41d;
          h = h XOR drop_bit 33 h;
          h = h * 0xc09c5fe5bd6dfddb
      in h XOR drop_bit 27 h XOR drop_bit 54 h)"

lemma xorshift_inverse_27: "(let h = x XOR drop_bit 27 x in h XOR drop_bit 27 h XOR drop_bit 54 h) = x" for x :: u64
  by (rule bit_word_eqI) (auto simp: Let_def bit_xor_iff bit_drop_bit_eq dest: bit_imp_le_length)

lemma xorshift_inverse_33: "(let h = x XOR drop_bit 33 x in h XOR drop_bit 33 h) = x" for x :: u64
  by (rule bit_word_eqI) (auto simp: Let_def bit_xor_iff bit_drop_bit_eq dest: bit_imp_le_length)

lemma mult_inverse:
  "x * 0x3C79AC492BA7B653 * 0xc09c5fe5bd6dfddb = x" "x * 0x1C69B3F74AC4AE35 * 0xc47c8f6b6bafb41d = x" for x :: u64
proof -
  have "(0x3C79AC492BA7B653 :: u64) * 0xc09c5fe5bd6dfddb = 1" "(0x1C69B3F74AC4AE35 :: u64) * 0xc47c8f6b6bafb41d = 1"
    by code_simp+
  then show "x * 0x3C79AC492BA7B653 * 0xc09c5fe5bd6dfddb = x" "x * 0x1C69B3F74AC4AE35 * 0xc47c8f6b6bafb41d = x"
    unfolding mult.assoc by (simp_all only: mult_1_right)
qed

text \<open>
  C25. The mixer loses nothing: a hash determines the number it was computed from, so two keys of a table
  never have the same 64-bit hash, and collisions come from the mask alone.
\<close>

theorem hash_uint64_invertible: "unhash_uint64 (hash_uint64 x) = x"
proof -
  define a b c d where "a = x XOR drop_bit 27 x" and "b = a * 0x3C79AC492BA7B653" and "c = b XOR drop_bit 33 b"
    and "d = c * 0x1C69B3F74AC4AE35"
  note ds = a_def b_def c_def d_def
  have h: "hash_uint64 x = d XOR drop_bit 27 d" by (simp only: hash_uint64_def ds Let_def)
  have "unhash_uint64 (hash_uint64 x) =
      (let h = d * 0xc47c8f6b6bafb41d; h = h XOR drop_bit 33 h; h = h * 0xc09c5fe5bd6dfddb
       in h XOR drop_bit 27 h XOR drop_bit 54 h)"
    unfolding h unhash_uint64_def using xorshift_inverse_27[of d] by (simp only: Let_def)
  also have "\<dots> = (let h = a in h XOR drop_bit 27 h XOR drop_bit 54 h)"
  proof -
    have "d * 0xc47c8f6b6bafb41d = c" unfolding d_def by (rule mult_inverse)
    moreover have "c XOR drop_bit 33 c = b" unfolding c_def using xorshift_inverse_33[of b] by (simp only: Let_def)
    moreover have "b * 0xc09c5fe5bd6dfddb = a" unfolding b_def by (rule mult_inverse)
    ultimately show ?thesis by (simp only: Let_def)
  qed
  also have "(let h = a in h XOR drop_bit 27 h XOR drop_bit 54 h) = x"
    unfolding a_def by (rule xorshift_inverse_27)
  finally show ?thesis .
qed

end
