(* ===== verification/Cstring_Correct.thy ===== *)
theory Cstring_Correct
  imports Cstring
begin

text \<open>
  The character tables as sets of characters, the word-at-a-time length of a string against its definition,
  and string comparison as equality.
\<close>

section \<open>The character tables\<close>

abbreviation code :: "char \<Rightarrow> nat" where "code \<equiv> of_char"

lemma code_less: "code c < 256"
  using of_char_mod_256[of c] by (metis mod_less_divisor zero_less_numeral)

lemma code_eqI: "code c = code d \<Longrightarrow> c = d"
  by simp

lemma code_cases: "c = d \<longleftrightarrow> code c = code d"
  by simp

text \<open>The table in runs of equal properties.\<close>

fun runs :: "nat \<Rightarrow> (nat \<times> nat) list \<Rightarrow> nat \<Rightarrow> nat" where
  "runs a [] n = 0"
| "runs a ((k, x) # rs) n = (if n < k + a then x else runs (k + a) rs n)"

lemma runs_nth:
  "a \<le> n \<Longrightarrow> n < a + sum_list (map fst rs) \<Longrightarrow> concat (map (\<lambda>(k, x). replicate k x) rs) ! (n - a) = runs a rs n"
proof (induction rs arbitrary: a)
  case (Cons r rs)
  obtain k x where r: "r = (k, x)" by fastforce
  have "n - a - k = n - (k + a)" by simp
  then show ?case using Cons.IH[of "k + a"] Cons.prems r by (auto simp: nth_append)
qed simp

definition char_runs :: "(nat \<times> nat) list" where
  "char_runs =
     [(9, 8), (3, 9), (1, 8), (1, 9), (18, 8), (1, 1), (15, 0), (10, 6), (7, 0), (26, 4), (4, 0), (1, 4), (1, 0),
      (26, 4), (4, 0), (1, 8), (128, 0)]"

lemma char_props_runs: "char_props = concat (map (\<lambda>(k, x). replicate k x) char_runs)"
  by (simp add: char_props_def char_runs_def numeral_eq_Suc)

lemma char_props_nth:
  "n < 256 \<Longrightarrow> char_props ! n =
     (if n < 9 then 8 else if n < 12 then 9 else if n < 13 then 8 else if n < 14 then 9 else if n < 32 then 8
      else if n < 33 then 1 else if n < 48 then 0 else if n < 58 then 6 else if n < 65 then 0 else if n < 91 then 4
      else if n < 95 then 0 else if n < 96 then 4 else if n < 97 then 0 else if n < 123 then 4 else if n < 127 then 0
      else if n < 128 then 8 else 0)"
proof -
  assume "n < 256"
  moreover have "sum_list (map fst char_runs) = 256" by (simp add: char_runs_def)
  ultimately have "char_props ! n = runs 0 char_runs n" unfolding char_props_runs using runs_nth[of 0 n char_runs] by simp
  then show ?thesis by (simp add: char_runs_def)
qed

lemma is_whitespace_iff: "is_whitespace c \<longleftrightarrow> c \<in> {CHR 0x09, NL, CHR 0x0B, CHR 0x0D, CHR '' ''}"
  unfolding is_whitespace_def char_props_nth[OF code_less] code_cases insert_iff empty_iff by auto

lemma is_dec_digit_iff: "is_dec_digit c \<longleftrightarrow> 48 \<le> code c \<and> code c \<le> 57"
  unfolding is_dec_digit_def char_props_nth[OF code_less] by auto

lemma is_alphanum_iff:
  "is_alphanum c \<longleftrightarrow> 48 \<le> code c \<and> code c \<le> 57 \<or> 65 \<le> code c \<and> code c \<le> 90 \<or> code c = 95 \<or> 97 \<le> code c \<and> code c \<le> 122"
  unfolding is_alphanum_def char_props_nth[OF code_less] by auto

lemma is_cntrl_iff: "is_cntrl c \<longleftrightarrow> code c < 32 \<or> code c = 127"
  unfolding is_cntrl_def char_props_nth[OF code_less] by auto

lemma biased_digit_iff:
  "biased_digit c = (if 48 \<le> code c \<and> code c \<le> 57 then code c - 47 else if 65 \<le> code c \<and> code c \<le> 70 then code c - 54
     else if 97 \<le> code c \<and> code c \<le> 102 then code c - 86 else 0)"
proof (cases "c \<in> set (map fst char_to_biased_digit)")
  case True
  then show ?thesis by (auto simp: char_to_biased_digit_def biased_digit_def)
next
  case False
  then have "map_of char_to_biased_digit c = None" by (simp add: map_of_eq_None_iff)
  moreover have "code c \<notin> {48..57} \<union> {65..70} \<union> {97..102}"
    using False by (simp add: char_to_biased_digit_def code_cases) presburger
  ultimately show ?thesis by (simp add: biased_digit_def)
qed

lemma biased_digit_le: "biased_digit c \<le> 16"
  unfolding biased_digit_iff by auto

lemma biased_digit_alphanum: "biased_digit c \<noteq> 0 \<Longrightarrow> is_alphanum c"
  unfolding biased_digit_iff is_alphanum_iff by (auto split: if_splits)

lemma biased_digit_dec: "is_dec_digit c \<Longrightarrow> biased_digit c = code c - 47"
  unfolding biased_digit_iff is_dec_digit_iff by auto

lemma dec_alphanum: "is_dec_digit c \<Longrightarrow> is_alphanum c"
  unfolding is_dec_digit_iff is_alphanum_iff by auto

lemma NUL_props [simp]: "\<not> is_whitespace NUL" "\<not> is_dec_digit NUL" "\<not> is_alphanum NUL" "is_cntrl NUL"
  "biased_digit NUL = 0"
  by (simp_all add: is_whitespace_iff is_dec_digit_iff is_alphanum_iff is_cntrl_iff biased_digit_iff)

section \<open>Zero bytes in a word\<close>

definition zero_byte_bit :: "u32 \<Rightarrow> nat \<Rightarrow> bool" where
  "zero_byte_bit x n \<longleftrightarrow> bit (x - U32_ONE_BYTES) n \<and> \<not> bit x n"

lemma has_zero_byte_bits: "U32_HAS_ZERO_BYTE x \<longleftrightarrow> (\<exists>n \<in> {7, 15, 23, 31}. zero_byte_bit x n)"
proof -
  have b: "bit U32_EIGHT_BYTES n \<longleftrightarrow> n \<in> {7, 15, 23, 31}" for n
  proof -
    have e: "U32_EIGHT_BYTES = 2 ^ 7 OR 2 ^ 15 OR 2 ^ 23 OR 2 ^ 31" by (simp add: U32_EIGHT_BYTES_def)
    show ?thesis unfolding e bit_or_iff bit_exp_iff by auto
  qed
  have "U32_HAS_ZERO_BYTE x \<longleftrightarrow> (\<exists>n. bit ((x - U32_ONE_BYTES) AND NOT x AND U32_EIGHT_BYTES) n)"
    unfolding U32_HAS_ZERO_BYTE_def by (metis bit_0_eq bit_word_eqI bot_apply bot_bool_def)
  also have "\<dots> \<longleftrightarrow> (\<exists>n. n \<in> {7, 15, 23, 31} \<and> zero_byte_bit x n)"
    unfolding zero_byte_bit_def by (auto simp: bit_and_iff bit_not_iff b)
  finally show ?thesis by blast
qed

lemma bit_unat_mod: "bit x n \<longleftrightarrow> 2 ^ n \<le> unat x mod 2 ^ Suc n" for x :: u32
proof -
  have "bit x n \<longleftrightarrow> odd (unat x div 2 ^ n)" by (simp add: bit_unsigned_iff flip: bit_iff_odd)
  also have "\<dots> \<longleftrightarrow> 2 ^ n \<le> unat x mod 2 ^ Suc n"
  proof -
    have "unat x mod 2 ^ Suc n = unat x mod 2 ^ n + 2 ^ n * (unat x div 2 ^ n mod 2)"
      using mod_mult2_eq[of "unat x" "2 ^ n" 2] by (simp only: power_Suc2 add.commute)
    moreover have "unat x mod 2 ^ n < 2 ^ n" by simp
    ultimately show ?thesis by (cases "odd (unat x div 2 ^ n)") (simp_all add: mod2_eq_if not_le)
  qed
  finally show ?thesis .
qed

lemma sub_mod_half:
  fixes p h ones :: nat
  assumes "p < 2 * h" "ones \<le> h"
  shows "h \<le> (p + 2 * h - ones) mod (2 * h) \<and> p < h \<longleftrightarrow> p < ones"
proof (cases "p < ones")
  case True
  then have "(p + 2 * h - ones) mod (2 * h) = p + 2 * h - ones" using assms by simp
  then show ?thesis using True assms by simp
next
  case False
  then have "p + 2 * h - ones = (p - ones) + 2 * h" by simp
  then have "(p + 2 * h - ones) mod (2 * h) = (p - ones) mod (2 * h)" by (simp only: mod_add_self2)
  then show ?thesis using False assms by (cases "p < h") simp_all
qed

lemma zero_byte_bit_iff:
  assumes n: "n \<in> {7, 15, 23, 31}"
  shows "zero_byte_bit x n \<longleftrightarrow> unat x mod 2 ^ Suc n < 0x01010101 mod 2 ^ Suc n"
proof -
  let ?m = "2 ^ Suc n :: nat" and ?ones = "0x01010101 :: nat"
  have dvd: "?m dvd 2 ^ 32" using n by (intro le_imp_power_dvd) auto
  have "(- U32_ONE_BYTES) = 4278124287" unfolding U32_ONE_BYTES_def by code_simp
  then have e: "x - U32_ONE_BYTES = x + 4278124287" by (metis diff_conv_add_uminus)
  have "unat (x - U32_ONE_BYTES) = (unat x + (2 ^ 32 - ?ones)) mod 2 ^ 32"
    unfolding e by (simp add: unat_word_ariths)
  then have "unat (x - U32_ONE_BYTES) mod ?m = (unat x + (2 ^ 32 - ?ones)) mod ?m"
    using dvd by (simp add: mod_mod_cancel)
  also have "\<dots> = (unat x mod ?m + ?m - ?ones mod ?m) mod ?m"
  proof -
    have c: "(2 ^ 32 - ?ones) mod ?m = ?m - ?ones mod ?m" using n by auto
    have "?ones mod ?m \<le> ?m" by simp
    then have "unat x mod ?m + ?m - ?ones mod ?m = unat x mod ?m + (2 ^ 32 - ?ones) mod ?m" unfolding c by simp
    then show ?thesis by (simp only: mod_add_eq)
  qed
  finally have s: "unat (x - U32_ONE_BYTES) mod ?m = (unat x mod ?m + 2 * 2 ^ n - ?ones mod ?m) mod (2 * 2 ^ n)" by simp
  have o: "?ones mod ?m \<le> 2 ^ n" using n by auto
  have p: "unat x mod ?m < 2 * 2 ^ n" by simp
  show ?thesis unfolding zero_byte_bit_def bit_unat_mod not_le s using sub_mod_half[OF p o] by simp
qed

lemma mod_low: "x = r + q * m \<Longrightarrow> r < m \<Longrightarrow> x mod m = r" for x :: nat
  by simp

lemma no_borrow:
  fixes a b c d :: nat
  assumes "a < 256" "b < 256" "c < 256"
  shows "a < 1 \<or> a + 256 * b < 257 \<or> a + 256 * b + 65536 * c < 65793 \<or> a + 256 * b + 65536 * c + 16777216 * d < 16843009 \<longleftrightarrow>
    a = 0 \<or> b = 0 \<or> c = 0 \<or> d = 0"
  using assms by auto

text \<open>
  The test for a zero byte that the word-at-a-time loop uses, \<open>(x - 0x01010101) & ~x & 0x80808080\<close>,
  finds exactly the words in which one of the four characters is the terminator.
\<close>

theorem has_zero_byte_correct: "U32_HAS_ZERO_BYTE (load_u32 a b c d) \<longleftrightarrow> NUL \<in> {a, b, c, d}"
proof -
  let ?x = "code a + 256 * code b + 65536 * code c + 16777216 * code d"
  note lt = code_less[of a] code_less[of b] code_less[of c] code_less[of d]
  have "?x < 4294967296" using lt by linarith
  then have u: "unat (load_u32 a b c d) = ?x" unfolding load_u32_def unat_of_nat by simp
  have m: "?x mod 256 = code a" "?x mod 65536 = code a + 256 * code b"
    "?x mod 16777216 = code a + 256 * code b + 65536 * code c" "?x mod 4294967296 = ?x"
  proof -
    have "code a + 256 * code b < 65536" "code a + 256 * code b + 65536 * code c < 16777216" using lt by linarith+
    note this lt(1)
    show "?x mod 256 = code a" by (rule mod_low[of _ _ "code b + 256 * code c + 65536 * code d"]) (use lt in simp_all)
    show "?x mod 65536 = code a + 256 * code b" by (rule mod_low[of _ _ "code c + 256 * code d"]) (use \<open>code a + 256 * code b < 65536\<close> in simp_all)
    show "?x mod 16777216 = code a + 256 * code b + 65536 * code c"
      by (rule mod_low[of _ _ "code d"]) (use \<open>code a + 256 * code b + 65536 * code c < 16777216\<close> in simp_all)
    show "?x mod 4294967296 = ?x" using \<open>?x < 4294967296\<close> by (rule mod_less)
  qed
  have "U32_HAS_ZERO_BYTE (load_u32 a b c d) \<longleftrightarrow>
      ?x mod 256 < 1 \<or> ?x mod 65536 < 257 \<or> ?x mod 16777216 < 65793 \<or> ?x mod 4294967296 < 16843009"
    unfolding has_zero_byte_bits by (simp add: zero_byte_bit_iff u)
  also have "\<dots> \<longleftrightarrow> code a = 0 \<or> code b = 0 \<or> code c = 0 \<or> code d = 0"
    unfolding m by (rule no_borrow) (rule lt)+
  also have "\<dots> \<longleftrightarrow> NUL \<in> {a, b, c, d}" unfolding insert_iff empty_iff code_cases by auto
  finally show ?thesis .
qed

section \<open>The length of a string\<close>

lemma len_bytes_correct: "NUL \<notin> set s \<Longrightarrow> len_bytes (s @ NUL # r) n = Some (n + length s)"
  by (induction s arbitrary: n) auto

text \<open>Once aligned, whole words are read: the characters left have to fill the word of the terminator.\<close>

lemma terminator_word: "m = s @ NUL # r \<Longrightarrow> 3 \<le> length s mod 4 + length r \<Longrightarrow> 4 \<le> length m"
  using mod_less_eq_dividend[of "length s" 4] by simp

lemma len_words_correct:
  "m = s @ NUL # r \<Longrightarrow> NUL \<notin> set s \<Longrightarrow> 3 \<le> length s mod 4 + length r \<Longrightarrow> len_words m n = Some (n + length s)"
proof (induction m n arbitrary: s rule: len_words.induct)
  case (1 a b c d m n)
  show ?case
  proof (cases "NUL \<in> {a, b, c, d}")
    case True
    then show ?thesis using len_bytes_correct[OF 1(3), of r n] unfolding 1(2)[symmetric]
      by (simp add: has_zero_byte_correct)
  next
    case False
    then have "\<exists>s'. s = a # b # c # d # s'" using 1(2)
      by (cases s; cases "tl s"; cases "tl (tl s)"; cases "tl (tl (tl s))") auto
    then obtain s' where s: "s = a # b # c # d # s'" by blast
    have "len_words m (n + 4) = Some (n + 4 + length s')"
      by (rule "1.IH") (use 1(2-4) s False in \<open>auto simp: has_zero_byte_correct\<close>)
    then show ?thesis using False s by (auto simp: has_zero_byte_correct)
  qed
qed (auto dest: terminator_word)

lemma len_align_correct:
  "NUL \<notin> set s \<Longrightarrow> 3 \<le> (unat addr + length s) mod 4 + length r \<Longrightarrow>
   len_align addr (s @ NUL # r) n = Some (n + length s)"
proof (induction s arbitrary: addr n)
  case Nil
  have "addr AND 3 = 0 \<longleftrightarrow> unat addr mod 4 = 0"
    using unat_and_mask[of 2 addr] by (simp add: mask_eq_exp_minus_1 flip: unat_eq_0)
  then show ?case using len_words_correct[of "NUL # r" "[]" r n] Nil by auto
next
  case (Cons c s)
  have z: "addr AND 3 = 0 \<longleftrightarrow> unat addr mod 4 = 0"
    using unat_and_mask[of 2 addr] by (simp add: mask_eq_exp_minus_1 flip: unat_eq_0)
  have "(unat (addr + 1) + length s) mod 4 = (unat addr + length (c # s)) mod 4"
  proof -
    have "unat (addr + 1) mod 4 = (unat addr + 1) mod 4" using unat_step[of 2 addr] by simp
    then have "(unat (addr + 1) mod 4 + length s) mod 4 = ((unat addr + 1) mod 4 + length s) mod 4" by (simp only:)
    then show ?thesis by (simp only: mod_add_left_eq) simp
  qed
  then show ?case using Cons len_words_correct[of "c # s @ NUL # r" "c # s" r n] z
    by (cases "addr AND 3 = 0") (auto simp: mod_add_left_eq)
qed

declare len_align.simps [simp del]

text \<open>
  C26. The word-at-a-time loop returns the number of characters before the first terminator, from any address,
  if the memory reaches to the end of the aligned word that holds the terminator.
\<close>

theorem cstr_len_correct:
  assumes "NUL \<notin> set s" and "3 \<le> (unat addr + length s) mod 4 + length r"
  shows "cstr_len addr (s @ NUL # r) = Some (length s)"
  using len_align_correct[OF assms] by (simp add: cstr_len_def)

theorem cstr_len_correct_witness:
  "cstr_len 0x1003 (''nibble'' @ NUL # ''xyz'') = Some 6"
  using cstr_len_correct[where s = "''nibble''" and addr = "0x1003" and r = "''xyz''"] by simp

lemma cstr_dup_correct:
  "NUL \<notin> set s \<Longrightarrow> 3 \<le> (unat addr + length s) mod 4 + length r \<Longrightarrow> cstr_dup addr (s @ NUL # r) = Some (s @ [NUL])"
  by (simp add: cstr_dup_def cstr_len_def len_align_correct)

lemma nlen_loop_correct:
  "len \<le> k \<Longrightarrow> NUL \<notin> set s \<Longrightarrow> nlen_loop (s @ NUL # r) len k = Some (min k (len + length s))"
proof (induction s arbitrary: len)
  case (Cons c s)
  then show ?case by (cases "len < k") (auto simp: min_def)
qed auto

lemma cstr_nlen_correct: "NUL \<notin> set s \<Longrightarrow> cstr_nlen (s @ NUL # r) k = Some (min k (length s))"
  using nlen_loop_correct[of 0 k s r] by (simp add: cstr_nlen_def)

section \<open>Comparison\<close>

lemma ncmp_loop_eq:
  "n < length s \<Longrightarrow> n < length t \<Longrightarrow> NUL \<notin> set (take (Suc n) s) \<Longrightarrow>
   \<exists>r. ncmp_loop s t n = Some r \<and> (r = 0 \<longleftrightarrow> take (Suc n) s = take (Suc n) t)"
proof (induction s t n rule: ncmp_loop.induct)
  case (1 a s b t n)
  show ?case
  proof (cases "a = b \<and> n \<noteq> 0")
    case True
    then obtain k where k: "n = Suc k" by (cases n) auto
    have "\<exists>r. ncmp_loop s t (n - 1) = Some r \<and> (r = 0 \<longleftrightarrow> take (Suc (n - 1)) s = take (Suc (n - 1)) t)"
      by (rule "1.IH") (use "1.prems" True k in auto)
    then show ?thesis using True "1.prems" k by auto
  next
    case False
    then show ?thesis using "1.prems" by auto
  qed
qed auto

lemma ncmp_eq:
  assumes "n \<le> length s" "n \<le> length t" "NUL \<notin> set (take n s)"
  shows "\<exists>r. cstr_ncmp s t n = Some r \<and> (r = 0 \<longleftrightarrow> take n s = take n t)"
proof (cases n)
  case (Suc k)
  then show ?thesis using ncmp_loop_eq[of k s t] assms by (simp add: cstr_ncmp_def)
qed (simp add: cstr_ncmp_def)

text \<open>
  \<open>cstr_ncmp\<close> over the first \<open>n\<close> characters of two buffers, the first of them without a terminator, is
  total and returns zero exactly when the characters agree: the equality the intern tables rely on.
\<close>

theorem cstr_ncmp_eq:
  assumes "n \<le> length s" "n \<le> length t" "NUL \<notin> set (take n s)"
  shows "\<exists>r. cstr_ncmp s t n = Some r \<and> (r = 0 \<longleftrightarrow> take n s = take n t)"
  by (rule ncmp_eq[OF assms])

theorem cstr_ncmp_eq_witness: "\<exists>r. cstr_ncmp ''proc'' ''procs'' 4 = Some r \<and> (r = 0) = (''proc'' = ''proc'')"
  using cstr_ncmp_eq[of 4 "''proc''" "''procs''"] by simp

lemma code_int_0 [simp]: "(of_char c :: int) = 0 \<longleftrightarrow> c = NUL"
  using of_char_eq_iff[of c NUL, where 'a = int] by simp

lemma cstr_cmp_eq:
  "NUL \<notin> set s \<Longrightarrow> NUL \<notin> set t \<Longrightarrow> \<exists>r. cstr_cmp (s @ NUL # s') (t @ NUL # t') = Some r \<and> (r = 0 \<longleftrightarrow> s = t)"
proof (induction s arbitrary: t)
  case Nil
  then show ?case by (cases t) auto
next
  case (Cons c s)
  then show ?case by (cases t) auto
qed

end
