(* ===== verification/Intern_Correct.thy ===== *)
theory Intern_Correct
  imports Intern Hash_Map_Correct Cstring_Correct
begin

text \<open>
  Interning is right: equal names have one node, different names have different ones, whatever their hashes. The
  argument is done once, in a locale of nodes with contents, and interpreted on identifiers and string literals.
  It rests on the interface of the hash table.
\<close>

section \<open>Chains\<close>

text \<open>The addresses of a chain from its first node.\<close>

fun chain :: "('n \<Rightarrow> u64) \<Rightarrow> (u64 \<Rightarrow> 'n option) \<Rightarrow> u64 \<Rightarrow> u64 list \<Rightarrow> bool" where
  "chain nxt heap p [] \<longleftrightarrow> p = 0"
| "chain nxt heap p (a # as) \<longleftrightarrow> p = a \<and> a \<noteq> 0 \<and> (\<exists>n. heap a = Some n \<and> chain nxt heap (nxt n) as)"

lemma chain_mono: "chain nxt heap p as \<Longrightarrow> heap \<subseteq>\<^sub>m heap' \<Longrightarrow> chain nxt heap' p as"
  by (induction as arbitrary: p) (force simp: map_le_def dom_def)+

lemma chain_fresh: "chain nxt heap p as \<Longrightarrow> heap a = None \<Longrightarrow> chain nxt (heap(a \<mapsto> n)) p as"
  by (erule chain_mono) (auto simp: map_le_def)

lemma chain_nodes: "chain nxt heap p as \<Longrightarrow> a \<in> set as \<Longrightarrow> \<exists>n. heap a = Some n"
  by (induction as arbitrary: p) auto

lemma chain_update:
  "chain nxt heap p as \<Longrightarrow> heap b = Some n \<Longrightarrow> nxt n' = nxt n \<Longrightarrow> chain nxt (heap(b \<mapsto> n')) p as"
  by (induction as arbitrary: p) auto

lemma find_node_chain:
  assumes "chain nxt heap p as" "\<forall>a \<in> set as. \<forall>n. heap a = Some n \<longrightarrow> same n = Some (P n)"
  shows "find_node nxt heap same p =
     Some (case find (\<lambda>a. P (the (heap a))) as of Some a \<Rightarrow> a | None \<Rightarrow> 0)"
  using assms
proof (induction as arbitrary: p)
  case Nil
  then show ?case by (subst find_node.simps) simp
next
  case (Cons a as)
  then show ?case by (subst find_node.simps) auto
qed

lemma find_unique: "x \<in> set xs \<Longrightarrow> P x \<Longrightarrow> \<forall>y \<in> set xs. P y \<longrightarrow> y = x \<Longrightarrow> find P xs = Some x"
proof (induction xs)
  case (Cons a xs)
  then show ?case by (cases "P a") fastforce+
qed simp

lemma hm_len_card: "hmap_wf m \<Longrightarrow> hm_len m = card (dom (hmap_abs m))"
proof -
  assume wf: "hmap_wf m"
  have "dom (hmap_abs m) = set (map fst (filter (\<lambda>e. fst e \<noteq> 0) (entries m)))"
    by (simp add: hmap_abs_def contents_def dom_map_of_conv_image_fst)
  then show ?thesis using wf distinct_keys[of "entries m"]
    by (simp only: distinct_card hmap_wf_def count_keys_def length_map)
qed

section \<open>Nodes with contents\<close>

locale interning =
  fixes nxt :: "'n \<Rightarrow> u64" and content :: "'n \<Rightarrow> 'c" and fine :: "'n \<Rightarrow> bool"
    and hash :: "'c \<Rightarrow> u64" and valid :: "'c \<Rightarrow> bool" and same :: "'c \<Rightarrow> 'n \<Rightarrow> bool option" and mk :: "'c \<Rightarrow> u64 \<Rightarrow> 'n"
  assumes nxt_mk: "nxt (mk c p) = p"
    and content_mk: "valid c \<Longrightarrow> content (mk c p) = c"
    and fine_mk: "valid c \<Longrightarrow> fine (mk c p)"
    and same_content: "fine n \<Longrightarrow> valid c \<Longrightarrow> hash (content n) = hash c \<Longrightarrow> same c n = Some (content n = c)"
begin

text \<open>
  The invariant: the table holds the first node of every chain, a chain has the nodes of its hash, and no two nodes
  have the same contents. At most \<open>N\<close> nodes are ever made.
\<close>

definition chains_ok :: "'n InternTab \<Rightarrow> bool" where
  "chains_ok tab \<longleftrightarrow>
     (\<forall>k. k \<noteq> 0 \<longrightarrow> (\<exists>as. chain nxt (it_heap tab) (case hmap_abs (it_map tab) k of Some v \<Rightarrow> v | None \<Rightarrow> 0) as \<and>
        set as = {p. \<exists>n. it_heap tab p = Some n \<and> hash (content n) = k}))"

definition nodes_ok :: "'n InternTab \<Rightarrow> bool" where
  "nodes_ok tab \<longleftrightarrow>
     (\<forall>p n. it_heap tab p = Some n \<longrightarrow> fine n \<and> hash (content n) \<noteq> 0) \<and>
     (\<forall>p n q m. it_heap tab p = Some n \<longrightarrow> it_heap tab q = Some m \<longrightarrow> content n = content m \<longrightarrow> p = q)"

definition wf :: "nat \<Rightarrow> 'n InternTab \<Rightarrow> bool" where
  "wf N tab \<longleftrightarrow>
     hmap_wf (it_map tab) \<and> hm_cap (it_map tab) \<le> 2 ^ 56 \<and> hm_len (it_map tab) \<le> it_count tab \<and>
     (\<forall>n \<le> 56. hm_alloc (it_map tab) (2 ^ n)) \<and> N \<le> 2 ^ 53 \<and> it_count tab \<le> N \<and>
     0 \<notin> ran (hmap_abs (it_map tab)) \<and> inj_on (it_addr tab) {..<N} \<and> 0 \<notin> it_addr tab ` {..<N} \<and> dom (it_heap tab) = it_addr tab ` {..<it_count tab} \<and>
     nodes_ok tab \<and> chains_ok tab"

lemma wf_empty:
  assumes "hmap c alloc = Some m" "c \<le> 30" "\<forall>n \<le> 56. alloc (2 ^ n)" "N \<le> 2 ^ 53" "inj_on addr {..<N}" "0 \<notin> addr ` {..<N}"
  shows "wf N \<lparr>it_map = m, it_heap = Map.empty, it_count = 0, it_addr = addr\<rparr>"
proof -
  obtain m' where m': "hmap c alloc = Some m'" "hmap_wf m'" "hmap_abs m' = Map.empty" "hm_cap m' = 2 ^ c" "hm_alloc m' = alloc" "hm_len m' = 0"
    using hmap_new[of c alloc] assms(2,3) by auto
  have "(2 :: nat) ^ c \<le> 2 ^ 56" using assms(2) by (intro power_increasing) simp_all
  then show ?thesis using assms m' by (auto simp: wf_def nodes_ok_def chains_ok_def intro!: exI[of _ "[]"])
qed

lemma wf_addr: "wf N tab \<Longrightarrow> i < N \<Longrightarrow> it_addr tab i \<noteq> 0"
  unfolding wf_def by (metis imageI lessThan_iff)

lemma wf_heap:
  assumes "wf N tab" "it_heap tab p = Some n"
  shows "p \<noteq> 0"
proof -
  have "p \<in> it_addr tab ` {..<it_count tab}" using assms unfolding wf_def by (metis domI)
  then obtain i where "i < it_count tab" "p = it_addr tab i" by auto
  moreover have "it_count tab \<le> N" using assms(1) by (simp add: wf_def)
  ultimately show ?thesis using wf_addr[OF assms(1)] by simp
qed

lemma wf_unique: "wf N tab \<Longrightarrow> it_heap tab p = Some n \<Longrightarrow> it_heap tab q = Some m \<Longrightarrow> content n = content m \<Longrightarrow> p = q"
  unfolding wf_def nodes_ok_def by blast

text \<open>The table has a key for every hash of a node.\<close>

lemma hm_len_hashes:
  assumes "wf N tab"
  shows "hm_len (it_map tab) = card ((\<lambda>n. hash (content n)) ` ran (it_heap tab))"
proof -
  have "dom (hmap_abs (it_map tab)) = (\<lambda>n. hash (content n)) ` ran (it_heap tab)"
  proof (rule set_eqI)
    fix k
    show "k \<in> dom (hmap_abs (it_map tab)) \<longleftrightarrow> k \<in> (\<lambda>n. hash (content n)) ` ran (it_heap tab)"
    proof (cases "k = 0")
      case True
      have "hmap_abs (it_map tab) 0 = None" by (auto simp: hmap_abs_def contents_None)
      moreover have "0 \<notin> (\<lambda>n. hash (content n)) ` ran (it_heap tab)"
        using assms by (auto simp: wf_def nodes_ok_def ran_def)
      ultimately show ?thesis using True by (simp add: domIff)
    next
      case False
      then obtain as where as: "chain nxt (it_heap tab) (case hmap_abs (it_map tab) k of Some v \<Rightarrow> v | None \<Rightarrow> 0) as"
        "set as = {p. \<exists>n. it_heap tab p = Some n \<and> hash (content n) = k}"
        using assms by (auto simp: wf_def chains_ok_def)
      have "k \<in> (\<lambda>n. hash (content n)) ` ran (it_heap tab) \<longleftrightarrow> set as \<noteq> {}"
        unfolding as(2) by (auto simp: ran_def image_iff)
      moreover have "0 \<notin> ran (hmap_abs (it_map tab))" using assms unfolding wf_def by blast
      then have "set as \<noteq> {} \<longleftrightarrow> hmap_abs (it_map tab) k \<noteq> None"
        using as(1) by (cases as; cases "hmap_abs (it_map tab) k") (auto simp: ran_def)
      ultimately show ?thesis by (simp add: domIff)
    qed
  qed
  moreover have "hmap_wf (it_map tab)" using assms by (simp only: wf_def)
  ultimately show ?thesis by (simp add: hm_len_card)
qed

lemma wf_update:
  assumes w: "wf N tab" and h: "it_heap tab p = Some n" and n': "nxt n' = nxt n" "content n' = content n" "fine n'"
  shows "wf N (tab\<lparr>it_heap := (it_heap tab)(p \<mapsto> n')\<rparr>)"
proof -
  have d: "insert p (dom (it_heap tab)) = dom (it_heap tab)" using h by blast
  have s: "{q. \<exists>m. ((it_heap tab)(p \<mapsto> n')) q = Some m \<and> hash (content m) = k} = {q. \<exists>m. it_heap tab q = Some m \<and> hash (content m) = k}" for k
    using h n'(2) by auto
  have "nodes_ok (tab\<lparr>it_heap := (it_heap tab)(p \<mapsto> n')\<rparr>)"
    using w h n' unfolding wf_def nodes_ok_def by (auto split: if_splits)
  moreover have "chains_ok (tab\<lparr>it_heap := (it_heap tab)(p \<mapsto> n')\<rparr>)"
    unfolding chains_ok_def
  proof (intro allI impI)
    fix k :: u64
    assume "k \<noteq> 0"
    then obtain as where as: "chain nxt (it_heap tab) (case hmap_abs (it_map tab) k of Some v \<Rightarrow> v | None \<Rightarrow> 0) as"
      "set as = {p. \<exists>n. it_heap tab p = Some n \<and> hash (content n) = k}"
      using w by (auto simp: wf_def chains_ok_def)
    then show "\<exists>as. chain nxt (it_heap (tab\<lparr>it_heap := (it_heap tab)(p \<mapsto> n')\<rparr>))
        (case hmap_abs (it_map (tab\<lparr>it_heap := (it_heap tab)(p \<mapsto> n')\<rparr>)) k of Some v \<Rightarrow> v | None \<Rightarrow> 0) as \<and>
        set as = {q. \<exists>m. it_heap (tab\<lparr>it_heap := (it_heap tab)(p \<mapsto> n')\<rparr>) q = Some m \<and> hash (content m) = k}"
      using chain_update[OF as(1) h n'(1)] h n'(2) by (intro exI[of _ as]) auto
  qed
  ultimately show ?thesis using w d by (simp add: wf_def)
qed

text \<open>The search returns the node with the contents, if there is one.\<close>

lemma search:
  assumes w: "wf N tab" and c: "valid c" "hash c \<noteq> 0"
  obtains as where "hmap_get (it_map tab) (hash c) = Some (hmap_abs (it_map tab) (hash c))"
    and "chain nxt (it_heap tab) (case hmap_abs (it_map tab) (hash c) of Some v \<Rightarrow> v | None \<Rightarrow> 0) as"
    and "set as = {p. \<exists>n. it_heap tab p = Some n \<and> hash (content n) = hash c}"
    and "find_node nxt (it_heap tab) (same c) (case hmap_abs (it_map tab) (hash c) of Some v \<Rightarrow> v | None \<Rightarrow> 0) =
      Some (case find (\<lambda>a. content (the (it_heap tab a)) = c) as of Some a \<Rightarrow> a | None \<Rightarrow> 0)"
proof -
  from w c(2) obtain as where as:
    "chain nxt (it_heap tab) (case hmap_abs (it_map tab) (hash c) of Some v \<Rightarrow> v | None \<Rightarrow> 0) as"
    "set as = {p. \<exists>n. it_heap tab p = Some n \<and> hash (content n) = hash c}"
    by (auto simp: wf_def chains_ok_def)
  have "\<forall>a \<in> set as. \<forall>n. it_heap tab a = Some n \<longrightarrow> same c n = Some (content n = c)"
  proof (intro ballI allI impI)
    fix a n
    assume "a \<in> set as" and n: "it_heap tab a = Some n"
    then have "hash (content n) = hash c" unfolding as(2) by simp
    moreover have "fine n" using w n by (simp add: wf_def nodes_ok_def)
    ultimately show "same c n = Some (content n = c)" by (intro same_content c(1))
  qed
  from find_node_chain[OF as(1) this] as hm.get_val[OF _ c(2), of "it_map tab"] w show thesis
    by (intro that[of as]) (simp_all add: wf_def)
qed

lemma found:
  assumes w: "wf N tab" and c: "valid c" "hash c \<noteq> 0" and p: "it_heap tab p = Some n" "content n = c"
  shows "intern_node nxt (same c) (mk c) (hash c) tab = Some (p, tab)"
proof -
  obtain as where as: "hmap_get (it_map tab) (hash c) = Some (hmap_abs (it_map tab) (hash c))"
    "chain nxt (it_heap tab) (case hmap_abs (it_map tab) (hash c) of Some v \<Rightarrow> v | None \<Rightarrow> 0) as"
    "set as = {p. \<exists>n. it_heap tab p = Some n \<and> hash (content n) = hash c}"
    "find_node nxt (it_heap tab) (same c) (case hmap_abs (it_map tab) (hash c) of Some v \<Rightarrow> v | None \<Rightarrow> 0) =
      Some (case find (\<lambda>a. content (the (it_heap tab a)) = c) as of Some a \<Rightarrow> a | None \<Rightarrow> 0)"
    by (rule search[OF w c])
  have mem: "p \<in> set as" using p as(3) by simp
  have only: "\<forall>q \<in> set as. content (the (it_heap tab q)) = c \<longrightarrow> q = p"
  proof (intro ballI impI)
    fix q
    assume q: "q \<in> set as" "content (the (it_heap tab q)) = c"
    then have "q \<in> {p. \<exists>n. it_heap tab p = Some n \<and> hash (content n) = hash c}" using as(3) by simp
    then obtain m where m: "it_heap tab q = Some m" by blast
    then have "content m = content n" using q(2) p(2) by simp
    then show "q = p" by (rule wf_unique[OF w m p(1)])
  qed
  have "content (the (it_heap tab p)) = c" using p by simp
  then have "find (\<lambda>a. content (the (it_heap tab a)) = c) as = Some p" by (rule find_unique[OF mem _ only])
  moreover have "p \<noteq> 0" using wf_heap[OF w p(1)] .
  ultimately show ?thesis using as(1,4) by (simp add: intern_node_def)
qed

lemma not_found:
  assumes w: "wf N tab" and c: "valid c" "hash c \<noteq> 0" and p: "\<forall>p n. it_heap tab p = Some n \<longrightarrow> content n \<noteq> c"
    and N: "it_count tab < N"
  shows "\<exists>tab' n. intern_node nxt (same c) (mk c) (hash c) tab = Some (it_addr tab (it_count tab), tab') \<and> wf N tab' \<and>
    it_addr tab' = it_addr tab \<and> it_count tab' = it_count tab + 1 \<and>
    it_heap tab (it_addr tab (it_count tab)) = None \<and> (\<exists>q. n = mk c q) \<and>
    it_heap tab' = (it_heap tab)(it_addr tab (it_count tab) \<mapsto> n)"
proof -
  let ?k = "hash c" and ?a = "it_addr tab (it_count tab)" and ?m = "it_map tab"
  define first where "first = (case hmap_abs ?m ?k of Some v \<Rightarrow> v | None \<Rightarrow> 0)"
  obtain as where as: "hmap_get ?m ?k = Some (hmap_abs ?m ?k)"
    "chain nxt (it_heap tab) first as" "set as = {p. \<exists>n. it_heap tab p = Some n \<and> hash (content n) = ?k}"
    "find_node nxt (it_heap tab) (same c) first =
      Some (case find (\<lambda>a. content (the (it_heap tab a)) = c) as of Some a \<Rightarrow> a | None \<Rightarrow> 0)"
    unfolding first_def by (rule search[OF w c])
  have "content (the (it_heap tab q)) \<noteq> c" if "q \<in> set as" for q
    using that p unfolding as(3) by force
  then have "find (\<lambda>a. content (the (it_heap tab a)) = c) as = None"
    unfolding find_None_iff by blast
  then have f: "find_node nxt (it_heap tab) (same c) first = Some 0" using as(4) by simp
  have a: "?a \<noteq> 0" using wf_addr[OF w N] .
  have fresh: "it_heap tab ?a = None"
  proof -
    have "inj_on (it_addr tab) {..<N}" using w by (simp only: wf_def)
    then have "?a \<notin> it_addr tab ` {..<it_count tab}"
    proof -
      have "?a \<noteq> it_addr tab i" if "i < it_count tab" for i
        using inj_onD[OF \<open>inj_on (it_addr tab) {..<N}\<close>, of "it_count tab" i] that N by auto
      then show ?thesis by blast
    qed
    then show ?thesis using w by (auto simp: wf_def)
  qed
  obtain l where l: "hm_cap ?m = 2 ^ l" using w by (auto simp: wf_def hmap_wf_def table_size_def)
  have mem: "hm_alloc ?m (2 * hm_cap ?m)" if full: "6 * hm_cap ?m \<le> 10 * (hm_len ?m + 1)"
  proof -
    have "hm_len ?m \<le> 2 ^ 53" using w by (simp add: wf_def)
    then have "(2 :: nat) ^ Suc l \<le> 2 ^ 56" using full l by simp
    then have "Suc l \<le> 56" by (rule power_le_imp_le_exp[rotated]) simp
    then have "hm_alloc ?m (2 ^ Suc l)" using w by (simp only: wf_def)
    then show ?thesis using l by simp
  qed
  have good: "hmap_wf ?m" "hm_cap ?m \<le> 2 ^ 62" using w by (simp_all add: wf_def)
  note put = hmap_put_correct[OF good(1) c(2) good(2), of 0 ?a, folded numeral_2_eq_2]
  obtain ok m' where m': "hmap_put 2 ?m ?k ?a = Some (ok, m')" "hmap_wf m'" "hm_alloc m' = hm_alloc ?m"
      "hm_cap m' \<le> max (hm_cap ?m) (4 * (hm_len ?m + 1))" "hm_len m' \<le> hm_len ?m + 1"
      "if ok then hmap_abs m' = (hmap_abs ?m)(?k \<mapsto> ?a)
       else m' = ?m \<and> 6 * hm_cap ?m \<le> 10 * (hm_len ?m + 1) \<and> \<not> hm_alloc ?m (2 * hm_cap ?m)"
    using put by blast
  then have abs: "hmap_abs m' = (hmap_abs ?m)(?k \<mapsto> ?a)" using mem by (auto split: if_splits)
  let ?n = "mk c first" let ?tab = "tab\<lparr>it_map := m', it_heap := (it_heap tab)(?a \<mapsto> ?n), it_count := it_count tab + 1\<rparr>"
  have "intern_node nxt (same c) (mk c) ?k tab = Some (?a, ?tab)"
    using as(1) f a m'(1) by (simp add: intern_node_def first_def[symmetric] Let_def)
  moreover have "wf N ?tab"
  proof -
    have "nodes_ok ?tab"
      using w p c by (auto simp: nodes_ok_def wf_def content_mk fine_mk)
    moreover have "chains_ok ?tab"
      unfolding chains_ok_def
    proof (intro allI impI)
      fix k :: u64
      assume k: "k \<noteq> 0"
      show "\<exists>as. chain nxt (it_heap ?tab) (case hmap_abs (it_map ?tab) k of Some v \<Rightarrow> v | None \<Rightarrow> 0) as \<and>
        set as = {p. \<exists>n. it_heap ?tab p = Some n \<and> hash (content n) = k}"
      proof (cases "k = ?k")
        case True
        have "chain nxt ((it_heap tab)(?a \<mapsto> ?n)) first as"
          by (rule chain_fresh[OF as(2) fresh])
        then show ?thesis using True abs a as(3) fresh c
          by (intro exI[of _ "?a # as"]) (auto simp: nxt_mk content_mk)
      next
        case False
        from w k obtain as' where as': "chain nxt (it_heap tab) (case hmap_abs ?m k of Some v \<Rightarrow> v | None \<Rightarrow> 0) as'"
          "set as' = {p. \<exists>n. it_heap tab p = Some n \<and> hash (content n) = k}"
          by (auto simp: wf_def chains_ok_def)
        have "chain nxt ((it_heap tab)(?a \<mapsto> ?n)) (case hmap_abs ?m k of Some v \<Rightarrow> v | None \<Rightarrow> 0) as'"
          by (rule chain_fresh[OF as'(1) fresh])
        then show ?thesis using False abs as'(2) fresh c by (intro exI[of _ as']) (auto simp: content_mk)
      qed
    qed
    moreover have "insert ?a (dom (it_heap tab)) = it_addr tab ` {..<it_count tab + 1}"
      using w by (auto simp: wf_def lessThan_Suc)
    moreover have "hm_cap m' \<le> 2 ^ 56" using m'(4) w by (auto simp: wf_def)
    moreover have "0 \<notin> ran (hmap_abs m')" using w a unfolding abs wf_def by (auto simp: ran_def)
    ultimately show ?thesis using w m'(2,3,5) N by (simp add: wf_def)
  qed
  ultimately show ?thesis using fresh by (intro exI[of _ ?tab] exI[of _ ?n]) auto
qed

text \<open>Either way: the node of the contents, all others as they were.\<close>

lemma intern:
  assumes w: "wf N tab" and c: "valid c" "hash c \<noteq> 0" and N: "it_count tab < N"
  shows "\<exists>p tab' n. intern_node nxt (same c) (mk c) (hash c) tab = Some (p, tab') \<and> wf N tab' \<and>
    it_addr tab' = it_addr tab \<and> it_count tab \<le> it_count tab' \<and> it_count tab' \<le> it_count tab + 1 \<and>
    content n = c \<and> it_heap tab' = (it_heap tab)(p \<mapsto> n) \<and> it_heap tab p \<in> {None, Some n} \<and>
    (it_heap tab p = None \<longrightarrow> (\<exists>q. n = mk c q))"
proof (cases "\<exists>p n. it_heap tab p = Some n \<and> content n = c")
  case True
  then obtain p n where p: "it_heap tab p = Some n" "content n = c" by blast
  show ?thesis
    using found[OF w c p] w p by (intro exI[of _ p] exI[of _ tab] exI[of _ n]) (simp add: fun_upd_idem)
next
  case False
  then have "\<forall>p n. it_heap tab p = Some n \<longrightarrow> content n \<noteq> c" by blast
  from not_found[OF w c this N] obtain tab' n where t:
    "intern_node nxt (same c) (mk c) (hash c) tab = Some (it_addr tab (it_count tab), tab')" "wf N tab'"
    "it_addr tab' = it_addr tab" "it_count tab' = it_count tab + 1" "it_heap tab (it_addr tab (it_count tab)) = None"
    "\<exists>q. n = mk c q" "it_heap tab' = (it_heap tab)(it_addr tab (it_count tab) \<mapsto> n)"
    by blast
  have "content n = c" using t(6) content_mk[OF c(1)] by blast
  then show ?thesis using t by (intro exI[of _ "it_addr tab (it_count tab)"] exI[of _ tab'] exI[of _ n]) simp
qed

lemma unique: "wf N tab \<Longrightarrow> it_heap tab p = Some n \<Longrightarrow> it_heap tab q = Some m \<Longrightarrow> p = q \<longleftrightarrow> content n = content m"
  using wf_unique[of N tab p n q m] by auto

end

section \<open>Identifiers and strings\<close>

text \<open>A stored string is its characters and a terminator, which is not one of them.\<close>

definition str_fine :: "string \<Rightarrow> nat \<Rightarrow> bool" where
  "str_fine s len \<longleftrightarrow> (\<exists>cs. s = cs @ [NUL] \<and> len = length cs \<and> NUL \<notin> set cs)"

lemma same_str_content:
  assumes "str_fine s len" "NUL \<notin> set c"
  shows "same_str s len c = Some (take len s = c)"
proof -
  obtain cs where cs: "s = cs @ [NUL]" "len = length cs" "NUL \<notin> set cs" using assms(1) by (auto simp: str_fine_def)
  show ?thesis
  proof (cases "len = length c")
    case True
    then obtain r where "cstr_ncmp s c (length c) = Some r" "r = 0 \<longleftrightarrow> take (length c) s = take (length c) c"
      using ncmp_eq[of "length c" s c] cs by auto
    then show ?thesis using True cs by (simp add: same_str_def)
  qed (auto simp: same_str_def cs)
qed

interpretation idents: interning id_next "\<lambda>n. take (id_len n) (id_str n)" "\<lambda>n. str_fine (id_str n) (id_len n)"
    "\<lambda>s. hash_bytes s FNV_INIT" "\<lambda>s. NUL \<notin> set s" "\<lambda>s n. same_str (id_str n) (id_len n) s"
    "\<lambda>s nxt. \<lparr>id_next = nxt, id_kind = IDENTIFIER_NAME, id_len = length s, id_str = s @ [NUL]\<rparr>"
  by unfold_locales (auto simp: str_fine_def same_str_content)

interpretation strings: interning sl_next "\<lambda>n. take (sl_len n) (sl_str n)" "\<lambda>n. str_fine (sl_str n) (sl_len n)"
    "\<lambda>s. hash_bytes s FNV_INIT" "\<lambda>s. NUL \<notin> set s" "\<lambda>s n. same_str (sl_str n) (sl_len n) s"
    "\<lambda>s nxt. \<lparr>sl_next = nxt, sl_used = False, sl_index = 0, sl_len = length s, sl_str = s @ [NUL]\<rparr>"
  by unfold_locales (auto simp: str_fine_def same_str_content)

section \<open>Floats\<close>

text \<open>Equality of floats is equality of the bits, but for the two zeros, which hash differently, and for NaN.\<close>

definition f_exp :: "FloatKind \<Rightarrow> nat" where "f_exp k = (case k of FLOAT_F64 \<Rightarrow> 11 | FLOAT_F32 \<Rightarrow> 8)"
definition f_frac :: "FloatKind \<Rightarrow> nat" where "f_frac k = (case k of FLOAT_F64 \<Rightarrow> 52 | FLOAT_F32 \<Rightarrow> 23)"

definition float_valid :: "FloatKind \<Rightarrow> u64 \<Rightarrow> bool" where
  "float_valid k v \<longleftrightarrow> unat v < 2 ^ (f_exp k + f_frac k + 1) \<and>
     unat v mod 2 ^ (f_exp k + f_frac k) \<le> (2 ^ f_exp k - 1) * 2 ^ f_frac k"

definition float_hash :: "FloatKind \<times> u64 \<Rightarrow> u64" where
  "float_hash c = hash_bytes (float_bytes (fst c) (snd c)) FNV_INIT"

lemma zero_bytes:
  "float_bytes FLOAT_F64 0x8000000000000000 = [NUL, NUL, NUL, NUL, NUL, NUL, NUL, CHR 0x80]"
  "float_bytes FLOAT_F64 0 = [NUL, NUL, NUL, NUL, NUL, NUL, NUL, NUL]"
  "float_bytes FLOAT_F32 0x80000000 = [NUL, NUL, NUL, CHR 0x80]"
  "float_bytes FLOAT_F32 0 = [NUL, NUL, NUL, NUL]"
  by (simp_all add: float_bytes_def char_of_def bit_0)

lemma sign_ext: "(scast (of_char (CHR 0x80) :: 8 word) :: u64) = - 128" "(scast (of_char NUL :: 8 word) :: u64) = 0"
  by (simp_all add: of_char_def)

lemma zero_hashes:
  "hash_bytes (float_bytes FLOAT_F64 0) FNV_INIT \<noteq> hash_bytes (float_bytes FLOAT_F64 0x8000000000000000) FNV_INIT"
  "hash_bytes (float_bytes FLOAT_F32 0) FNV_INIT \<noteq> hash_bytes (float_bytes FLOAT_F32 0x80000000) FNV_INIT"
  by (simp_all add: zero_bytes FNV_INIT_def sign_ext del: of_char_Char)

lemma mod_zero_cases: "(x :: nat) < 2 ^ (n + 1) \<Longrightarrow> x mod 2 ^ n = 0 \<Longrightarrow> x = 0 \<or> x = 2 ^ n"
proof -
  assume x: "x < 2 ^ (n + 1)" "x mod 2 ^ n = 0"
  then obtain k where k: "x = 2 ^ n * k" by auto
  then have "k < 2" using x(1) by simp
  then show ?thesis using k by (cases k) auto
qed

lemma float_eq_bits:
  assumes a: "float_valid k a" and b: "float_valid k b" and h: "float_hash (k, a) = float_hash (k, b)"
  shows "float_eq k a b \<longleftrightarrow> a = b"
proof -
  let ?n = "f_exp k + f_frac k"
  have e: "float_eq k a b = ieee_eq (f_exp k) (f_frac k) a b"
    by (cases k) (simp_all add: float_eq_def f_exp_def f_frac_def)
  have *: "float_eq k a b \<longleftrightarrow> unat a mod 2 ^ ?n = 0 \<and> unat b mod 2 ^ ?n = 0 \<or> unat a = unat b"
    using a b unfolding e by (simp add: ieee_eq_def float_valid_def Let_def)
  have "a = b" if "unat a mod 2 ^ ?n = 0" "unat b mod 2 ^ ?n = 0"
  proof (rule ccontr)
    assume "a \<noteq> b"
    moreover have "unat a = 0 \<or> unat a = 2 ^ ?n" "unat b = 0 \<or> unat b = 2 ^ ?n"
      using mod_zero_cases[of "unat a" ?n] mod_zero_cases[of "unat b" ?n] a b that by (auto simp: float_valid_def)
    moreover have "x = (if k = FLOAT_F64 then 0x8000000000000000 else 0x80000000)" if "unat x = 2 ^ ?n" for x :: u64
    proof -
      have "x = of_nat (2 ^ ?n)" unfolding that[symmetric] by simp
      then show ?thesis by (cases k) (simp_all add: f_exp_def f_frac_def)
    qed
    ultimately have "{a, b} = {0, if k = FLOAT_F64 then 0x8000000000000000 else 0x80000000}"
      by (auto simp: unat_eq_0)
    then show False using h zero_hashes
      by (cases k) (auto simp: float_hash_def doubleton_eq_iff)
  qed
  moreover have "unat a = unat b \<longleftrightarrow> a = b" by (simp add: word_unat_eq_iff)
  ultimately show ?thesis using * by auto
qed

interpretation floats: interning fl_next "\<lambda>n. (fl_kind n, fl_value n)" "\<lambda>n. float_valid (fl_kind n) (fl_value n)"
    float_hash "\<lambda>c. float_valid (fst c) (snd c)" "\<lambda>c n. Some (fl_kind n = fst c \<and> float_eq (fst c) (fl_value n) (snd c))"
    "\<lambda>c nxt. \<lparr>fl_next = nxt, fl_used = False, fl_index = 0, fl_kind = fst c, fl_value = snd c\<rparr>"
proof unfold_locales
  fix n :: FloatLit and c :: "FloatKind \<times> u64"
  assume "float_valid (fl_kind n) (fl_value n)" "float_valid (fst c) (snd c)" "float_hash (fl_kind n, fl_value n) = float_hash c"
  then show "Some (fl_kind n = fst c \<and> float_eq (fst c) (fl_value n) (snd c)) = Some ((fl_kind n, fl_value n) = c)"
    using float_eq_bits[of "fst c" "fl_value n" "snd c"] by (cases c) auto
qed auto

section \<open>Names\<close>

abbreviation id_name :: "Identifier \<Rightarrow> string" where
  "id_name n \<equiv> take (id_len n) (id_str n)"

definition ident_names :: "Identifier InternTab \<Rightarrow> string set" where
  "ident_names tab = id_name ` ran (it_heap tab)"

definition can_intern :: "string \<Rightarrow> bool" where
  "can_intern s \<longleftrightarrow> NUL \<notin> set s \<and> hash_bytes s FNV_INIT \<noteq> 0"

lemma intern_ident_correct:
  assumes "idents.wf N tab" "can_intern s" "it_count tab < N"
  shows "\<exists>p tab' n. intern_ident tab s = Some (p, tab') \<and> idents.wf N tab' \<and> it_count tab' \<le> it_count tab + 1 \<and>
    id_name n = s \<and> it_heap tab' = (it_heap tab)(p \<mapsto> n) \<and> it_heap tab p \<in> {None, Some n} \<and>
    (it_heap tab p = None \<longrightarrow> id_kind n = IDENTIFIER_NAME)"
proof -
  have "NUL \<notin> set s" "hash_bytes s FNV_INIT \<noteq> 0" using assms(2) by (simp_all add: can_intern_def)
  from idents.intern[OF assms(1) this assms(3), folded intern_ident_def] obtain p tab' n where
    "intern_ident tab s = Some (p, tab')" "idents.wf N tab'" "it_count tab' \<le> it_count tab + 1" "id_name n = s"
    "it_heap tab' = (it_heap tab)(p \<mapsto> n)" "it_heap tab p \<in> {None, Some n}"
    "it_heap tab p = None \<longrightarrow> (\<exists>q. n = \<lparr>id_next = q, id_kind = IDENTIFIER_NAME, id_len = length s, id_str = s @ [NUL]\<rparr>)"
    by (elim exE conjE) (rule that)
  moreover from this(7) have "it_heap tab p = None \<longrightarrow> id_kind n = IDENTIFIER_NAME"
    using Identifier.select_convs(2) by metis
  ultimately show ?thesis by (intro exI conjI)
qed

lemma ident_names_upd: "it_heap tab p \<in> {None, Some n} \<Longrightarrow> it_heap tab' = (it_heap tab)(p \<mapsto> n) \<Longrightarrow>
    ident_names tab' = insert (id_name n) (ident_names tab)"
proof -
  assume p: "it_heap tab p \<in> {None, Some n}" and t: "it_heap tab' = (it_heap tab)(p \<mapsto> n)"
  show ?thesis
  proof (cases "it_heap tab p")
    case None
    then show ?thesis using t by (simp add: ident_names_def ran_map_upd)
  next
    case (Some m)
    then have "it_heap tab p = Some n" using p by simp
    moreover from this have "it_heap tab' = it_heap tab" unfolding t by (rule fun_upd_idem)
    ultimately show ?thesis by (auto simp: ident_names_def intro!: ranI)
  qed
qed

text \<open>The nodes at the addresses have the names.\<close>

definition named :: "Identifier InternTab \<Rightarrow> u64 \<Rightarrow> string \<Rightarrow> bool" where
  "named tab p s \<longleftrightarrow> (\<exists>n. it_heap tab p = Some n \<and> id_name n = s)"

lemma named_mono: "named tab p s \<Longrightarrow> it_heap tab \<subseteq>\<^sub>m it_heap tab' \<Longrightarrow> named tab' p s"
  unfolding named_def map_le_def by (metis domI)

lemma intern_names_correct:
  "idents.wf N tab \<Longrightarrow> list_all can_intern names \<Longrightarrow> it_count tab + length names \<le> N \<Longrightarrow>
   \<exists>ps tab'. intern_names tab names = Some (ps, tab') \<and> idents.wf N tab' \<and> it_count tab' \<le> it_count tab + length names \<and>
     it_heap tab \<subseteq>\<^sub>m it_heap tab' \<and> list_all2 (named tab') ps names \<and> ident_names tab' = ident_names tab \<union> set names"
proof (induction names arbitrary: tab)
  case (Cons s names)
  have "it_count tab < N" using Cons.prems by simp
  then obtain p tab1 n where 1: "intern_ident tab s = Some (p, tab1)" "idents.wf N tab1" "it_count tab1 \<le> it_count tab + 1"
      "id_name n = s" "it_heap tab1 = (it_heap tab)(p \<mapsto> n)" "it_heap tab p \<in> {None, Some n}"
    using intern_ident_correct[of N tab s] Cons.prems by auto
  have "it_count tab1 + length names \<le> N" using 1(3) Cons.prems by simp
  then obtain ps tab2 where 2: "intern_names tab1 names = Some (ps, tab2)" "idents.wf N tab2"
      "it_count tab2 \<le> it_count tab1 + length names" "it_heap tab1 \<subseteq>\<^sub>m it_heap tab2" "list_all2 (named tab2) ps names"
      "ident_names tab2 = ident_names tab1 \<union> set names"
    using Cons.IH[OF 1(2)] Cons.prems by auto
  have le: "it_heap tab \<subseteq>\<^sub>m it_heap tab1" using 1(5,6) by (auto simp: map_le_def)
  have "named tab1 p s" using 1(4,5) by (simp add: named_def)
  then have "named tab2 p s" by (rule named_mono[OF _ 2(4)])
  moreover have "ident_names tab2 = ident_names tab \<union> set (s # names)"
    using 2(6) ident_names_upd[OF 1(6,5)] 1(4) by simp
  ultimately show ?case using 1 2 map_le_trans[OF le 2(4)] by auto
qed simp

lemma named_unique: "idents.wf N tab \<Longrightarrow> named tab p s \<Longrightarrow> named tab q t \<Longrightarrow> p = q \<longleftrightarrow> s = t"
  unfolding named_def using idents.unique by blast

text \<open>
  C33. Interning a sequence of names (without terminators, none of hash zero) into a new table returns, and gives the
  same node to two of them exactly when they are the same name, and the node holds the name: also when hashes
  collide. (The table is asked for with at most 2 to the 30 slots, as \<open>hmap\<close> can make it, there are at most 2 to the
  53 names, and the memory for tables and nodes can be had.)
\<close>

theorem intern_names_unique:
  assumes "hmap c alloc = Some m" "c \<le> 30" "\<forall>n \<le> 56. alloc (2 ^ n)" "list_all can_intern names" "length names \<le> 2 ^ 53"
    and "inj_on addr {..<length names}" "0 \<notin> addr ` {..<length names}"
  shows "\<exists>ps tab. intern_names \<lparr>it_map = m, it_heap = Map.empty, it_count = 0, it_addr = addr\<rparr> names = Some (ps, tab) \<and>
    length ps = length names \<and> (\<forall>i < length names. \<forall>j < length names. ps ! i = ps ! j \<longleftrightarrow> names ! i = names ! j) \<and>
    (\<forall>i < length names. \<exists>n. it_heap tab (ps ! i) = Some n \<and> id_str n = names ! i @ [NUL] \<and> id_len n = length (names ! i))"
proof -
  let ?tab = "\<lparr>it_map = m, it_heap = Map.empty, it_count = 0, it_addr = addr\<rparr>"
  have "idents.wf (length names) ?tab" using idents.wf_empty assms by blast
  from intern_names_correct[OF this assms(4)] obtain ps tab where r: "intern_names ?tab names = Some (ps, tab)"
      "idents.wf (length names) tab" "list_all2 (named tab) ps names"
    by auto
  have nth: "named tab (ps ! i) (names ! i)" if "i < length names" for i
    using r(3) that by (auto simp: list_all2_conv_all_nth)
  have "\<exists>n. it_heap tab (ps ! i) = Some n \<and> id_str n = names ! i @ [NUL] \<and> id_len n = length (names ! i)" if i: "i < length names" for i
  proof -
    obtain n where n: "it_heap tab (ps ! i) = Some n" "id_name n = names ! i" using nth[OF i] by (auto simp: named_def)
    then have "str_fine (id_str n) (id_len n)" using r(2) by (auto simp: idents.wf_def idents.nodes_ok_def)
    then show ?thesis using n by (auto simp: str_fine_def)
  qed
  moreover have "ps ! i = ps ! j \<longleftrightarrow> names ! i = names ! j" if "i < length names" "j < length names" for i j
    using named_unique[OF r(2) nth[OF that(1)] nth[OF that(2)]] .
  ultimately show ?thesis using r(1,3) by (auto simp: list_all2_lengthD)
qed

theorem intern_names_unique_witness:
  "\<exists>m ps tab. hmap 2 (\<lambda>_. True) = Some m \<and>
    intern_names \<lparr>it_map = m, it_heap = Map.empty, it_count = 0, it_addr = (\<lambda>i. of_nat (64 * (i + 1)))\<rparr> [''ab'', ''b'', ''ab''] = Some (ps, tab) \<and>
    (ps ! 0 = ps ! 2) \<and> (ps ! 0 \<noteq> ps ! 1)"
proof -
  obtain m where m: "hmap 2 (\<lambda>_. True) = Some m" using hmap_new[of 2 "\<lambda>_. True"] by auto
  let ?names = "[''ab'', ''b'', ''ab'']" and ?addr = "\<lambda>i. of_nat (64 * (i + 1)) :: u64"
  have "list_all can_intern ?names" by (simp add: can_intern_def FNV_INIT_def of_char_def)
  moreover have "{..<length ?names} = {0, 1, 2}" by auto
  then have "inj_on ?addr {..<length ?names}" "0 \<notin> ?addr ` {..<length ?names}" by (simp_all add: inj_on_def)
  ultimately obtain ps tab where r:
    "intern_names \<lparr>it_map = m, it_heap = Map.empty, it_count = 0, it_addr = ?addr\<rparr> ?names = Some (ps, tab)"
    "\<forall>i < length ?names. \<forall>j < length ?names. ps ! i = ps ! j \<longleftrightarrow> ?names ! i = ?names ! j"
    using intern_names_unique[OF m, of ?names ?addr] by fastforce
  have "ps ! 0 = ps ! 2" "ps ! 0 \<noteq> ps ! 1" using r(2)[rule_format, of 0 2] r(2)[rule_format, of 0 1] by simp_all
  then show ?thesis using m r(1) by blast
qed

section \<open>The names interned at the start\<close>

lemma intern_kinds_correct:
  "idents.wf N tab \<Longrightarrow> list_all can_intern (map snd kns) \<Longrightarrow> distinct (map snd kns) \<Longrightarrow> set (map snd kns) \<inter> ident_names tab = {} \<Longrightarrow>
   it_count tab + length kns \<le> N \<Longrightarrow>
   \<exists>ps tab'. intern_kinds tab kns = Some (ps, tab') \<and> idents.wf N tab' \<and> it_count tab' \<le> it_count tab + length kns \<and>
     it_heap tab \<subseteq>\<^sub>m it_heap tab' \<and> ident_names tab' = ident_names tab \<union> set (map snd kns) \<and>
     (\<forall>(k, s) \<in> set kns. \<exists>p n. it_heap tab' p = Some n \<and> id_name n = s \<and> id_kind n = k)"
proof (induction kns arbitrary: tab)
  case (Cons ks kns)
  obtain k s where ks: "ks = (k, s)" by fastforce
  have "it_count tab < N" "can_intern s" using Cons.prems ks by simp_all
  then obtain p tab1 n where 1: "intern_ident tab s = Some (p, tab1)" "idents.wf N tab1" "it_count tab1 \<le> it_count tab + 1"
      "id_name n = s" "it_heap tab1 = (it_heap tab)(p \<mapsto> n)" "it_heap tab p \<in> {None, Some n}"
    using intern_ident_correct[of N tab s] Cons.prems(1) by auto
  have fresh: "it_heap tab p = None"
  proof (rule ccontr)
    assume "it_heap tab p \<noteq> None"
    then have "n \<in> ran (it_heap tab)" using 1(6) by (auto intro: ranI)
    then have "s \<in> ident_names tab" using 1(4) by (auto simp: ident_names_def)
    then show False using Cons.prems(4) ks by auto
  qed
  let ?n = "n\<lparr>id_kind := k\<rparr>"
  let ?tab = "tab1\<lparr>it_heap := (it_heap tab1)(p \<mapsto> ?n)\<rparr>"
  have p1: "it_heap tab1 p = Some n" using 1(5) by simp
  then have set: "set_ident_kind tab1 p k = Some ?tab" by (simp add: set_ident_kind_def)
  have "str_fine (id_str n) (id_len n)" using 1(2) p1 by (auto simp: idents.wf_def idents.nodes_ok_def)
  then have wf: "idents.wf N ?tab" using idents.wf_update[OF 1(2) p1, of ?n] by simp
  have heap: "it_heap ?tab = (it_heap tab)(p \<mapsto> ?n)" using 1(5) by simp
  have names: "ident_names ?tab = insert s (ident_names tab)"
    using ident_names_upd[of tab p ?n ?tab] fresh heap 1(4) by simp
  have "it_count ?tab + length kns \<le> N" using 1(3) Cons.prems(5) by simp
  moreover have "set (map snd kns) \<inter> ident_names ?tab = {}" unfolding names using Cons.prems(3,4) ks by auto
  moreover have "list_all can_intern (map snd kns)" "distinct (map snd kns)" using Cons.prems(2,3) by simp_all
  ultimately have "\<exists>ps tab'. intern_kinds ?tab kns = Some (ps, tab') \<and> idents.wf N tab' \<and> it_count tab' \<le> it_count ?tab + length kns \<and>
     it_heap ?tab \<subseteq>\<^sub>m it_heap tab' \<and> ident_names tab' = ident_names ?tab \<union> set (map snd kns) \<and>
     (\<forall>(k, s) \<in> set kns. \<exists>p n. it_heap tab' p = Some n \<and> id_name n = s \<and> id_kind n = k)"
    by (intro Cons.IH wf)
  then obtain ps tab2 where 2: "intern_kinds ?tab kns = Some (ps, tab2)" "idents.wf N tab2"
      "it_count tab2 \<le> it_count ?tab + length kns" "it_heap ?tab \<subseteq>\<^sub>m it_heap tab2"
      "ident_names tab2 = ident_names ?tab \<union> set (map snd kns)"
      "\<forall>(k, s) \<in> set kns. \<exists>p n. it_heap tab2 p = Some n \<and> id_name n = s \<and> id_kind n = k"
    by (elim exE conjE) (rule that)
  have "it_heap tab2 p = Some ?n" using 2(4) heap by (auto simp: map_le_def)
  moreover have "it_heap tab \<subseteq>\<^sub>m it_heap ?tab" using fresh heap by (auto simp: map_le_def)
  ultimately show ?case
    using 1(1,3,4) 2 set names map_le_trans[OF _ 2(4), of "it_heap tab"] ks
    by (intro exI[of _ "p # ps"] exI[of _ tab2]) (auto intro!: exI[of _ p])
qed simp

text \<open>The low halves of the hashes of the names are distinct: the low 16 bits of the hash depend only on themselves.\<close>

definition start_names :: "string list" where
  "start_names = map snd keyword_table @ map snd intrinsic_table @ annotation_table @ builtin_struct_field_table @ [''main'']"

definition fnv_step16 :: "nat \<Rightarrow> nat \<Rightarrow> nat" where
  "fnv_step16 h c = (h XOR c) * 435 mod 65536"

lemma hash_bytes_low:
  "list_all (\<lambda>c. of_char c < (128 :: nat)) s \<Longrightarrow>
   unat (hash_bytes s h) mod 65536 = foldl fnv_step16 (unat h mod 65536) (map of_char s)"
proof (induction s arbitrary: h)
  case (Cons c s)
  have c: "(of_char c :: nat) < 128" using Cons.prems by simp
  define n where "n = (of_char c :: nat)"
  have w: "(of_char c :: 8 word) = of_nat n" by (simp add: n_def of_nat_of_char)
  have "sint (of_nat n :: 8 word) = int n"
    using c by (simp add: n_def[symmetric] signed_of_nat signed_take_bit_int_eq_self)
  then have "(scast (of_char c :: 8 word) :: u64) = of_nat n" unfolding w scast_eq by simp
  then have s: "unat (scast (of_char c :: 8 word) :: u64) = of_char c"
    using c by (simp add: n_def[symmetric] unsigned_of_nat take_bit_nat_eq_self)
  have x: "(a XOR b) mod 65536 = (a mod 65536) XOR (b mod 65536)" for a b :: nat
    using take_bit_xor[of 16 a b] by (simp add: take_bit_eq_mod)
  have "unat ((h XOR scast (of_char c :: 8 word)) * 0x100000001b3) mod 65536 = ((unat h XOR of_char c) * 0x100000001b3) mod 65536"
    by (simp add: unat_word_ariths unsigned_xor_eq s mod_mod_cancel)
  also have "\<dots> = (((unat h XOR of_char c) mod 65536) * (0x100000001b3 mod 65536)) mod 65536"
    by (rule mod_mult_eq[symmetric])
  also have "\<dots> = fnv_step16 (unat h mod 65536) (of_char c)"
    using c by (simp add: x fnv_step16_def)
  finally show ?case using Cons by simp
qed simp

lemmas name_tables = keyword_table_def intrinsic_table_def annotation_table_def builtin_struct_field_table_def

lemma start_hashes:
  "map (\<lambda>s. foldl fnv_step16 8997 (map of_char s)) start_names =
    [23870, 57140, 23936, 36916, 5920, 48225, 3044, 48110, 515, 57327, 47159, 48696, 37478, 20883, 12138,
     8051, 6900, 49333, 46413, 36882, 25149, 59206, 52792, 26276, 44383, 15910, 56624, 10606, 46228, 55952,
     31153, 12241, 18510, 49061, 47480, 2276, 61221, 60823, 57439, 277, 43637, 43202, 42767, 42332, 41897,
     41462, 41027, 8997, 57394, 45587, 44865, 40629, 18949, 39981, 57801, 968]"
  by (simp add: start_names_def name_tables fnv_step16_def of_char_def)

lemma start_ascii: "list_all (list_all (\<lambda>c. of_char c < (128 :: nat))) start_names" "list_all (\<lambda>s. NUL \<notin> set s) start_names"
  by (simp_all add: start_names_def name_tables of_char_def)

lemma start_low: "s \<in> set start_names \<Longrightarrow> unat (hash_bytes s FNV_INIT) mod 65536 = foldl fnv_step16 8997 (map of_char s)"
  using hash_bytes_low[of s FNV_INIT] start_ascii by (simp add: list_all_iff FNV_INIT_def)

lemma start_distinct: "distinct (map (\<lambda>s. hash_bytes s FNV_INIT) start_names)"
proof -
  have "distinct (map (\<lambda>s. foldl fnv_step16 8997 (map of_char s)) start_names)" unfolding start_hashes by simp
  then have "distinct (map (\<lambda>s. unat (hash_bytes s FNV_INIT) mod 65536) start_names)"
    using start_low by (simp cong: map_cong)
  then have "distinct (map (\<lambda>h. unat h mod 65536) (map (\<lambda>s. hash_bytes s FNV_INIT) start_names))" by (simp add: comp_def)
  then show ?thesis by (simp only: distinct_map)
qed

lemma start_can_intern: "list_all can_intern start_names"
proof -
  have z: "0 \<notin> set (map (\<lambda>s. foldl fnv_step16 8997 (map of_char s)) start_names)" unfolding start_hashes by simp
  have "hash_bytes s FNV_INIT \<noteq> 0" if s: "s \<in> set start_names" for s
  proof
    assume "hash_bytes s FNV_INIT = 0"
    then have "foldl fnv_step16 8997 (map of_char s) = 0" using start_low[OF s] by simp
    then show False using z s by force
  qed
  then show ?thesis using start_ascii(2) by (simp add: can_intern_def list_all_iff)
qed

lemma kind_found:
  assumes "idents.wf N tab" "can_intern s" "it_heap tab' \<subseteq>\<^sub>m it_heap tab"
    and "\<exists>p n. it_heap tab' p = Some n \<and> id_name n = s \<and> id_kind n = k"
  shows "\<exists>q n. intern_ident tab s = Some (q, tab) \<and> it_heap tab q = Some n \<and> id_kind n = k"
proof -
  obtain p n where n: "it_heap tab' p = Some n" "id_name n = s" "id_kind n = k" using assms(4) by blast
  then have p: "it_heap tab p = Some n" using assms(3) unfolding map_le_def by (metis domI)
  have "NUL \<notin> set s" "hash_bytes s FNV_INIT \<noteq> 0" using assms(2) by (simp_all add: can_intern_def)
  from idents.found[OF assms(1) this p n(2), folded intern_ident_def] show ?thesis using p n(3) by blast
qed

text \<open>
  C34. The start of the compiler interns every keyword, intrinsic, annotation and field name, and its assertion that
  the table has one hash for each of them holds. From then on interning the name of a keyword or intrinsic finds the
  node marked as that keyword or intrinsic and makes no new one.
\<close>

theorem init_idents_correct:
  assumes alloc: "\<forall>n \<le> 56. alloc (2 ^ n)" and addr: "inj_on addr {..<56}" "0 \<notin> addr ` {..<56}"
  shows "\<exists>m p tab. hmap 8 alloc = Some m \<and>
    init_idents \<lparr>it_map = m, it_heap = Map.empty, it_count = 0, it_addr = addr\<rparr> = Some (p, tab) \<and>
    (\<forall>(k, s) \<in> set keyword_table. \<exists>q n. intern_ident tab s = Some (q, tab) \<and> it_heap tab q = Some n \<and>
       id_kind n = IDENTIFIER_KEYWORD k) \<and>
    (\<forall>(k, s) \<in> set intrinsic_table. \<exists>q n. intern_ident tab s = Some (q, tab) \<and> it_heap tab q = Some n \<and>
       id_kind n = IDENTIFIER_INTRINSIC k)"
proof -
  define kws where "kws = map (\<lambda>(k, s). (IDENTIFIER_KEYWORD k, s)) keyword_table"
  define ins where "ins = map (\<lambda>(k, s). (IDENTIFIER_INTRINSIC k, s)) intrinsic_table"
  have snds: "map snd kws = map snd keyword_table" "map snd ins = map snd intrinsic_table"
    by (simp_all add: kws_def ins_def case_prod_beta comp_def)
  have lens: "length kws = 36" "length ins = 11" "length annotation_table = 4" "length builtin_struct_field_table = 4"
      "length keyword_table = 36" "length intrinsic_table = 11"
    by (simp_all add: kws_def ins_def name_tables)
  have all: "list_all can_intern (map snd kws)" "list_all can_intern (map snd ins)" "list_all can_intern annotation_table"
      "list_all can_intern builtin_struct_field_table" "list_all can_intern [''main'']"
    using start_can_intern unfolding start_names_def snds[symmetric] by (simp_all only: list_all_append)
  have "distinct start_names" using start_distinct by (simp only: distinct_map)
  then have dist: "distinct (map snd kws)" "distinct (map snd ins)" "set (map snd ins) \<inter> set (map snd kws) = {}"
    unfolding start_names_def snds[symmetric] by auto
  have "alloc (2 ^ 8)" using alloc by (simp del: power_numeral)
  then obtain m where m: "hmap 8 alloc = Some m" using hmap_new[of 8 alloc] by auto
  let ?tab0 = "\<lparr>it_map = m, it_heap = Map.empty, it_count = 0, it_addr = addr\<rparr>"
  have wf0: "idents.wf 56 ?tab0" using idents.wf_empty[OF m _ alloc _ addr] by simp
  have n0: "ident_names ?tab0 = {}" by (simp add: ident_names_def)
  obtain ps1 tab1 where 1: "intern_kinds ?tab0 kws = Some (ps1, tab1)" "idents.wf 56 tab1" "it_count tab1 \<le> 36"
      "ident_names tab1 = set (map snd kws)" "\<forall>(k, s) \<in> set kws. \<exists>p n. it_heap tab1 p = Some n \<and> id_name n = s \<and> id_kind n = k"
    using intern_kinds_correct[OF wf0 all(1) dist(1)] lens n0 by auto
  have "set (map snd ins) \<inter> ident_names tab1 = {}" "it_count tab1 + length ins \<le> 56" using dist(3) 1(3,4) lens by simp_all
  from intern_kinds_correct[OF 1(2) all(2) dist(2) this] obtain ps2 tab2 where 2: "intern_kinds tab1 ins = Some (ps2, tab2)"
      "idents.wf 56 tab2" "it_count tab2 \<le> it_count tab1 + length ins"
      "it_heap tab1 \<subseteq>\<^sub>m it_heap tab2" "ident_names tab2 = ident_names tab1 \<union> set (map snd ins)"
      "\<forall>(k, s) \<in> set ins. \<exists>p n. it_heap tab2 p = Some n \<and> id_name n = s \<and> id_kind n = k"
    by (elim exE conjE) (rule that)
  have "it_count tab2 + length annotation_table \<le> 56" using 1(3) 2(3) lens by simp
  from intern_names_correct[OF 2(2) all(3) this] obtain ps3 tab3 where 3: "intern_names tab2 annotation_table = Some (ps3, tab3)"
      "idents.wf 56 tab3" "it_count tab3 \<le> it_count tab2 + length annotation_table"
      "it_heap tab2 \<subseteq>\<^sub>m it_heap tab3" "ident_names tab3 = ident_names tab2 \<union> set annotation_table"
    by (elim exE conjE) (rule that)
  have "it_count tab3 + length builtin_struct_field_table \<le> 56" using 1(3) 2(3) 3(3) lens by simp
  from intern_names_correct[OF 3(2) all(4) this] obtain ps4 tab4 where 4:
      "intern_names tab3 builtin_struct_field_table = Some (ps4, tab4)" "idents.wf 56 tab4"
      "it_count tab4 \<le> it_count tab3 + length builtin_struct_field_table"
      "it_heap tab3 \<subseteq>\<^sub>m it_heap tab4" "ident_names tab4 = ident_names tab3 \<union> set builtin_struct_field_table"
    by (elim exE conjE) (rule that)
  have "it_count tab4 + length [''main''] \<le> 56" using 1(3) 2(3) 3(3) 4(3) lens by simp
  from intern_names_correct[OF 4(2) all(5) this] obtain ps5 tab5 where 5: "intern_names tab4 [''main''] = Some (ps5, tab5)"
      "idents.wf 56 tab5" "it_heap tab4 \<subseteq>\<^sub>m it_heap tab5" "ident_names tab5 = ident_names tab4 \<union> set [''main'']"
    by (elim exE conjE) (rule that)
  from 5(1) obtain p5 where p5: "intern_ident tab4 ''main'' = Some (p5, tab5)" by (auto split: bind_splits)
  have "ident_names tab5 = set start_names"
    unfolding 5(4) 4(5) 3(5) 2(5) 1(4) start_names_def snds set_append by auto
  moreover have "hm_len (it_map tab5) = card ((\<lambda>s. hash_bytes s FNV_INIT) ` ident_names tab5)"
    unfolding idents.hm_len_hashes[OF 5(2)] ident_names_def image_image ..
  ultimately have "hm_len (it_map tab5) = card (set (map (\<lambda>s. hash_bytes s FNV_INIT) start_names))" by simp
  also have "\<dots> = length start_names" using distinct_card[OF start_distinct] by simp
  also have "\<dots> = 56" using lens by (simp add: start_names_def)
  finally have "hm_len (it_map tab5) = 56" .
  then have "init_idents ?tab0 = Some (p5, tab5)"
    using 1(1) 2(1) 3(1) 4(1) p5
    by (simp add: init_idents_def init_keywords_def init_intrinsics_def init_annotations_def init_builtin_struct_fields_def
        kws_def[symmetric] ins_def[symmetric] lens)
  moreover have le2: "it_heap tab2 \<subseteq>\<^sub>m it_heap tab5" using 3(4) 4(4) 5(3) by (blast intro: map_le_trans)
  then have le1: "it_heap tab1 \<subseteq>\<^sub>m it_heap tab5" using 2(4) by (blast intro: map_le_trans)
  have "\<forall>(k, s) \<in> set keyword_table. \<exists>q n. intern_ident tab5 s = Some (q, tab5) \<and> it_heap tab5 q = Some n \<and> id_kind n = IDENTIFIER_KEYWORD k"
  proof (intro ballI, clarify)
    fix k s
    assume ks: "(k, s) \<in> set keyword_table"
    then have "(IDENTIFIER_KEYWORD k, s) \<in> set kws" by (force simp: kws_def)
    moreover from this have "can_intern s" using all(1) by (force simp: list_all_iff)
    ultimately show "\<exists>q n. intern_ident tab5 s = Some (q, tab5) \<and> it_heap tab5 q = Some n \<and> id_kind n = IDENTIFIER_KEYWORD k"
      using 1(5) by (intro kind_found[OF 5(2) _ le1]) auto
  qed
  moreover have "\<forall>(k, s) \<in> set intrinsic_table. \<exists>q n. intern_ident tab5 s = Some (q, tab5) \<and> it_heap tab5 q = Some n \<and> id_kind n = IDENTIFIER_INTRINSIC k"
  proof (intro ballI, clarify)
    fix k s
    assume ks: "(k, s) \<in> set intrinsic_table"
    then have "(IDENTIFIER_INTRINSIC k, s) \<in> set ins" by (force simp: ins_def)
    moreover from this have "can_intern s" using all(2) by (force simp: list_all_iff)
    ultimately show "\<exists>q n. intern_ident tab5 s = Some (q, tab5) \<and> it_heap tab5 q = Some n \<and> id_kind n = IDENTIFIER_INTRINSIC k"
      using 2(6) by (intro kind_found[OF 5(2) _ le2]) auto
  qed
  ultimately show ?thesis using m by blast
qed

theorem init_idents_correct_witness:
  "\<exists>m p tab q n. hmap 8 (\<lambda>_. True) = Some m \<and>
    init_idents \<lparr>it_map = m, it_heap = Map.empty, it_count = 0, it_addr = (\<lambda>i. of_nat (64 * (i + 1)))\<rparr> = Some (p, tab) \<and>
    intern_ident tab ''while'' = Some (q, tab) \<and> it_heap tab q = Some n \<and> id_kind n = IDENTIFIER_KEYWORD KW_WHILE"
proof -
  let ?addr = "\<lambda>i. of_nat (64 * (i + 1)) :: u64"
  have u: "unat (?addr i) = 64 * (i + 1)" if "i < 56" for i
    using that unfolding unat_of_nat by simp
  have "inj_on ?addr {..<56}" 
  proof (rule inj_onI)
    fix i j :: nat
    assume "i \<in> {..<56}" "j \<in> {..<56}" "?addr i = ?addr j"
    then show "i = j" using u[of i] u[of j] by simp
  qed
  moreover have "0 \<notin> ?addr ` {..<56}"
  proof
    assume "0 \<in> ?addr ` {..<56}"
    then obtain i where "i < 56" "?addr i = 0" by force
    then show False using u[of i] by simp
  qed
  moreover have "(KW_WHILE, ''while'') \<in> set keyword_table" by (simp add: keyword_table_def)
  ultimately show ?thesis using init_idents_correct[of "\<lambda>_. True" ?addr] by blast
qed

end
