(* ===== verification/Print_Floats.thy ===== *)
theory Print_Floats
  imports Prelude
begin

text \<open>
  The conversion of doubles to decimal digits of \<open>src/src/print_floats.c\<close>. A double is its 64 bits. The
  digits are character codes in an array of 1024 entries; an access outside it is \<open>None\<close>. The codes that
  the arithmetic reads are always those of decimal digits (\<open>f64_to_str_exact\<close>), so that differences from
  the code of \<open>'0'\<close> are natural numbers. Counts are far below the widths of their C types, except where the
  code mixes signed and unsigned integers: there the arithmetic is on words.
\<close>

section \<open>Doubles\<close>

definition F64_SIGN_MASK :: u64 where "F64_SIGN_MASK = 0x8000000000000000"
definition F64_EXP_MASK :: u64 where "F64_EXP_MASK = 0x7FF0000000000000"
definition F64_EXP_POS :: nat where "F64_EXP_POS = 52"
definition F64_FRAC_MASK :: u64 where "F64_FRAC_MASK = 0x000FFFFFFFFFFFFF"

definition F64_STRING_IS_NEG :: u32 where "F64_STRING_IS_NEG = 1"
definition F64_STRING_IS_INF :: u32 where "F64_STRING_IS_INF = 2"
definition F64_STRING_IS_NAN :: u32 where "F64_STRING_IS_NAN = 4"

definition PRINT_MAX_NUM_DIGITS :: nat where "PRINT_MAX_NUM_DIGITS = 32"

record F64String =
  digits :: "nat list"
  num_digits :: nat
  decimal_point :: int
  fs_flags :: u32

record CustomFP =
  fp_f :: u64
  fp_e :: int

text \<open>Zero cannot be normalised: the loops would not end.\<close>

partial_function (option) norm_bytes :: "CustomFP \<Rightarrow> CustomFP option" where
  "norm_bytes x =
     (if fp_f x AND 0xFF00000000000000 = 0 then norm_bytes (x\<lparr>fp_f := push_bit 8 (fp_f x), fp_e := fp_e x - 8\<rparr>)
      else Some x)"

partial_function (option) norm_bits :: "CustomFP \<Rightarrow> CustomFP option" where
  "norm_bits x =
     (if fp_f x AND 0x8000000000000000 = 0 then norm_bits (x\<lparr>fp_f := push_bit 1 (fp_f x), fp_e := fp_e x - 1\<rparr>)
      else Some x)"

declare norm_bytes.simps [code] norm_bits.simps [code]

definition custom_fp_norm :: "CustomFP \<Rightarrow> CustomFP option" where
  "custom_fp_norm x = do { x \<leftarrow> norm_bytes x; norm_bits x }"

definition custom_fp_from_f64 :: "u64 \<Rightarrow> CustomFP" where
  "custom_fp_from_f64 x =
     (if x AND F64_EXP_MASK = 0 then \<lparr>fp_f = x AND F64_FRAC_MASK, fp_e = 1 - 1075\<rparr>
      else \<lparr>fp_f = 0x0010000000000000 + (x AND F64_FRAC_MASK),
            fp_e = uint (drop_bit F64_EXP_POS (x AND F64_EXP_MASK)) - 1075\<rparr>)"

section \<open>Digits\<close>

text \<open>The significand in decimal, in reverse order.\<close>

function itoa_loop :: "nat \<Rightarrow> nat list \<Rightarrow> nat list option" where
  "itoa_loop value tmp_buf = do {
     assert_opt (length tmp_buf < PRINT_MAX_NUM_DIGITS);
     if value div 10 > 0 then itoa_loop (value div 10) (tmp_buf @ [48 + value mod 10])
     else Some (tmp_buf @ [48 + value mod 10]) }"
  by pat_completeness auto
termination by (relation "measure fst") auto

fun copy_digits :: "F64String \<Rightarrow> nat list \<Rightarrow> F64String option" where
  "copy_digits s [] = Some s"
| "copy_digits s (c # cs) = do {
     assert_opt (num_digits s < length (digits s));
     copy_digits (s\<lparr>digits := (digits s)[num_digits s := c], num_digits := num_digits s + 1\<rparr>) cs }"

text \<open>One doubling, from the last digit to the first.\<close>

fun mul_loop :: "nat list \<Rightarrow> nat \<Rightarrow> nat \<Rightarrow> nat \<Rightarrow> nat list option" where
  "mul_loop ds 0 add carry = Some ds"
| "mul_loop ds (Suc i) add carry = do {
     assert_opt (i + add < length ds);
     let x = carry + 2 * (ds ! i - 48);
     mul_loop (ds[i + add := x mod 10 + 48]) i add (x div 10) }"

definition mul2 :: "F64String \<Rightarrow> F64String option" where
  "mul2 s = (let add_digit = digits s ! 0 \<ge> 53 in do {
     ds \<leftarrow> mul_loop (digits s) (num_digits s) (if add_digit then 1 else 0) 0;
     Some (if add_digit then s\<lparr>digits := ds[0 := 49], num_digits := num_digits s + 1\<rparr> else s\<lparr>digits := ds\<rparr>) })"

text \<open>One halving, from the first digit to the last.\<close>

fun div_loop :: "nat list \<Rightarrow> nat \<Rightarrow> nat \<Rightarrow> nat \<Rightarrow> nat \<Rightarrow> nat list option" where
  "div_loop ds i 0 read_delta prev_rem = Some ds"
| "div_loop ds i (Suc n) read_delta prev_rem = do {
     assert_opt (i + read_delta < length ds);
     let x = prev_rem * 10 + (ds ! (i + read_delta) - 48);
     div_loop (ds[i := x div 2 + 48]) (i + 1) n read_delta (x mod 2) }"

definition div2 :: "F64String \<Rightarrow> F64String option" where
  "div2 s = do {
     assert_opt (num_digits s > 0);
     s \<leftarrow> (if digits s ! (num_digits s - 1) mod 2 \<noteq> 0 then do {
             assert_opt (num_digits s < length (digits s));
             Some (s\<lparr>digits := (digits s)[num_digits s := 48], num_digits := num_digits s + 1\<rparr>) }
           else Some s);
     let small = digits s ! 0 < 50;
     let prev_rem = (if small then digits s ! 0 - 48 else 0);
     let s = (if small then s\<lparr>num_digits := num_digits s - 1, decimal_point := decimal_point s - 1\<rparr> else s);
     ds \<leftarrow> div_loop (digits s) 0 (num_digits s) (if small then 1 else 0) prev_rem;
     Some (s\<lparr>digits := ds\<rparr>) }"

fun repeat_opt :: "nat \<Rightarrow> ('s \<Rightarrow> 's option) \<Rightarrow> 's \<Rightarrow> 's option" where
  "repeat_opt 0 f s = Some s"
| "repeat_opt (Suc n) f s = f s \<bind> repeat_opt n f"

definition put_digit :: "F64String \<Rightarrow> nat \<Rightarrow> nat \<Rightarrow> F64String option" where
  "put_digit s i c = do { assert_opt (i < length (digits s)); Some (s\<lparr>digits := (digits s)[i := c]\<rparr>) }"

definition f64_to_str :: "F64String \<Rightarrow> u64 \<Rightarrow> F64String option" where
  "f64_to_str dst f =
     (let dst = dst\<lparr>num_digits := 0, decimal_point := 0,
                    fs_flags := (if bit f 63 then F64_STRING_IS_NEG else 0)\<rparr>;
          fbits = (if bit f 63 then f XOR F64_SIGN_MASK else f);
          biased_exp = drop_bit F64_EXP_POS (fbits AND F64_EXP_MASK)
      in
      if fbits = 0 then put_digit (dst\<lparr>num_digits := 1, decimal_point := 1\<rparr>) 0 48
      else if biased_exp = 0x7FF then
        Some (dst\<lparr>fs_flags := fs_flags dst OR
                   (if fbits AND F64_FRAC_MASK \<noteq> 0 then F64_STRING_IS_NAN else F64_STRING_IS_INF)\<rparr>)
      else do {
        fp \<leftarrow> custom_fp_norm (custom_fp_from_f64 fbits);
        tmp_buf \<leftarrow> itoa_loop (unat (fp_f fp)) [];
        dst \<leftarrow> copy_digits dst (rev tmp_buf);
        dst \<leftarrow> repeat_opt (nat (fp_e fp)) mul2 dst;
        let dst = dst\<lparr>decimal_point := int (num_digits dst)\<rparr>;
        dst \<leftarrow> repeat_opt (nat (- fp_e fp)) div2 dst;
        put_digit dst (num_digits dst) 0 })"

section \<open>Rounding\<close>

text \<open>\<open>MAX\<close> of an unsigned difference and zero is that difference.\<close>

definition f64str_num_frac_digits :: "F64String \<Rightarrow> nat" where
  "f64str_num_frac_digits s = unat (of_nat (num_digits s) - of_int (decimal_point s) :: u32)"

definition f64str_num_int_digits :: "F64String \<Rightarrow> nat" where
  "f64str_num_int_digits s = nat (max (decimal_point s) 0)"

definition f64str_has_nonzero_digit :: "F64String \<Rightarrow> nat \<Rightarrow> bool" where
  "f64str_has_nonzero_digit s round_digit =
     list_ex (\<lambda>i. digits s ! i > 48 \<and> digits s ! i \<le> 57) [round_digit + 1 ..< num_digits s]"

text \<open>Nines before the index become zeros; the second result is one more than the index where it stops.\<close>

fun nines_loop :: "nat list \<Rightarrow> nat \<Rightarrow> nat list \<times> nat" where
  "nines_loop ds 0 = (ds, 0)"
| "nines_loop ds (Suc i) = (if ds ! i = 57 then nines_loop (ds[i := 48]) i else (ds, Suc i))"

definition round_up :: "F64String \<Rightarrow> nat \<Rightarrow> F64String" where
  "round_up s round_digit =
     (case nines_loop (digits s) round_digit of
        (ds, Suc i) \<Rightarrow> s\<lparr>digits := ds[i := ds ! i + 1]\<rparr>
      | (ds, 0) \<Rightarrow> s\<lparr>digits := ds[0 := 49, round_digit := 48], decimal_point := decimal_point s + 1,
                     num_digits := num_digits s + 1\<rparr>)"

text \<open>Whether to round up; the parity of the digit before the first is a read before the array.\<close>

definition rounds_up :: "F64String \<Rightarrow> nat \<Rightarrow> bool option" where
  "rounds_up s round_digit =
     (if digits s ! round_digit > 53 then Some True
      else if digits s ! round_digit = 53 then do {
        assert_opt (round_digit > 0);
        Some (digits s ! (round_digit - 1) mod 2 = 1 \<or> f64str_has_nonzero_digit s round_digit) }
      else Some False)"

fun pad_zeros :: "F64String \<Rightarrow> nat \<Rightarrow> F64String" where
  "pad_zeros s 0 = s"
| "pad_zeros s (Suc n) =
     (if num_digits s < length (digits s) then
        pad_zeros (s\<lparr>digits := (digits s)[num_digits s := 48], num_digits := num_digits s + 1\<rparr>) n
      else s)"

definition f64str_round :: "F64String \<Rightarrow> nat \<Rightarrow> F64String option" where
  "f64str_round s precision =
     (let digits_cap = length (digits s);
          tot_frac_digits = f64str_num_frac_digits s;
          round_digit = sint (of_int (decimal_point s) + of_nat precision :: s32)
      in do {
        s \<leftarrow> (if round_digit < 0 then
                (let n = min (unat (of_nat precision + 1 :: u32)) (digits_cap - 1)
                 in Some (s\<lparr>num_digits := n, decimal_point := 1, digits := replicate n 48 @ drop n (digits s)\<rparr>))
              else if tot_frac_digits > 0 \<and> nat round_digit < num_digits s then
                if tot_frac_digits > precision then do {
                  up \<leftarrow> rounds_up s (nat round_digit);
                  let s = (if up then round_up s (nat round_digit) else s);
                  Some (s\<lparr>num_digits := num_digits s - (tot_frac_digits - precision)\<rparr>) }
                else if tot_frac_digits < precision then Some (pad_zeros s (precision - tot_frac_digits))
                else Some s
              else Some s);
        put_digit s (num_digits s) 0 })"

end
