(* ===== verification/Print.thy ===== *)
theory Print
  imports Print_Floats Cstring
begin

text \<open>
  The formatted printer of \<open>src/src/print.c\<close>, the printing into a stretchy array of \<open>src/src/array.c\<close>
  (lines 6-42) and the escaping of strings of \<open>src/src/cstring.c\<close> (lines 184-242). The destination of the
  characters is a state of its own with a callback that may refuse a character. A read past the end of the
  format, of an argument string or of the argument list, an argument of another type than the format
  asks for, and signed overflow are \<open>None\<close>.
\<close>

section \<open>State\<close>

definition FORMAT_FLAG_LEFT_JUSTIFIED :: u64 where "FORMAT_FLAG_LEFT_JUSTIFIED = 0x1"
definition FORMAT_FLAG_FORCE_SIGN :: u64 where "FORMAT_FLAG_FORCE_SIGN = 0x2"
definition FORMAT_FLAG_SPACE_SIGN :: u64 where "FORMAT_FLAG_SPACE_SIGN = 0x4"
definition FORMAT_FLAG_HASH :: u64 where "FORMAT_FLAG_HASH = 0x8"
definition FORMAT_FLAG_ZERO_PAD :: u64 where "FORMAT_FLAG_ZERO_PAD = 0x10"
definition FORMAT_FLAG_WIDTH :: u64 where "FORMAT_FLAG_WIDTH = 0x20"
definition FORMAT_FLAG_PRECISION :: u64 where "FORMAT_FLAG_PRECISION = 0x40"
definition FORMAT_FLAG_CHAR :: u64 where "FORMAT_FLAG_CHAR = 0x80"
definition FORMAT_FLAG_SHORT :: u64 where "FORMAT_FLAG_SHORT = 0x100"
definition FORMAT_FLAG_LONG :: u64 where "FORMAT_FLAG_LONG = 0x200"
definition FORMAT_FLAG_LONG_LONG :: u64 where "FORMAT_FLAG_LONG_LONG = 0x400"
definition FORMAT_FLAG_UPPERCASE :: u64 where "FORMAT_FLAG_UPPERCASE = 0x800"

abbreviation has_flag :: "u64 \<Rightarrow> u64 \<Rightarrow> bool" where
  "has_flag flags flag \<equiv> flags AND flag \<noteq> 0"

text \<open>\<open>None\<close> for the callback is the null pointer: the characters are only counted.\<close>

record 'd PrintState =
  ps_count :: nat
  ps_arg :: 'd
  ps_put_char :: "('d \<Rightarrow> char \<Rightarrow> bool \<times> 'd) option"
  ps_stores :: "(u64 \<times> nat) list"

definition put_char_wrapper :: "'d PrintState \<Rightarrow> char \<Rightarrow> 'd PrintState" where
  "put_char_wrapper s c =
     (case ps_put_char s of
        None \<Rightarrow> s\<lparr>ps_count := ps_count s + 1\<rparr>
      | Some f \<Rightarrow> (case f (ps_arg s) c of
          (success, d) \<Rightarrow> s\<lparr>ps_arg := d, ps_count := (if success then ps_count s + 1 else ps_count s)\<rparr>))"

text \<open>Successive characters.\<close>

definition put_chars :: "'d PrintState \<Rightarrow> string \<Rightarrow> 'd PrintState" where
  "put_chars s cs = foldl put_char_wrapper s cs"

section \<open>Integers\<close>

fun ascii_digits :: "string \<Rightarrow> nat \<Rightarrow> int \<Rightarrow> (nat \<times> int) option" where
  "ascii_digits [] i result = None"
| "ascii_digits (c # cs) i result =
     (if c \<noteq> NUL \<and> is_dec_digit c then do {
        let result = 10 * result + (of_char c - 48);
        assert_opt (result < 2 ^ 63);
        ascii_digits cs (i + 1) result }
      else Some (i, result))"

text \<open>The number of characters read and the value.\<close>

definition ascii_to_i64 :: "string \<Rightarrow> (nat \<times> int) option" where
  "ascii_to_i64 str =
     (case str of
        [] \<Rightarrow> None
      | c # cs \<Rightarrow> (if c = CHR ''-'' then do { (i, r) \<leftarrow> ascii_digits cs 1 0; Some (i, - r) } else ascii_digits str 0 0))"

text \<open>The digits in reverse order, at most 32 of them.\<close>

function int_digits :: "nat \<Rightarrow> nat \<Rightarrow> bool \<Rightarrow> string \<Rightarrow> string" where
  "int_digits value base upper temp_buf =
     (let digit = value mod base;
          temp_buf = temp_buf @ [char_of ((if digit \<ge> 10 then (if upper then 65 else 97) - 10 else 48) + digit)]
      in if value div base > 0 \<and> length temp_buf < PRINT_MAX_NUM_DIGITS then int_digits (value div base) base upper temp_buf
         else temp_buf)"
  by pat_completeness auto
termination by (relation "measure (\<lambda>(v, b, u, t). 32 - length t)") (auto simp: PRINT_MAX_NUM_DIGITS_def)

declare int_digits.simps [simp del]

definition ftprint_int' :: "'d PrintState \<Rightarrow> u64 \<Rightarrow> u64 \<Rightarrow> bool \<Rightarrow> u64 \<Rightarrow> u32 \<Rightarrow> u64 \<Rightarrow> 'd PrintState" where
  "ftprint_int' dest value base negative precision width flags =
     (let prec_flag = has_flag flags FORMAT_FLAG_PRECISION;
          width_flag = has_flag flags FORMAT_FLAG_WIDTH;
          print_sign = negative \<or> has_flag flags FORMAT_FLAG_FORCE_SIGN;
          print_base = has_flag flags FORMAT_FLAG_HASH \<and> base \<in> {2, 8, 16};
          left_just_flag = has_flag flags FORMAT_FLAG_LEFT_JUSTIFIED;
          zero_pad_flag = has_flag flags FORMAT_FLAG_ZERO_PAD;
          uppercase_flag = has_flag flags FORMAT_FLAG_UPPERCASE
      in
      if prec_flag \<and> precision = 0 \<and> value = 0 then dest
      else
        (let temp_buf = int_digits (unat value) (unat base) uppercase_flag [];
             len = length temp_buf;
             zero_pad = (if prec_flag \<and> unat precision > len then unat precision - len else 0);
             tot_len = len + zero_pad +
               (if print_base then (if base \<noteq> 8 then 2 else 1) else if print_sign then 1 else 0);
             pad = (if width_flag \<and> unat width > tot_len then unat width - tot_len else 0);
             space_pad = (if left_just_flag \<or> \<not> zero_pad_flag then pad else 0);
             zero_pad = (if left_just_flag \<or> \<not> zero_pad_flag then zero_pad else zero_pad + pad);
             dest = (if \<not> left_just_flag then put_chars dest (replicate space_pad CHR '' '') else dest);
             dest = (if print_base then
                       put_chars (put_char_wrapper dest CHR ''0'')
                         (if base = 2 then ''b'' else if base = 16 then (if uppercase_flag then ''X'' else ''x'') else '''')
                     else if print_sign then put_char_wrapper dest (if negative then CHR ''-'' else CHR ''+'')
                     else dest);
             dest = put_chars dest (replicate zero_pad CHR ''0'');
             dest = put_chars dest (rev temp_buf)
         in if left_just_flag then put_chars dest (replicate space_pad CHR '' '') else dest))"

text \<open>The negation of the least \<open>long long\<close> overflows.\<close>

definition ftprint_int :: "'d PrintState \<Rightarrow> s64 \<Rightarrow> u64 \<Rightarrow> u64 \<Rightarrow> u32 \<Rightarrow> u64 \<Rightarrow> 'd PrintState option" where
  "ftprint_int dest value base precision width flags = do {
     assert_opt (sint value \<noteq> - (2 ^ 63));
     let negative = sint value < 0;
     Some (ftprint_int' dest (if negative then 0 - value else value) base negative precision width flags) }"

definition print_uint :: "'d PrintState \<Rightarrow> u64 \<Rightarrow> u64 \<Rightarrow> u64 \<Rightarrow> u32 \<Rightarrow> u64 \<Rightarrow> 'd PrintState" where
  "print_uint dest value base precision width flags = ftprint_int' dest value base False precision width flags"

section \<open>Floats\<close>

definition PRINT_DEFAULT_FLOAT_PRECISION :: u64 where "PRINT_DEFAULT_FLOAT_PRECISION = 6"

text \<open>The character of a digit; an index before or behind the array is \<open>None\<close>.\<close>

definition digit_char :: "F64String \<Rightarrow> int \<Rightarrow> char option" where
  "digit_char fstr i = do {
     assert_opt (0 \<le> i \<and> i < int (length (digits fstr)));
     Some (char_of (digits fstr ! nat i)) }"

fun collect :: "('a \<Rightarrow> 'b option) \<Rightarrow> 'a list \<Rightarrow> 'b list option" where
  "collect f [] = Some []"
| "collect f (x # xs) = do { y \<leftarrow> f x; ys \<leftarrow> collect f xs; Some (y # ys) }"

text \<open>
  The zeros of a number without fractional digits are counted in 32 bits up to the 64-bit precision: the loop
  never ends for a precision from 2 to the 32 on.
\<close>

definition ftprint_float :: "'d PrintState \<Rightarrow> u64 \<Rightarrow> u64 \<Rightarrow> u32 \<Rightarrow> u64 \<Rightarrow> 'd PrintState option" where
  "ftprint_float dest value precision width flags = do {
     fstr \<leftarrow> f64_to_str \<lparr>digits = replicate 1024 0, num_digits = 0, decimal_point = 0, fs_flags = 0\<rparr> value;
     let negative = fs_flags fstr AND F64_STRING_IS_NEG \<noteq> 0;
     if fs_flags fstr AND F64_STRING_IS_NAN \<noteq> 0 then Some (put_chars dest ''nan'')
     else if fs_flags fstr AND F64_STRING_IS_INF \<noteq> 0 \<and> \<not> negative then
       Some (put_chars dest (if has_flag flags FORMAT_FLAG_FORCE_SIGN then ''+inf'' else ''inf''))
     else if fs_flags fstr AND F64_STRING_IS_INF \<noteq> 0 then Some (put_chars dest ''-inf'')
     else do {
       let precision = (if \<not> has_flag flags FORMAT_FLAG_PRECISION then PRINT_DEFAULT_FLOAT_PRECISION else precision);
       let print_sign = negative \<or> has_flag flags FORMAT_FLAG_FORCE_SIGN;
       let left_just_flag = has_flag flags FORMAT_FLAG_LEFT_JUSTIFIED;
       fstr \<leftarrow> f64str_round fstr (unat (ucast precision :: u32));
       let tot_frac_digits = f64str_num_frac_digits fstr;
       let tot_int_digits = f64str_num_int_digits fstr;
       let tot_len = max tot_int_digits 1 + 1 + max tot_frac_digits 1 + (if print_sign then 1 else 0);
       let width_pad = (if has_flag flags FORMAT_FLAG_WIDTH \<and> unat width > tot_len then unat width - tot_len else 0);
       let dest = (if \<not> left_just_flag then
                     put_chars dest (replicate width_pad (if has_flag flags FORMAT_FLAG_ZERO_PAD then CHR ''0'' else CHR '' ''))
                   else dest);
       let dest = (if print_sign then put_char_wrapper dest (if negative then CHR ''-'' else CHR ''+'') else dest);
       ints \<leftarrow> (if tot_int_digits > 0 then
                  collect (\<lambda>i. if i < int (num_digits fstr) then digit_char fstr i else Some CHR ''0'') [0 .. int tot_int_digits - 1]
                else Some ''0'');
       let dest = put_char_wrapper (put_chars dest ints) CHR ''.'';
       fracs \<leftarrow> (if tot_frac_digits > 0 then
                   collect (\<lambda>i. if i \<ge> 0 then digit_char fstr i else Some CHR ''0'')
                     [decimal_point fstr .. decimal_point fstr + int tot_frac_digits - 1]
                 else do { assert_opt (unat precision < 2 ^ 32); Some (replicate (unat precision) CHR ''0'') });
       let dest = put_chars dest fracs;
       Some (if left_just_flag then put_chars dest (replicate width_pad CHR '' '') else dest) } }"

section \<open>Formats\<close>

text \<open>
  The variable arguments with the types they are read at: \<open>int\<close> and \<open>unsigned\<close>, \<open>long\<close> and \<open>long long\<close>,
  \<open>double\<close>, \<open>const char*\<close> (null, or an address with the memory from there), \<open>int*\<close>.
\<close>

datatype va_arg = AInt u32 | ALong u64 | ADouble u64 | AStr "(u64 \<times> string) option" | APtr u64

fun va_int :: "va_arg list \<Rightarrow> (u32 \<times> va_arg list) option" where
  "va_int (AInt x # args) = Some (x, args)" | "va_int _ = None"

fun va_long :: "va_arg list \<Rightarrow> (u64 \<times> va_arg list) option" where
  "va_long (ALong x # args) = Some (x, args)" | "va_long _ = None"

fun va_double :: "va_arg list \<Rightarrow> (u64 \<times> va_arg list) option" where
  "va_double (ADouble x # args) = Some (x, args)" | "va_double _ = None"

fun va_str :: "va_arg list \<Rightarrow> ((u64 \<times> string) option \<times> va_arg list) option" where
  "va_str (AStr x # args) = Some (x, args)" | "va_str _ = None"

fun va_ptr :: "va_arg list \<Rightarrow> (u64 \<times> va_arg list) option" where
  "va_ptr (APtr x # args) = Some (x, args)" | "va_ptr _ = None"

definition peek :: "string \<Rightarrow> char option" where
  "peek fmt = (case fmt of [] \<Rightarrow> None | c # _ \<Rightarrow> Some c)"

definition flag_of :: "char \<Rightarrow> u64 option" where
  "flag_of c =
     (if c = CHR ''-'' then Some FORMAT_FLAG_LEFT_JUSTIFIED
      else if c = CHR ''+'' then Some FORMAT_FLAG_FORCE_SIGN
      else if c = CHR '' '' then Some FORMAT_FLAG_SPACE_SIGN
      else if c = CHR ''#'' then Some FORMAT_FLAG_HASH
      else if c = CHR ''0'' then Some FORMAT_FLAG_ZERO_PAD
      else None)"

fun parse_flags :: "string \<Rightarrow> u64 \<Rightarrow> (string \<times> u64) option" where
  "parse_flags [] flags = None"
| "parse_flags (c # fmt) flags =
     (case flag_of c of Some f \<Rightarrow> parse_flags fmt (flags OR f) | None \<Rightarrow> Some (c # fmt, flags))"

text \<open>The source does not step over the asterisk of a width.\<close>

definition parse_width :: "string \<Rightarrow> va_arg list \<Rightarrow> u64 \<Rightarrow> (string \<times> va_arg list \<times> u64 \<times> u32) option" where
  "parse_width fmt args flags = do {
     c \<leftarrow> peek fmt;
     if is_dec_digit c then do {
       (n, w) \<leftarrow> ascii_to_i64 fmt;
       Some (drop n fmt, args, flags OR FORMAT_FLAG_WIDTH, if w < 0 then 0 else of_int w) }
     else if c = CHR ''*'' then do {
       (w, args) \<leftarrow> va_int args;
       Some (fmt, args, flags OR FORMAT_FLAG_WIDTH, if sint w < 0 then 0 else w) }
     else Some (fmt, args, flags, 0) }"

definition parse_precision :: "string \<Rightarrow> va_arg list \<Rightarrow> u64 \<Rightarrow> (string \<times> va_arg list \<times> u64 \<times> u64) option" where
  "parse_precision fmt args flags = do {
     c \<leftarrow> peek fmt;
     if c = CHR ''.'' then do {
       let fmt = tl fmt;
       let flags = flags OR FORMAT_FLAG_PRECISION;
       c \<leftarrow> peek fmt;
       if is_dec_digit c then do {
         (n, p) \<leftarrow> ascii_to_i64 fmt;
         Some (drop n fmt, args, flags, of_int (if p < 0 then 0 - p else p)) }
       else if c = CHR ''*'' then do {
         (p, args) \<leftarrow> va_int args;
         assert_opt (sint p \<noteq> - (2 ^ 31));
         Some (tl fmt, args, flags, of_int (if sint p < 0 then 0 - sint p else sint p)) }
       else Some (fmt, args, flags, 0) }
     else Some (fmt, args, flags, 0) }"

text \<open>\<open>&= ~x\<close> after \<open>|= x\<close>.\<close>

definition parse_length :: "string \<Rightarrow> u64 \<Rightarrow> (string \<times> u64) option" where
  "parse_length fmt flags = do {
     c \<leftarrow> peek fmt;
     if c = CHR ''l'' then do {
       let flags = flags OR FORMAT_FLAG_LONG;
       c \<leftarrow> peek (tl fmt);
       Some (if c = CHR ''l'' then (tl (tl fmt), (flags AND NOT FORMAT_FLAG_LONG) OR FORMAT_FLAG_LONG_LONG)
             else (tl fmt, flags)) }
     else if c = CHR ''h'' then do {
       let flags = flags OR FORMAT_FLAG_SHORT;
       c \<leftarrow> peek (tl fmt);
       Some (if c = CHR ''h'' then (tl (tl fmt), (flags AND NOT FORMAT_FLAG_SHORT) OR FORMAT_FLAG_CHAR)
             else (tl fmt, flags)) }
     else Some (fmt, flags) }"

definition conv_int :: "'d PrintState \<Rightarrow> char \<Rightarrow> va_arg list \<Rightarrow> u64 \<Rightarrow> u32 \<Rightarrow> u64 \<Rightarrow> ('d PrintState \<times> va_arg list) option" where
  "conv_int s c args precision width flags =
     (let base = (if c = CHR ''x'' \<or> c = CHR ''X'' then 16 else if c = CHR ''o'' then 8 else if c = CHR ''b'' then 2 else 10);
          flags = (if c = CHR ''X'' then flags OR FORMAT_FLAG_UPPERCASE else flags);
          sgn = c = CHR ''d'' \<or> c = CHR ''i''
      in
      if has_flag flags FORMAT_FLAG_LONG_LONG \<or> has_flag flags FORMAT_FLAG_LONG then do {
        (v, args) \<leftarrow> va_long args;
        s \<leftarrow> (if sgn then ftprint_int s v base precision width flags else Some (print_uint s v base precision width flags));
        Some (s, args) }
      else do {
        (v, args) \<leftarrow> va_int args;
        let v64 = (if has_flag flags FORMAT_FLAG_SHORT then
                     (if sgn then scast (ucast v :: 16 word) else ucast (ucast v :: 16 word))
                   else if has_flag flags FORMAT_FLAG_CHAR then
                     (if sgn then scast (ucast v :: 8 word) else ucast (ucast v :: 8 word))
                   else if sgn then scast v else ucast v);
        s \<leftarrow> (if sgn then ftprint_int s v64 base precision width flags else Some (print_uint s v64 base precision width flags));
        Some (s, args) })"

text \<open>Padding up to the width.\<close>

definition pad_to :: "'d PrintState \<Rightarrow> nat \<Rightarrow> u32 \<Rightarrow> 'd PrintState" where
  "pad_to s str_len width = put_chars s (replicate (unat width - str_len) CHR '' '')"

definition conv_char :: "'d PrintState \<Rightarrow> va_arg list \<Rightarrow> u32 \<Rightarrow> u64 \<Rightarrow> ('d PrintState \<times> va_arg list) option" where
  "conv_char s args width flags = do {
     let s = (if has_flag flags FORMAT_FLAG_WIDTH \<and> \<not> has_flag flags FORMAT_FLAG_LEFT_JUSTIFIED then pad_to s 1 width else s);
     (c, args) \<leftarrow> va_int args;
     let s = put_char_wrapper s (char_of (unat (ucast c :: 8 word)));
     let s = (if has_flag flags FORMAT_FLAG_WIDTH \<and> has_flag flags FORMAT_FLAG_LEFT_JUSTIFIED then pad_to s 1 width else s);
     Some (s, args) }"

fun put_str :: "'d PrintState \<Rightarrow> bool \<Rightarrow> nat \<Rightarrow> string \<Rightarrow> 'd PrintState option" where
  "put_str s prec_flag precision value =
     (if prec_flag \<and> precision = 0 then Some s
      else (case value of [] \<Rightarrow> None
            | c # cs \<Rightarrow> if c \<noteq> NUL then put_str (put_char_wrapper s c) prec_flag (precision - 1) cs else Some s))"

declare put_str.simps [simp del]

text \<open>The length of the string is kept in a 32-bit \<open>unsigned\<close>.\<close>

definition conv_str :: "'d PrintState \<Rightarrow> va_arg list \<Rightarrow> u64 \<Rightarrow> u32 \<Rightarrow> u64 \<Rightarrow> ('d PrintState \<times> va_arg list) option" where
  "conv_str s args precision width flags = do {
     (value, args) \<leftarrow> va_str args;
     let prec_flag = has_flag flags FORMAT_FLAG_PRECISION;
     let width_flag = has_flag flags FORMAT_FLAG_WIDTH;
     let left = has_flag flags FORMAT_FLAG_LEFT_JUSTIFIED;
     case value of
       None \<Rightarrow> do {
         s \<leftarrow> put_str s prec_flag (unat precision) (if 6 > unat precision \<and> prec_flag then [NUL] else ''(null)'' @ [NUL]);
         Some (s, args) }
     | Some (addr, str) \<Rightarrow> do {
         str_len \<leftarrow> (if prec_flag then cstr_nlen str (unat precision) else cstr_len addr str);
         let str_len = unat (of_nat str_len :: u32);
         let s = (if width_flag \<and> \<not> left then pad_to s str_len width else s);
         s \<leftarrow> put_str s prec_flag (unat precision) str;
         let s = (if width_flag \<and> left then pad_to s str_len width else s);
         Some (s, args) } }"

text \<open>A conversion: the state, the rest of the format and of the arguments. Anything unknown is printed.\<close>

definition convert :: "'d PrintState \<Rightarrow> string \<Rightarrow> va_arg list \<Rightarrow> u64 \<Rightarrow> u32 \<Rightarrow> u64 \<Rightarrow> ('d PrintState \<times> string \<times> va_arg list) option" where
  "convert s fmt args precision width flags = do {
     c \<leftarrow> peek fmt;
     if c \<in> set ''diuxXob'' then do { (s, args) \<leftarrow> conv_int s c args precision width flags; Some (s, tl fmt, args) }
     else if c = CHR ''f'' \<or> c = CHR ''F'' then do {
       (v, args) \<leftarrow> va_double args;
       s \<leftarrow> ftprint_float s v precision width (if c = CHR ''F'' then flags OR FORMAT_FLAG_UPPERCASE else flags);
       Some (s, tl fmt, args) }
     else if c = CHR ''c'' then do { (s, args) \<leftarrow> conv_char s args width flags; Some (s, tl fmt, args) }
     else if c = CHR ''s'' then do { (s, args) \<leftarrow> conv_str s args precision width flags; Some (s, tl fmt, args) }
     else if c = CHR ''n'' then do {
       (p, args) \<leftarrow> va_ptr args;
       Some (s\<lparr>ps_stores := ps_stores s @ [(p, ps_count s)]\<rparr>, tl fmt, args) }
     else Some (put_char_wrapper s c, tl fmt, args) }"

text \<open>What follows a percent sign.\<close>

definition directive :: "'d PrintState \<Rightarrow> string \<Rightarrow> va_arg list \<Rightarrow> ('d PrintState \<times> string \<times> va_arg list) option" where
  "directive s fmt args = do {
     (fmt, flags) \<leftarrow> parse_flags fmt 0;
     (fmt, args, flags, width) \<leftarrow> parse_width fmt args flags;
     (fmt, args, flags, precision) \<leftarrow> parse_precision fmt args flags;
     (fmt, flags) \<leftarrow> parse_length fmt flags;
     convert s fmt args precision width flags }"

lemma peek_Some [simp]: "peek fmt = Some c \<longleftrightarrow> fmt \<noteq> [] \<and> hd fmt = c"
  by (cases fmt) (auto simp: peek_def)

lemma parse_flags_length: "parse_flags fmt flags = Some (fmt', flags') \<Longrightarrow> length fmt' \<le> length fmt"
  by (induction fmt flags rule: parse_flags.induct) (auto split: option.splits)

lemma directive_length: "directive s fmt args = Some (s', fmt', args') \<Longrightarrow> length fmt' < length fmt"
proof -
  assume "directive s fmt args = Some (s', fmt', args')"
  then obtain f1 fl1 f2 a2 fl2 w f3 a3 fl3 p f4 fl4 where
      "parse_flags fmt 0 = Some (f1, fl1)" "parse_width f1 args fl1 = Some (f2, a2, fl2, w)"
      "parse_precision f2 a2 fl2 = Some (f3, a3, fl3, p)" "parse_length f3 fl3 = Some (f4, fl4)"
      "convert s f4 a3 p w fl4 = Some (s', fmt', args')"
    unfolding directive_def by (auto split: bind_splits)
  moreover from this have "length f1 \<le> length fmt" by (auto dest: parse_flags_length)
  moreover from calculation have "length f2 \<le> length f1" by (auto simp: parse_width_def split: bind_splits if_splits)
  moreover from calculation have "length f3 \<le> length f2" by (auto simp: parse_precision_def Let_def split: bind_splits if_splits)
  moreover from calculation have "length f4 \<le> length f3" by (auto simp: parse_length_def Let_def split: bind_splits if_splits)
  moreover from calculation have "length fmt' < length f4"
    by (cases f4) (auto simp: convert_def peek_def split: bind_splits if_splits)
  ultimately show ?thesis by linarith
qed

function ftprintv_loop :: "'d PrintState \<Rightarrow> string \<Rightarrow> va_arg list \<Rightarrow> 'd PrintState option" where
  "ftprintv_loop s [] args = None"
| "ftprintv_loop s (c # fmt) args =
     (if c = NUL then Some (put_char_wrapper s NUL)
      else if c = CHR ''%'' then
        (case directive s fmt args of
           None \<Rightarrow> None
         | Some (s, fmt, args) \<Rightarrow> ftprintv_loop s fmt args)
      else ftprintv_loop (put_char_wrapper s c) fmt args)"
  by pat_completeness auto
termination
  by (relation "measure (\<lambda>(s, fmt, args). length fmt)") (auto dest!: directive_length)

definition ftprintv :: "('d \<Rightarrow> char \<Rightarrow> bool \<times> 'd) option \<Rightarrow> 'd \<Rightarrow> string \<Rightarrow> va_arg list \<Rightarrow> 'd PrintState option" where
  "ftprintv put_char arg fmt args =
     ftprintv_loop \<lparr>ps_count = 0, ps_arg = arg, ps_put_char = put_char, ps_stores = []\<rparr> fmt args"

section \<open>Destinations\<close>

text \<open>A stretchy array is the list of its elements.\<close>

definition putc_array :: "bool \<Rightarrow> string \<Rightarrow> char \<Rightarrow> bool \<times> string" where
  "putc_array nullterm dst c = (True, if c \<noteq> NUL \<or> nullterm then dst @ [c] else dst)"

definition ftprint_char_array :: "string \<Rightarrow> bool \<Rightarrow> string \<Rightarrow> va_arg list \<Rightarrow> (string \<times> nat) option" where
  "ftprint_char_array dst nullterm fmt args = do {
     s \<leftarrow> ftprintv (Some (putc_array nullterm)) dst fmt args;
     Some (ps_arg s, ps_count s) }"

definition PRINT_FILE_BUF_SIZE :: nat where "PRINT_FILE_BUF_SIZE = 128"

text \<open>\<open>pb_fwrite\<close> is how many characters \<open>fwrite\<close> accepts, given what the file holds.\<close>

record PrintBuffer =
  pb_buf :: string
  pb_size :: nat
  pb_nullterm :: bool
  pb_file :: string
  pb_fwrite :: "string \<Rightarrow> string \<Rightarrow> nat"

definition flush_file_buffer :: "PrintBuffer \<Rightarrow> bool \<times> PrintBuffer" where
  "flush_file_buffer fb =
     (let n = pb_fwrite fb (pb_file fb) (pb_buf fb);
          fb = fb\<lparr>pb_file := pb_file fb @ take n (pb_buf fb)\<rparr>
      in if n = length (pb_buf fb) then (True, fb\<lparr>pb_buf := []\<rparr>) else (False, fb))"

definition output_to_file :: "PrintBuffer \<Rightarrow> char \<Rightarrow> bool \<times> PrintBuffer" where
  "output_to_file dest c =
     (let write_char = c \<noteq> NUL \<or> pb_nullterm dest;
          (ok, dest) = (if length (pb_buf dest) < pb_size dest then (True, dest) else flush_file_buffer dest)
      in
      if \<not> ok then (False, dest)
      else
        (let dest = (if write_char then dest\<lparr>pb_buf := pb_buf dest @ [c]\<rparr> else dest)
         in if c = NUL then flush_file_buffer dest else (True, dest)))"

definition ftprint_file :: "string \<Rightarrow> (string \<Rightarrow> string \<Rightarrow> nat) \<Rightarrow> bool \<Rightarrow> string \<Rightarrow> va_arg list \<Rightarrow> (string \<times> nat) option" where
  "ftprint_file file fwrite nullterm fmt args = do {
     s \<leftarrow> ftprintv (Some output_to_file)
            \<lparr>pb_buf = [], pb_size = PRINT_FILE_BUF_SIZE, pb_nullterm = nullterm, pb_file = file, pb_fwrite = fwrite\<rparr> fmt args;
     Some (pb_file (ps_arg s), ps_count s) }"

section \<open>Escaping\<close>

definition escape_name :: "char \<Rightarrow> string option" where
  "escape_name c =
     (if c = NUL then Some (BSLASH # ''0'')
      else if c = CHR 0x07 then Some (BSLASH # ''a'')
      else if c = CHR 0x08 then Some (BSLASH # ''b'')
      else if c = CHR 0x0C then Some (BSLASH # ''f'')
      else if c = NL then Some (BSLASH # ''n'')
      else if c = CHR 0x0D then Some (BSLASH # ''r'')
      else if c = CHR 0x09 then Some (BSLASH # ''t'')
      else if c = CHR 0x0B then Some (BSLASH # ''v'')
      else if c = BSLASH then Some [BSLASH, BSLASH]
      else if c = SQUOTE then Some [BSLASH, SQUOTE]
      else if c = DQUOTE then Some [BSLASH, DQUOTE]
      else if c = CHR ''?'' then Some (BSLASH # ''?'')
      else None)"

text \<open>A \<open>char\<close> argument is promoted to \<open>int\<close> with its sign.\<close>

definition promote :: "char \<Rightarrow> u32" where
  "promote c = scast (of_char c :: 8 word)"

definition escape_char :: "string \<Rightarrow> char \<Rightarrow> char \<Rightarrow> string option" where
  "escape_char res c extra_escape =
     (case escape_name c of
        Some f \<Rightarrow> map_option fst (ftprint_char_array res False (f @ [NUL]) [])
      | None \<Rightarrow>
          if is_cntrl c \<or> c = extra_escape then
            map_option fst (ftprint_char_array res False (BSLASH # ''x%.2x'' @ [NUL]) [AInt (promote c)])
          else Some (res @ [c]))"

fun escape_loop :: "string \<Rightarrow> string \<Rightarrow> char \<Rightarrow> string option" where
  "escape_loop res [] extra_escape = Some (res @ [NUL])"
| "escape_loop res (c # str) extra_escape = do {
     res \<leftarrow> escape_char res c extra_escape;
     escape_loop res str extra_escape }"

definition cstr_escape :: "string \<Rightarrow> char \<Rightarrow> string option" where
  "cstr_escape str extra_escape = escape_loop [] str extra_escape"

end
