(* ===== verification/Print_Floats_Correct.thy ===== *)
theory Print_Floats_Correct
  imports Print_Floats Complex_Main
begin

text \<open>
  The decimal digits of a double are exact: the digit array denotes the very number the bits denote, and the
  array of 1024 characters is large enough for every double. Rounding the digits is rounding to nearest, ties
  to even, except when the digit to round at is the first of the array.
\<close>

section \<open>Decimal numerals\<close>

definition is_digits :: "nat list \<Rightarrow> bool" where
  "is_digits cs \<longleftrightarrow> list_all (\<lambda>c. 48 \<le> c \<and> c \<le> 57) cs"

definition num_of :: "nat list \<Rightarrow> nat" where
  "num_of cs = foldl (\<lambda>v c. 10 * v + (c - 48)) 0 cs"

lemma is_digits_simps [simp]:
  "is_digits []" "is_digits (c # cs) \<longleftrightarrow> 48 \<le> c \<and> c \<le> 57 \<and> is_digits cs"
  "is_digits (cs @ ds) \<longleftrightarrow> is_digits cs \<and> is_digits ds"
  by (auto simp: is_digits_def)

lemma num_of_Nil [simp]: "num_of [] = 0"
  by (simp add: num_of_def)

lemma num_of_snoc [simp]: "num_of (cs @ [c]) = 10 * num_of cs + (c - 48)"
  by (simp add: num_of_def)

lemma num_of_append: "num_of (cs @ ds) = num_of cs * 10 ^ length ds + num_of ds"
proof (induction ds rule: rev_induct)
  case (snoc d ds)
  then show ?case unfolding append_assoc[symmetric] num_of_snoc by simp
qed simp

lemma num_of_Cons: "num_of (c # cs) = (c - 48) * 10 ^ length cs + num_of cs"
  using num_of_append[of "[c]" cs] num_of_snoc[of "[]" c] by simp

lemma num_of_less: "is_digits cs \<Longrightarrow> num_of cs < 10 ^ length cs"
proof (induction cs)
  case (Cons c cs)
  then have "c - 48 \<le> 9" by auto
  then have "(c - 48) * 10 ^ length cs \<le> 9 * 10 ^ length cs" by (rule mult_le_mono1)
  moreover have "num_of cs < 10 ^ length cs" using Cons by simp
  ultimately have "(c - 48) * 10 ^ length cs + num_of cs < 10 * 10 ^ length cs" by linarith
  then show ?case by (simp add: num_of_Cons)
qed simp

text \<open>A numeral has no leading zero when its value has its number of digits.\<close>

lemma leading_digit:
  "is_digits cs \<Longrightarrow> cs \<noteq> [] \<Longrightarrow> d * 10 ^ (length cs - 1) \<le> num_of cs \<longleftrightarrow> d + 48 \<le> hd cs"
proof (cases cs)
  case (Cons c cs')
  assume "is_digits cs"
  then have lt: "num_of cs' < 10 ^ length cs'" and c: "48 \<le> c" using Cons num_of_less by simp_all
  show ?thesis
  proof (cases "d + 48 \<le> c")
    case True
    then have "d * 10 ^ length cs' \<le> (c - 48) * 10 ^ length cs'" by (intro mult_le_mono1) simp
    then show ?thesis using True Cons by (auto simp: num_of_Cons intro: trans_le_add1)
  next
    case False
    then have "Suc (c - 48) * 10 ^ length cs' \<le> d * 10 ^ length cs'" using c by (intro mult_le_mono1) simp
    then show ?thesis using False Cons lt by (simp add: num_of_Cons)
  qed
qed simp

section \<open>Doubling and halving\<close>

lemma mul_loop_correct:
  "i + add \<le> length ds \<Longrightarrow> is_digits (take i ds) \<Longrightarrow> carry \<le> 1 \<Longrightarrow>
   \<exists>ds' q. mul_loop ds i add carry = Some ds' \<and> length ds' = length ds \<and> drop (i + add) ds' = drop (i + add) ds \<and>
     is_digits (take i (drop add ds')) \<and> num_of (take i (drop add ds')) + q * 10 ^ i = 2 * num_of (take i ds) + carry"
proof (induction i arbitrary: ds carry)
  case (Suc i)
  define x where "x = carry + 2 * (ds ! i - 48)"
  have i: "i < length ds" "i + add < length ds" using Suc.prems(1) by simp_all
  have d: "48 \<le> ds ! i" "ds ! i \<le> 57" and td: "is_digits (take i ds)"
    using Suc.prems(2) i by (simp_all add: take_Suc_conv_app_nth)
  have x: "x div 10 \<le> 1" using d Suc.prems(3) by (simp add: x_def)
  let ?ds = "ds[i + add := x mod 10 + 48]"
  have t: "take i ?ds = take i ds" by simp
  obtain ds' q where r: "mul_loop ?ds i add (x div 10) = Some ds'" "length ds' = length ds"
      "drop (i + add) ds' = drop (i + add) ?ds" "is_digits (take i (drop add ds'))"
      "num_of (take i (drop add ds')) + q * 10 ^ i = 2 * num_of (take i ds) + x div 10"
    using Suc.IH[of ?ds "x div 10"] i td x unfolding t by auto
  have "ds' ! (i + add) = drop (i + add) ds' ! 0" using i r(2) by simp
  also have "\<dots> = x mod 10 + 48" unfolding r(3) using i by simp
  finally have nth: "ds' ! (add + i) = x mod 10 + 48" by (simp add: add.commute)
  have tk: "take (Suc i) (drop add ds') = take i (drop add ds') @ [x mod 10 + 48]"
    using i r(2) nth by (simp add: take_Suc_conv_app_nth)
  have "drop (Suc (i + add)) ds' = drop 1 (drop (i + add) ds')" by simp
  also have "\<dots> = drop (Suc (i + add)) ds" unfolding r(3) by (simp add: drop_update_swap)
  finally have dr: "drop (Suc i + add) ds' = drop (Suc i + add) ds" by simp
  have "10 * (2 * num_of (take i ds) + x div 10) + x mod 10 = 2 * num_of (take (Suc i) ds) + carry"
    using i by (simp add: take_Suc_conv_app_nth x_def)
  then have "num_of (take (Suc i) (drop add ds')) + q * 10 ^ Suc i = 2 * num_of (take (Suc i) ds) + carry"
    unfolding r(5)[symmetric] tk by simp
  moreover have "is_digits (take (Suc i) (drop add ds'))" unfolding tk using r(4) by simp
  moreover have "mul_loop ds (Suc i) add carry = Some ds'" using r(1) i by (simp add: x_def)
  ultimately show ?case using r(2) dr by blast
qed simp

lemma div_loop_correct:
  "i + n + delta \<le> length ds \<Longrightarrow> is_digits (take n (drop (i + delta) ds)) \<Longrightarrow> r \<le> 1 \<Longrightarrow>
   \<exists>ds'. div_loop ds i n delta r = Some ds' \<and> length ds' = length ds \<and> take i ds' = take i ds \<and>
     is_digits (take n (drop i ds')) \<and>
     num_of (take n (drop i ds')) = (r * 10 ^ n + num_of (take n (drop (i + delta) ds))) div 2"
proof (induction n arbitrary: i ds r)
  case (Suc n)
  define d x where "d = ds ! (i + delta)" and "x = r * 10 + (d - 48)"
  have i: "i < length ds" "i + delta < length ds" using Suc.prems(1) by simp_all
  have tk: "take (Suc n) (drop (i + delta) ds) = d # take n (drop (Suc i + delta) ds)"
    using i by (simp add: d_def Cons_nth_drop_Suc[symmetric])
  have d: "48 \<le> d" "d \<le> 57" and td: "is_digits (take n (drop (Suc i + delta) ds))"
    using Suc.prems(2) unfolding tk by simp_all
  have len: "length (take n (drop (Suc i + delta) ds)) = n" using Suc.prems(1) by simp
  let ?ds = "ds[i := x div 2 + 48]"
  have dr: "drop (Suc i + delta) ?ds = drop (Suc i + delta) ds" by simp
  have p: "Suc i + n + delta \<le> length ?ds" "is_digits (take n (drop (Suc i + delta) ?ds))" "x mod 2 \<le> 1"
    unfolding dr using Suc.prems(1) td by simp_all
  obtain ds' where r: "div_loop ?ds (Suc i) n delta (x mod 2) = Some ds'" "length ds' = length ds"
      "take (Suc i) ds' = take (Suc i) ?ds" "is_digits (take n (drop (Suc i) ds'))"
      "num_of (take n (drop (Suc i) ds')) = (x mod 2 * 10 ^ n + num_of (take n (drop (Suc i + delta) ds))) div 2"
    using Suc.IH[OF p] unfolding dr by auto
  have "ds' ! i = take (Suc i) ds' ! i" by simp
  also have "\<dots> = x div 2 + 48" unfolding r(3) using i by simp
  finally have nth: "ds' ! i = x div 2 + 48" .
  have tk': "take (Suc n) (drop i ds') = (x div 2 + 48) # take n (drop (Suc i) ds')"
    using i r(2) nth by (simp add: Cons_nth_drop_Suc[symmetric])
  have len': "length (take n (drop (Suc i) ds')) = n" using Suc.prems(1) r(2) by simp
  have "take i ds' = take i (take (Suc i) ds')" by simp
  also have "\<dots> = take i ds" unfolding r(3) by (simp add: min_def)
  finally have ti: "take i ds' = take i ds" .
  let ?m = "num_of (take n (drop (Suc i + delta) ds))"
  have "num_of (take (Suc n) (drop i ds')) = x div 2 * 10 ^ n + (x mod 2 * 10 ^ n + ?m) div 2"
    unfolding tk' num_of_Cons len' r(5) by simp
  also have "\<dots> = (2 * (x div 2 * 10 ^ n) + (x mod 2 * 10 ^ n + ?m)) div 2" by simp
  also have "2 * (x div 2 * 10 ^ n) + (x mod 2 * 10 ^ n + ?m) = (2 * (x div 2) + x mod 2) * 10 ^ n + ?m"
    by (simp only: add_mult_distrib mult.assoc add.assoc)
  also have "2 * (x div 2) + x mod 2 = x" by simp
  also have "x * 10 ^ n + ?m = r * 10 ^ Suc n + num_of (take (Suc n) (drop (i + delta) ds))"
    unfolding tk num_of_Cons len by (simp add: x_def algebra_simps)
  finally have "num_of (take (Suc n) (drop i ds')) = (r * 10 ^ Suc n + num_of (take (Suc n) (drop (i + delta) ds))) div 2" .
  moreover have "is_digits (take (Suc n) (drop i ds'))" unfolding tk' using r(4) d Suc.prems(3) by (simp add: x_def)
  moreover have "div_loop ds i (Suc n) delta r = Some ds'" using r(1) i by (simp add: x_def d_def Let_def)
  ultimately show ?case using r(2) ti by blast
qed simp

section \<open>The digits of a string\<close>

text \<open>The first \<open>num_digits\<close> characters are a numeral without leading zeros, \<open>F\<close> of them after the point.\<close>

definition repr :: "F64String \<Rightarrow> nat \<Rightarrow> nat \<Rightarrow> bool" where
  "repr s V F \<longleftrightarrow> 0 < num_digits s \<and> num_digits s \<le> length (digits s) \<and> is_digits (take (num_digits s) (digits s)) \<and>
     num_of (take (num_digits s) (digits s)) = V \<and> 10 ^ (num_digits s - 1) \<le> V \<and>
     int (num_digits s) - decimal_point s = int F"

lemma repr_hd:
  assumes "repr s V F"
  shows "hd (take (num_digits s) (digits s)) = digits s ! 0" "d * 10 ^ (num_digits s - 1) \<le> V \<longleftrightarrow> d + 48 \<le> digits s ! 0"
proof -
  let ?t = "take (num_digits s) (digits s)"
  have t: "?t \<noteq> []" "length ?t = num_digits s" using assms by (auto simp: repr_def)
  show h: "hd ?t = digits s ! 0" using t by (simp add: hd_conv_nth)
  show "d * 10 ^ (num_digits s - 1) \<le> V \<longleftrightarrow> d + 48 \<le> digits s ! 0"
    using leading_digit[of ?t d] assms t h by (simp add: repr_def)
qed

lemma repr_less: "repr s V F \<Longrightarrow> V < 10 ^ num_digits s"
  using num_of_less[of "take (num_digits s) (digits s)"] by (auto simp: repr_def)

lemma repr_num_digits: "repr s V F \<Longrightarrow> V < 10 ^ m \<Longrightarrow> num_digits s \<le> m"
proof -
  assume r: "repr s V F" and V: "V < 10 ^ m"
  have "10 ^ (num_digits s - 1) \<le> V" using r by (simp add: repr_def)
  then have "(10 :: nat) ^ (num_digits s - 1) < 10 ^ m" using V by (rule le_less_trans)
  then have "num_digits s - 1 < m" by (rule power_less_imp_less_exp[rotated]) simp
  then show ?thesis by simp
qed

lemma mul2_correct:
  assumes r: "repr s V F" and room: "num_digits s < length (digits s)" and dp: "decimal_point s = 0"
  shows "\<exists>s' F'. mul2 s = Some s' \<and> repr s' (2 * V) F' \<and> length (digits s') = length (digits s) \<and>
     decimal_point s' = 0 \<and> fs_flags s' = fs_flags s"
proof -
  let ?n = "num_digits s" and ?ds = "digits s"
  define add where "add = (if ?ds ! 0 \<ge> 53 then 1 else 0 :: nat)"
  have n: "0 < ?n" and dg: "is_digits (take ?n ?ds)" and V: "num_of (take ?n ?ds) = V"
    using r by (simp_all add: repr_def)
  have pw: "10 * 10 ^ (?n - 1) = (10 :: nat) ^ ?n" using n by (cases ?n) simp_all
  have "?n + add \<le> length ?ds" using room by (simp add: add_def)
  from mul_loop_correct[OF this dg, of 0] obtain ds' q where l: "mul_loop ?ds ?n add 0 = Some ds'"
      "length ds' = length ?ds" "is_digits (take ?n (drop add ds'))"
      "num_of (take ?n (drop add ds')) + q * 10 ^ ?n = 2 * V"
    unfolding V by auto
  have lt: "num_of (take ?n (drop add ds')) < 10 ^ ?n"
    using num_of_less[OF l(3)] l(2) room by (simp add: add_def split: if_splits)
  have five: "5 * 10 ^ (?n - 1) \<le> V \<longleftrightarrow> 53 \<le> ?ds ! 0" using repr_hd(2)[OF r, of 5] by simp
  show ?thesis
  proof (cases "53 \<le> ?ds ! 0")
    case True
    then have add: "add = 1" and "10 ^ ?n \<le> 2 * V" using five pw by (simp_all add: add_def)
    then have "q \<noteq> 0" using l(4) lt by (cases q) simp_all
    moreover have "q * 10 ^ ?n < 2 * 10 ^ ?n" using l(4) repr_less[OF r] by linarith
    then have "q < 2" by simp
    ultimately have q: "q = 1" by simp
    have e: "take (Suc ?n) (ds'[0 := 49]) = 49 # take ?n (drop 1 ds')"
      using l(2) room by (cases ds') simp_all
    have len: "length (take ?n (drop 1 ds')) = ?n" using l(2) room by simp
    have "num_of (take (Suc ?n) (ds'[0 := 49])) = 2 * V" unfolding e num_of_Cons len using l(4) q add by simp
    moreover have "is_digits (take (Suc ?n) (ds'[0 := 49]))" unfolding e using l(3) add by simp
    ultimately show ?thesis using True l(1,2) add room dp \<open>10 ^ ?n \<le> 2 * V\<close>
      by (auto simp: mul2_def repr_def intro!: exI[of _ "Suc ?n"])
  next
    case False
    then have add: "add = 0" and "V < 5 * 10 ^ (?n - 1)" using five by (simp_all add: add_def not_le)
    then have "2 * V < 10 ^ ?n" using pw by simp
    then have q: "q = 0" using l(4) by (cases q) simp_all
    have "10 ^ (?n - 1) \<le> 2 * V" using r by (simp add: repr_def)
    then show ?thesis using False l add q n room dp by (auto simp: mul2_def repr_def)
  qed
qed

lemma mul2_repeat:
  "repr s V F \<Longrightarrow> decimal_point s = 0 \<Longrightarrow> V * 2 ^ e < 10 ^ (length (digits s) - 1) \<Longrightarrow>
   \<exists>s' F'. repeat_opt e mul2 s = Some s' \<and> repr s' (V * 2 ^ e) F' \<and> length (digits s') = length (digits s) \<and>
     fs_flags s' = fs_flags s"
proof (induction e arbitrary: s V F)
  case (Suc e)
  have "V * 1 \<le> V * 2 ^ Suc e" by (intro mult_le_mono2) simp
  then have "V < 10 ^ (length (digits s) - 1)" using Suc.prems(3) by linarith
  then have "num_digits s \<le> length (digits s) - 1" by (rule repr_num_digits[OF Suc.prems(1)])
  moreover have "0 < length (digits s)" using Suc.prems(1) by (auto simp: repr_def)
  ultimately have "num_digits s < length (digits s)" by linarith
  from mul2_correct[OF Suc.prems(1) this Suc.prems(2)] obtain s1 F1 where s1: "mul2 s = Some s1" "repr s1 (2 * V) F1"
      "length (digits s1) = length (digits s)" "decimal_point s1 = 0" "fs_flags s1 = fs_flags s" by blast
  obtain s2 F2 where "repeat_opt e mul2 s1 = Some s2" "repr s2 (2 * V * 2 ^ e) F2"
      "length (digits s2) = length (digits s1)" "fs_flags s2 = fs_flags s1"
    using Suc.IH[OF s1(2,4)] Suc.prems(3) s1(3) by (auto simp: ac_simps)
  then show ?case using s1 by (auto simp: ac_simps)
qed auto

lemma last_digit_parity:
  assumes "repr s V F"
  shows "odd V \<longleftrightarrow> digits s ! (num_digits s - 1) mod 2 \<noteq> 0"
proof -
  let ?n = "num_digits s"
  have n: "0 < ?n" "?n \<le> length (digits s)" using assms by (simp_all add: repr_def)
  then have t: "take ?n (digits s) = take (?n - 1) (digits s) @ [digits s ! (?n - 1)]"
    using take_Suc_conv_app_nth[of "?n - 1" "digits s"] by simp
  have "V = num_of (take ?n (digits s))" "is_digits (take ?n (digits s))" using assms by (simp_all add: repr_def)
  then have "V = 10 * num_of (take (?n - 1) (digits s)) + (digits s ! (?n - 1) - 48)" "48 \<le> digits s ! (?n - 1)"
    unfolding t by simp_all
  then show ?thesis by presburger
qed

lemma append_zero:
  assumes "repr s V F" "num_digits s < length (digits s)"
  shows "repr (s\<lparr>digits := (digits s)[num_digits s := 48], num_digits := num_digits s + 1\<rparr>) (10 * V) (Suc F)"
proof -
  let ?n = "num_digits s"
  have "take (Suc ?n) ((digits s)[?n := 48]) = take ?n (digits s) @ [48]"
    using assms(2) by (simp add: take_Suc_conv_app_nth)
  moreover have "10 ^ ?n \<le> 10 * V" using assms(1) by (cases ?n) (auto simp: repr_def)
  ultimately show ?thesis using assms by (auto simp: repr_def)
qed

text \<open>Halving an even numeral, two digits at a time when the first is one.\<close>

lemma halve_even:
  assumes r: "repr s V F" and ev: "even V"
  defines "small \<equiv> digits s ! 0 < 50"
  defines "t \<equiv> (if small then s\<lparr>num_digits := num_digits s - 1, decimal_point := decimal_point s - 1\<rparr> else s)"
  shows "\<exists>ds. div_loop (digits t) 0 (num_digits t) (if small then 1 else 0) (if small then digits s ! 0 - 48 else 0) = Some ds \<and>
    repr (t\<lparr>digits := ds\<rparr>) (V div 2) F \<and> length ds = length (digits s)"
proof -
  let ?n = "num_digits s" and ?ds = "digits s"
  have n: "0 < ?n" "?n \<le> length ?ds" and dg: "is_digits (take ?n ?ds)" and V: "num_of (take ?n ?ds) = V"
    and lead: "10 ^ (?n - 1) \<le> V" and F: "int ?n - decimal_point s = int F"
    using r by (simp_all add: repr_def)
  have one: "49 \<le> ?ds ! 0" using repr_hd(2)[OF r, of 1] lead by simp
  show ?thesis
  proof (cases small)
    case True
    then have h: "?ds ! 0 = 49" using one by (simp add: small_def)
    have tk: "take ?n ?ds = 49 # take (?n - 1) (drop 1 ?ds)"
      using n h by (cases ?ds; cases ?n) simp_all
    have len: "length (take (?n - 1) (drop 1 ?ds)) = ?n - 1" using n by simp
    have Ve: "V = 10 ^ (?n - 1) + num_of (take (?n - 1) (drop 1 ?ds))"
      unfolding V[symmetric] tk num_of_Cons len by simp
    have "?n \<noteq> 1" using Ve ev by (cases "?n = 1") simp_all
    then have n2: "?n = Suc (Suc (?n - 2))" using n(1) by simp
    have "10 ^ (?n - 2) \<le> V div 2"
    proof -
      have "2 * 10 ^ (?n - 2) \<le> (10 :: nat) ^ (?n - 1)" by (subst (2) n2) simp
      then show ?thesis using lead by linarith
    qed
    moreover obtain ds where "div_loop ?ds 0 (?n - 1) 1 1 = Some ds" "length ds = length ?ds" "is_digits (take (?n - 1) ds)"
        "num_of (take (?n - 1) ds) = V div 2"
      using div_loop_correct[of 0 "?n - 1" 1 ?ds 1] n dg Ve unfolding tk by auto
    ultimately show ?thesis using True h n n2 F
      by (intro exI[of _ ds]) (simp add: t_def repr_def numeral_2_eq_2)
  next
    case False
    then have "2 * 10 ^ (?n - 1) \<le> V" using repr_hd(2)[OF r, of 2] by (simp add: small_def)
    then have "10 ^ (?n - 1) \<le> V div 2" by linarith
    moreover obtain ds where "div_loop ?ds 0 ?n 0 0 = Some ds" "length ds = length ?ds" "is_digits (take ?n ds)"
        "num_of (take ?n ds) = V div 2"
      using div_loop_correct[of 0 ?n 0 ?ds 0] n dg V by auto
    ultimately show ?thesis using False n F by (intro exI[of _ ds]) (simp add: t_def repr_def)
  qed
qed

lemma div2_correct:
  assumes r: "repr s V F" and room: "num_digits s < length (digits s)"
  shows "\<exists>s'. div2 s = Some s' \<and> (if odd V then repr s' (5 * V) (Suc F) else repr s' (V div 2) F) \<and>
    length (digits s') = length (digits s) \<and> fs_flags s' = fs_flags s"
proof -
  define s1 where "s1 = (if odd V then s\<lparr>digits := (digits s)[num_digits s := 48], num_digits := num_digits s + 1\<rparr> else s)"
  define W G where "W = (if odd V then 10 * V else V)" and "G = (if odd V then Suc F else F)"
  have r1: "repr s1 W G" using r append_zero[OF r room] by (simp add: s1_def W_def G_def)
  have ev: "even W" by (simp add: W_def)
  define small where "small = (digits s1 ! 0 < 50)"
  define t where "t = (if small then s1\<lparr>num_digits := num_digits s1 - 1, decimal_point := decimal_point s1 - 1\<rparr> else s1)"
  obtain ds where l: "div_loop (digits t) 0 (num_digits t) (if small then 1 else 0) (if small then digits s1 ! 0 - 48 else 0) = Some ds"
      "repr (t\<lparr>digits := ds\<rparr>) (W div 2) G" "length ds = length (digits s1)"
    using halve_even[OF r1 ev] unfolding small_def[symmetric] t_def[symmetric] by blast
  have n: "0 < num_digits s" using r by (simp add: repr_def)
  have step: "(if digits s ! (num_digits s - 1) mod 2 \<noteq> 0 then do {
             assert_opt (num_digits s < length (digits s));
             Some (s\<lparr>digits := (digits s)[num_digits s := 48], num_digits := num_digits s + 1\<rparr>) }
           else Some s) = Some s1"
    using room last_digit_parity[OF r] by (simp add: s1_def)
  have "div2 s = do {
      ds \<leftarrow> div_loop (digits t) 0 (num_digits t) (if small then 1 else 0) (if small then digits s1 ! 0 - 48 else 0);
      Some (t\<lparr>digits := ds\<rparr>) }"
    unfolding div2_def step t_def small_def using n by (simp only: Let_def bind.bind_lunit assert_opt_simps)
  then have "div2 s = Some (t\<lparr>digits := ds\<rparr>)" unfolding l(1) by simp
  moreover have "fs_flags t = fs_flags s" "length ds = length (digits s)"
    using l(3) by (simp_all add: t_def s1_def)
  ultimately show ?thesis using l(2) by (auto simp: W_def G_def)
qed

lemma div2_repeat:
  "repr s V F \<Longrightarrow> V * 5 ^ e < 10 ^ (length (digits s) - 1) \<Longrightarrow>
   \<exists>s' V' F'. repeat_opt e div2 s = Some s' \<and> repr s' V' F' \<and> V' \<le> V * 5 ^ e \<and> length (digits s') = length (digits s) \<and>
     fs_flags s' = fs_flags s \<and> real V' / 10 ^ F' = real V / 10 ^ F / 2 ^ e"
proof (induction e arbitrary: s V F)
  case (Suc e)
  have "V * 1 \<le> V * 5 ^ Suc e" by (intro mult_le_mono2) simp
  then have "V < 10 ^ (length (digits s) - 1)" using Suc.prems(2) by linarith
  then have "num_digits s \<le> length (digits s) - 1" by (rule repr_num_digits[OF Suc.prems(1)])
  moreover have "0 < length (digits s)" using Suc.prems(1) by (auto simp: repr_def)
  ultimately have "num_digits s < length (digits s)" by linarith
  from div2_correct[OF Suc.prems(1) this] obtain s1 V1 F1 where s1: "div2 s = Some s1" "repr s1 V1 F1"
      "length (digits s1) = length (digits s)" "fs_flags s1 = fs_flags s"
      and V1: "V1 = (if odd V then 5 * V else V div 2)" and F1: "F1 = (if odd V then Suc F else F)"
    by (metis (full_types))
  have le: "V1 \<le> 5 * V" unfolding V1 using div_le_dividend[of V 2] by (auto split: if_split)
  then have "V1 * 5 ^ e \<le> 5 * V * 5 ^ e" by (rule mult_le_mono1)
  also have "\<dots> = V * 5 ^ Suc e" by simp
  finally have le5: "V1 * 5 ^ e \<le> V * 5 ^ Suc e" .
  then have "V1 * 5 ^ e < 10 ^ (length (digits s1) - 1)" using Suc.prems(2) unfolding s1(3) by (rule le_less_trans)
  from Suc.IH[OF s1(2) this] obtain s2 V2 F2 where s2: "repeat_opt e div2 s1 = Some s2" "repr s2 V2 F2"
      "V2 \<le> V1 * 5 ^ e" "length (digits s2) = length (digits s1)" "fs_flags s2 = fs_flags s1"
      "real V2 / 10 ^ F2 = real V1 / 10 ^ F1 / 2 ^ e" by blast
  have "real V1 / 10 ^ F1 = real V / 10 ^ F / 2"
    by (cases "odd V") (auto simp: V1 F1 elim!: evenE)
  then have "real V2 / 10 ^ F2 = real V / 10 ^ F / 2 ^ Suc e" using s2(6) by simp
  moreover have "V2 \<le> V * 5 ^ Suc e" using s2(3) le5 by (rule le_trans)
  moreover have "repeat_opt (Suc e) div2 s = Some s2" using s1(1) s2(1) by simp
  ultimately show ?case using s1(3,4) s2 by metis
qed auto

section \<open>Normalisation\<close>

lemma top_bits: "k \<le> 64 \<Longrightarrow> f AND push_bit (64 - k) (mask k) = 0 \<longleftrightarrow> unat f < 2 ^ (64 - k)" for f :: u64
proof -
  assume k: "k \<le> 64"
  have "f AND push_bit (64 - k) (mask k) = push_bit (64 - k) (drop_bit (64 - k) f)"
    using k by (intro bit_word_eqI) (auto simp: bit_simps)
  also have "\<dots> = 0 \<longleftrightarrow> drop_bit (64 - k) f = 0"
  proof
    assume z: "push_bit (64 - k) (drop_bit (64 - k) f) = 0"
    show "drop_bit (64 - k) f = 0"
    proof (rule bit_word_eqI)
      fix n :: nat assume "n < LENGTH(64)"
      show "bit (drop_bit (64 - k) f) n = bit (0 :: u64) n"
        using arg_cong[OF z, of "\<lambda>w. bit w (64 - k + n)"] by (auto simp: bit_simps dest: bit_imp_le_length)
    qed
  qed simp
  also have "\<dots> \<longleftrightarrow> unat f div 2 ^ (64 - k) = 0"
    by (metis drop_bit_eq_div unat_eq_0 unsigned_drop_bit_eq take_bit_word_eq_self unat_drop_bit_eq)
  finally show ?thesis by (simp add: div_eq_0_iff)
qed

definition shifted :: "CustomFP \<Rightarrow> nat \<Rightarrow> CustomFP" where
  "shifted x k = x\<lparr>fp_f := push_bit k (fp_f x), fp_e := fp_e x - int k\<rparr>"

lemma shifted_simps: "shifted x 0 = x" "shifted (shifted x j) k = shifted x (j + k)"
  by (simp_all add: shifted_def push_bit_push_bit add.commute)

lemma unat_shifted:
  assumes "unat (fp_f x) < 2 ^ (64 - k)" "k \<le> 64"
  shows "unat (fp_f (shifted x k)) = unat (fp_f x) * 2 ^ k"
proof -
  have "unat (fp_f x) * 2 ^ k < 2 ^ (64 - k) * 2 ^ k" using assms(1) by simp
  also have "\<dots> = 2 ^ 64" using assms(2) by (simp flip: power_add)
  finally have "unat (fp_f x) * 2 ^ k < 2 ^ 64" .
  moreover have "unat (fp_f (shifted x k)) = take_bit 64 (push_bit k (unat (fp_f x)))"
    unfolding shifted_def by (simp add: unsigned_push_bit_eq)
  ultimately show ?thesis by (simp add: take_bit_eq_mod push_bit_eq_mult)
qed

text \<open>A loop that shifts by \<open>k\<close> while the top \<open>k\<close> bits are zero ends with one of them set.\<close>

lemma norm_loop:
  assumes loop: "\<And>x. L x = (if fp_f x AND push_bit (64 - k) (mask k) = 0 then L (shifted x k) else Some x)"
    and k: "0 < k" "k \<le> 64"
  shows "2 ^ 63 \<le> unat (fp_f x) * 2 ^ n \<Longrightarrow>
    \<exists>j \<le> n. L x = Some (shifted x j) \<and> unat (fp_f (shifted x j)) = unat (fp_f x) * 2 ^ j \<and>
      2 ^ (64 - k) \<le> unat (fp_f (shifted x j))"
proof (induction n arbitrary: x rule: less_induct)
  case (less n)
  show ?case
  proof (cases "unat (fp_f x) < 2 ^ (64 - k)")
    case True
    have "(2 :: nat) ^ 63 < 2 ^ (64 - k + n)"
      using less.prems True by (metis (no_types) le_less_trans mult_less_mono1 power_add zero_less_numeral zero_less_power)
    then have "63 < 64 - k + n" by (rule power_less_imp_less_exp[rotated]) simp
    then have kn: "k \<le> n" using k by simp
    have e: "unat (fp_f (shifted x k)) = unat (fp_f x) * 2 ^ k" by (rule unat_shifted[OF True k(2)])
    have "unat (fp_f (shifted x k)) * 2 ^ (n - k) = unat (fp_f x) * 2 ^ n"
      unfolding e mult.assoc power_add[symmetric] using kn by simp
    then obtain j where "j \<le> n - k" "L (shifted x k) = Some (shifted (shifted x k) j)"
        "unat (fp_f (shifted (shifted x k) j)) = unat (fp_f (shifted x k)) * 2 ^ j"
        "2 ^ (64 - k) \<le> unat (fp_f (shifted (shifted x k) j))"
      using less.IH[of "n - k" "shifted x k"] less.prems k(1) kn by auto
    then show ?thesis using loop[of x] top_bits[OF k(2), of "fp_f x"] True kn
      by (intro exI[of _ "k + j"]) (simp add: shifted_simps e power_add)
  next
    case False
    then show ?thesis using loop[of x] top_bits[OF k(2), of "fp_f x"]
      by (intro exI[of _ 0]) (simp add: shifted_simps)
  qed
qed

lemma custom_fp_norm_correct:
  assumes "fp_f x \<noteq> 0"
  shows "\<exists>j \<le> 126. custom_fp_norm x = Some (shifted x j) \<and> unat (fp_f (shifted x j)) = unat (fp_f x) * 2 ^ j"
proof -
  have "unat (fp_f x) \<noteq> 0" using assms by (simp add: unat_eq_0)
  then have "2 ^ 63 \<le> unat (fp_f x) * 2 ^ 63" by (cases "unat (fp_f x)") simp_all
  moreover have "norm_bytes y = (if fp_f y AND push_bit (64 - 8) (mask 8) = 0 then norm_bytes (shifted y 8) else Some y)" for y
    by (subst norm_bytes.simps) (simp add: shifted_def mask_eq_exp_minus_1)
  ultimately obtain i where i: "i \<le> 63" "norm_bytes x = Some (shifted x i)"
      "unat (fp_f (shifted x i)) = unat (fp_f x) * 2 ^ i" "2 ^ 56 \<le> unat (fp_f (shifted x i))"
    using norm_loop[of norm_bytes 8 x 63] by auto
  have "unat (fp_f (shifted x i)) \<noteq> 0" using i(4) by (intro notI) simp
  then have "2 ^ 63 \<le> unat (fp_f (shifted x i)) * 2 ^ 63" by (cases "unat (fp_f (shifted x i))") simp_all
  moreover have "norm_bits y = (if fp_f y AND push_bit (64 - 1) (mask 1) = 0 then norm_bits (shifted y 1) else Some y)" for y
    by (subst norm_bits.simps) (simp add: shifted_def mask_eq_exp_minus_1)
  ultimately obtain j where "j \<le> 63" "norm_bits (shifted x i) = Some (shifted (shifted x i) j)"
      "unat (fp_f (shifted (shifted x i) j)) = unat (fp_f (shifted x i)) * 2 ^ j"
    using norm_loop[of norm_bits 1 "shifted x i" 63] by auto
  then show ?thesis using i by (intro exI[of _ "i + j"]) (simp add: custom_fp_norm_def shifted_simps power_add)
qed

section \<open>Digits of the significand\<close>

declare itoa_loop.simps [simp del]

lemma itoa_loop_correct:
  "v < 10 ^ (32 - length buf) \<Longrightarrow> length buf < 32 \<Longrightarrow>
   \<exists>ds. itoa_loop v buf = Some (buf @ ds) \<and> is_digits ds \<and> num_of (rev ds) = v \<and> ds \<noteq> [] \<and>
     (v \<noteq> 0 \<longrightarrow> 10 ^ (length ds - 1) \<le> v)"
proof (induction v buf rule: itoa_loop.induct)
  case (1 v buf)
  show ?case
  proof (cases "v div 10 > 0")
    case False
    then show ?thesis using 1(3) by (subst itoa_loop.simps) (auto simp: PRINT_MAX_NUM_DIGITS_def num_of_Cons)
  next
    case True
    have "length buf \<noteq> 31"
    proof
      assume "length buf = 31"
      then show False using 1(2) True by simp
    qed
    then have len: "length buf < 31" using 1(3) by simp
    then have "Suc (31 - length buf) = 32 - length buf" by simp
    then have "(10 :: nat) * 10 ^ (31 - length buf) = 10 ^ (32 - length buf)" by (metis power_Suc)
    then have "v div 10 < 10 ^ (32 - length (buf @ [48 + v mod 10]))" using 1(2) by simp
    then obtain ds where ds: "itoa_loop (v div 10) (buf @ [48 + v mod 10]) = Some ((buf @ [48 + v mod 10]) @ ds)"
        "is_digits ds" "num_of (rev ds) = v div 10" "ds \<noteq> []" "10 ^ (length ds - 1) \<le> v div 10"
      using 1(1)[of "()"] len True by (auto simp: PRINT_MAX_NUM_DIGITS_def)
    have "10 ^ length ds \<le> v" using ds(4,5) by (cases "length ds") auto
    then show ?thesis using ds True 1(3)
      by (subst itoa_loop.simps) (auto simp: PRINT_MAX_NUM_DIGITS_def intro!: exI[of _ "(48 + v mod 10) # ds"])
  qed
qed

lemma copy_digits_correct:
  "num_digits s + length cs \<le> length (digits s) \<Longrightarrow>
   \<exists>s'. copy_digits s cs = Some s' \<and> num_digits s' = num_digits s + length cs \<and> length (digits s') = length (digits s) \<and>
     take (num_digits s') (digits s') = take (num_digits s) (digits s) @ cs \<and> decimal_point s' = decimal_point s \<and>
     fs_flags s' = fs_flags s"
proof (induction cs arbitrary: s)
  case (Cons c cs)
  let ?s = "s\<lparr>digits := (digits s)[num_digits s := c], num_digits := num_digits s + 1\<rparr>"
  obtain s' where "copy_digits ?s cs = Some s'" "num_digits s' = num_digits ?s + length cs" "length (digits s') = length (digits ?s)"
     "take (num_digits s') (digits s') = take (num_digits ?s) (digits ?s) @ cs" "decimal_point s' = decimal_point ?s"
     "fs_flags s' = fs_flags ?s"
    using Cons.IH[of ?s] Cons.prems by auto
  then show ?case using Cons.prems by (auto simp: take_Suc_conv_app_nth)
qed simp

section \<open>The value of a double\<close>

definition f64_exp :: "u64 \<Rightarrow> nat" where
  "f64_exp b = unat (drop_bit 52 (b AND F64_EXP_MASK))"

definition f64_frac :: "u64 \<Rightarrow> nat" where
  "f64_frac b = unat (b AND F64_FRAC_MASK)"

definition f64_value :: "u64 \<Rightarrow> real" where
  "f64_value b = (if bit b 63 then -1 else 1) *
     (if f64_exp b = 0 then real (f64_frac b) / 2 ^ 1074
      else (2 ^ 52 + real (f64_frac b)) * 2 ^ f64_exp b / 2 ^ 1075)"

text \<open>The number a string denotes.\<close>

definition str_value :: "F64String \<Rightarrow> real" where
  "str_value s = (if fs_flags s AND F64_STRING_IS_NEG \<noteq> 0 then -1 else 1) *
     real (num_of (take (num_digits s) (digits s))) / 10 ^ nat (int (num_digits s) - decimal_point s)"

lemma repr_value: "repr s V F \<Longrightarrow> str_value s = (if fs_flags s AND F64_STRING_IS_NEG \<noteq> 0 then -1 else 1) * real V / 10 ^ F"
  by (simp add: repr_def str_value_def)

lemma f64_masks: "F64_EXP_MASK = push_bit 52 (mask 11)" "F64_FRAC_MASK = mask 52"
  by (simp_all add: F64_EXP_MASK_def F64_FRAC_MASK_def mask_eq_exp_minus_1)

lemma bit_sign_mask [simp]: "bit F64_SIGN_MASK n \<longleftrightarrow> n = 63"
proof -
  have "F64_SIGN_MASK = 2 ^ 63" by (simp add: F64_SIGN_MASK_def)
  then show ?thesis unfolding \<open>F64_SIGN_MASK = 2 ^ 63\<close> bit_exp_iff by auto
qed

definition f64_abs :: "u64 \<Rightarrow> u64" where
  "f64_abs b = (if bit b 63 then b XOR F64_SIGN_MASK else b)"

lemma f64_abs_fields: "f64_abs b AND F64_EXP_MASK = b AND F64_EXP_MASK" "f64_abs b AND F64_FRAC_MASK = b AND F64_FRAC_MASK"
  unfolding f64_abs_def f64_masks by (auto intro!: bit_word_eqI simp: bit_simps)

lemma f64_frac_less: "f64_frac b < 2 ^ 52"
  unfolding f64_frac_def f64_masks by (simp add: unat_and_mask)

lemma f64_exp_less: "f64_exp b < 2 ^ 11"
proof -
  have "drop_bit 52 (b AND F64_EXP_MASK) = drop_bit 52 b AND mask 11"
    unfolding f64_masks by (rule bit_word_eqI) (auto simp: bit_simps)
  then show ?thesis by (simp add: f64_exp_def unat_and_mask)
qed

lemma f64_exp_0: "b AND F64_EXP_MASK = 0 \<longleftrightarrow> f64_exp b = 0"
proof
  assume "f64_exp b = 0"
  then have z: "drop_bit 52 (b AND F64_EXP_MASK) = 0" by (simp add: f64_exp_def unat_eq_0)
  show "b AND F64_EXP_MASK = 0"
  proof (rule bit_word_eqI)
    fix n :: nat
    show "bit (b AND F64_EXP_MASK) n = bit (0 :: u64) n"
    proof (cases "52 \<le> n")
      case True
      then show ?thesis using arg_cong[OF z, of "\<lambda>w. bit w (n - 52)"] by (simp add: bit_simps)
    qed (simp add: f64_masks bit_simps)
  qed
qed (simp add: f64_exp_def)

lemma f64_abs_0: "f64_abs b = 0 \<longleftrightarrow> f64_exp b = 0 \<and> f64_frac b = 0"
proof
  assume "f64_exp b = 0 \<and> f64_frac b = 0"
  then have z: "f64_abs b AND F64_EXP_MASK = 0" "f64_abs b AND F64_FRAC_MASK = 0"
    using f64_exp_0[of b] by (simp_all add: f64_abs_fields f64_frac_def unat_eq_0)
  show "f64_abs b = 0"
  proof (rule bit_word_eqI)
    fix n :: nat assume n: "n < LENGTH(64)"
    consider "n < 52" | "52 \<le> n" "n < 63" | "n = 63" using n by force
    then show "bit (f64_abs b) n = bit (0 :: u64) n"
    proof cases
      case 1
      then show ?thesis using arg_cong[OF z(2), of "\<lambda>w. bit w n"] by (simp add: f64_masks bit_simps)
    next
      case 2
      then show ?thesis using arg_cong[OF z(1), of "\<lambda>w. bit w n"] by (auto simp: f64_masks bit_simps)
    next
      case 3
      then show ?thesis by (simp add: f64_abs_def f64_masks bit_simps)
    qed
  qed
next
  assume "f64_abs b = 0"
  then show "f64_exp b = 0 \<and> f64_frac b = 0"
    using f64_abs_fields[of b] f64_exp_0[of b] by (simp add: f64_frac_def)
qed

lemma custom_fp_value:
  "fp_f (custom_fp_from_f64 (f64_abs b)) = 0 \<longleftrightarrow> f64_abs b = 0"
  "- 1074 \<le> fp_e (custom_fp_from_f64 (f64_abs b))" "fp_e (custom_fp_from_f64 (f64_abs b)) \<le> 972"
  "f64_value b = (if bit b 63 then -1 else 1) *
     (real (unat (fp_f (custom_fp_from_f64 (f64_abs b)))) * 2 powi fp_e (custom_fp_from_f64 (f64_abs b)))"
proof -
  let ?fp = "custom_fp_from_f64 (f64_abs b)"
  have e: "uint (drop_bit F64_EXP_POS (b AND F64_EXP_MASK)) = int (f64_exp b)"
    by (simp add: f64_exp_def F64_EXP_POS_def)
  have "unat (0x0010000000000000 + (b AND F64_FRAC_MASK)) = 2 ^ 52 + f64_frac b"
    using f64_frac_less[of b] by (simp add: unat_word_ariths f64_frac_def)
  then have fp: "unat (fp_f ?fp) = (if f64_exp b = 0 then f64_frac b else 2 ^ 52 + f64_frac b)"
    "fp_e ?fp = (if f64_exp b = 0 then - 1074 else int (f64_exp b) - 1075)"
    unfolding custom_fp_from_f64_def f64_abs_fields f64_exp_0 e by (simp_all add: f64_frac_def)
  show "fp_f ?fp = 0 \<longleftrightarrow> f64_abs b = 0" using fp(1) f64_abs_0[of b] unat_eq_0[of "fp_f ?fp"] by (auto split: if_splits)
  show "- 1074 \<le> fp_e ?fp" "fp_e ?fp \<le> 972" using fp(2) f64_exp_less[of b] by auto
  show "f64_value b = (if bit b 63 then -1 else 1) * (real (unat (fp_f ?fp)) * 2 powi fp_e ?fp)"
  proof (cases "f64_exp b = 0")
    case True
    then show ?thesis by (simp add: f64_value_def fp power_int_minus field_simps)
  next
    case False
    have "(2 :: real) powi (int (f64_exp b) - 1075) = 2 ^ f64_exp b / 2 ^ 1075"
      by (simp add: power_int_diff)
    then show ?thesis using False by (simp add: f64_value_def fp)
  qed
qed

lemma powi_split: "(2 :: real) ^ nat k / 2 ^ nat (- k) = 2 powi k"
  by (simp add: power_int_def power_inverse field_simps)

text \<open>The largest double and the smallest have numerals well below 1024 digits.\<close>

lemma pow_bounds: "2 ^ 64 * 2 ^ 972 < (10 :: nat) ^ 1023" "2 ^ 64 * 5 ^ 1200 < (10 :: nat) ^ 1023"
proof -
  have "(2 :: nat) ^ 64 * 2 ^ 972 = 2 ^ 1036" by (simp only: power_add[symmetric]) simp
  also have "\<dots> < 2 ^ (3 * 1023)" by (rule power_strict_increasing) simp_all
  also have "\<dots> = (2 ^ 3) ^ 1023" by (rule power_mult)
  also have "\<dots> \<le> (10 :: nat) ^ 1023" by (rule power_mono) simp_all
  finally show "2 ^ 64 * 2 ^ 972 < (10 :: nat) ^ 1023" .
  have "(5 :: nat) ^ (10 * 120) = (5 ^ 10) ^ 120" by (rule power_mult)
  also have "\<dots> \<le> (10 ^ 7) ^ 120" by (rule power_mono) simp_all
  also have "\<dots> = (10 :: nat) ^ (7 * 120)" by (rule power_mult[symmetric])
  finally have "(5 :: nat) ^ (10 * 120) \<le> 10 ^ (7 * 120)" .
  moreover have "10 * 120 = (1200 :: nat)" "7 * 120 = (840 :: nat)" by simp_all
  ultimately have "(5 :: nat) ^ 1200 \<le> 10 ^ 840" by (simp only:)
  moreover have "(2 :: nat) ^ 64 \<le> 10 ^ 20" by simp
  ultimately have "(2 :: nat) ^ 64 * 5 ^ 1200 \<le> 10 ^ 20 * 10 ^ 840" by (intro mult_le_mono)
  also have "\<dots> = 10 ^ (20 + 840)" by (rule power_add[symmetric])
  also have "\<dots> < (10 :: nat) ^ 1023" by (rule power_strict_increasing) simp_all
  finally show "2 ^ 64 * 5 ^ 1200 < (10 :: nat) ^ 1023" .
qed

text \<open>
  C30. For every finite double the conversion returns, within the array of 1024 characters, and the digits
  denote exactly the number the bits denote: nothing is rounded.
\<close>

theorem f64_to_str_exact:
  assumes len: "length (digits s) = 1024" and fin: "f64_exp b \<noteq> 0x7FF"
  shows "\<exists>s'. f64_to_str s b = Some s' \<and> str_value s' = f64_value b \<and> num_digits s' < 1024 \<and>
     length (digits s') = 1024 \<and> is_digits (take (num_digits s') (digits s')) \<and> decimal_point s' \<le> int (num_digits s')"
proof -
  let ?fp = "custom_fp_from_f64 (f64_abs b)"
  define dst where "dst = s\<lparr>num_digits := 0, decimal_point := 0, fs_flags := (if bit b 63 then F64_STRING_IS_NEG else 0)\<rparr>"
  have sign: "(if fs_flags dst AND F64_STRING_IS_NEG \<noteq> 0 then -1 else 1) = (if bit b 63 then -1 else 1 :: real)"
    by (simp add: dst_def F64_STRING_IS_NEG_def)
  have ld: "length (digits dst) = 1024" and n0: "num_digits dst = 0" and d0: "decimal_point dst = 0"
    using len by (simp_all add: dst_def)
  have ne: "digits dst \<noteq> []" using ld by auto
  have ex: "drop_bit F64_EXP_POS (f64_abs b AND F64_EXP_MASK) \<noteq> 0x7FF"
    using fin by (auto simp: f64_abs_fields f64_exp_def F64_EXP_POS_def)
  show ?thesis
  proof (cases "f64_abs b = 0")
    case True
    have "fp_f ?fp = 0" using custom_fp_value(1)[of b] True by blast
    then have v: "f64_value b = 0" using custom_fp_value(4)[of b] by simp
    have r: "f64_to_str s b = Some (dst\<lparr>num_digits := 1, decimal_point := 1, digits := (digits dst)[0 := 48]\<rparr>)"
      using True ne unfolding f64_to_str_def f64_abs_def[symmetric] dst_def[symmetric]
      by (simp add: put_digit_def Let_def)
    have t: "take 1 ((digits dst)[0 := 48]) = [48]" using ld by (cases "digits dst") simp_all
    show ?thesis unfolding r using t v ld by (simp add: str_value_def num_of_Cons)
  next
    case False
    then have f0: "fp_f ?fp \<noteq> 0" using custom_fp_value(1) by simp
    from custom_fp_norm_correct[OF f0] obtain j where j: "j \<le> 126" "custom_fp_norm ?fp = Some (shifted ?fp j)"
        "unat (fp_f (shifted ?fp j)) = unat (fp_f ?fp) * 2 ^ j" by blast
    define f e where "f = unat (fp_f (shifted ?fp j))" and "e = fp_e (shifted ?fp j)"
    have e: "e = fp_e ?fp - int j" by (simp add: e_def shifted_def)
    have "f \<noteq> 0" using f0 j(3) by (simp add: f_def unat_eq_0)
    have f: "f < 2 ^ 64" unfolding f_def by (rule less_le_trans[OF unsigned_less]) simp
    then have "f < 10 ^ 32" by (rule less_le_trans) simp
    then obtain buf where buf: "itoa_loop f [] = Some buf" "is_digits buf" "num_of (rev buf) = f" "buf \<noteq> []"
        "10 ^ (length buf - 1) \<le> f"
      using itoa_loop_correct[of f "[]"] \<open>f \<noteq> 0\<close> by auto
    have "(10 :: nat) ^ (length buf - 1) < 10 ^ 32" using buf(5) \<open>f < 10 ^ 32\<close> by (rule le_less_trans)
    then have "length buf - 1 < 32" by (rule power_less_imp_less_exp[rotated]) simp
    then have lb: "length buf \<le> 32" by linarith
    then obtain s1 where s1: "copy_digits dst (rev buf) = Some s1" "num_digits s1 = length buf"
        "length (digits s1) = 1024" "take (length buf) (digits s1) = rev buf" "decimal_point s1 = 0" "fs_flags s1 = fs_flags dst"
      using copy_digits_correct[of dst "rev buf"] ld n0 d0 by auto
    have "is_digits (rev buf)" using buf(2) by (simp add: is_digits_def)
    then have r1: "repr s1 f (length buf)" using s1 buf \<open>length buf - 1 < 32\<close> by (simp add: repr_def)
    have bound: "f * 2 ^ nat e < 10 ^ 1023 \<and> f * 2 ^ nat e * 5 ^ nat (- e) < 10 ^ 1023"
    proof (cases "0 \<le> e")
      case True
      have "nat e \<le> 972" using e custom_fp_value(3)[of b] by simp
      then have "(2 :: nat) ^ nat e \<le> 2 ^ 972" by (rule power_increasing) simp
      with less_imp_le[OF f] have "f * 2 ^ nat e \<le> 2 ^ 64 * 2 ^ 972" by (rule mult_le_mono)
      also have "\<dots> < (10 :: nat) ^ 1023" by (rule pow_bounds)
      finally have "f * 2 ^ nat e < 10 ^ 1023" .
      moreover have "nat (- e) = 0" using True by simp
      ultimately show ?thesis by (simp only: power_0 mult_1_right simp_thms)
    next
      case neg: False
      have "nat (- e) \<le> 1200" using e custom_fp_value(2)[of b] j(1) by simp
      then have "(5 :: nat) ^ nat (- e) \<le> 5 ^ 1200" by (rule power_increasing) simp
      with less_imp_le[OF f] have "f * 5 ^ nat (- e) \<le> 2 ^ 64 * 5 ^ 1200" by (rule mult_le_mono)
      also have "\<dots> < (10 :: nat) ^ 1023" by (rule pow_bounds)
      finally have b: "f * 5 ^ nat (- e) < 10 ^ 1023" .
      have "nat e = 0" using neg by simp
      moreover have "f * 1 \<le> f * 5 ^ nat (- e)" by (intro mult_le_mono2) simp
      then have "f < 10 ^ 1023" using b unfolding mult_1_right by (rule le_less_trans)
      ultimately show ?thesis using b by (simp only: power_0 mult_1_right simp_thms)
    qed
    have len1: "length (digits s1) - 1 = 1023" using s1(3) by simp
    from mul2_repeat[OF r1 s1(5), unfolded len1, OF bound[THEN conjunct1]]
    obtain s2 F2 where s2: "repeat_opt (nat e) mul2 s1 = Some s2" "repr s2 (f * 2 ^ nat e) F2"
        "length (digits s2) = 1024" "fs_flags s2 = fs_flags dst"
      unfolding s1(3,6) by blast
    let ?s2 = "s2\<lparr>decimal_point := int (num_digits s2)\<rparr>"
    have r2: "repr ?s2 (f * 2 ^ nat e) 0" using s2(2) by (simp add: repr_def)
    have len2: "length (digits ?s2) - 1 = 1023" using s2(3) by simp
    from div2_repeat[OF r2, unfolded len2, OF bound[THEN conjunct2]]
    obtain s3 V F where s3: "repeat_opt (nat (- e)) div2 ?s2 = Some s3" "repr s3 V F"
        "V \<le> f * 2 ^ nat e * 5 ^ nat (- e)" "length (digits s3) = 1024" "fs_flags s3 = fs_flags dst"
        "real V / 10 ^ F = real (f * 2 ^ nat e) / 10 ^ 0 / 2 ^ nat (- e)"
      by (auto simp: s2(3,4))
    have "V < 10 ^ 1023" using s3(3) bound by (blast intro: le_less_trans)
    then have "num_digits s3 \<le> 1023" by (rule repr_num_digits[OF s3(2)])
    then have n3: "num_digits s3 < 1024" by linarith
    let ?s = "s3\<lparr>digits := (digits s3)[num_digits s3 := 0]\<rparr>"
    have "f64_to_str s b = Some ?s"
      using False ex j(2) buf(1) s1(1) s2(1) s3(1) n3 s3(4)
      unfolding f64_to_str_def f64_abs_def[symmetric] dst_def[symmetric] f_def e_def
      by (simp add: put_digit_def Let_def)
    moreover have "repr ?s V F" using s3(2,4) n3 by (simp add: repr_def)
    moreover have "real V / 10 ^ F = real (unat (fp_f ?fp)) * 2 powi fp_e ?fp"
    proof -
      have "real V / 10 ^ F = real f * (2 ^ nat e / 2 ^ nat (- e))" using s3(6) by simp
      also have "\<dots> = real (unat (fp_f ?fp)) * 2 ^ j * 2 powi (fp_e ?fp - int j)"
        unfolding powi_split e f_def j(3) by simp
      also have "\<dots> = real (unat (fp_f ?fp)) * 2 powi fp_e ?fp" by (simp add: power_int_diff)
      finally show ?thesis .
    qed
    ultimately show ?thesis
      using repr_value[of ?s V F] custom_fp_value(4)[of b] sign n3 s3(4,5) by (auto simp: repr_def)
  qed
qed

theorem f64_to_str_exact_witness:
  "\<exists>s'. f64_to_str \<lparr>digits = replicate 1024 0, num_digits = 0, decimal_point = 0, fs_flags = 0\<rparr> 0x3FB999999999999A = Some s' \<and>
     str_value s' = f64_value 0x3FB999999999999A \<and> num_digits s' < 1024 \<and>
     length (digits s') = 1024 \<and> is_digits (take (num_digits s') (digits s')) \<and> decimal_point s' \<le> int (num_digits s')"
  by (rule f64_to_str_exact) (simp_all add: f64_exp_def F64_EXP_MASK_def)

section \<open>Rounding\<close>

text \<open>The numeral without its last \<open>k\<close> digits, to nearest, ties to even.\<close>

definition round_even :: "nat \<Rightarrow> nat \<Rightarrow> nat" where
  "round_even V k = (let q = V div 10 ^ k; r = V mod 10 ^ k in if 10 ^ k < 2 * r \<or> 10 ^ k = 2 * r \<and> odd q then q + 1 else q)"

text \<open>As \<open>repr\<close>, but zero has a numeral too.\<close>

definition numeral_str :: "F64String \<Rightarrow> nat \<Rightarrow> nat \<Rightarrow> bool" where
  "numeral_str s V F \<longleftrightarrow> 0 < num_digits s \<and> num_digits s < length (digits s) \<and> is_digits (take (num_digits s) (digits s)) \<and>
     num_of (take (num_digits s) (digits s)) = V \<and> int (num_digits s) - decimal_point s = int F"

lemma nines_loop_correct:
  "i \<le> length ds \<Longrightarrow> is_digits (take i ds) \<Longrightarrow>
   (case nines_loop ds i of
      (ds', Suc j) \<Rightarrow> j < i \<and> is_digits (take i (ds'[j := ds' ! j + 1])) \<and>
        num_of (take i (ds'[j := ds' ! j + 1])) = num_of (take i ds) + 1
    | (ds', 0) \<Rightarrow> take i ds' = replicate i 48 \<and> num_of (take i ds) + 1 = 10 ^ i) \<and>
   length (fst (nines_loop ds i)) = length ds \<and> drop i (fst (nines_loop ds i)) = drop i ds"
proof (induction i arbitrary: ds)
  case (Suc i)
  have i: "i < length ds" using Suc.prems(1) by simp
  then have tk: "take (Suc i) ds = take i ds @ [ds ! i]" by (simp add: take_Suc_conv_app_nth)
  have d: "48 \<le> ds ! i" "ds ! i \<le> 57" "is_digits (take i ds)" using Suc.prems(2) unfolding tk by simp_all
  show ?case
  proof (cases "ds ! i = 57")
    case False
    have "take (Suc i) (ds[i := ds ! i + 1]) = take i ds @ [ds ! i + 1]" using i by (simp add: take_Suc_conv_app_nth)
    then show ?thesis using False d tk by (simp add: Suc_diff_le)
  next
    case True
    let ?ds = "ds[i := 48]"
    have t: "take i ?ds = take i ds" by simp
    have p: "i \<le> length ?ds" "is_digits (take i ?ds)" using i d(3) by simp_all
    obtain ds' k where r: "nines_loop ?ds i = (ds', k)" by fastforce
    note ih = Suc.IH[OF p, unfolded t r]
    have len: "length ds' = length ds" and dr: "drop i ds' = drop i ?ds" using ih by simp_all
    have "ds' ! i = drop i ds' ! 0" using i len by simp
    also have "\<dots> = 48" unfolding dr using i by simp
    finally have nth: "ds' ! i = 48" .
    have dr': "drop (Suc i) ds' = drop (Suc i) ds"
      using arg_cong[OF dr, of "drop 1"] by (simp add: drop_update_swap)
    have e: "num_of (take (Suc i) ds) = 10 * num_of (take i ds) + 9" unfolding tk using True by simp
    show ?thesis
    proof (cases k)
      case 0
      then show ?thesis using ih True r len dr' e nth i by (simp add: take_Suc_conv_app_nth replicate_append_same)
    next
      case (Suc j)
      then have j: "j < i" "is_digits (take i (ds'[j := ds' ! j + 1]))"
          "num_of (take i (ds'[j := ds' ! j + 1])) = num_of (take i ds) + 1" using ih by simp_all
      have "take (Suc i) (ds'[j := ds' ! j + 1]) = take i (ds'[j := ds' ! j + 1]) @ [48]"
        using i len nth j(1) by (simp add: take_Suc_conv_app_nth)
      then show ?thesis using Suc True r len dr' e j by simp
    qed
  qed
qed simp

lemma num_of_0: "is_digits cs \<Longrightarrow> num_of cs = 0 \<longleftrightarrow> \<not> (\<exists>i < length cs. cs ! i > 48)"
proof (induction cs rule: rev_induct)
  case (snoc c cs)
  then show ?case by (auto simp: nth_append less_Suc_eq)
qed simp

text \<open>The digit to round at against half a unit of the digit before it.\<close>

lemma rounds_up_correct:
  assumes s: "numeral_str s V F" and rd: "rd < num_digits s" and V: "k = num_digits s - rd" "0 < rd"
  shows "rounds_up s rd = Some (10 ^ k < 2 * (V mod 10 ^ k) \<or> 10 ^ k = 2 * (V mod 10 ^ k) \<and> odd (V div 10 ^ k))"
    and "V div 10 ^ k = num_of (take rd (digits s))"
proof -
  let ?n = "num_digits s" and ?ds = "digits s"
  define c q rest where "c = ?ds ! rd" and "q = num_of (take rd ?ds)" and "rest = take (k - 1) (drop (Suc rd) ?ds)"
  have n: "?n < length ?ds" and dg: "is_digits (take ?n ?ds)" and Vn: "num_of (take ?n ?ds) = V"
    using s by (simp_all add: numeral_str_def)
  have k: "k = Suc (k - 1)" "?n = rd + k" using rd V by simp_all
  have tk: "take ?n ?ds = take rd ?ds @ c # rest"
    unfolding k(2) take_add using k(1) rd n
    by (metis (no_types, lifting) Cons_nth_drop_Suc c_def less_trans rest_def take_Suc_Cons)
  have len: "length rest = k - 1" "length (take rd ?ds) = rd" using rd n V(1) by (simp_all add: rest_def)
  have c: "48 \<le> c" "c \<le> 57" and dr: "is_digits rest" and dq: "is_digits (take rd ?ds)" using dg unfolding tk by simp_all
  have rl: "num_of rest < 10 ^ (k - 1)" using num_of_less[OF dr] len by simp
  define r where "r = (c - 48) * 10 ^ (k - 1) + num_of rest"
  have pk: "(10 :: nat) ^ k = 10 * 10 ^ (k - 1)" by (subst k(1)) simp
  have "r < 10 ^ k"
  proof -
    have "(c - 48) * 10 ^ (k - 1) \<le> 9 * 10 ^ (k - 1)" using c by (intro mult_le_mono1) simp
    then show ?thesis unfolding r_def pk using rl by linarith
  qed
  moreover have Vqr: "V = q * 10 ^ k + r"
    unfolding Vn[symmetric] tk num_of_append num_of_Cons using len by (subst k(1)) (simp add: q_def r_def algebra_simps)
  ultimately have div: "V div 10 ^ k = q" and md: "V mod 10 ^ k = r" by simp_all
  show "V div 10 ^ k = num_of (take rd ?ds)" unfolding div q_def ..
  have par: "odd q \<longleftrightarrow> ?ds ! (rd - 1) mod 2 = 1"
  proof -
    have t: "take rd ?ds = take (rd - 1) ?ds @ [?ds ! (rd - 1)]"
      using V(2) rd n take_Suc_conv_app_nth[of "rd - 1" ?ds] by simp
    then have "48 \<le> ?ds ! (rd - 1)" "q = 10 * num_of (take (rd - 1) ?ds) + (?ds ! (rd - 1) - 48)"
      using dq by (simp_all add: q_def)
    then show ?thesis by presburger
  qed
  have nz: "f64str_has_nonzero_digit s rd \<longleftrightarrow> num_of rest \<noteq> 0"
  proof -
    have e: "?ds ! (rd + 1 + i) = rest ! i" "rest ! i \<le> 57" if "i < k - 1" for i
      using that n k(2) dr len(1) by (auto simp: rest_def is_digits_def list_all_length)
    have "f64str_has_nonzero_digit s rd \<longleftrightarrow> (\<exists>i. rd + 1 \<le> i \<and> i < ?n \<and> ?ds ! i > 48 \<and> ?ds ! i \<le> 57)"
      by (auto simp: f64str_has_nonzero_digit_def list_ex_iff)
    also have "\<dots> \<longleftrightarrow> (\<exists>i < k - 1. rest ! i > 48)"
    proof
      assume "\<exists>i. rd + 1 \<le> i \<and> i < ?n \<and> ?ds ! i > 48 \<and> ?ds ! i \<le> 57"
      then obtain i where i: "rd + 1 \<le> i" "i < ?n" "?ds ! i > 48" by blast
      then have "i - (rd + 1) < k - 1" "rd + 1 + (i - (rd + 1)) = i" using k(2) by linarith+
      then show "\<exists>i < k - 1. rest ! i > 48" using e(1)[of "i - (rd + 1)"] i(3) by auto
    next
      assume "\<exists>i < k - 1. rest ! i > 48"
      then obtain i where "i < k - 1" "rest ! i > 48" by blast
      then show "\<exists>i. rd + 1 \<le> i \<and> i < ?n \<and> ?ds ! i > 48 \<and> ?ds ! i \<le> 57"
        using e[of i] k(2) by (intro exI[of _ "rd + 1 + i"]) auto
    qed
    finally have "f64str_has_nonzero_digit s rd \<longleftrightarrow> (\<exists>i < k - 1. rest ! i > 48)" .
    then show ?thesis using num_of_0[OF dr] len(1) by auto
  qed
  have cmp: "c > 53 \<Longrightarrow> 10 ^ k < 2 * r" "c = 53 \<Longrightarrow> 10 ^ k \<le> 2 * r \<and> (10 ^ k = 2 * r \<longleftrightarrow> num_of rest = 0)"
    "c < 53 \<Longrightarrow> 2 * r < 10 ^ k"
  proof -
    have pos: "(0 :: nat) < 10 ^ (k - 1)" by simp
    show "10 ^ k < 2 * r" if "c > 53"
    proof -
      have "6 * 10 ^ (k - 1) \<le> (c - 48) * 10 ^ (k - 1)" using that by (intro mult_le_mono1) simp
      moreover have "6 * X \<le> Y \<Longrightarrow> 0 < X \<Longrightarrow> 10 * X < 2 * (Y + z)" for X Y z :: nat by presburger
      ultimately show ?thesis unfolding pk r_def using pos by blast
    qed
    show "10 ^ k \<le> 2 * r \<and> (10 ^ k = 2 * r \<longleftrightarrow> num_of rest = 0)" if "c = 53"
      unfolding pk r_def that by simp
    show "2 * r < 10 ^ k" if "c < 53"
    proof -
      have "(c - 48) * 10 ^ (k - 1) \<le> 4 * 10 ^ (k - 1)" using that by (intro mult_le_mono1) simp
      moreover have "Y \<le> 4 * X \<Longrightarrow> z < X \<Longrightarrow> 2 * (Y + z) < 10 * X" for X Y z :: nat by presburger
      ultimately show ?thesis unfolding pk r_def using rl by blast
    qed
  qed
  show "rounds_up s rd = Some (10 ^ k < 2 * (V mod 10 ^ k) \<or> 10 ^ k = 2 * (V mod 10 ^ k) \<and> odd (V div 10 ^ k))"
    unfolding rounds_up_def c_def[symmetric] par[symmetric] nz div md using cmp V(2)
    by (cases "c > 53"; cases "c = 53") auto
qed

lemma round_up_correct:
  assumes s: "numeral_str s V F" and rd: "0 < rd" "rd < num_digits s"
  shows "\<exists>s' n. round_up s rd = s' \<and> num_digits s' - (num_digits s - rd) = n \<and> num_digits s - rd \<le> num_digits s' \<and>
    0 < n \<and> is_digits (take n (digits s')) \<and> num_of (take n (digits s')) = num_of (take rd (digits s)) + 1 \<and>
    int n - decimal_point s' = int rd - decimal_point s \<and> length (digits s') = length (digits s) \<and> n \<le> num_digits s"
proof -
  let ?ds = "digits s" and ?n = "num_digits s"
  have n: "?n < length ?ds" and dg: "is_digits (take ?n ?ds)" using s by (simp_all add: numeral_str_def)
  have "take ?n ?ds = take rd ?ds @ take (?n - rd) (drop rd ?ds)" using rd by (metis le_add_diff_inverse less_imp_le take_add)
  then have dq: "is_digits (take rd ?ds)" using dg by simp
  obtain ds' j where r: "nines_loop ?ds rd = (ds', j)" by fastforce
  have "rd \<le> length ?ds" using rd n by simp
  note nl = nines_loop_correct[OF this dq, unfolded r]
  show ?thesis
  proof (cases j)
    case (Suc i)
    then show ?thesis using nl r rd by (auto simp: round_up_def)
  next
    case 0
    have t: "take rd ds' = replicate rd 48" and ov: "num_of (take rd ?ds) + 1 = 10 ^ rd" and len: "length ds' = length ?ds"
      using nl 0 by simp_all
    have "take (Suc rd) (ds'[0 := 49, rd := 48]) = (take rd ds')[0 := 49] @ [48]"
      using rd n len by (simp add: take_Suc_conv_app_nth take_update_swap list_update_append)
    also have "\<dots> = 49 # replicate rd 48"
      unfolding t using rd by (cases rd) (simp_all add: replicate_append_same)
    finally have tk: "take (Suc rd) (ds'[0 := 49, rd := 48]) = 49 # replicate rd 48" .
    have "num_of (replicate m 48) = 0" for m by (induction m) (simp_all add: num_of_Cons)
    then have "num_of (take (Suc rd) (ds'[0 := 49, rd := 48])) = 10 ^ rd" unfolding tk by (simp add: num_of_Cons)
    moreover have "is_digits (take (Suc rd) (ds'[0 := 49, rd := 48]))" unfolding tk by (simp add: is_digits_def list_all_iff)
    moreover have "num_digits s + 1 - (num_digits s - rd) = Suc rd" using rd by simp
    ultimately show ?thesis using 0 r ov len rd by (auto simp: round_up_def)
  qed
qed

lemma frac_digits:
  "numeral_str s V F \<Longrightarrow> F < 2 ^ 30 \<Longrightarrow> f64str_num_frac_digits s = F"
proof -
  assume s: "numeral_str s V F" and F: "F < 2 ^ 30"
  have "of_nat (num_digits s) - of_int (decimal_point s) = (of_int (int (num_digits s) - decimal_point s) :: u32)" by simp
  also have "\<dots> = of_nat F" using s by (simp add: numeral_str_def)
  finally show ?thesis using F by (simp add: f64str_num_frac_digits_def unat_of_nat)
qed

lemma sint_of_int32: "- (2 ^ 31) \<le> k \<Longrightarrow> k < 2 ^ 31 \<Longrightarrow> sint (of_int k :: 32 word) = k"
  by (simp add: signed_of_int signed_take_bit_int_eq_self)

lemma put_terminator:
  assumes "num_digits s < length (digits s)"
  shows "put_digit s (num_digits s) 0 = Some (s\<lparr>digits := (digits s)[num_digits s := 0]\<rparr>)"
  using assms by (simp add: put_digit_def)

lemma small_value:
  assumes s: "numeral_str s V F" and k: "num_digits s < k"
  shows "round_even V k = 0"
proof -
  have "V < 10 ^ num_digits s"
    using s num_of_less[of "take (num_digits s) (digits s)"] by (auto simp: numeral_str_def)
  moreover have "10 * 10 ^ num_digits s \<le> (10 :: nat) ^ k"
    using power_increasing[of "Suc (num_digits s)" k "10 :: nat"] k by simp
  ultimately have "2 * V < 10 ^ k" by linarith
  then show ?thesis by (simp add: round_even_def Let_def)
qed

text \<open>
  C31. Rounding a numeral to a precision keeps that many digits after the point, rounded to nearest with ties to
  even, or leaves a numeral with fewer digits as it is (it pads nothing). This excludes the case that the
  numeral begins exactly at the digit to round at.
\<close>

theorem f64str_round_correct:
  assumes s: "numeral_str s V F" and F: "F < 2 ^ 30" and p: "p + 1 < length (digits s)"
    and len: "length (digits s) < 2 ^ 30" and rd: "decimal_point s + int p \<noteq> 0 \<or> F \<le> p"
  shows "\<exists>s'. f64str_round s p = Some s' \<and> int (num_digits s') - decimal_point s' = int (min F p) \<and>
    num_of (take (num_digits s') (digits s')) = (if p < F then round_even V (F - p) else V) \<and>
    is_digits (take (num_digits s') (digits s')) \<and> num_digits s' < length (digits s') \<and> length (digits s') = length (digits s)"
proof -
  let ?n = "num_digits s" and ?dp = "decimal_point s"
  have n: "0 < ?n" "?n < length (digits s)" and nF: "int ?n - ?dp = int F"
    and dg: "is_digits (take ?n (digits s))" and V: "num_of (take ?n (digits s)) = V"
    using s by (simp_all add: numeral_str_def)
  define r where "r = ?dp + int p"
  have "of_int ?dp + of_nat p = (of_int r :: s32)" by (simp add: r_def)
  moreover have "- (2 ^ 31) \<le> r" "r < 2 ^ 31" using nF F n p len by (simp_all add: r_def)
  ultimately have sr: "sint (of_int ?dp + of_nat p :: s32) = r" by (simp add: sint_of_int32)
  note fd = frac_digits[OF s F]
  consider (neg) "r < 0" | (cut) "0 < r" "p < F" | (keep) "0 \<le> r" "F \<le> p"
    using rd by (fastforce simp: r_def)
  then show ?thesis
  proof cases
    case neg
    have pF: "p < F" "?n < F - p" using neg nF by (simp_all add: r_def)
    have e: "of_nat p + 1 = (of_nat (p + 1) :: u32)" by simp
    have "p + 1 < 2 ^ LENGTH(32)" using p len by simp
    then have "unat (of_nat p + 1 :: u32) = p + 1" unfolding e unat_of_nat by (rule mod_less)
    then have np: "min (unat (of_nat p + 1 :: u32)) (length (digits s) - 1) = p + 1"
      using p by simp
    have z: "num_of (replicate m 48) = 0" for m by (induction m) (simp_all add: num_of_Cons)
    have "f64str_round s p = put_digit (s\<lparr>num_digits := p + 1, decimal_point := 1,
        digits := replicate (p + 1) 48 @ drop (p + 1) (digits s)\<rparr>) (p + 1) 0"
      unfolding f64str_round_def sr np Let_def using neg by simp
    moreover have "p < length (digits s) - 1" using p by linarith
    ultimately show ?thesis using p pF small_value[OF s pF(2)]
      by (simp add: put_digit_def z is_digits_def list_all_iff del: replicate_Suc)
  next
    case keep
    have "int ?n \<le> r" using keep nF by (simp add: r_def)
    then have "\<not> (0 < F \<and> nat r < ?n)" by linarith
    then have "f64str_round s p = put_digit s ?n 0"
      unfolding f64str_round_def sr fd Let_def using keep by auto
    then show ?thesis using keep n nF dg V by (simp add: put_terminator)
  next
    case cut
    define k d where "k = F - p" and "d = nat r"
    have d: "0 < d" "d < ?n" "k = ?n - d" "int d - ?dp = int p" using cut nF by (simp_all add: d_def k_def r_def)
    have "V div 10 ^ k = num_of (take d (digits s))" and ru: "rounds_up s d =
        Some (10 ^ k < 2 * (V mod 10 ^ k) \<or> 10 ^ k = 2 * (V mod 10 ^ k) \<and> odd (V div 10 ^ k))"
      using rounds_up_correct[OF s d(2,3,1)] by simp_all
    then obtain up where up: "rounds_up s d = Some up" "round_even V k = num_of (take d (digits s)) + (if up then 1 else 0)"
      by (auto simp: round_even_def Let_def)
    have "take ?n (digits s) = take d (digits s) @ take (?n - d) (drop d (digits s))"
      using d(2) by (metis le_add_diff_inverse less_imp_le take_add)
    then have dd: "is_digits (take d (digits s))" using dg by simp
    obtain s1 where s1: "s1 = (if up then round_up s d else s)" "num_digits s1 - k > 0" "k \<le> num_digits s1"
        "is_digits (take (num_digits s1 - k) (digits s1))"
        "num_of (take (num_digits s1 - k) (digits s1)) = round_even V k"
        "int (num_digits s1 - k) - decimal_point s1 = int p" "length (digits s1) = length (digits s)" "num_digits s1 - k \<le> ?n"
      using round_up_correct[OF s d(1,2)] d up(2) dd by (cases up) auto
    define s2 where "s2 = s1\<lparr>num_digits := num_digits s1 - k\<rparr>"
    have r2: "f64str_round s p = put_digit s2 (num_digits s2) 0"
      unfolding f64str_round_def sr fd Let_def s2_def using cut d(2) up(1) s1(1) by (simp add: k_def d_def Let_def)
    have f: "num_digits s2 < length (digits s2)" "is_digits (take (num_digits s2) (digits s2))"
      "num_of (take (num_digits s2) (digits s2)) = round_even V k" "int (num_digits s2) - decimal_point s2 = int p"
      "length (digits s2) = length (digits s)"
      using s1(4-8) n by (simp_all add: s2_def)
    show ?thesis unfolding r2 put_terminator[OF f(1)] using f cut(2) by (simp add: k_def)
  qed
qed

text \<open>The numeral 9.96 rounds to 10.0.\<close>

theorem f64str_round_correct_witness:
  "\<exists>s'. f64str_round \<lparr>digits = [57, 57, 54, 0, 0], num_digits = 3, decimal_point = 1, fs_flags = 0\<rparr> 1 = Some s' \<and>
    int (num_digits s') - decimal_point s' = 1 \<and> num_of (take (num_digits s') (digits s')) = 100 \<and>
    is_digits (take (num_digits s') (digits s')) \<and> num_digits s' < 5 \<and> length (digits s') = 5"
proof -
  let ?s = "\<lparr>digits = [57, 57, 54, 0, 0], num_digits = 3, decimal_point = 1, fs_flags = 0\<rparr>"
  have "numeral_str ?s 996 2" by (simp add: numeral_str_def num_of_def)
  moreover have "length (digits ?s) = 5" "round_even 996 (2 - 1) = 100" "decimal_point ?s + int 1 \<noteq> 0"
    by (simp_all add: round_even_def)
  ultimately show ?thesis using f64str_round_correct[of ?s 996 2 1] by (simp only:) auto
qed

text \<open>
  C32. When the numeral begins exactly at the digit to round at (as 0.06 does for one digit after the point),
  rounding is wrong: a first digit above five is rounded down to zero where the nearest numeral is one unit,
  and a first digit of five reads the character before the array.
\<close>

theorem f64str_round_first_digit:
  assumes s: "numeral_str s V F" and F: "F < 2 ^ 30" and p: "p < F" and rd: "decimal_point s + int p = 0"
    and c: "digits s ! 0 \<ge> 53"
  shows "if digits s ! 0 = 53 then f64str_round s p = None
    else round_even V (F - p) = 1 \<and> (\<exists>s'. f64str_round s p = Some s' \<and> num_of (take (num_digits s') (digits s')) = 0)"
proof -
  let ?n = "num_digits s" and ?ds = "digits s"
  have n: "0 < ?n" "?n < length ?ds" and nF: "int ?n - decimal_point s = int F" and dg: "is_digits (take ?n ?ds)"
    and V: "num_of (take ?n ?ds) = V"
    using s by (simp_all add: numeral_str_def)
  have k: "F - p = ?n" using nF rd p by simp
  have "of_int (decimal_point s) + of_nat p = (of_int (decimal_point s + int p) :: s32)" by simp
  then have sr: "sint (of_int (decimal_point s) + of_nat p :: s32) = 0" unfolding rd by simp
  note fd = frac_digits[OF s F]
  show ?thesis
  proof (cases "?ds ! 0 = 53")
    case True
    then show ?thesis unfolding f64str_round_def sr fd Let_def using n p by (simp add: rounds_up_def)
  next
    case False
    then have c6: "6 + 48 \<le> ?ds ! 0" using c by simp
    have ne: "take ?n ?ds \<noteq> []" using n by auto
    have "hd (take ?n ?ds) = take ?n ?ds ! 0" by (rule hd_conv_nth[OF ne])
    then have t: "take ?n ?ds \<noteq> []" "length (take ?n ?ds) = ?n" "hd (take ?n ?ds) = ?ds ! 0"
      using n ne by simp_all
    have "6 * 10 ^ (?n - 1) \<le> V" using leading_digit[OF dg t(1), of 6] c6 t V by simp
    moreover have "10 * 10 ^ (?n - 1) = (10 :: nat) ^ ?n" using n(1) by (metis Suc_diff_1 power_Suc)
    moreover have "(0 :: nat) < 10 ^ (?n - 1)" by simp
    moreover have "6 * X \<le> V \<Longrightarrow> 10 * X = P \<Longrightarrow> 0 < X \<Longrightarrow> P < 2 * V" for X P :: nat by linarith
    ultimately have half: "10 ^ ?n < 2 * V" by blast
    have lt: "V < 10 ^ ?n" using num_of_less[OF dg] V t(2) by simp
    have "round_even V ?n = 1" using half lt by (simp add: round_even_def Let_def)
    moreover have "take 1 (?ds[0 := 48]) = [48]" using n by (cases ?ds) simp_all
    then have "num_of (take (Suc ?n - ?n) (?ds[0 := 48])) = 0" by (simp add: num_of_Cons)
    moreover have "f64str_round s p = put_digit (s\<lparr>digits := ?ds[0 := 48], decimal_point := decimal_point s + 1,
        num_digits := Suc ?n - ?n\<rparr>) 1 0"
      unfolding f64str_round_def sr fd Let_def using n p c6 k by (simp add: rounds_up_def round_up_def)
    ultimately show ?thesis using False n k by (simp add: put_digit_def num_of_Cons)
  qed
qed

text \<open>The numeral .06 and the precision 1.\<close>

theorem f64str_round_first_digit_witness:
  "round_even 6 1 = 1 \<and>
   (\<exists>s'. f64str_round \<lparr>digits = [54, 0, 0], num_digits = 1, decimal_point = -1, fs_flags = 0\<rparr> 1 = Some s' \<and>
     num_of (take (num_digits s') (digits s')) = 0)"
  using f64str_round_first_digit[of "\<lparr>digits = [54, 0, 0], num_digits = 1, decimal_point = -1, fs_flags = 0\<rparr>" 6 2 1]
  by (simp add: numeral_str_def num_of_def)

end
