(* ===== verification/Print_Correct.thy ===== *)
theory Print_Correct
  imports Print Print_Floats_Correct Cstring_Correct
begin

text \<open>
  The formatted printer depends on its destination only through the callback, so that the buffered file and the
  array receive the same characters. Integers are printed with their value, as long as they have at most 32 digits.
\<close>

section \<open>The characters of an integer\<close>

lemma put_chars_simps [simp]:
  "put_chars s [] = s" "put_chars (put_chars s xs) ys = put_chars s (xs @ ys)"
  by (simp_all add: put_chars_def)

lemma put_chars_single: "put_char_wrapper s c = put_chars s [c]"
  by (simp add: put_chars_def)

definition int_prefix :: "u64 \<Rightarrow> bool \<Rightarrow> u64 \<Rightarrow> string" where
  "int_prefix base negative flags =
     (if has_flag flags FORMAT_FLAG_HASH \<and> base \<in> {2, 8, 16} then
        (if base = 2 then ''0b'' else if base = 16 then (if has_flag flags FORMAT_FLAG_UPPERCASE then ''0X'' else ''0x'') else ''0'')
      else if negative \<or> has_flag flags FORMAT_FLAG_FORCE_SIGN then (if negative then ''-'' else ''+'')
      else '''')"

text \<open>The digits with the zeros the precision asks for, and the padding the width asks for.\<close>

definition int_body :: "u64 \<Rightarrow> u64 \<Rightarrow> u64 \<Rightarrow> u64 \<Rightarrow> string" where
  "int_body value base precision flags =
     (let ds = rev (int_digits (unat value) (unat base) (has_flag flags FORMAT_FLAG_UPPERCASE) [])
      in replicate (if has_flag flags FORMAT_FLAG_PRECISION then unat precision - length ds else 0) CHR ''0'' @ ds)"

definition int_pad :: "u64 \<Rightarrow> u64 \<Rightarrow> bool \<Rightarrow> u64 \<Rightarrow> u32 \<Rightarrow> u64 \<Rightarrow> nat" where
  "int_pad value base negative precision width flags =
     (if has_flag flags FORMAT_FLAG_WIDTH
      then unat width - (length (int_body value base precision flags) + length (int_prefix base negative flags)) else 0)"

definition int_text :: "u64 \<Rightarrow> u64 \<Rightarrow> bool \<Rightarrow> u64 \<Rightarrow> u32 \<Rightarrow> u64 \<Rightarrow> string" where
  "int_text value base negative precision width flags =
     (let pad = int_pad value base negative precision width flags;
          pre = int_prefix base negative flags;
          body = int_body value base precision flags
      in
      if has_flag flags FORMAT_FLAG_PRECISION \<and> precision = 0 \<and> value = 0 then ''''
      else if has_flag flags FORMAT_FLAG_LEFT_JUSTIFIED then pre @ body @ replicate pad CHR '' ''
      else if has_flag flags FORMAT_FLAG_ZERO_PAD then pre @ replicate pad CHR ''0'' @ body
      else replicate pad CHR '' '' @ pre @ body)"

lemma length_int_prefix:
  "length (int_prefix base negative flags) =
     (if has_flag flags FORMAT_FLAG_HASH \<and> base \<in> {2, 8, 16} then (if base \<noteq> 8 then 2 else 1)
      else if negative \<or> has_flag flags FORMAT_FLAG_FORCE_SIGN then 1 else 0)"
  by (simp add: int_prefix_def)

lemma put_prefix:
  "(if has_flag flags FORMAT_FLAG_HASH \<and> base \<in> {2, 8, 16} then
      put_chars (put_char_wrapper d CHR ''0'')
        (if base = 2 then ''b'' else if base = 16 then (if has_flag flags FORMAT_FLAG_UPPERCASE then ''X'' else ''x'') else '''')
    else if negative \<or> has_flag flags FORMAT_FLAG_FORCE_SIGN then put_char_wrapper d (if negative then CHR ''-'' else CHR ''+'')
    else d) = put_chars d (int_prefix base negative flags)"
  by (simp add: int_prefix_def put_chars_single)

lemma replicate_swap: "replicate m x @ replicate n x @ xs = replicate n x @ replicate m x @ xs"
  by (simp only: append_assoc[symmetric] replicate_add[symmetric] add.commute)

lemma ftprint_int'_text:
  "ftprint_int' dest value base negative precision width flags = put_chars dest (int_text value base negative precision width flags)"
proof -
  define ds where "ds = int_digits (unat value) (unat base) (has_flag flags FORMAT_FLAG_UPPERCASE) []"
  define zp where "zp = (if has_flag flags FORMAT_FLAG_PRECISION \<and> unat precision > length ds then unat precision - length ds else 0)"
  define pl where "pl = (if has_flag flags FORMAT_FLAG_HASH \<and> base \<in> {2, 8, 16} then (if base \<noteq> 8 then 2 else 1)
      else if negative \<or> has_flag flags FORMAT_FLAG_FORCE_SIGN then 1 else (0::nat))"
  have b: "int_body value base precision flags = replicate zp CHR ''0'' @ rev ds"
    by (simp add: int_body_def ds_def[symmetric] zp_def Let_def)
  define pad where "pad = (if has_flag flags FORMAT_FLAG_WIDTH \<and> unat width > length ds + zp + pl then unat width - (length ds + zp + pl) else 0)"
  have p: "int_pad value base negative precision width flags = pad"
    unfolding int_pad_def length_int_prefix b pad_def pl_def[symmetric] by (simp add: add.commute)
  show ?thesis
    unfolding ftprint_int'_def Let_def ds_def[symmetric] zp_def[symmetric] pl_def[symmetric] pad_def[symmetric] put_prefix
      int_text_def p b
    using replicate_swap[of zp "CHR ''0''" pad "rev ds"]
    by (cases "has_flag flags FORMAT_FLAG_LEFT_JUSTIFIED"; cases "has_flag flags FORMAT_FLAG_ZERO_PAD")
       (simp_all add: replicate_add)
qed

section \<open>Two destinations that behave alike\<close>

lemma rel_option_bind_same:
  "(\<And>x. m = Some x \<Longrightarrow> rel_option R (f x) (g x)) \<Longrightarrow> rel_option R (Option.bind m f) (Option.bind m g)"
  by (cases m) auto

lemma rel_option_bind:
  "rel_option S m n \<Longrightarrow> (\<And>x y. S x y \<Longrightarrow> rel_option R (f x) (g y)) \<Longrightarrow> rel_option R (Option.bind m f) (Option.bind n g)"
  by (cases m; cases n) auto

lemma rel_option_if:
  "(P \<Longrightarrow> rel_option R a c) \<Longrightarrow> (\<not> P \<Longrightarrow> rel_option R b d) \<Longrightarrow> rel_option R (if P then a else b) (if P then c else d)"
  by simp

lemma rel_option_SomeI: "R x y \<Longrightarrow> rel_option R (Some x) (Some y)"
  by simp

text \<open>The callbacks accept the same characters and keep a relation of the destinations.\<close>

locale put_simulation =
  fixes f :: "'d \<Rightarrow> char \<Rightarrow> bool \<times> 'd" and g :: "'e \<Rightarrow> char \<Rightarrow> bool \<times> 'e" and A :: "'d \<Rightarrow> 'e \<Rightarrow> bool"
  assumes put_same: "A d e \<Longrightarrow> fst (f d c) = fst (g e c)"
    and put_keeps: "A d e \<Longrightarrow> A (snd (f d c)) (snd (g e c))"
begin

definition like :: "'d PrintState \<Rightarrow> 'e PrintState \<Rightarrow> bool" where
  "like s t \<longleftrightarrow> ps_count s = ps_count t \<and> ps_stores s = ps_stores t \<and> ps_put_char s = Some f \<and> ps_put_char t = Some g \<and>
     A (ps_arg s) (ps_arg t)"

abbreviation like2 :: "'d PrintState \<times> va_arg list \<Rightarrow> 'e PrintState \<times> va_arg list \<Rightarrow> bool" where
  "like2 \<equiv> rel_prod like (=)"

abbreviation like3 :: "'d PrintState \<times> string \<times> va_arg list \<Rightarrow> 'e PrintState \<times> string \<times> va_arg list \<Rightarrow> bool" where
  "like3 \<equiv> rel_prod like (=)"

lemma put_char [intro]: "like s t \<Longrightarrow> like (put_char_wrapper s c) (put_char_wrapper t c)"
  using put_same[of "ps_arg s" "ps_arg t" c] put_keeps[of "ps_arg s" "ps_arg t" c]
  by (auto simp: like_def put_char_wrapper_def split: prod.splits)

lemma put_chars [intro]: "like s t \<Longrightarrow> like (put_chars s cs) (put_chars t cs)"
  by (induction cs arbitrary: s t) (auto simp: put_chars_def)

lemma like_if [intro]: "(P \<Longrightarrow> like a c) \<Longrightarrow> (\<not> P \<Longrightarrow> like b d) \<Longrightarrow> like (if P then a else b) (if P then c else d)"
  by simp

lemmas like_rules = rel_option_bind_same rel_option_if rel_option_SomeI put_char put_chars like_if

lemma pad_to [intro]: "like s t \<Longrightarrow> like (pad_to s n w) (pad_to t n w)"
  by (auto simp: pad_to_def)

lemma print_uint [intro]: "like s t \<Longrightarrow> like (print_uint s v base p w fl) (print_uint t v base p w fl)"
  by (auto simp: print_uint_def ftprint_int'_text)

lemma ftprint_int: "like s t \<Longrightarrow> rel_option like (ftprint_int s v base p w fl) (ftprint_int t v base p w fl)"
  unfolding ftprint_int_def ftprint_int'_text Let_def by (rule rel_option_bind_same) auto

lemma ftprint_float: "like s t \<Longrightarrow> rel_option like (ftprint_float s v p w fl) (ftprint_float t v p w fl)"
  unfolding ftprint_float_def Let_def by (intro like_rules)

lemma print_either:
  "like s t \<Longrightarrow> rel_option like2
     (do { s \<leftarrow> (if sg then ftprint_int s v base p w fl else Some (print_uint s v base p w fl)); Some (s, args) })
     (do { s \<leftarrow> (if sg then ftprint_int t v base p w fl else Some (print_uint t v base p w fl)); Some (s, args) })"
  using ftprint_int by (auto intro!: rel_option_bind[where S = like] rel_option_if print_uint)

lemma conv_int: "like s t \<Longrightarrow> rel_option like2 (conv_int s c args p w fl) (conv_int t c args p w fl)"
  unfolding conv_int_def Let_def
  by (rule rel_option_if; rule rel_option_bind_same; simp only: case_prod_beta; rule print_either)

lemma conv_char: "like s t \<Longrightarrow> rel_option like2 (conv_char s args w fl) (conv_char t args w fl)"
  unfolding conv_char_def Let_def by (rule rel_option_bind_same) (auto intro!: put_char like_if)

lemma put_str: "like s t \<Longrightarrow> rel_option like (put_str s pf p str) (put_str t pf p str)"
proof (induction str arbitrary: s t p)
  case Nil
  then show ?case by (simp add: put_str.simps)
next
  case (Cons c cs)
  then show ?case by (subst (1 2) put_str.simps) (auto intro!: Cons.IH)
qed

lemma conv_str: "like s t \<Longrightarrow> rel_option like2 (conv_str s args p w fl) (conv_str t args p w fl)"
  unfolding conv_str_def Let_def
proof (rule rel_option_bind_same, clarify)
  fix val rest
  assume l: "like s t"
  show "rel_option like2
     (case val of
        None \<Rightarrow> do {
          s \<leftarrow> put_str s (has_flag fl FORMAT_FLAG_PRECISION) (unat p)
                 (if unat p < 6 \<and> has_flag fl FORMAT_FLAG_PRECISION then [NUL] else ''(null)'' @ [NUL]);
          Some (s, rest) }
      | Some (addr, str) \<Rightarrow> do {
          str_len \<leftarrow> (if has_flag fl FORMAT_FLAG_PRECISION then cstr_nlen str (unat p) else cstr_len addr str);
          s \<leftarrow> put_str (if has_flag fl FORMAT_FLAG_WIDTH \<and> \<not> has_flag fl FORMAT_FLAG_LEFT_JUSTIFIED then pad_to s (unat (of_nat str_len :: u32)) w else s)
                 (has_flag fl FORMAT_FLAG_PRECISION) (unat p) str;
          Some (if has_flag fl FORMAT_FLAG_WIDTH \<and> has_flag fl FORMAT_FLAG_LEFT_JUSTIFIED then pad_to s (unat (of_nat str_len :: u32)) w else s, rest) })
     (case val of
        None \<Rightarrow> do {
          s \<leftarrow> put_str t (has_flag fl FORMAT_FLAG_PRECISION) (unat p)
                 (if unat p < 6 \<and> has_flag fl FORMAT_FLAG_PRECISION then [NUL] else ''(null)'' @ [NUL]);
          Some (s, rest) }
      | Some (addr, str) \<Rightarrow> do {
          str_len \<leftarrow> (if has_flag fl FORMAT_FLAG_PRECISION then cstr_nlen str (unat p) else cstr_len addr str);
          s \<leftarrow> put_str (if has_flag fl FORMAT_FLAG_WIDTH \<and> \<not> has_flag fl FORMAT_FLAG_LEFT_JUSTIFIED then pad_to t (unat (of_nat str_len :: u32)) w else t)
                 (has_flag fl FORMAT_FLAG_PRECISION) (unat p) str;
          Some (if has_flag fl FORMAT_FLAG_WIDTH \<and> has_flag fl FORMAT_FLAG_LEFT_JUSTIFIED then pad_to s (unat (of_nat str_len :: u32)) w else s, rest) })"
  proof (cases val)
    case None
    then show ?thesis
      using put_str[OF l] by (auto intro!: rel_option_bind[where S = like])
  next
    case (Some a)
    then show ?thesis
      by (cases a) (auto intro!: rel_option_bind_same rel_option_bind[where S = like] put_str like_if l pad_to)
  qed
qed

lemma convert: "like s t \<Longrightarrow> rel_option like3 (convert s fmt args p w fl) (convert t fmt args p w fl)"
  unfolding convert_def Let_def
  apply (rule rel_option_bind_same)
  apply (intro rel_option_if)
  subgoal by (rule rel_option_bind[OF conv_int]) auto
  subgoal by (rule rel_option_bind_same, clarify, rule rel_option_bind[OF ftprint_float]) auto
  subgoal by (rule rel_option_bind[OF conv_char]) auto
  subgoal by (rule rel_option_bind[OF conv_str]) auto
  subgoal by (rule rel_option_bind_same) (auto simp: like_def)
  subgoal by auto
  done

lemma directive: "like s t \<Longrightarrow> rel_option like3 (directive s fmt args) (directive t fmt args)"
  unfolding directive_def by (rule rel_option_bind_same, clarify)+ (rule convert)

text \<open>Both end with the terminator.\<close>

definition ended :: "'d PrintState \<Rightarrow> 'e PrintState \<Rightarrow> bool" where
  "ended s t \<longleftrightarrow> (\<exists>s0 t0. like s0 t0 \<and> s = put_char_wrapper s0 NUL \<and> t = put_char_wrapper t0 NUL)"

lemma ftprintv_loop: "like s t \<Longrightarrow> rel_option ended (ftprintv_loop s fmt args) (ftprintv_loop t fmt args)"
proof (induction "length fmt" arbitrary: s t fmt args rule: less_induct)
  case less
  show ?case
  proof (cases fmt)
    case Nil
    then show ?thesis by simp
  next
    case (Cons c rest)
    show ?thesis
    proof (cases "c = CHR ''%''")
      case True
      show ?thesis
      proof (cases "directive s rest args")
        case None
        then show ?thesis using directive[OF less.prems, of rest args] True by (simp add: Cons split: option.splits)
      next
        case (Some r)
        obtain s1 fmt1 args1 where r: "r = (s1, fmt1, args1)" by (cases r) auto
        with Some directive[OF less.prems, of rest args] obtain t1 where
          t1: "directive t rest args = Some (t1, fmt1, args1)" and l: "like s1 t1"
          by (cases "directive t rest args") auto
        have "length fmt1 < length fmt" using directive_length[OF t1] by (simp add: Cons)
        from less.hyps[OF this l] show ?thesis using True Some t1 by (simp add: Cons r)
      qed
    next
      case False
      then show ?thesis
        using less.prems by (auto simp: Cons ended_def intro!: less.hyps)
    qed
  qed
qed

lemma ftprintv:
  "A d e \<Longrightarrow> rel_option ended (ftprintv (Some f) d fmt args) (ftprintv (Some g) e fmt args)"
  unfolding ftprintv_def by (rule ftprintv_loop) (simp add: like_def)

end

section \<open>The buffer of a file\<close>

text \<open>A file that accepts everything it is given.\<close>

definition accepts_all :: "(string \<Rightarrow> string \<Rightarrow> nat) \<Rightarrow> bool" where
  "accepts_all fwrite \<longleftrightarrow> (\<forall>file buf. fwrite file buf = length buf)"

definition buffers :: "bool \<Rightarrow> string \<Rightarrow> PrintBuffer \<Rightarrow> string \<Rightarrow> bool" where
  "buffers nullterm old fb xs \<longleftrightarrow>
     pb_file fb @ pb_buf fb = old @ xs \<and> pb_nullterm fb = nullterm \<and> accepts_all (pb_fwrite fb) \<and>
     0 < pb_size fb \<and> length (pb_buf fb) \<le> pb_size fb"

lemma flush_accepts_all:
  "accepts_all (pb_fwrite fb) \<Longrightarrow>
   flush_file_buffer fb = (True, fb\<lparr>pb_file := pb_file fb @ pb_buf fb, pb_buf := []\<rparr>)"
  by (simp add: flush_file_buffer_def accepts_all_def Let_def)

interpretation file_array: put_simulation output_to_file "putc_array nullterm" "buffers nullterm old" for nullterm old
proof
  fix d e c
  assume "buffers nullterm old d e"
  then show "fst (output_to_file d c) = fst (putc_array nullterm e c)"
    and "buffers nullterm old (snd (output_to_file d c)) (snd (putc_array nullterm e c))"
    by (auto simp: buffers_def output_to_file_def putc_array_def flush_accepts_all Let_def)
qed

lemma file_array_ended:
  "file_array.ended nullterm old s t \<Longrightarrow> pb_file (ps_arg s) = old @ ps_arg t \<and> ps_count s = ps_count t"
  by (auto simp: file_array.ended_def file_array.like_def put_char_wrapper_def buffers_def output_to_file_def putc_array_def
      flush_accepts_all Let_def)

text \<open>
  C27. Printing to a file that accepts everything writes, through the buffer of 128 characters, exactly the characters
  that printing to an array gives, and both return the same count. The print to the file is undefined only when the
  print to the array is.
\<close>

theorem ftprint_file_like_array:
  assumes "accepts_all fwrite"
  shows "ftprint_file old fwrite nullterm fmt args =
         map_option (\<lambda>(xs, n). (old @ xs, n)) (ftprint_char_array [] nullterm fmt args)"
proof -
  let ?fb = "\<lparr>pb_buf = [], pb_size = PRINT_FILE_BUF_SIZE, pb_nullterm = nullterm, pb_file = old, pb_fwrite = fwrite\<rparr>"
  have "buffers nullterm old ?fb []"
    using assms by (simp add: buffers_def PRINT_FILE_BUF_SIZE_def)
  from file_array.ftprintv[OF this, of fmt args] show ?thesis
    unfolding ftprint_file_def ftprint_char_array_def
    by (cases rule: option.rel_cases) (auto dest: file_array_ended)
qed

theorem ftprint_file_like_array_witness:
  "ftprint_file ''a'' (\<lambda>_. length) False (''x=%d'' @ [NUL]) [AInt 7] =
     map_option (\<lambda>(xs, n). (''a'' @ xs, n)) (ftprint_char_array [] False (''x=%d'' @ [NUL]) [AInt 7])"
  by (rule ftprint_file_like_array) (simp add: accepts_all_def)

section \<open>Reading a printed integer\<close>

text \<open>The value of digits that are stored from the least one on.\<close>

fun digits_value :: "nat \<Rightarrow> nat list \<Rightarrow> nat" where
  "digits_value b [] = 0"
| "digits_value b (d # ds) = d + b * digits_value b ds"

lemma int_digits_dec:
  "v < 10 ^ (32 - length buf) \<Longrightarrow> length buf < 32 \<Longrightarrow>
   \<exists>ds. int_digits v 10 False buf = buf @ map (\<lambda>d. char_of (48 + d)) ds \<and> list_all (\<lambda>d. d < 10) ds \<and> digits_value 10 ds = v \<and> ds \<noteq> []"
proof (induction "32 - length buf" arbitrary: v buf)
  case 0
  then show ?case by simp
next
  case (Suc n)
  let ?c = "char_of (48 + v mod 10)"
  have m: "\<not> 10 \<le> v mod 10" by (simp add: not_le)
  have step: "int_digits v 10 False buf =
      (if v div 10 > 0 \<and> length (buf @ [?c]) < 32 then int_digits (v div 10) 10 False (buf @ [?c]) else buf @ [?c])"
    by (subst int_digits.simps) (simp add: Let_def PRINT_MAX_NUM_DIGITS_def div_greater_zero_iff m)
  show ?case
  proof (cases "v div 10 > 0")
    case False
    then have v: "v < 10" by simp
    show ?thesis using v by (intro exI[of _ "[v]"]) (simp add: step)
  next
    case True
    then have "v \<ge> 10" by simp
    have "v < 10 * 10 ^ n" using Suc.prems(1) unfolding Suc.hyps(2)[symmetric] by simp
    then have lt: "v div 10 < 10 ^ n" by (simp add: less_mult_imp_div_less mult.commute)
    have "n \<noteq> 0" using lt True by (cases n) auto
    then have len: "length (buf @ [?c]) < 32" using Suc.hyps(2) by simp
    have "n = 32 - length (buf @ [?c])" using Suc.hyps(2) by simp
    from Suc.hyps(1)[OF this, of "v div 10"] lt len this obtain ds where
      "int_digits (v div 10) 10 False (buf @ [?c]) = (buf @ [?c]) @ map (\<lambda>d. char_of (48 + d)) ds"
      "list_all (\<lambda>d. d < 10) ds" "digits_value 10 ds = v div 10" by auto
    then show ?thesis
      using True len by (intro exI[of _ "v mod 10 # ds"]) (simp add: step)
  qed
qed

lemma dec_digit_char:
  assumes "d < 10"
  shows "char_of (48 + d) \<noteq> NUL" "is_dec_digit (char_of (48 + d))"
    "(of_char (char_of (48 + d) :: char) :: int) = 48 + int d" "char_of (48 + d) \<noteq> CHR ''-''"
proof -
  have c: "of_char (char_of (48 + d) :: char) = 48 + d"
    using assms by (simp add: of_char_of)
  show "char_of (48 + d) \<noteq> NUL" 
  proof
    assume "char_of (48 + d) = NUL"
    then have "of_char (char_of (48 + d) :: char) = (0::nat)" by simp
    then show False unfolding c by simp
  qed
  show "is_dec_digit (char_of (48 + d))" unfolding is_dec_digit_iff c using assms by simp
  show "(of_char (char_of (48 + d) :: char) :: int) = 48 + int d"
    using of_nat_of_char[of "char_of (48 + d)", where 'a = int] unfolding c by simp
  show "char_of (48 + d) \<noteq> CHR ''-''"
  proof
    assume "char_of (48 + d) = CHR ''-''"
    then have "of_char (char_of (48 + d) :: char) = (45::nat)" by simp
    then show False unfolding c by simp
  qed
qed

lemma ascii_digits_append:
  "list_all (\<lambda>d. d < 10) ds \<Longrightarrow> 0 \<le> r \<Longrightarrow> r * 10 ^ length ds + int (digits_value 10 ds) < 2 ^ 63 \<Longrightarrow>
   ascii_digits (map (\<lambda>d. char_of (48 + d)) (rev ds) @ rest) i r =
     ascii_digits rest (i + length ds) (r * 10 ^ length ds + int (digits_value 10 ds))"
proof (induction ds arbitrary: rest)
  case Nil
  then show ?case by simp
next
  case (Cons d ds)
  let ?r = "r * 10 ^ length ds + int (digits_value 10 ds)"
  have lt: "10 * ?r + int d < 2 ^ 63" and d: "d < 10" "list_all (\<lambda>d. d < 10) ds" "0 \<le> ?r"
    using Cons.prems by (simp_all add: algebra_simps)
  have "x < m" if "0 \<le> x" "10 * x + int e < m" for x m :: int and e using that by simp
  from this[OF d(3) lt] have "?r < 2 ^ 63" .
  note IH = Cons.IH[OF d(2) Cons.prems(2) this, of "char_of (48 + d) # rest"]
  show ?case
    using IH lt dec_digit_char[OF d(1)] by (simp add: assert_opt_def algebra_simps)
qed

lemma digits_value_lt: "list_all (\<lambda>d. d < 10) ds \<Longrightarrow> digits_value 10 ds < 10 ^ length ds"
  by (induction ds) auto

lemma code_NUL: "code NUL = 0"
  by simp

lemma int_digits_no_NUL: "NUL \<notin> set buf \<Longrightarrow> base \<le> 16 \<Longrightarrow> 0 < base \<Longrightarrow> NUL \<notin> set (int_digits v base up buf)"
proof (induction v base up buf rule: int_digits.induct)
  case (1 v base up buf)
  let ?k = "(if v mod base \<ge> 10 then (if up then 65 else 97) - 10 else 48) + v mod base"
  have "v mod base < base" using 1 by simp
  then have "v mod base < 16" using 1(3) by linarith
  then have "0 < ?k" "?k < 256" using 1(3) by (simp_all split: if_splits)
  then have "of_char (char_of ?k :: char) = ?k" by (simp add: of_char_of)
  then have "char_of ?k \<noteq> NUL" using \<open>0 < ?k\<close> by (metis code_NUL less_numeral_extra(3))
  then show ?case using 1 by (subst int_digits.simps) (auto simp: Let_def)
qed

text \<open>Decimal digits read back as the value.\<close>

lemma ascii_digits_int_digits:
  assumes "v < 2 ^ 63"
  shows "\<exists>cs. rev (int_digits v 10 False []) = cs \<and> cs \<noteq> [] \<and> hd cs \<noteq> CHR ''-'' \<and>
           ascii_digits (cs @ [NUL]) i 0 = Some (i + length cs, int v)"
proof -
  have "v < 10 ^ (32 - length ([] :: string))" using assms by (rule less_le_trans) simp
  from int_digits_dec[OF this] obtain ds where ds:
    "int_digits v 10 False [] = map (\<lambda>d. char_of (48 + d)) ds" "list_all (\<lambda>d. d < 10) ds" "digits_value 10 ds = v" "ds \<noteq> []"
    by auto
  have "int (digits_value 10 ds) < 2 ^ 63" using assms ds(3) by simp
  then have "ascii_digits (map (\<lambda>d. char_of (48 + d)) (rev ds) @ [NUL]) i 0 = Some (i + length ds, int v)"
    using ascii_digits_append[OF ds(2), of 0 "[NUL]" i] ds(3) by simp
  moreover have "hd (map (\<lambda>d. char_of (48 + d)) (rev ds)) \<noteq> CHR ''-''"
    using ds(2,4) by (simp add: hd_map hd_rev dec_digit_char(4) list_all_iff)
  ultimately show ?thesis using ds(4) by (simp add: ds(1) rev_map)
qed

lemma int_text_plain:
  "int_text v 10 neg 0 0 FORMAT_FLAG_LONG = (if neg then ''-'' else []) @ rev (int_digits (unat v) 10 False [])"
  by (simp add: int_text_def int_pad_def int_prefix_def int_body_def FORMAT_FLAG_LONG_def FORMAT_FLAG_PRECISION_def
      FORMAT_FLAG_HASH_def FORMAT_FLAG_FORCE_SIGN_def FORMAT_FLAG_LEFT_JUSTIFIED_def FORMAT_FLAG_ZERO_PAD_def
      FORMAT_FLAG_WIDTH_def FORMAT_FLAG_UPPERCASE_def Let_def)

lemma put_chars_array:
  "ps_put_char s = Some (putc_array nt) \<Longrightarrow> NUL \<notin> set cs \<or> nt \<Longrightarrow>
   put_chars s cs = s\<lparr>ps_arg := ps_arg s @ cs, ps_count := ps_count s + length cs\<rparr>"
  by (induction cs arbitrary: s) (auto simp: put_chars_def put_char_wrapper_def putc_array_def)

lemma parse_peek [simp]: "peek (c # cs) = Some c"
  by (simp add: peek_def)

lemma directive_ld:
  "directive s (''ld'' @ rest) args = do { (s, args) \<leftarrow> conv_int s CHR ''d'' args 0 0 FORMAT_FLAG_LONG; Some (s, rest, args) }"
proof -
  have "\<not> is_dec_digit CHR ''l''" by (simp add: is_dec_digit_iff)
  then show ?thesis
    by (simp add: directive_def flag_of_def parse_width_def parse_precision_def parse_length_def convert_def)
qed

text \<open>
  C28. A signed \<open>long\<close> printed with \<open>%ld\<close> is appended to the array as characters that \<open>ascii_to_i64\<close> reads back as the
  same number, for every value but the least one, whose negation overflows.
\<close>

theorem print_long_read_back:
  assumes "sint (v :: u64) \<noteq> - (2 ^ 63)"
  shows "\<exists>out. ftprint_char_array dst False (''%ld'' @ [NUL]) [ALong v] = Some (dst @ out, length out + 1) \<and>
           ascii_to_i64 (out @ [NUL]) = Some (length out, sint v)"
proof -
  define a where "a = (if sint v < 0 then 0 - v else v)"
  have a: "unat a < 2 ^ 63 \<and> sint v = (if sint v < 0 then - int (unat a) else int (unat a))"
  proof -
    define k where "k = (if sint v < 0 then - sint v else sint v)"
    have r: "- (2 ^ 63) \<le> sint v" "sint v < 2 ^ 63"
      using sint_greater_eq[of v] sint_less[of v] by simp_all
    have "a = of_int k" by (simp add: a_def k_def)
    moreover have "0 \<le> k" "k < 2 ^ 63" using r assms by (auto simp: k_def)
    ultimately have "uint a = k" by (simp add: unsigned_of_int take_bit_int_eq_self)
    then have u: "int (unat a) = k" by simp
    then have "unat a < 2 ^ 63" using \<open>k < 2 ^ 63\<close> by (metis of_nat_less_iff of_nat_numeral of_nat_power)
    then show ?thesis using u by (auto simp: k_def)
  qed
  from ascii_digits_int_digits[of "unat a" "if sint v < 0 then 1 else 0"] a obtain cs where cs:
    "rev (int_digits (unat a) 10 False []) = cs" "cs \<noteq> []" "hd cs \<noteq> CHR ''-''"
    "ascii_digits (cs @ [NUL]) (if sint v < 0 then 1 else 0) 0 = Some ((if sint v < 0 then 1 else 0) + length cs, int (unat a))"
    by auto
  define out where "out = (if sint v < 0 then ''-'' else []) @ cs"
  have nul: "NUL \<notin> set out"
    using int_digits_no_NUL[of "[]" 10 "unat a" False] by (auto simp: out_def cs(1)[symmetric])
  have text_out: "int_text a 10 (sint v < 0) 0 0 FORMAT_FLAG_LONG = out"
    by (simp add: int_text_plain cs(1) out_def)
  have "ftprint_char_array dst False (''%ld'' @ [NUL]) [ALong v] = Some (dst @ out, length out + 1)"
    using assms nul
    apply (simp add: ftprint_char_array_def ftprintv_def directive_ld[simplified] conv_int_def FORMAT_FLAG_LONG_def FORMAT_FLAG_LONG_LONG_def)
    apply (fold FORMAT_FLAG_LONG_def)
    by (simp add: ftprint_int_def Let_def a_def[symmetric] ftprint_int'_text text_out put_chars_array put_char_wrapper_def putc_array_def)
  moreover have "ascii_to_i64 (out @ [NUL]) = Some (length out, sint v)"
  proof (cases "sint v < 0")
    case True
    then show ?thesis using cs(4) a by (simp add: ascii_to_i64_def out_def)
  next
    case False
    have "ascii_to_i64 (cs @ [NUL]) = ascii_digits (cs @ [NUL]) 0 0"
      using cs(2,3) by (cases cs) (simp_all add: ascii_to_i64_def del: ascii_digits.simps)
    then show ?thesis using False cs(4) a by (simp add: out_def)
  qed
  ultimately show ?thesis by blast
qed

theorem print_long_read_back_witness:
  "\<exists>out. ftprint_char_array ''n='' False (''%ld'' @ [NUL]) [ALong (- 42)] = Some (''n='' @ out, length out + 1) \<and>
     ascii_to_i64 (out @ [NUL]) = Some (length out, sint (- 42 :: u64))"
  by (rule print_long_read_back) simp

lemma parse_flags_skip:
  "list_all (\<lambda>c. flag_of c \<noteq> None) fl \<Longrightarrow> flag_of c = None \<Longrightarrow> \<exists>flags'. parse_flags (fl @ c # rest) flags = Some (c # rest, flags')"
  by (induction fl arbitrary: flags) auto

lemma directive_star:
  assumes "list_all (\<lambda>c. flag_of c \<noteq> None) fl"
  shows "directive s (fl @ CHR ''*'' # rest) args =
    (case va_int args of None \<Rightarrow> None | Some (w, args) \<Rightarrow> Some (put_char_wrapper s CHR ''*'', rest, args))"
proof -
  have "flag_of CHR ''*'' = None" by (simp add: flag_of_def)
  then obtain flags where "parse_flags (fl @ CHR ''*'' # rest) 0 = Some (CHR ''*'' # rest, flags)"
    using parse_flags_skip[OF assms, of "CHR ''*''" rest 0] by blast
  moreover have "\<not> is_dec_digit CHR ''*''" by (simp add: is_dec_digit_iff)
  ultimately show ?thesis
    by (cases "va_int args")
      (auto simp: directive_def parse_width_def parse_precision_def parse_length_def convert_def peek_def)
qed

lemma print_plain:
  "list_all (\<lambda>c. c \<noteq> NUL \<and> c \<noteq> CHR ''%'') tail \<Longrightarrow>
   ftprintv_loop s (tail @ [NUL]) args = Some (put_char_wrapper (put_chars s tail) NUL)"
  by (induction tail arbitrary: s) (auto simp: put_chars_def)

text \<open>
  C29. A width given by an asterisk is never used, whatever the destination, the flags before it and what follows it:
  the printer reads the argument of the width, does not step over the asterisk, takes it for the conversion and prints
  it, and goes on with what follows (precision, length and conversion) as with ordinary text, all the same for
  every width. Into an array, a directive with such a width and no other percent sign puts the asterisk and its
  own precision, length and conversion, and never its value.
\<close>

theorem print_star_width:
  assumes "list_all (\<lambda>c. flag_of c \<noteq> None) fl"
  shows "ftprintv_loop s (CHR ''%'' # fl @ CHR ''*'' # rest) (AInt w # args) = ftprintv_loop (put_char_wrapper s CHR ''*'') rest args \<and>
    (list_all (\<lambda>c. c \<noteq> NUL \<and> c \<noteq> CHR ''%'') tail \<longrightarrow>
      ftprint_char_array dst False (CHR ''%'' # fl @ CHR ''*'' # tail @ [NUL]) (AInt w # args) =
        Some (dst @ ''*'' @ tail, length tail + 2))"
proof (intro conjI impI)
  show "ftprintv_loop s (CHR ''%'' # fl @ CHR ''*'' # rest) (AInt w # args) = ftprintv_loop (put_char_wrapper s CHR ''*'') rest args"
    using directive_star[OF assms, of s rest "AInt w # args"] by simp
  assume plain: "list_all (\<lambda>c. c \<noteq> NUL \<and> c \<noteq> CHR ''%'') tail"
  then have "NUL \<notin> set tail" by (auto simp: list_all_iff)
  then show "ftprint_char_array dst False (CHR ''%'' # fl @ CHR ''*'' # tail @ [NUL]) (AInt w # args) =
      Some (dst @ ''*'' @ tail, length tail + 2)"
    by (simp add: directive_star[OF assms, of _ "tail @ [NUL]" "AInt w # args"] print_plain[OF plain] ftprint_char_array_def ftprintv_def put_chars_array[where nt = False] put_char_wrapper_def putc_array_def)
qed

theorem print_star_width_witness:
  "ftprint_char_array [] False (''%-0*.3ld'' @ [NUL]) [AInt 8, ALong 42] = Some (''*.3ld'', 6)"
proof -
  have "list_all (\<lambda>c. flag_of c \<noteq> None) ''-0''" "list_all (\<lambda>c. c \<noteq> NUL \<and> c \<noteq> CHR ''%'') ''.3ld''"
    by (simp_all add: flag_of_def)
  from conjunct2[OF print_star_width[OF this(1), of "undefined :: unit PrintState" "[]" 8 "[ALong 42]" "''.3ld''" "[]"], rule_format, OF this(2)]
  show ?thesis by simp
qed

end
