(* ===== verification/Decimal_Float.thy ===== *)
theory Decimal_Float
  imports Cstring
begin

text \<open>
  The part of \<open>strtod\<close> and \<open>strtof\<close> of the C library that the lexer uses: the longest prefix that is a decimal
  floating-point number, and its value correctly rounded (to nearest, ties to even) to the binary format. Texts begin
  with a digit or a point; a hexadecimal prefix is outside of the model (\<open>None\<close>).
\<close>

text \<open>The characters up to the first that does not satisfy the predicate, and the rest from there.\<close>

fun run :: "(char \<Rightarrow> bool) \<Rightarrow> string \<Rightarrow> (string \<times> string) option" where
  "run P [] = None"
| "run P (c # cs) = (if P c then do { (xs, r) \<leftarrow> run P cs; Some (c # xs, r) } else Some ([], c # cs))"

definition digits_nat :: "string \<Rightarrow> nat" where
  "digits_nat cs = foldl (\<lambda>v c. 10 * v + (of_char c - 48)) 0 cs"

text \<open>The exponent part with its length; without digits it is not part of the number.\<close>

definition exponent_part :: "string \<Rightarrow> (int \<times> nat) option" where
  "exponent_part cs =
     (case cs of
        [] \<Rightarrow> None
      | c # r \<Rightarrow>
          if c = CHR ''e'' \<or> c = CHR ''E'' then
            (case r of
               [] \<Rightarrow> None
             | s # r' \<Rightarrow> do {
                 (ds, _) \<leftarrow> run is_dec_digit (if s = CHR ''-'' \<or> s = CHR ''+'' then r' else r);
                 Some (if ds = [] then (0, 0)
                   else ((if s = CHR ''-'' then - int (digits_nat ds) else int (digits_nat ds)),
                         1 + (if s = CHR ''-'' \<or> s = CHR ''+'' then 1 else 0) + length ds)) })
          else Some (0, 0))"

text \<open>The number as an integer and a power of ten, and how many characters it takes.\<close>

definition decimal_prefix :: "string \<Rightarrow> (nat \<times> int \<times> nat) option" where
  "decimal_prefix cs = do {
     (ds1, r1) \<leftarrow> run is_dec_digit cs;
     assert_opt (\<not> (ds1 = ''0'' \<and> r1 \<noteq> [] \<and> (hd r1 = CHR ''x'' \<or> hd r1 = CHR ''X'')));
     (ds2, r2, k) \<leftarrow> (if r1 \<noteq> [] \<and> hd r1 = CHR ''.'' then do { (ds, r) \<leftarrow> run is_dec_digit (tl r1); Some (ds, r, 1) }
                       else Some ([], r1, 0));
     if ds1 = [] \<and> ds2 = [] then Some (0, 0, 0)
     else do {
       (e, n) \<leftarrow> exponent_part r2;
       Some (digits_nat (ds1 @ ds2), e - int (length ds2), length ds1 + k + length ds2 + n) } }"

section \<open>Rounding\<close>

fun bit_len :: "nat \<Rightarrow> nat" where
  "bit_len n = (if n = 0 then 0 else 1 + bit_len (n div 2))"

declare bit_len.simps [simp del]

text \<open>The numerator and denominator of a fraction in units of two to the \<open>e\<close>.\<close>

definition in_units :: "nat \<Rightarrow> nat \<Rightarrow> int \<Rightarrow> nat \<times> nat" where
  "in_units num den e = (if e \<ge> 0 then (num, den * 2 ^ nat e) else (num * 2 ^ nat (- e), den))"

definition round_half_even :: "nat \<Rightarrow> nat \<Rightarrow> nat" where
  "round_half_even n d =
     (let q = n div d; r = n mod d in if 2 * r > d \<or> (2 * r = d \<and> odd q) then q + 1 else q)"

text \<open>
  The bits of the binary float with \<open>p\<close> digits of precision and the least exponent \<open>emin\<close>: the exponent field counts
  from \<open>emin\<close>, and a significand that reaches the next power of two carries into it.
\<close>

definition round_exponent :: "nat \<Rightarrow> int \<Rightarrow> nat \<Rightarrow> nat \<Rightarrow> int" where
  "round_exponent p emin num den =
     (let e = max emin (int (bit_len num) - int (bit_len den) - int p);
          (n, d) = in_units num den e
      in if n div d < 2 ^ p then e else e + 1)"

definition round_bits :: "nat \<Rightarrow> int \<Rightarrow> nat \<Rightarrow> nat \<Rightarrow> nat" where
  "round_bits p emin num den =
     (let e = round_exponent p emin num den;
          (n, d) = in_units num den e
      in nat (e - emin) * 2 ^ (p - 1) + round_half_even n d)"

definition decimal_ratio :: "nat \<Rightarrow> int \<Rightarrow> nat \<times> nat" where
  "decimal_ratio n e = (if e \<ge> 0 then (n * 10 ^ nat e, 1) else (n, 10 ^ nat (- e)))"

definition HUGE_VAL :: nat where "HUGE_VAL = 0x7FF0000000000000"
definition HUGE_VALF :: nat where "HUGE_VALF = 0x7F800000"

text \<open>The bits and the number of characters read.\<close>

definition strtod :: "string \<Rightarrow> (nat \<times> nat) option" where
  "strtod cs = do {
     (n, e, len) \<leftarrow> decimal_prefix cs;
     let (num, den) = decimal_ratio n e;
     Some (min (round_bits 53 (-1074) num den) HUGE_VAL, len) }"

definition strtof :: "string \<Rightarrow> (nat \<times> nat) option" where
  "strtof cs = do {
     (n, e, len) \<leftarrow> decimal_prefix cs;
     let (num, den) = decimal_ratio n e;
     Some (min (round_bits 24 (-149) num den) HUGE_VALF, len) }"

end
