(* ===== verification/Lexer.thy ===== *)
theory Lexer
  imports Decimal_Float Print Intern
begin

text \<open>
  The lexer (\<open>src/src/lexer/module.h\<close>, \<open>module.c\<close>). A text is the list of its characters with the terminator; the
  state holds the characters from the current one on, so that a read past the end is \<open>None\<close>. Errors and line positions
  are kept when there is an error stream and an array for them (\<open>lexer_on_error\<close>, \<open>lexer_on_line\<close>); memory for an
  error is assumed to be had. \<open>scan_raw\<close> is all of \<open>scan_token\<close> but the interning.
\<close>

section \<open>Tokens\<close>

datatype TokenKind =
    TKN_INVALID | TKN_EOF | TKN_LPAREN | TKN_RPAREN | TKN_LBRACE | TKN_RBRACE | TKN_LBRACKET | TKN_RBRACKET
  | TKN_SEMICOLON | TKN_COLON | TKN_DBL_COLON | TKN_COMMA | TKN_DOT | TKN_ELLIPSIS | TKN_UNINIT | TKN_ARROW | TKN_CAST
  | TKN_BIT_CAST | TKN_AT | TKN_STR | TKN_IDENT | TKN_KW | TKN_INT | TKN_FLOAT | TKN_ASTERISK | TKN_DIV | TKN_MOD
  | TKN_DIVMOD | TKN_RSHIFT | TKN_LSHIFT | TKN_AND | TKN_LOGIC_AND | TKN_LOGIC_OR | TKN_NOT | TKN_NEG | TKN_QUESTION
  | TKN_EQ | TKN_NOTEQ | TKN_GT | TKN_GTEQ | TKN_LT | TKN_LTEQ | TKN_PLUS | TKN_MINUS | TKN_OR | TKN_CARET | TKN_ASSIGN
  | TKN_ADD_ASSIGN | TKN_SUB_ASSIGN | TKN_MUL_ASSIGN | TKN_DIV_ASSIGN | TKN_MOD_ASSIGN | TKN_AND_ASSIGN | TKN_OR_ASSIGN
  | TKN_XOR_ASSIGN | TKN_RSHIFT_ASSIGN | TKN_LSHIFT_ASSIGN

datatype TokenIntRep = TKN_INT_BIN | TKN_INT_OCT | TKN_INT_DEC | TKN_INT_HEX | TKN_INT_CHAR

datatype TokenIntSuffix = TKN_INT_SUFFIX_NONE | TKN_INT_SUFFIX_U | TKN_INT_SUFFIX_S

record TokenInt =
  ti_value :: u64
  ti_rep :: TokenIntRep
  ti_suffix :: TokenIntSuffix

record TokenFloat =
  tf_kind :: FloatKind
  tf_value :: u64

text \<open>The member of the union that the kind selects.\<close>

datatype TokenValue = NoValue | AsInt TokenInt | AsFloat TokenFloat | AsIdent u64 | AsKW u64 | AsStr u64

record Token =
  tk_kind :: TokenKind
  tk_range :: ProgRange
  tk_value :: TokenValue

definition token_kind_names :: "(TokenKind \<times> string) list" where
  "token_kind_names =
     [(TKN_INVALID, ''<invalid>''), (TKN_EOF, ''<eof>''), (TKN_LPAREN, ''(''), (TKN_RPAREN, '')''), (TKN_LBRACE, ''{''),
      (TKN_RBRACE, ''}''), (TKN_LBRACKET, ''[''), (TKN_RBRACKET, '']''), (TKN_SEMICOLON, '';''), (TKN_COLON, '':''),
      (TKN_DBL_COLON, ''::''), (TKN_COMMA, '',''), (TKN_DOT, ''.''), (TKN_ELLIPSIS, ''..''), (TKN_UNINIT, ''---''),
      (TKN_ARROW, ''=>''), (TKN_CAST, '':>''), (TKN_BIT_CAST, '':>>''), (TKN_AT, ''@''), (TKN_STR, ''string literal''),
      (TKN_IDENT, ''identifier''), (TKN_KW, ''keyword''), (TKN_INT, ''integer literal''),
      (TKN_FLOAT, ''floating-point literal''), (TKN_PLUS, ''+''), (TKN_MINUS, ''-''), (TKN_ASTERISK, ''*''),
      (TKN_DIV, ''/''), (TKN_MOD, ''%''), (TKN_DIVMOD, ''/%''), (TKN_RSHIFT, ''>>''), (TKN_LSHIFT, ''<<''),
      (TKN_AND, ''&''), (TKN_OR, ''|''), (TKN_CARET, ''^''), (TKN_LOGIC_AND, ''&&''), (TKN_LOGIC_OR, ''||''),
      (TKN_NOT, ''!''), (TKN_NEG, ''~''), (TKN_QUESTION, ''?''), (TKN_EQ, ''==''), (TKN_NOTEQ, ''!=''), (TKN_GT, ''>''),
      (TKN_GTEQ, ''>=''), (TKN_LT, ''<''), (TKN_LTEQ, ''<=''), (TKN_ASSIGN, ''=''), (TKN_ADD_ASSIGN, ''+=''),
      (TKN_SUB_ASSIGN, ''-=''), (TKN_MUL_ASSIGN, ''*=''), (TKN_DIV_ASSIGN, ''/=''), (TKN_AND_ASSIGN, ''&=''),
      (TKN_OR_ASSIGN, ''|=''), (TKN_XOR_ASSIGN, ''^=''), (TKN_MOD_ASSIGN, ''%=''), (TKN_RSHIFT_ASSIGN, ''>>=''),
      (TKN_LSHIFT_ASSIGN, ''<<='')]"

section \<open>State\<close>

record Lexer =
  lx_at :: string
  lx_pos :: nat
  lx_start :: ProgPos
  lx_errors :: "(ProgRange \<times> string) list option"
  lx_line_pos :: "ProgPos list option"
  lx_idents :: "Identifier InternTab"
  lx_strs :: "StrLit InternTab"

abbreviation at0 :: "Lexer \<Rightarrow> char option" where
  "at0 l \<equiv> peek (lx_at l)"

definition at1 :: "Lexer \<Rightarrow> char option" where
  "at1 l = peek (tl (lx_at l))"

text \<open>\<open>lexer->at++\<close>\<close>

definition adv :: "Lexer \<Rightarrow> Lexer option" where
  "adv l = (case lx_at l of [] \<Rightarrow> None | _ # r \<Rightarrow> Some (l\<lparr>lx_at := r, lx_pos := lx_pos l + 1\<rparr>))"

text \<open>\<open>LEXER_POS\<close>; \<open>lexer_calc_pos\<close> of a pointer that was saved is this position at that time.\<close>

definition lexer_pos :: "Lexer \<Rightarrow> ProgPos" where
  "lexer_pos l = of_nat (lx_pos l) + lx_start l"

text \<open>
  An error stream is the list of its errors, absent for the null pointer. A message is what the format gives, cut to
  the size of the buffer.
\<close>

definition MAX_ERROR_LEN :: nat where "MAX_ERROR_LEN = 256"

definition error_stream_add :: "(ProgRange \<times> string) list option \<Rightarrow> ProgRange \<Rightarrow> string \<Rightarrow> (ProgRange \<times> string) list option" where
  "error_stream_add stream rng msg = map_option (\<lambda>errs. errs @ [(rng, msg)]) stream"

definition report_error :: "(ProgRange \<times> string) list option \<Rightarrow> ProgRange \<Rightarrow> string \<Rightarrow> (ProgRange \<times> string) list option" where
  "report_error stream rng msg = error_stream_add stream rng (take (MAX_ERROR_LEN - 1) msg @ [NUL])"

definition lexer_on_error :: "Lexer \<Rightarrow> ProgPos \<Rightarrow> ProgPos \<Rightarrow> string \<Rightarrow> Lexer" where
  "lexer_on_error l s e msg =
     (case lx_errors l of
        None \<Rightarrow> l
      | Some errs \<Rightarrow> l\<lparr>lx_errors := error_stream_add (Some errs) \<lparr>rg_start = s, rg_end = e\<rparr> (take (MAX_ERROR_LEN - 1) msg @ [NUL])\<rparr>)"

text \<open>The common range: from a start up to the current character.\<close>

definition error_here :: "Lexer \<Rightarrow> ProgPos \<Rightarrow> string \<Rightarrow> Lexer" where
  "error_here l start msg = lexer_on_error l start (lexer_pos l + 1) msg"

definition lexer_on_line :: "Lexer \<Rightarrow> Lexer" where
  "lexer_on_line l =
     (case lx_line_pos l of None \<Rightarrow> l | Some ps \<Rightarrow> l\<lparr>lx_line_pos := Some (ps @ [lexer_pos l + 1])\<rparr>)"

text \<open>The loops that step over characters.\<close>

definition skip_while :: "(char \<Rightarrow> bool) \<Rightarrow> Lexer \<Rightarrow> Lexer option" where
  "skip_while P l = do { (cs, r) \<leftarrow> run P (lx_at l); Some (l\<lparr>lx_at := r, lx_pos := lx_pos l + length cs\<rparr>) }"

definition skip_word_end :: "Lexer \<Rightarrow> Lexer option" where
  "skip_word_end l = skip_while (\<lambda>c. c \<noteq> NUL \<and> is_alphanum c) l"

definition skip_char :: "char \<Rightarrow> Lexer \<Rightarrow> Lexer option" where
  "skip_char c l = do { a \<leftarrow> at0 l; if a = c then adv l else Some l }"

lemma adv_Some: "adv l = Some l' \<longleftrightarrow> (\<exists>c r. lx_at l = c # r \<and> l' = l\<lparr>lx_at := r, lx_pos := lx_pos l + 1\<rparr>)"
  by (auto simp: adv_def split: list.splits)

lemma adv_length: "adv l = Some l' \<Longrightarrow> length (lx_at l') < length (lx_at l)"
  by (auto simp: adv_Some split: if_splits)

lemma on_line_at [simp]: "lx_at (lexer_on_line l) = lx_at l" "lx_pos (lexer_on_line l) = lx_pos l"
  by (simp_all add: lexer_on_line_def split: option.splits)

lemma on_error_at [simp]: "lx_at (lexer_on_error l s e m) = lx_at l" "lx_pos (lexer_on_error l s e m) = lx_pos l"
  by (simp_all add: lexer_on_error_def split: option.splits)

lemma error_here_at [simp]: "lx_at (error_here l s m) = lx_at l" "lx_pos (error_here l s m) = lx_pos l"
  by (simp_all add: error_here_def)

section \<open>Comments and spaces\<close>

function comment_loop :: "Lexer \<Rightarrow> int \<Rightarrow> ProgPos \<Rightarrow> (Lexer \<times> int \<times> ProgPos) option" where
  "comment_loop l level start = do {
     c \<leftarrow> at0 l;
     if c \<noteq> NUL \<and> level > 0 then do {
       d \<leftarrow> at1 l;
       if c = CHR ''/'' \<and> d = CHR ''*'' then do {
         l1 \<leftarrow> adv l; l2 \<leftarrow> adv l1;
         comment_loop l2 (level + 1) (lexer_pos l) }
       else if c = CHR ''*'' \<and> d = CHR ''/'' then do {
         l1 \<leftarrow> adv l; l2 \<leftarrow> adv l1;
         comment_loop l2 (level - 1) start }
       else do {
         l1 \<leftarrow> adv (if c = NL then lexer_on_line l else l);
         comment_loop l1 level start } }
     else Some (l, level, start) }"
  by pat_completeness auto
termination
  by (relation "measure (\<lambda>(l, level, start). length (lx_at l))") (auto simp: adv_Some split: if_splits)

declare comment_loop.simps [simp del]

definition skip_c_comment :: "Lexer \<Rightarrow> Lexer option" where
  "skip_c_comment l = do {
     c \<leftarrow> at0 l; assert_opt (c = CHR ''/'');
     d \<leftarrow> at1 l; assert_opt (d = CHR ''*'');
     let start = lexer_pos l;
     l \<leftarrow> adv l; l \<leftarrow> adv l;
     (l, level, start) \<leftarrow> comment_loop l 1 start;
     Some (if level > 0 then lexer_on_error l start (start + 2) (''Missing closing '' @ [SQUOTE] @ ''*/'' @ [SQUOTE] @ '' for c-style comment.'')
           else l) }"

function skip_spaces :: "Lexer \<Rightarrow> Lexer option" where
  "skip_spaces l = do {
     c \<leftarrow> at0 l;
     if is_whitespace c then do {
       l1 \<leftarrow> adv (if c = NL then lexer_on_line l else l);
       skip_spaces l1 }
     else Some l }"
  by pat_completeness auto
termination
  by (relation "measure (\<lambda>l. length (lx_at l))") (auto simp: adv_Some split: if_splits)

declare skip_spaces.simps [simp del]

section \<open>Numbers\<close>

datatype ScanDigitsErr = SCAN_DIGITS_ERR_NONE | SCAN_DIGITS_ERR_EXCEED_BASE | SCAN_DIGITS_ERR_OVERFLOW

function scan_digits_loop :: "Lexer \<Rightarrow> u64 \<Rightarrow> u64 \<Rightarrow> u64 \<Rightarrow> (ScanDigitsErr \<times> u64 \<times> Lexer) option" where
  "scan_digits_loop l base mx v = do {
     c \<leftarrow> at0 l;
     let biased = biased_digit c;
     if biased = 0 then Some (SCAN_DIGITS_ERR_NONE, v, l)
     else do {
       let digit = of_nat (biased - 1);
       if digit \<ge> base then Some (SCAN_DIGITS_ERR_EXCEED_BASE, 0, l)
       else if v > (mx - digit) div base then Some (SCAN_DIGITS_ERR_OVERFLOW, 0, l)
       else do {
         l1 \<leftarrow> adv l;
         a \<leftarrow> at0 l1;
         l2 \<leftarrow> (if a = CHR ''_'' then adv l1 else Some l1);
         scan_digits_loop l2 base mx (v * base + digit) } } }"
  by pat_completeness auto
termination
  by (relation "measure (\<lambda>(l, base, mx, v). length (lx_at l))") (auto simp: adv_Some split: if_splits)

declare scan_digits_loop.simps [simp del]

definition scan_digits :: "Lexer \<Rightarrow> u64 \<Rightarrow> u64 \<Rightarrow> (ScanDigitsErr \<times> u64 \<times> Lexer) option" where
  "scan_digits l base mx = scan_digits_loop l base mx 0"

text \<open>A character, a number in base ten or sixteen, and a quoted character in a message.\<close>

definition dec_text :: "nat \<Rightarrow> string" where "dec_text n = rev (int_digits n 10 False [])"
definition hex_text :: "nat \<Rightarrow> string" where "hex_text n = rev (int_digits n 16 True [])"
definition quoted :: "string \<Rightarrow> string" where "quoted s = [SQUOTE] @ s @ [SQUOTE]"

definition scan_base :: "Lexer \<Rightarrow> (TokenIntRep \<times> u64 \<times> Lexer) option" where
  "scan_base l = do {
     c \<leftarrow> at0 l;
     if c = CHR ''0'' then do {
       l \<leftarrow> adv l;
       c \<leftarrow> at0 l;
       if c = CHR ''x'' \<or> c = CHR ''X'' then do { l \<leftarrow> adv l; Some (TKN_INT_HEX, 16, l) }
       else if c = CHR ''b'' \<or> c = CHR ''B'' then do { l \<leftarrow> adv l; Some (TKN_INT_BIN, 2, l) }
       else if is_dec_digit c then Some (TKN_INT_OCT, 8, l)
       else Some (TKN_INT_DEC, 10, l) }
     else Some (TKN_INT_DEC, 10, l) }"

definition scan_suffix :: "Lexer \<Rightarrow> (TokenIntSuffix \<times> Lexer) option" where
  "scan_suffix l = do {
     c \<leftarrow> at0 l;
     if c = CHR ''u'' then do { l \<leftarrow> adv l; Some (TKN_INT_SUFFIX_U, l) }
     else if c = CHR ''s'' then do { l \<leftarrow> adv l; Some (TKN_INT_SUFFIX_S, l) }
     else Some (TKN_INT_SUFFIX_NONE, l) }"

definition scan_int :: "Lexer \<Rightarrow> (TokenInt \<times> Lexer) option" where
  "scan_int l = do {
     c \<leftarrow> at0 l;
     assert_opt (is_dec_digit c);
     let start = lexer_pos l;
     let text = lx_at l;
     (rep, base, l) \<leftarrow> scan_base l;
     let tint = \<lparr>ti_value = 0, ti_rep = rep, ti_suffix = TKN_INT_SUFFIX_NONE\<rparr>;
     c \<leftarrow> at0 l;
     if biased_digit c = 0 \<and> base \<noteq> 10 then do {
       l \<leftarrow> skip_word_end (error_here l start (''Invalid integer literal character '' @ quoted [c] @ '' after base specifier''));
       Some (tint, l) }
     else do {
       (err, v, l) \<leftarrow> scan_digits l base (- 1);
       c \<leftarrow> at0 l;
       if err = SCAN_DIGITS_ERR_EXCEED_BASE then do {
         l \<leftarrow> skip_word_end (error_here l start
                (''Integer literal digit ('' @ [c] @ '') is outside of base ('' @ dec_text (unat base) @ '') range''));
         Some (tint, l) }
       else if err = SCAN_DIGITS_ERR_OVERFLOW then do {
         l \<leftarrow> skip_word_end (error_here l start
                (''Integer literal '' @ take (length text - length (lx_at l)) text @ '' is too large for its type''));
         Some (tint, l) }
       else do {
         (suffix, l) \<leftarrow> scan_suffix l;
         let tint = tint\<lparr>ti_value := v, ti_suffix := suffix\<rparr>;
         c \<leftarrow> at0 l;
         if is_alphanum c then do {
           l \<leftarrow> skip_word_end (error_here l start (''Invalid integer literal character '' @ quoted [c] @ '' after suffix''));
           Some (tint, l) }
         else Some (tint, l) } } }"

text \<open>\<open>strtof\<close> and \<open>strtod\<close> read the text again from the start of the literal; they must stop where the lexer did.\<close>

definition float_value :: "Lexer \<Rightarrow> Lexer \<Rightarrow> (TokenFloat \<times> Lexer) option" where
  "float_value l0 l = do {
     let start = lexer_pos l0;
     let tfloat = \<lparr>tf_kind = FLOAT_F64, tf_value = 0\<rparr>;
     c \<leftarrow> at0 l;
     if c = CHR ''f'' \<or> c = CHR ''F'' then do {
       l \<leftarrow> adv l;
       (v, len) \<leftarrow> strtof (lx_at l0);
       assert_opt (lx_pos l0 + len + 1 = lx_pos l);
       if v = HUGE_VALF then Some (tfloat, error_here l start ''32-bit floating-point literal is too large'')
       else Some (\<lparr>tf_kind = FLOAT_F32, tf_value = of_nat v\<rparr>, l) }
     else do {
       (v, len) \<leftarrow> strtod (lx_at l0);
       assert_opt (lx_pos l0 + len = lx_pos l);
       if v = HUGE_VAL then Some (tfloat, error_here l start ''64-bit floating-point literal is too large'')
       else Some (\<lparr>tf_kind = FLOAT_F64, tf_value = of_nat v\<rparr>, l) } }"

definition scan_float :: "Lexer \<Rightarrow> (TokenFloat \<times> Lexer) option" where
  "scan_float l0 = do {
     c \<leftarrow> at0 l0;
     assert_opt (is_dec_digit c \<or> c = CHR ''.'');
     l \<leftarrow> skip_while is_dec_digit l0;
     l \<leftarrow> skip_char CHR ''.'' l;
     l \<leftarrow> skip_while is_dec_digit l;
     c \<leftarrow> at0 l;
     if c = CHR ''e'' \<or> c = CHR ''E'' then do {
       l \<leftarrow> adv l;
       c \<leftarrow> at0 l;
       l \<leftarrow> (if c = CHR ''-'' \<or> c = CHR ''+'' then adv l else Some l);
       c \<leftarrow> at0 l;
       if \<not> is_dec_digit c then do {
         l \<leftarrow> skip_word_end (error_here l (lexer_pos l0)
                (''Unexpected character '' @ quoted [c] @ '' after floating point literal'' @ [SQUOTE] @ ''s exponent''));
         Some (\<lparr>tf_kind = FLOAT_F64, tf_value = 0\<rparr>, l) }
       else do {
         l \<leftarrow> skip_while is_dec_digit l;
         float_value l0 l } }
     else float_value l0 l }"

section \<open>Characters and strings\<close>

text \<open>The value, or a negative number.\<close>

definition scan_hex_escape :: "Lexer \<Rightarrow> (int \<times> Lexer) option" where
  "scan_hex_escape l = do {
     let start = lexer_pos l;
     c \<leftarrow> at0 l;
     let biased = biased_digit c;
     if biased = 0 \<or> biased - 1 \<ge> 16 then
       Some (- 1, lexer_on_error l start (start + 1) (''Invalid hex character digit '' @ quoted [c]))
     else do {
       let v = int (biased - 1);
       l \<leftarrow> adv l;
       c \<leftarrow> at0 l;
       let biased = biased_digit c;
       if biased \<noteq> 0 then
         (if biased - 1 \<ge> 16 then
            Some (- 1, error_here l start
              (''Invalid hex character digit '' @ quoted (''0x'' @ hex_text (unat (promote c))) @ '' is larger than 0x'' @ hex_text 15))
          else do { l \<leftarrow> adv l; Some (v * 16 + int (biased - 1), l) })
       else Some (v, l) } }"

text \<open>After the backslash: the character and what comes next. The error range starts at the literal.\<close>

definition string_escape :: "Lexer \<Rightarrow> ProgPos \<Rightarrow> (char \<times> Lexer) option" where
  "string_escape l start = do {
     c \<leftarrow> at0 l;
     if c = CHR ''x'' \<or> c = CHR ''X'' then do {
       l \<leftarrow> adv l;
       (hex_val, l) \<leftarrow> scan_hex_escape l;
       if hex_val < 0 then do { l \<leftarrow> skip_word_end l; Some (CHR ''?'', l) }
       else Some (char_of (nat hex_val), l) }
     else do {
       let d = unescape_char c;
       let l = (if d = NUL \<and> c \<noteq> CHR ''0'' then error_here l start (''Invalid escaped character '' @ quoted (BSLASH # [c])) else l);
       l \<leftarrow> adv l;
       Some (d, l) } }"

lemma run_length: "run P cs = Some (xs, r) \<Longrightarrow> cs = xs @ r \<and> list_all P xs \<and> r \<noteq> [] \<and> \<not> P (hd r)"
  by (induction cs arbitrary: xs) (auto split: if_splits bind_splits)

lemma skip_while_le: "skip_while P l = Some l' \<Longrightarrow> length (lx_at l') \<le> length (lx_at l)"
  by (auto simp: skip_while_def split: bind_splits dest!: run_length)

lemma scan_hex_escape_le: "scan_hex_escape l = Some (v, l') \<Longrightarrow> length (lx_at l') \<le> length (lx_at l)"
  by (auto simp: scan_hex_escape_def Let_def adv_Some split: bind_splits if_splits)

lemma string_escape_le: "string_escape l start = Some (c, l') \<Longrightarrow> length (lx_at l') < length (lx_at l)"
  by (fastforce simp: string_escape_def skip_word_end_def Let_def adv_Some split: bind_splits if_splits
      dest: scan_hex_escape_le skip_while_le)

function string_loop :: "Lexer \<Rightarrow> ProgPos \<Rightarrow> string \<Rightarrow> (string \<times> Lexer) option" where
  "string_loop l start tmp = do {
     c \<leftarrow> at0 l;
     if c \<noteq> NUL \<and> c \<noteq> DQUOTE \<and> c \<noteq> NL then do {
       l1 \<leftarrow> adv l;
       (d, l2) \<leftarrow> (if c = BSLASH then string_escape l1 start else Some (c, l1));
       string_loop l2 start (tmp @ [d]) }
     else Some (tmp, l) }"
  by pat_completeness auto
termination
  by (relation "measure (\<lambda>(l, start, tmp). length (lx_at l))")
     (auto simp: adv_Some split: if_splits dest!: string_escape_le)

declare string_loop.simps [simp del]

text \<open>All of \<open>scan_string\<close> but the interning of the characters.\<close>

definition scan_string :: "Lexer \<Rightarrow> (string \<times> Lexer) option" where
  "scan_string l = do {
     c \<leftarrow> at0 l;
     assert_opt (c = DQUOTE);
     let start = lexer_pos l;
     l \<leftarrow> adv l;
     (tmp, l) \<leftarrow> string_loop l start [];
     c \<leftarrow> at0 l;
     if c = DQUOTE then do { l \<leftarrow> adv l; Some (tmp, l) }
     else if c = NL then do {
       l \<leftarrow> adv (lexer_on_line (error_here l start ''String literal cannot span multiple lines''));
       l \<leftarrow> skip_char DQUOTE l;
       Some (tmp, l) }
     else Some (tmp, error_here l start ''Encountered end-of-file while parsing string literal'') }"

text \<open>A \<open>char\<close> is signed; its conversion to 64 bits extends the sign.\<close>

definition char_value :: "char \<Rightarrow> u64" where
  "char_value c = scast (of_char c :: 8 word)"

definition char_body :: "Lexer \<Rightarrow> ProgPos \<Rightarrow> (u64 \<times> Lexer) option" where
  "char_body l start = do {
     c \<leftarrow> at0 l;
     if c = BSLASH then do {
       l \<leftarrow> adv l;
       c \<leftarrow> at0 l;
       if c = CHR ''x'' \<or> c = CHR ''X'' then do {
         l \<leftarrow> adv l;
         (hex_val, l) \<leftarrow> scan_hex_escape l;
         Some (if hex_val \<ge> 0 then of_int hex_val else 0, l) }
       else do {
         let d = unescape_char c;
         let l = (if d = NUL \<and> c \<noteq> CHR ''0'' then error_here l start (''Invalid escaped character '' @ quoted (BSLASH # [c])) else l);
         l \<leftarrow> adv l;
         Some (char_value d, l) } }
     else do { l \<leftarrow> adv l; Some (char_value c, l) } }"

definition scan_char :: "Lexer \<Rightarrow> (TokenInt \<times> Lexer) option" where
  "scan_char l = do {
     c \<leftarrow> at0 l;
     assert_opt (c = SQUOTE);
     let start = lexer_pos l;
     let tint = \<lparr>ti_value = 0, ti_rep = TKN_INT_CHAR, ti_suffix = TKN_INT_SUFFIX_NONE\<rparr>;
     l \<leftarrow> adv l;
     c \<leftarrow> at0 l;
     if c = SQUOTE then do {
       l \<leftarrow> adv (error_here l start ''Character literal cannot be empty'');
       Some (tint, l) }
     else if c = NL then do {
       l \<leftarrow> adv (lexer_on_line (error_here l start ''Character literal cannot contain a newline character''));
       l \<leftarrow> skip_char SQUOTE l;
       Some (tint, l) }
     else do {
       (v, l) \<leftarrow> char_body l start;
       let tint = tint\<lparr>ti_value := v\<rparr>;
       c \<leftarrow> at0 l;
       if c \<noteq> SQUOTE then do {
         l \<leftarrow> skip_word_end (error_here l start (''Missing closing character quote (found '' @ quoted [c] @ '' instead)''));
         l \<leftarrow> skip_char SQUOTE l;
         Some (tint, l) }
       else do { l \<leftarrow> adv l; Some (tint, l) } } }"

section \<open>Tokens of the text\<close>

definition is_ident_start :: "char \<Rightarrow> bool" where
  "is_ident_start c \<longleftrightarrow>
     c \<in> set ''abcdefghijklmnopqrstuvwxyzABCDEFGHIJKLMNOPQRSTUVWXYZ_#''"

definition is_op_start :: "char \<Rightarrow> bool" where
  "is_op_start c \<longleftrightarrow> c \<in> set ''/()[]{};:,@+-*%!><&|^~?=''"

text \<open>The characters with a case in the switch that makes a token.\<close>

definition starts_token :: "char \<Rightarrow> bool" where
  "starts_token c \<longleftrightarrow> c = NUL \<or> is_op_start c \<or> c = CHR ''.'' \<or> c \<in> set ''0123456789'' \<or> c = SQUOTE \<or> c = DQUOTE \<or> is_ident_start c"

definition is_space_case :: "char \<Rightarrow> bool" where
  "is_space_case c \<longleftrightarrow> c \<in> {CHR '' '', CHR 0x09, NL, CHR 0x0D, CHR 0x0B}"

text \<open>Everything that ends in \<open>goto top\<close>: the state at the next character that makes a token.\<close>

lemma skip_spaces_le: "skip_spaces l = Some l' \<Longrightarrow> length (lx_at l') \<le> length (lx_at l)"
proof (induction l arbitrary: l' rule: skip_spaces.induct)
  case (1 l)
  note eq = "1.prems"[unfolded skip_spaces.simps[of l]]
  show ?case
  proof (cases "is_whitespace (hd (lx_at l))")
    case True
    with eq obtain l1 where l1: "adv (if hd (lx_at l) = NL then lexer_on_line l else l) = Some l1" "skip_spaces l1 = Some l'" "lx_at l \<noteq> []"
      by (auto split: bind_splits)
    have "length (lx_at l') \<le> length (lx_at l1)" using 1 l1 True by (auto simp del: on_line_at)
    moreover have "length (lx_at l1) < length (lx_at l)" using l1(1) by (auto simp: adv_Some split: if_splits)
    ultimately show ?thesis by simp
  qed (use eq in \<open>auto split: bind_splits\<close>)
qed

lemma skip_spaces_less: "skip_spaces l = Some l' \<Longrightarrow> is_whitespace (hd (lx_at l)) \<Longrightarrow> length (lx_at l') < length (lx_at l)"
  by (subst (asm) skip_spaces.simps) (fastforce simp: adv_Some split: bind_splits if_splits dest: skip_spaces_le)

lemma comment_loop_le: "comment_loop l level start = Some (l', level', start') \<Longrightarrow> length (lx_at l') \<le> length (lx_at l)"
proof (induction "length (lx_at l)" arbitrary: l level start rule: less_induct)
  case less
  note eq = less.prems[unfolded comment_loop.simps[of l]]
  show ?case
  proof (rule ccontr)
    assume no: "\<not> length (lx_at l') \<le> length (lx_at l)"
    then obtain l1 level1 start1 where "comment_loop l1 level1 start1 = Some (l', level', start')" "length (lx_at l1) < length (lx_at l)"
      using eq by (auto simp: adv_Some split: bind_splits if_splits)
    then show False using less.hyps no by fastforce
  qed
qed

lemma skip_c_comment_less: "skip_c_comment l = Some l' \<Longrightarrow> length (lx_at l') < length (lx_at l)"
  by (fastforce simp: skip_c_comment_def Let_def adv_Some split: bind_splits if_splits dest: comment_loop_le)

lemma space_case_whitespace: "is_space_case c \<Longrightarrow> is_whitespace c"
  by (auto simp: is_space_case_def is_whitespace_def char_props_def)

lemma skip_while_less: "skip_while P l = Some l' \<Longrightarrow> P (hd (lx_at l)) \<Longrightarrow> length (lx_at l') < length (lx_at l)"
  by (cases "lx_at l") (auto simp: skip_while_def split: bind_splits if_splits dest!: run_length)

function skip_blanks :: "Lexer \<Rightarrow> Lexer option" where
  "skip_blanks l = do {
     c \<leftarrow> at0 l;
     if is_space_case c then do { l1 \<leftarrow> skip_spaces l; skip_blanks l1 }
     else if c = CHR ''/'' then do {
       d \<leftarrow> at1 l;
       if d = CHR ''/'' then do {
         l1 \<leftarrow> skip_while (\<lambda>c. c \<noteq> NUL \<and> c \<noteq> NL \<and> c \<noteq> CHR 0x0D) l;
         skip_blanks l1 }
       else if d = CHR ''*'' then do { l1 \<leftarrow> skip_c_comment l; skip_blanks l1 }
       else Some l }
     else if starts_token c then Some l
     else do {
       l1 \<leftarrow> adv (lexer_on_error l (lexer_pos l) (lexer_pos l + 1) (''Unexpected token character: '' @ [c]));
       skip_blanks l1 } }"
  by pat_completeness auto
termination
  by (relation "measure (\<lambda>l. length (lx_at l))")
     (auto simp: adv_Some split: if_splits dest!: skip_spaces_less skip_c_comment_less skip_while_less space_case_whitespace)

declare skip_blanks.simps [simp del]

text \<open>After an operator: the first alternative whose character follows.\<close>

fun op_alt :: "Lexer \<Rightarrow> TokenKind \<Rightarrow> (char \<times> TokenKind) list \<Rightarrow> (TokenKind \<times> Lexer) option" where
  "op_alt l k [] = Some (k, l)"
| "op_alt l k ((c, k') # alts) = do {
     a \<leftarrow> at0 l;
     if a = c then do { l \<leftarrow> adv l; Some (k', l) } else op_alt l k alts }"

definition scan_op :: "char \<Rightarrow> Lexer \<Rightarrow> (TokenKind \<times> Lexer) option" where
  "scan_op c l = do {
     l \<leftarrow> adv l;
     if c = CHR ''/'' then op_alt l TKN_DIV [(CHR ''='', TKN_DIV_ASSIGN), (CHR ''%'', TKN_DIVMOD)]
     else if c = CHR ''('' then Some (TKN_LPAREN, l)
     else if c = CHR '')'' then Some (TKN_RPAREN, l)
     else if c = CHR ''['' then Some (TKN_LBRACKET, l)
     else if c = CHR '']'' then Some (TKN_RBRACKET, l)
     else if c = CHR ''{'' then Some (TKN_LBRACE, l)
     else if c = CHR ''}'' then Some (TKN_RBRACE, l)
     else if c = CHR '';'' then Some (TKN_SEMICOLON, l)
     else if c = CHR '':'' then do {
       (k, l) \<leftarrow> op_alt l TKN_COLON [(CHR ''>'', TKN_CAST), (CHR '':'', TKN_DBL_COLON)];
       if k = TKN_CAST then op_alt l TKN_CAST [(CHR ''>'', TKN_BIT_CAST)] else Some (k, l) }
     else if c = CHR '','' then Some (TKN_COMMA, l)
     else if c = CHR ''@'' then Some (TKN_AT, l)
     else if c = CHR ''+'' then op_alt l TKN_PLUS [(CHR ''='', TKN_ADD_ASSIGN)]
     else if c = CHR ''-'' then do {
       a \<leftarrow> at0 l;
       if a = CHR ''='' then do { l \<leftarrow> adv l; Some (TKN_SUB_ASSIGN, l) }
       else if a = CHR ''-'' then do {
         b \<leftarrow> at1 l;
         if b = CHR ''-'' then do { l \<leftarrow> adv l; l \<leftarrow> adv l; Some (TKN_UNINIT, l) } else Some (TKN_MINUS, l) }
       else Some (TKN_MINUS, l) }
     else if c = CHR ''*'' then op_alt l TKN_ASTERISK [(CHR ''='', TKN_MUL_ASSIGN)]
     else if c = CHR ''%'' then op_alt l TKN_MOD [(CHR ''='', TKN_MOD_ASSIGN)]
     else if c = CHR ''!'' then op_alt l TKN_NOT [(CHR ''='', TKN_NOTEQ)]
     else if c = CHR ''>'' then do {
       (k, l) \<leftarrow> op_alt l TKN_GT [(CHR ''='', TKN_GTEQ), (CHR ''>'', TKN_RSHIFT)];
       if k = TKN_RSHIFT then op_alt l TKN_RSHIFT [(CHR ''='', TKN_RSHIFT_ASSIGN)] else Some (k, l) }
     else if c = CHR ''<'' then do {
       (k, l) \<leftarrow> op_alt l TKN_LT [(CHR ''='', TKN_LTEQ), (CHR ''<'', TKN_LSHIFT)];
       if k = TKN_LSHIFT then op_alt l TKN_LSHIFT [(CHR ''='', TKN_LSHIFT_ASSIGN)] else Some (k, l) }
     else if c = CHR ''&'' then op_alt l TKN_AND [(CHR ''&'', TKN_LOGIC_AND), (CHR ''='', TKN_AND_ASSIGN)]
     else if c = CHR ''|'' then op_alt l TKN_OR [(CHR ''|'', TKN_LOGIC_OR), (CHR ''='', TKN_OR_ASSIGN)]
     else if c = CHR ''^'' then op_alt l TKN_CARET [(CHR ''='', TKN_XOR_ASSIGN)]
     else if c = CHR ''~'' then Some (TKN_NEG, l)
     else if c = CHR ''?'' then Some (TKN_QUESTION, l)
     else op_alt l TKN_ASSIGN [(CHR ''='', TKN_EQ), (CHR ''>'', TKN_ARROW)] }"

text \<open>A token before interning.\<close>

datatype RawToken = RawOp TokenKind | RawInt TokenInt | RawFloat TokenFloat | RawName string | RawStr string

definition scan_raw :: "Lexer \<Rightarrow> (RawToken \<times> Lexer) option" where
  "scan_raw l = do {
     c \<leftarrow> at0 l;
     if c = CHR ''.'' then do {
       d \<leftarrow> at1 l;
       if is_dec_digit d then map_option (apfst RawFloat) (scan_float l)
       else if d = CHR ''.'' then do { l \<leftarrow> adv l; l \<leftarrow> adv l; Some (RawOp TKN_ELLIPSIS, l) }
       else do { l \<leftarrow> adv l; Some (RawOp TKN_DOT, l) } }
     else if is_op_start c then map_option (apfst RawOp) (scan_op c l)
     else if c \<in> set ''0123456789'' then do {
       (_, p) \<leftarrow> run is_dec_digit (lx_at l);
       d \<leftarrow> peek p;
       if d = CHR ''.'' \<or> d = CHR ''e'' \<or> d = CHR ''E'' then map_option (apfst RawFloat) (scan_float l)
       else map_option (apfst RawInt) (scan_int l) }
     else if c = SQUOTE then map_option (apfst RawInt) (scan_char l)
     else if c = DQUOTE then map_option (apfst RawStr) (scan_string l)
     else if is_ident_start c then do {
       l1 \<leftarrow> adv l;
       l1 \<leftarrow> skip_while is_alphanum l1;
       Some (RawName (take (lx_pos l1 - lx_pos l) (lx_at l)), l1) }
     else Some (RawOp TKN_EOF, l) }"

definition intern_raw :: "ProgPos \<Rightarrow> RawToken \<Rightarrow> Lexer \<Rightarrow> (TokenKind \<times> TokenValue \<times> Lexer) option" where
  "intern_raw start r l =
     (case r of
        RawOp k \<Rightarrow> Some (k, NoValue, l)
      | RawInt i \<Rightarrow> Some (TKN_INT, AsInt i, l)
      | RawFloat f \<Rightarrow> Some (TKN_FLOAT, AsFloat f, l)
      | RawStr cs \<Rightarrow> do {
          (p, strs) \<leftarrow> intern_str_lit (lx_strs l) cs;
          Some (TKN_STR, AsStr p, l\<lparr>lx_strs := strs\<rparr>) }
      | RawName name \<Rightarrow> do {
          (p, ids) \<leftarrow> intern_ident (lx_idents l) name;
          let l = l\<lparr>lx_idents := ids\<rparr>;
          ident \<leftarrow> it_heap ids p;
          case id_kind ident of
            IDENTIFIER_KEYWORD _ \<Rightarrow> Some (TKN_KW, AsKW p, l)
          | IDENTIFIER_INTRINSIC _ \<Rightarrow> Some (TKN_IDENT, AsIdent p, l)
          | IDENTIFIER_NAME \<Rightarrow> do {
              c \<leftarrow> peek (id_str ident);
              Some (TKN_IDENT, AsIdent p,
                if c = CHR ''#'' then lexer_on_error l start (lexer_pos l) ''Only intrinsics can begin with a `#` character'' else l) } })"

definition scan_token :: "Lexer \<Rightarrow> (Token \<times> Lexer) option" where
  "scan_token l = do {
     l \<leftarrow> skip_blanks l;
     let start = lexer_pos l;
     (r, l) \<leftarrow> scan_raw l;
     (kind, v, l) \<leftarrow> intern_raw start r l;
     Some (\<lparr>tk_kind = kind, tk_range = \<lparr>rg_start = start, rg_end = lexer_pos l\<rparr>, tk_value = v\<rparr>, l) }"

end
