(* ===== verification/Lexer_Correct.thy ===== *)
theory Lexer_Correct
  imports Lexer Cstring_Correct
begin

text \<open>
  Properties of the lexer.
\<close>

section \<open>Outcomes of computations\<close>

text \<open>The computation returns and its result has the property; with the rules for the combinators of the model.\<close>

definition sat :: "'a option \<Rightarrow> ('a \<Rightarrow> bool) \<Rightarrow> bool" where
  "sat r Q \<longleftrightarrow> (\<exists>y. r = Some y \<and> Q y)"

lemma sat_simps [simp]:
  "sat (Some y) Q \<longleftrightarrow> Q y"
  "sat None Q \<longleftrightarrow> False"
  "sat (Option.bind r f) Q \<longleftrightarrow> sat r (\<lambda>y. sat (f y) Q)"
  "sat (map_option g r) Q \<longleftrightarrow> sat r (\<lambda>y. Q (g y))"
  "sat (assert_opt b) R \<longleftrightarrow> b \<and> R ()"
  by (auto simp: sat_def bind_eq_Some_conv assert_opt_def)

lemma sat_mono: "sat r P \<Longrightarrow> (\<And>y. r = Some y \<Longrightarrow> P y \<Longrightarrow> Q y) \<Longrightarrow> sat r Q"
  by (auto simp: sat_def)

lemma sat_if: "sat (if b then r else s) Q \<longleftrightarrow> (if b then sat r Q else sat s Q)"
  by simp

section \<open>The text\<close>

text \<open>
  A text that ends with its only terminator, which no backslash and no single quote comes right before.
\<close>

fun ended :: "string \<Rightarrow> bool" where
  "ended [] \<longleftrightarrow> False"
| "ended (c # r) \<longleftrightarrow> (if c = NUL then r = [] else ended r \<and> (c \<in> {BSLASH, SQUOTE} \<longrightarrow> r \<noteq> [NUL]))"

lemma ended_not_Nil [simp]: "ended r \<Longrightarrow> r \<noteq> []"
  by auto

lemma ended_append: "NUL \<notin> set cs \<Longrightarrow> ended (cs @ r) \<Longrightarrow> ended r"
  by (induction cs) (auto split: if_splits)

lemma ended_iff: "ended (b @ [NUL]) \<longleftrightarrow> NUL \<notin> set b \<and> (b \<noteq> [] \<longrightarrow> last b \<notin> {BSLASH, SQUOTE})"
  by (induction b) auto

lemma ended_body: "ended t \<Longrightarrow> \<exists>b. t = b @ [NUL] \<and> NUL \<notin> set b"
proof (induction t)
  case (Cons c r)
  show ?case
  proof (cases "c = NUL")
    case False
    with Cons obtain b where "r = b @ [NUL] \<and> NUL \<notin> set b" by auto
    with False show ?thesis by (intro exI[of _ "c # b"]) simp
  qed (use Cons in simp)
qed simp

text \<open>The positions after the newlines of a piece of text that starts at a position.\<close>

fun newlines :: "ProgPos \<Rightarrow> string \<Rightarrow> ProgPos list" where
  "newlines p [] = []"
| "newlines p (c # r) = (if c = NL then [p + 1] else []) @ newlines (p + 1) r"

lemma newlines_append: "newlines p (s @ t) = newlines p s @ newlines (p + of_nat (length s)) t"
  by (induction s arbitrary: p) (auto simp: algebra_simps)

text \<open>No newline of the text is escaped.\<close>

fun plain_lines :: "string \<Rightarrow> bool" where
  "plain_lines (c # d # r) \<longleftrightarrow> \<not> (c = BSLASH \<and> d = NL) \<and> plain_lines (d # r)"
| "plain_lines _ \<longleftrightarrow> True"

lemma plain_lines_Cons: "plain_lines (c # r) \<Longrightarrow> plain_lines r"
  by (cases r) auto

lemma plain_lines_append: "plain_lines (cs @ r) \<Longrightarrow> plain_lines r"
  by (induction cs) (auto dest: plain_lines_Cons)

text \<open>
  From one state to a later one: the lexer has moved over a piece of the text, and has added the lines of that piece.
\<close>

definition moved :: "Lexer \<Rightarrow> Lexer \<Rightarrow> bool" where
  "moved l l' \<longleftrightarrow> lx_start l' = lx_start l \<and>
     (\<exists>cs. lx_at l = cs @ lx_at l' \<and> lx_pos l' = lx_pos l + length cs \<and> NUL \<notin> set cs \<and>
       (plain_lines (lx_at l) \<longrightarrow> lx_line_pos l' = map_option (\<lambda>ps. ps @ newlines (lexer_pos l) cs) (lx_line_pos l)))"

definition goes :: "Lexer \<Rightarrow> Lexer \<Rightarrow> bool" where
  "goes l l' \<longleftrightarrow> moved l l' \<and> ended (lx_at l')"

lemma moved_refl [simp]: "moved l l"
  by (cases "lx_line_pos l") (auto simp: moved_def)

lemma moved_trans: "moved l l' \<Longrightarrow> moved l' l'' \<Longrightarrow> moved l l''"
proof -
  assume "moved l l'" "moved l' l''"
  then obtain cs ds where c: "lx_start l' = lx_start l" "lx_at l = cs @ lx_at l'" "lx_pos l' = lx_pos l + length cs" "NUL \<notin> set cs"
      "plain_lines (lx_at l) \<longrightarrow> lx_line_pos l' = map_option (\<lambda>ps. ps @ newlines (lexer_pos l) cs) (lx_line_pos l)"
    and d: "lx_start l'' = lx_start l'" "lx_at l' = ds @ lx_at l''" "lx_pos l'' = lx_pos l' + length ds" "NUL \<notin> set ds"
      "plain_lines (lx_at l') \<longrightarrow> lx_line_pos l'' = map_option (\<lambda>ps. ps @ newlines (lexer_pos l') ds) (lx_line_pos l')"
    unfolding moved_def by blast
  have p: "plain_lines (lx_at l) \<Longrightarrow> plain_lines (lx_at l')" using c(2) plain_lines_append by metis
  have q: "lexer_pos l' = lexer_pos l + of_nat (length cs)" using c(1,3) by (simp add: lexer_pos_def algebra_simps)
  show ?thesis unfolding moved_def
    using c d p q by (intro conjI exI[of _ "cs @ ds"]) (auto simp: newlines_append option.map_comp comp_def)
qed

lemma goes_refl: "ended (lx_at l) \<Longrightarrow> goes l l"
  by (simp add: goes_def)

lemma goes_trans: "goes l l' \<Longrightarrow> goes l' l'' \<Longrightarrow> goes l l''"
  by (auto simp: goes_def intro: moved_trans)

lemma goes_ended: "goes l l' \<Longrightarrow> ended (lx_at l')"
  by (simp add: goes_def)

lemma goes_length: "goes l l' \<Longrightarrow> length (lx_at l') \<le> length (lx_at l)"
  by (auto simp: goes_def moved_def)

section \<open>Steps\<close>

definition cur :: "Lexer \<Rightarrow> char" where "cur l = hd (lx_at l)"

definition step_char :: "Lexer \<Rightarrow> Lexer" where
  "step_char l = l\<lparr>lx_at := tl (lx_at l), lx_pos := lx_pos l + 1\<rparr>"

lemma peek_hd: "ended s \<Longrightarrow> peek s = Some (hd s)"
  by (cases s) (auto simp: peek_def)

lemma peek_ended [simp]: "ended (lx_at l) \<Longrightarrow> peek (lx_at l) = Some (cur l)"
  by (cases "lx_at l") (auto simp: peek_def cur_def)

lemma adv_step: "ended (lx_at l) \<Longrightarrow> adv l = Some (step_char l)"
  by (cases "lx_at l") (auto simp: adv_def step_char_def)

lemma ended_tl: "ended s \<Longrightarrow> hd s \<noteq> NUL \<Longrightarrow> ended (tl s)"
  by (cases s) auto

lemma step_text: "lx_at (step_char l) = tl (lx_at l)"
  by (simp add: step_char_def)

lemma step_shorter [simp]:
  "ended (lx_at l) \<Longrightarrow> length (lx_at (step_char l)) < length (lx_at l)"
  "ended (lx_at l) \<Longrightarrow> length (lx_at (step_char (step_char l))) < length (lx_at l)"
  "ended (lx_at l) \<Longrightarrow> length (lx_at (step_char (lexer_on_line l))) < length (lx_at l)"
  by (cases "lx_at l"; simp add: step_char_def)+

lemma step_at [simp]: "lx_pos (step_char l) = lx_pos l + 1" "lx_start (step_char l) = lx_start l" "lx_line_pos (step_char l) = lx_line_pos l"
  by (simp_all add: step_char_def)

lemma on_error_fields [simp]:
  "lx_start (lexer_on_error l s e m) = lx_start l" "lx_line_pos (lexer_on_error l s e m) = lx_line_pos l"
  "lexer_pos (lexer_on_error l s e m) = lexer_pos l" "cur (lexer_on_error l s e m) = cur l"
  by (simp_all add: lexer_on_error_def lexer_pos_def cur_def split: option.splits)

lemma on_line_fields [simp]:
  "lx_start (lexer_on_line l) = lx_start l" "lexer_pos (lexer_on_line l) = lexer_pos l" "cur (lexer_on_line l) = cur l"
  "lx_line_pos (lexer_on_line l) = map_option (\<lambda>ps. ps @ [lexer_pos l + 1]) (lx_line_pos l)"
  by (simp_all add: lexer_on_line_def lexer_pos_def cur_def split: option.splits)

lemma moved_error [simp]:
  "moved k (lexer_on_error l s e m) = moved k l" "goes k (lexer_on_error l s e m) = goes k l"
  "moved (lexer_on_error l s e m) k = moved l k" "goes (lexer_on_error l s e m) k = goes l k"
  by (simp_all add: moved_def goes_def)

lemma error_here_simps [simp]:
  "moved k (error_here l s m) = moved k l" "goes k (error_here l s m) = goes k l" "goes (error_here l s m) k = goes l k"
  "cur (error_here l s m) = cur l" "lexer_pos (error_here l s m) = lexer_pos l" "lx_start (error_here l s m) = lx_start l"
  by (simp_all add: error_here_def)

lemma goes_step:
  assumes "goes k l" "cur l \<noteq> NUL" "cur l \<noteq> NL"
  shows "goes k (step_char l)"
proof -
  obtain c r where "lx_at l = c # r" using assms(1) by (cases "lx_at l") (auto dest: goes_ended)
  with assms have "goes l (step_char l)"
    by (cases "lx_line_pos l") (auto simp: step_text goes_def moved_def cur_def intro!: exI[of _ "[c]"])
  with assms(1) show ?thesis by (rule goes_trans)
qed

lemma goes_line:
  assumes "goes k l" "cur l = NL"
  shows "goes k (step_char (lexer_on_line l))"
proof -
  obtain r where "lx_at l = NL # r" using assms by (cases "lx_at l") (auto simp: cur_def dest: goes_ended)
  with assms have "goes l (step_char (lexer_on_line l))"
    by (cases "lx_line_pos l") (auto simp: step_text goes_def moved_def cur_def intro!: exI[of _ "[NL]"])
  with assms(1) show ?thesis by (rule goes_trans)
qed

lemma moved_escaped: "lx_at l = BSLASH # d # r \<Longrightarrow> d \<noteq> NUL \<Longrightarrow> moved l (step_char (step_char l))"
  unfolding moved_def by (cases "lx_line_pos l"; cases "d = NL") (auto simp: step_text intro!: exI[of _ "[BSLASH, d]"])

lemma goes_escaped:
  assumes "goes k l" "cur l = BSLASH"
  shows "cur (step_char l) \<noteq> NUL" "goes k (step_char (step_char l))"
proof -
  obtain d r where at: "lx_at l = BSLASH # d # r" "d \<noteq> NUL" "ended (lx_at l)"
    using assms by (cases "lx_at l"; cases "tl (lx_at l)") (auto simp: cur_def split: if_splits dest!: goes_ended)
  then show "cur (step_char l) \<noteq> NUL" by (simp add: cur_def step_text)
  have "goes l (step_char (step_char l))" using at moved_escaped[of l d r] by (simp add: goes_def step_text)
  with assms(1) show "goes k (step_char (step_char l))" by (rule goes_trans)
qed

lemma step_error [simp]:
  "step_char (lexer_on_error l s e m) = lexer_on_error (step_char l) s e m"
  by (simp add: lexer_on_error_def step_char_def split: option.splits)

text \<open>The rule for a step, on texts that end well.\<close>

lemma sat_adv: "goes k l \<Longrightarrow> sat (adv l) Q \<longleftrightarrow> Q (step_char l)"
  by (simp add: adv_step goes_ended)

lemma sat_adv_line: "goes k l \<Longrightarrow> sat (adv (lexer_on_line l)) Q \<longleftrightarrow> Q (step_char (lexer_on_line l))"
  by (simp add: adv_step goes_ended)

lemma line_error [simp]: "lexer_on_line (lexer_on_error l s e m) = lexer_on_error (lexer_on_line l) s e m"
  by (simp add: lexer_on_error_def lexer_on_line_def lexer_pos_def split: option.splits)

lemma sat_adv_error [simp]: "sat (adv (lexer_on_error l s e m)) Q \<longleftrightarrow> sat (adv l) (\<lambda>l'. Q (lexer_on_error l' s e m))"
  by (cases l) (auto simp: lexer_on_error_def error_stream_add_def adv_def split: option.splits list.splits)

lemma sat_at0: "goes k l \<Longrightarrow> sat (peek (lx_at l)) Q \<longleftrightarrow> Q (cur l)"
  by (simp add: goes_ended cur_def)

lemma sat_at1: "goes k l \<Longrightarrow> cur l \<noteq> NUL \<Longrightarrow> sat (at1 l) Q \<longleftrightarrow> Q (cur (step_char l))"
  by (cases "lx_at l") (auto simp: at1_def cur_def step_text peek_hd dest!: goes_ended)

declare sat_if [simp]

lemmas sat_state = sat_adv sat_adv_line sat_at0 sat_at1 goes_step goes_line goes_escaped

section \<open>Loops over characters\<close>

definition skip_n :: "nat \<Rightarrow> Lexer \<Rightarrow> Lexer" where
  "skip_n n l = l\<lparr>lx_at := drop n (lx_at l), lx_pos := lx_pos l + n\<rparr>"

lemma run_ended:
  assumes "ended s" "\<not> P NUL"
  shows "run P s = Some (takeWhile P s, dropWhile P s)" "ended (dropWhile P s)"
  using assms by (induction s) (auto split: if_splits)

lemma skip_while_takeWhile:
  assumes "ended (lx_at l)" "\<not> P NUL"
  shows "skip_while P l = Some (skip_n (length (takeWhile P (lx_at l))) l)"
  using run_ended(1)[of "lx_at l" P] assms by (simp add: skip_while_def skip_n_def dropWhile_eq_drop)

lemma goes_skip_n:
  assumes "goes k l" "n \<le> length (lx_at l)" "NUL \<notin> set (take n (lx_at l))" "NL \<notin> set (take n (lx_at l))"
  shows "goes k (skip_n n l)"
  using assms
proof (induction n arbitrary: l)
  case 0
  then show ?case by (simp add: skip_n_def)
next
  case (Suc n)
  obtain c r where at: "lx_at l = c # r" using Suc.prems(1) by (cases "lx_at l") (auto dest: goes_ended)
  have s: "goes k (step_char l)" using Suc.prems at by (intro goes_step) (auto simp: cur_def)
  have "skip_n (Suc n) l = skip_n n (step_char l)" using at by (simp add: skip_n_def step_char_def)
  then show ?case using Suc.IH[OF s] Suc.prems at by (simp add: step_text)
qed

lemma sat_skip_while:
  assumes "goes k l" "\<not> P NUL" "\<not> P NL"
  shows "sat (skip_while P l) (\<lambda>l'. goes k l' \<and> goes l l')"
proof -
  let ?n = "length (takeWhile P (lx_at l))"
  have t: "take ?n (lx_at l) = takeWhile P (lx_at l)" by (metis takeWhile_eq_take)
  have "NUL \<notin> set (takeWhile P (lx_at l))" "NL \<notin> set (takeWhile P (lx_at l))"
    using assms(2,3) by (auto dest: set_takeWhileD)
  then have "goes m (skip_n ?n l)" if "goes m l" for m
    using goes_skip_n[OF that, of ?n] t by (simp add: length_takeWhile_le)
  from this[OF assms(1)] this[of l] show ?thesis
    using assms goes_ended[OF assms(1)] by (simp add: skip_while_takeWhile goes_refl)
qed

lemma NL_props: "\<not> is_alphanum NL" "\<not> is_dec_digit NL" "is_whitespace NL" "biased_digit NL = 0"
  by (simp_all add: is_alphanum_iff is_dec_digit_iff is_whitespace_iff biased_digit_iff)

lemma sat_goesI: "sat r (\<lambda>l'. goes k l' \<and> goes l l') \<Longrightarrow> (\<And>l'. goes k l' \<Longrightarrow> goes l l' \<Longrightarrow> Q l') \<Longrightarrow> sat r Q"
  by (auto simp: sat_def)

lemma sat_skip_word_end: "goes k l \<Longrightarrow> (\<And>l'. goes k l' \<Longrightarrow> goes l l' \<Longrightarrow> Q l') \<Longrightarrow> sat (skip_word_end l) Q"
  unfolding skip_word_end_def by (rule sat_goesI[OF sat_skip_while]) (auto simp: NL_props)

lemma sat_skip_char: "goes k l \<Longrightarrow> c \<noteq> NUL \<Longrightarrow> c \<noteq> NL \<Longrightarrow> (\<And>l'. goes k l' \<Longrightarrow> Q l') \<Longrightarrow> sat (skip_char c l) Q"
  by (auto simp: skip_char_def sat_state)

lemma sat_skip_spaces: "goes k l \<Longrightarrow> sat (skip_spaces l) (goes k)"
proof (induction l rule: skip_spaces.induct)
  case (1 l)
  show ?case
  proof (cases "is_whitespace (cur l)")
    case True
    let ?l = "if cur l = NL then lexer_on_line l else l"
    have g: "goes k (step_char ?l)" using 1(2) True by (cases "cur l = NUL") (auto simp: goes_step goes_line)
    have a: "adv ?l = Some (step_char ?l)" using 1(2) by (auto simp: adv_step goes_ended)
    have "sat (skip_spaces (step_char ?l)) (goes k)"
      using 1(1)[OF _ _ a] 1(2) g True by (simp add: goes_ended cur_def)
    then show ?thesis
      using True a 1(2) by (subst skip_spaces.simps) (simp add: goes_ended cur_def)
  next
    case False
    then show ?thesis using 1(2) by (subst skip_spaces.simps) (simp add: goes_ended cur_def)
  qed
qed

lemma sat_comment_loop: "goes k l \<Longrightarrow> sat (comment_loop l level start) (\<lambda>(l', _). goes k l')"
proof (induction "length (lx_at l)" arbitrary: l level start rule: less_induct)
  case less
  have at: "lx_at l \<noteq> []" "hd (lx_at l) = cur l" using less.prems by (auto simp: goes_ended cur_def)
  let ?l = "if cur l = NL then lexer_on_line l else l"
  have step: "sat (comment_loop l1 level1 start1) (\<lambda>(l', _). goes k l')" if "goes k l1" "length (lx_at l1) < length (lx_at l)" for l1 level1 start1
    using less.hyps that by blast
  show ?case
  proof (cases "cur l \<noteq> NUL \<and> level > 0")
    case True
    have s: "goes k (step_char ?l)" using less.prems True by (auto simp: goes_step goes_line)
    have two: "goes k (step_char (step_char l))" if "cur (step_char l) \<noteq> NUL" "cur (step_char l) \<noteq> NL" "cur l \<noteq> NL"
      using less.prems that True by (intro goes_step) auto
    show ?thesis
      using True less.prems at s two
      by (subst comment_loop.simps)
         (auto simp: sat_state[where k = k] goes_ended adv_step intro!: step)
  next
    case False
    then show ?thesis using less.prems by (subst comment_loop.simps) (auto simp: sat_state)
  qed
qed

lemma sat_skip_c_comment: "goes k l \<Longrightarrow> cur l = CHR ''/'' \<Longrightarrow> cur (step_char l) = CHR ''*'' \<Longrightarrow> sat (skip_c_comment l) (goes k)"
  by (auto simp: skip_c_comment_def sat_state[where k = k] Let_def intro!: sat_mono[OF sat_comment_loop[of k]])

section \<open>Literals\<close>

lemma biased_digit_step: "biased_digit c \<noteq> 0 \<Longrightarrow> c \<noteq> NUL \<and> c \<noteq> NL"
  by (auto simp: NL_props)

lemma sat_scan_digits_loop: "goes k l \<Longrightarrow> sat (scan_digits_loop l base mx v) (\<lambda>(_, _, l'). goes k l')"
proof (induction "length (lx_at l)" arbitrary: l v rule: less_induct)
  case less
  have at: "lx_at l \<noteq> []" using less.prems by (auto simp: goes_ended)
  show ?case
  proof (cases "biased_digit (cur l) = 0")
    case False
    then have s: "goes k (step_char l)" using less.prems biased_digit_step by (intro goes_step) auto
    have IH: "sat (scan_digits_loop l1 base mx v1) (\<lambda>(_, _, l'). goes k l')" if "goes k l1" "length (lx_at l1) < length (lx_at l)" for l1 v1
      using less.hyps that by blast
    show ?thesis
      using False less.prems at s
      by (subst scan_digits_loop.simps) (auto simp: sat_state[where k = k] goes_ended Let_def intro!: IH)
  qed (use less.prems in \<open>subst scan_digits_loop.simps; simp add: sat_state[where k = k]\<close>)
qed

lemma scan_digits_first:
  assumes "ended (lx_at l)" "is_dec_digit (cur l)" "goes k (step_char l)"
  shows "sat (scan_digits l 10 mx) (\<lambda>(_, _, l'). goes k l')"
proof -
  have g: "goes l l" using assms(1) by (rule goes_refl)
  have "(of_nat n :: u64) < 10" if "n < 10" for n using that by (simp add: word_less_nat_alt unat_of_nat)
  then have d: "biased_digit (cur l) \<noteq> 0" "(of_nat (biased_digit (cur l) - 1) :: u64) < 10"
    using assms(2) by (auto simp: biased_digit_dec is_dec_digit_iff simp del: of_nat_diff)
  show ?thesis
    unfolding scan_digits_def using d assms(3)
    by (subst scan_digits_loop.simps)
       (auto simp: sat_state[OF g] sat_state[where k = k] Let_def not_le intro!: sat_scan_digits_loop)
qed

lemma sat_scan_suffix: "goes k l \<Longrightarrow> sat (scan_suffix l) (\<lambda>(_, l'). goes k l')"
  by (auto simp: scan_suffix_def sat_state[where k = k])

lemma sat_scan_base:
  assumes "ended (lx_at l)" "is_dec_digit (cur l)" "goes k (step_char l)"
  shows "sat (scan_base l) (\<lambda>(_, base, l'). goes k l' \<or> base = 10 \<and> l' = l)"
  using assms goes_refl[OF assms(1)]
  by (auto simp: scan_base_def sat_state[where k = k] sat_state[where k = l])

lemma sat_scan_int:
  assumes "ended (lx_at l)" "is_dec_digit (cur l)" "goes k (step_char l)"
  shows "sat (scan_int l) (\<lambda>(_, l'). goes k l')"
proof -
  have base: "sat (scan_base l) (\<lambda>(_, base, l'). goes k l' \<or> base = 10 \<and> l' = l)" by (rule sat_scan_base[OF assms])
  have digits: "sat (scan_digits l' base (- 1)) (\<lambda>(_, _, l'). goes k l')" if "goes k l' \<or> base = 10 \<and> l' = l" for l' base
    using that scan_digits_first[OF assms] sat_scan_digits_loop[of k l'] by (auto simp: scan_digits_def)
  have b: "biased_digit (cur l) \<noteq> 0" using assms(2) by (auto simp: biased_digit_dec is_dec_digit_iff)
  show ?thesis
    unfolding scan_int_def using assms(1,2)
    by (simp add: Let_def)
       (auto simp: b sat_state[where k = k] goes_ended Let_def
         intro!: sat_mono[OF base] sat_mono[OF digits] sat_mono[OF sat_scan_suffix[of k]] sat_skip_word_end[of k])
qed

lemma biased_digit_pos: "0 < biased_digit c \<Longrightarrow> c \<noteq> NUL \<and> c \<noteq> NL"
  by (auto simp: NL_props)

lemma sat_scan_hex_escape: "goes k l \<Longrightarrow> sat (scan_hex_escape l) (\<lambda>(_, l'). goes k l' \<and> goes l l')"
  using goes_refl[OF goes_ended, of k l]
  by (auto simp: scan_hex_escape_def sat_state[where k = k] sat_state[where k = l] Let_def biased_digit_pos)

lemma sat_string_escape:
  assumes "goes k l" "cur l = BSLASH"
  shows "sat (string_escape (step_char l) start) (\<lambda>(_, l'). goes k l')"
proof -
  let ?m = "step_char l"
  have m: "ended (lx_at ?m)" "goes k (step_char ?m)"
    using assms goes_escaped[OF assms] ended_tl[of "lx_at l"] by (auto simp: step_text cur_def goes_ended)
  show ?thesis
    unfolding string_escape_def using m
    by (auto simp: Let_def adv_step error_here_def
      intro!: sat_mono[OF sat_scan_hex_escape[of k "step_char ?m"]] sat_skip_word_end[of k])
qed

lemma sat_string_loop: "goes k l \<Longrightarrow> sat (string_loop l start tmp) (\<lambda>(_, l'). goes k l')"
proof (induction "length (lx_at l)" arbitrary: l tmp rule: less_induct)
  case less
  have e: "ended (lx_at l)" using less.prems by (rule goes_ended)
  have IH: "sat (string_loop l1 start tmp1) (\<lambda>(_, l'). goes k l')" if "goes k l1" "length (lx_at l1) < length (lx_at l)" for l1 tmp1
    using less.hyps that by blast
  have esc: "sat (string_escape (step_char l) start) (\<lambda>(d, l'). sat (string_loop l' start (tmp @ [d])) (\<lambda>(_, l'). goes k l'))"
    if c: "cur l = BSLASH"
    by (rule sat_mono[OF sat_string_escape[OF less.prems c]])
       (auto intro!: IH dest!: string_escape_le intro: less_trans[OF _ step_shorter(1)[OF e]])
  show ?case
    using less.prems e
    by (subst string_loop.simps) (auto simp: sat_state[where k = k] intro!: IH sat_mono[OF esc])
qed

lemma sat_scan_string:
  assumes "ended (lx_at l)" "cur l = DQUOTE" "goes k (step_char l)"
  shows "sat (scan_string l) (\<lambda>(_, l'). goes k l')"
  using assms unfolding scan_string_def
  by (simp add: Let_def adv_step split_beta)
     (auto simp: sat_state[where k = k] goes_ended error_here_def intro!: sat_mono[OF sat_string_loop[of k]] sat_skip_char[of k])

lemma sat_char_body:
  assumes "goes k l" "cur l \<noteq> NUL" "cur l \<noteq> NL"
  shows "sat (char_body l start) (\<lambda>(_, l'). goes k l')"
proof (cases "cur l = BSLASH")
  case True
  let ?m = "step_char l"
  have m: "ended (lx_at ?m)" "goes k (step_char ?m)"
    using assms goes_escaped[OF assms(1) True] ended_tl[of "lx_at l"] by (auto simp: step_text cur_def goes_ended)
  show ?thesis
    unfolding char_body_def using assms m True
    by (auto simp: Let_def adv_step goes_ended error_here_def intro!: sat_mono[OF sat_scan_hex_escape[of k "step_char ?m"]])
qed (use assms in \<open>auto simp: char_body_def sat_state[where k = k]\<close>)

lemma sat_scan_char:
  assumes "ended (lx_at l)" "cur l = SQUOTE" "goes k (step_char l)"
  shows "sat (scan_char l) (\<lambda>(_, l'). goes k l')"
proof -
  have "cur (step_char l) \<noteq> NUL"
    using assms(1,2) by (cases "lx_at l"; cases "tl (lx_at l)") (auto simp: cur_def step_text split: if_splits)
  then show ?thesis
    using assms unfolding scan_char_def
    by (simp add: Let_def adv_step)
       (auto simp: sat_state[where k = k] goes_ended error_here_def
         intro!: sat_mono[OF sat_char_body[of k]] sat_skip_char[of k] sat_skip_word_end[of k])
qed

section \<open>Floating-point literals\<close>

lemma plain_lines_step: "c \<noteq> BSLASH \<Longrightarrow> plain_lines (c # r) = plain_lines r"
  by (cases r) auto

lemma goes_progress:
  assumes "goes l l'" "lx_pos l < lx_pos l'" "cur l \<noteq> NL" "cur l \<noteq> BSLASH"
  shows "goes (step_char l) l'"
proof -
  from assms(1) obtain cs where cs: "lx_start l' = lx_start l" "lx_at l = cs @ lx_at l'" "lx_pos l' = lx_pos l + length cs" "NUL \<notin> set cs"
      "plain_lines (lx_at l) \<longrightarrow> lx_line_pos l' = map_option (\<lambda>ps. ps @ newlines (lexer_pos l) cs) (lx_line_pos l)" "ended (lx_at l')"
    unfolding goes_def moved_def by blast
  from cs(3) assms(2) obtain c r where c: "cs = c # r" by (cases cs) auto
  have "c \<noteq> NL" "c \<noteq> BSLASH" using assms(3,4) cs(2) c by (simp_all add: cur_def)
  then show ?thesis
    using cs c unfolding goes_def moved_def
    by (auto simp: step_text lexer_pos_def algebra_simps plain_lines_step intro!: exI[of _ r])
qed

lemma skip_n_simps [simp]:
  "skip_n 0 l = l" "skip_n a (skip_n b l) = skip_n (a + b) l" "lx_at (skip_n n l) = drop n (lx_at l)"
  "lx_pos (skip_n n l) = lx_pos l + n" "lx_start (skip_n n l) = lx_start l"
  by (simp_all add: skip_n_def add.commute add.left_commute)

lemma step_skip_n: "ended (drop n (lx_at l)) \<Longrightarrow> step_char (skip_n n l) = skip_n (n + 1) l"
  by (simp add: step_char_def skip_n_def drop_Suc tl_drop)

lemma sat_skip_digits:
  assumes "goes k l"
  shows "sat (skip_while is_dec_digit l) (\<lambda>l'. goes k l' \<and> l' = skip_n (length (takeWhile is_dec_digit (lx_at l))) l)"
  using sat_skip_while[OF assms, of is_dec_digit] skip_while_takeWhile[of l is_dec_digit] goes_ended[OF assms] by (simp add: NL_props)

lemma exponent_digits:
  assumes "ended q" "is_dec_digit (hd q)" "sg \<in> {[], ''-'', ''+''}" "c = CHR ''e'' \<or> c = CHR ''E''"
  shows "\<exists>e. exponent_part (c # sg @ q) = Some (e, 1 + length sg + length (takeWhile is_dec_digit q))"
proof -
  obtain d q' where q: "q = d # q'" "is_dec_digit d" using assms(1,2) by (cases q) auto
  have nd: "d \<noteq> CHR ''-''" "d \<noteq> CHR ''+''" using q(2) by (auto simp: is_dec_digit_iff)
  have ne: "takeWhile is_dec_digit q \<noteq> []" using q by simp
  have run: "run is_dec_digit q = Some (takeWhile is_dec_digit q, dropWhile is_dec_digit q)"
    using run_ended(1)[of q is_dec_digit] assms(1) by simp
  consider "sg = []" | s where "sg = [s]" "s = CHR ''-'' \<or> s = CHR ''+''" using assms(3) by auto
  then show ?thesis
  proof cases
    case 1
    have "exponent_part (c # q) = do { (ds, _) \<leftarrow> run is_dec_digit q; Some (if ds = [] then (0, 0) else (int (digits_nat ds), 1 + length ds)) }"
      using assms(4) nd q(1) by (simp add: exponent_part_def cong: if_cong del: run.simps)
    with 1 run ne show ?thesis by simp
  next
    case 2
    then show ?thesis using assms(4) run ne by (auto simp: exponent_part_def simp del: run.simps)
  qed
qed

lemma run_prefix: "list_all P ds \<Longrightarrow> r \<noteq> [] \<Longrightarrow> \<not> P (hd r) \<Longrightarrow> run P (ds @ r) = Some (ds, r)"
  by (induction ds) (cases r; auto)+

lemma skip_while_prefix:
  "lx_at l = ds @ r \<Longrightarrow> list_all P ds \<Longrightarrow> r \<noteq> [] \<Longrightarrow> \<not> P (hd r) \<Longrightarrow> skip_while P l = Some (skip_n (length ds) l)"
  by (simp add: skip_while_def run_prefix skip_n_def)

text \<open>The shape of a floating-point literal up to its exponent: digits, a point, digits.\<close>

definition float_shape :: "string \<Rightarrow> string \<Rightarrow> string \<Rightarrow> string \<Rightarrow> string \<Rightarrow> bool" where
  "float_shape s ds1 pt ds2 r \<longleftrightarrow> s = ds1 @ pt @ ds2 @ r \<and> list_all is_dec_digit ds1 \<and> list_all is_dec_digit ds2 \<and> pt \<in> {[], ''.''} \<and>
     (pt = [] \<longrightarrow> ds2 = [] \<and> hd r \<in> {CHR ''e'', CHR ''E''}) \<and> (ds1 \<noteq> [] \<or> ds2 \<noteq> []) \<and> ended r \<and> \<not> is_dec_digit (hd r)"

definition starts_float :: "string \<Rightarrow> bool" where
  "starts_float s \<longleftrightarrow>
     (is_dec_digit (hd s) \<and> hd (dropWhile is_dec_digit s) \<in> {CHR ''.'', CHR ''e'', CHR ''E''}) \<or>
     (hd s = CHR ''.'' \<and> is_dec_digit (hd (tl s)))"

lemma digits_prefix: "list_all is_dec_digit (takeWhile is_dec_digit s)"
  by (auto simp: list_all_iff dest: set_takeWhileD)

lemma float_shape_ex:
  assumes "ended s" "starts_float s"
  shows "\<exists>ds1 pt ds2 r. float_shape s ds1 pt ds2 r"
proof -
  let ?d = "is_dec_digit"
  let ?r1 = "dropWhile ?d s"
  have e1: "ended ?r1" using run_ended(2)[OF assms(1), of ?d] by simp
  have n1: "\<not> ?d (hd ?r1)" using e1 by (metis ended_not_Nil hd_dropWhile)
  show ?thesis
  proof (cases "hd ?r1 = CHR ''.''")
    case True
    let ?q = "tl ?r1"
    have eq: "ended ?q" using ended_tl[OF e1] True by simp
    have e2: "ended (dropWhile ?d ?q)" using run_ended(2)[OF eq, of ?d] by simp
    then have n2: "\<not> ?d (hd (dropWhile ?d ?q))" by (metis ended_not_Nil hd_dropWhile)
    have "?r1 = CHR ''.'' # ?q" using True e1 by (metis ended_not_Nil list.collapse)
    then have s: "s = takeWhile ?d s @ ''.'' @ takeWhile ?d ?q @ dropWhile ?d ?q"
      by (metis append_Cons append_Nil takeWhile_dropWhile_id)
    have "takeWhile ?d s \<noteq> [] \<or> takeWhile ?d ?q \<noteq> []"
    proof (cases "?d (hd s)")
      case False
      then have "hd s = CHR ''.''" "?d (hd (tl s))" using assms(2) by (auto simp: starts_float_def)
      moreover have "?r1 = s" using False assms(1) by (cases s) auto
      ultimately show ?thesis using eq by (cases "tl s") auto
    qed (use assms(1) in \<open>cases s; auto\<close>)
    with s e2 n2 show ?thesis
      unfolding float_shape_def
      by (intro exI[of _ "takeWhile ?d s"] exI[of _ "''.''"] exI[of _ "takeWhile ?d ?q"] exI[of _ "dropWhile ?d ?q"])
         (use digits_prefix in auto)
  next
    case False
    have "\<not> (hd s = CHR ''.'')"
    proof
      assume "hd s = CHR ''.''"
      then have "?r1 = s" using assms(1) by (cases s) (auto simp: is_dec_digit_iff)
      with False \<open>hd s = CHR ''.''\<close> show False by simp
    qed
    then have "?d (hd s)" "hd ?r1 \<in> {CHR ''e'', CHR ''E''}" using assms(2) False by (auto simp: starts_float_def)
    moreover have "takeWhile ?d s \<noteq> []" using calculation(1) assms(1) by (cases s) auto
    ultimately show ?thesis
      unfolding float_shape_def using e1 n1
      by (intro exI[of _ "takeWhile ?d s"] exI[of _ "[]"] exI[of _ "?r1"]) (use digits_prefix in auto)
  qed
qed

lemma decimal_prefix_shape:
  assumes "float_shape s ds1 pt ds2 r" "exponent_part r = Some (e, n)"
  shows "decimal_prefix s = Some (digits_nat (ds1 @ ds2), e - int (length ds2), length ds1 + length pt + length ds2 + n)"
proof -
  have s: "s = ds1 @ pt @ ds2 @ r" "list_all is_dec_digit ds1" "list_all is_dec_digit ds2" "pt \<in> {[], ''.''}"
      "pt = [] \<Longrightarrow> ds2 = [] \<and> hd r \<in> {CHR ''e'', CHR ''E''}" "ds1 \<noteq> [] \<or> ds2 \<noteq> []" "r \<noteq> []" "\<not> is_dec_digit (hd r)"
    using assms(1) by (auto simp: float_shape_def)
  have r1: "pt @ ds2 @ r \<noteq> []" "\<not> is_dec_digit (hd (pt @ ds2 @ r))" "hd (pt @ ds2 @ r) \<in> {CHR ''.'', CHR ''e'', CHR ''E''}"
    using s by (auto simp: is_dec_digit_iff)
  have run1: "run is_dec_digit s = Some (ds1, pt @ ds2 @ r)" using run_prefix[OF s(2) r1(1,2)] s(1) by simp
  have run2: "run is_dec_digit (ds2 @ r) = Some (ds2, r)" using run_prefix[OF s(3,7,8)] .
  show ?thesis
  proof (cases "pt = []")
    case True
    with s r1 run1 assms(2) show ?thesis by (auto simp: decimal_prefix_def)
  next
    case False
    then have "pt = ''.''" using s(4) by simp
    with s r1 run1 run2 assms(2) show ?thesis by (simp add: decimal_prefix_def)
  qed
qed

lemma digits_no_NUL: "list_all is_dec_digit ds \<Longrightarrow> NUL \<notin> set ds \<and> NL \<notin> set ds"
  by (auto simp: list_all_iff NL_props)

lemma goes_skip_prefix:
  assumes "ended (lx_at l)" "lx_at l = cs @ r" "NUL \<notin> set cs" "NL \<notin> set cs"
  shows "goes l (skip_n (length cs) l)"
  using goes_skip_n[OF goes_refl[OF assms(1)], of "length cs"] assms by simp

lemma goes_pos: "goes l l' \<Longrightarrow> lx_pos l \<le> lx_pos l'"
  by (auto simp: goes_def moved_def)

lemma sat_float_value:
  assumes "goes l0 l" "lx_pos l = lx_pos l0 + n" "0 < n" "decimal_prefix (lx_at l0) = Some (v, e, n)"
  shows "sat (float_value l0 l) (\<lambda>(_, l'). goes l0 l' \<and> lx_pos l0 < lx_pos l')"
proof -
  have "\<exists>b. strtof (lx_at l0) = Some (b, n)" "\<exists>b. strtod (lx_at l0) = Some (b, n)"
    using assms(4) by (auto simp: strtof_def strtod_def split: prod.splits)
  then show ?thesis
    using assms unfolding float_value_def
    by (auto simp: Let_def sat_state[where k = l0])
qed

lemma sat_scan_float:
  assumes "ended (lx_at l)" "starts_float (lx_at l)"
  shows "sat (scan_float l) (\<lambda>(_, l'). goes l l' \<and> lx_pos l < lx_pos l')"
proof -
  obtain ds1 pt ds2 r where shape: "float_shape (lx_at l) ds1 pt ds2 r" using float_shape_ex[OF assms] by blast
  then have s: "lx_at l = ds1 @ pt @ ds2 @ r" "list_all is_dec_digit ds1" "list_all is_dec_digit ds2" "pt \<in> {[], ''.''}"
      "pt = [] \<Longrightarrow> ds2 = [] \<and> hd r \<in> {CHR ''e'', CHR ''E''}" "ds1 \<noteq> [] \<or> ds2 \<noteq> []" "r \<noteq> []" "ended r" "\<not> is_dec_digit (hd r)"
    by (auto simp: float_shape_def)
  let ?m = "ds1 @ pt @ ds2"
  define l3 where "l3 = skip_n (length ?m) l"
  have no: "NUL \<notin> set ?m" "NL \<notin> set ?m" using digits_no_NUL[OF s(2)] digits_no_NUL[OF s(3)] s(4) by auto
  have g3: "goes l l3" unfolding l3_def using goes_skip_prefix[OF assms(1), of ?m r] s(1) no by simp
  have at3: "lx_at l3 = r" "lx_pos l3 = lx_pos l + length ?m" "cur l3 = hd r" using s(1) by (simp_all add: l3_def cur_def)
  have pos: "0 < length ?m" using s(6) by auto
  have first: "is_dec_digit (cur l) \<or> cur l = CHR ''.''" using assms(2) by (auto simp: starts_float_def cur_def)
  have r1: "pt @ ds2 @ r \<noteq> []" "\<not> is_dec_digit (hd (pt @ ds2 @ r))"
    using s by (auto simp: is_dec_digit_iff)
  have skip: "do { l \<leftarrow> skip_while is_dec_digit l; l \<leftarrow> skip_char CHR ''.'' l; skip_while is_dec_digit l } = Some l3"
  proof (cases "pt = []")
    case True
    then have "ds2 = []" "hd r \<in> {CHR ''e'', CHR ''E''}" using s(5) by auto
    then show ?thesis
      using True s(1) skip_while_prefix[OF s(1,2) r1] skip_while_prefix[of "skip_n (length ds1) l" "[]" r is_dec_digit] s(7,9)
      by (cases r) (auto simp: skip_char_def peek_def l3_def)
  next
    case False
    then have pt: "pt = ''.''" using s(4) by simp
    have "skip_char CHR ''.'' (skip_n (length ds1) l) = Some (skip_n (length (ds1 @ pt)) l)"
      using s(1) pt by (simp add: skip_char_def peek_def adv_def skip_n_def)
    then show ?thesis
      using pt s(1) skip_while_prefix[OF s(1,2) r1] skip_while_prefix[of "skip_n (length (ds1 @ pt)) l" "ds2" r is_dec_digit] s(3,7,9)
      by (simp add: l3_def add.commute)
  qed
  have eq: "scan_float l = do {
       c \<leftarrow> at0 l3;
       if c = CHR ''e'' \<or> c = CHR ''E'' then do {
         l4 \<leftarrow> adv l3;
         c \<leftarrow> at0 l4;
         l4 \<leftarrow> (if c = CHR ''-'' \<or> c = CHR ''+'' then adv l4 else Some l4);
         c \<leftarrow> at0 l4;
         if \<not> is_dec_digit c then do {
           l4 \<leftarrow> skip_word_end (error_here l4 (lexer_pos l)
                  (''Unexpected character '' @ quoted [c] @ '' after floating point literal'' @ [SQUOTE] @ ''s exponent''));
           Some (\<lparr>tf_kind = FLOAT_F64, tf_value = 0\<rparr>, l4) }
         else do {
           l4 \<leftarrow> skip_while is_dec_digit l4;
           float_value l l4 } }
       else float_value l l3 }"
  proof -
    have "do { l \<leftarrow> skip_while is_dec_digit l; l \<leftarrow> skip_char CHR ''.'' l; l \<leftarrow> skip_while is_dec_digit l; f l } = f l3" for f :: "Lexer \<Rightarrow> (TokenFloat \<times> Lexer) option"
      using skip by (auto simp: bind_eq_Some_conv split: bind_splits)
    then show ?thesis using first assms(1) by (simp add: scan_float_def)
  qed
  show ?thesis
  proof (cases "hd r = CHR ''e'' \<or> hd r = CHR ''E''")
    case False
    have "exponent_part r = Some (0, 0)" using False s(7) by (cases r) (auto simp: exponent_part_def)
    from decimal_prefix_shape[OF shape this] show ?thesis
      using False at3 pos g3 eq by (auto simp: goes_ended intro!: sat_float_value[OF g3])
  next
    case True
    obtain sg q where q: "r = hd r # sg @ q" "sg \<in> {[], ''-'', ''+''}" "sg = [] \<longrightarrow> hd q \<notin> {CHR ''-'', CHR ''+''}" "ended q"
    proof -
      have t: "ended (tl r)" using True s(8) ended_tl by fastforce
      show ?thesis
      proof (cases "hd (tl r) \<in> {CHR ''-'', CHR ''+''}")
        case True
        then have "ended (tl (tl r))" using ended_tl[OF t] by auto
        moreover have "r = hd r # [hd (tl r)] @ tl (tl r)" using t s(7) by (cases r; cases "tl r") auto
        ultimately show ?thesis using that[of "[hd (tl r)]" "tl (tl r)"] True by auto
      next
        case False
        then show ?thesis using that[of "[]" "tl r"] t s(7) by auto
      qed
    qed
    have tl_r: "tl r = sg @ q" using q(1) by (metis list.sel(3))
    define l4 where "l4 = skip_n (length sg) (step_char l3)"
    have g: "goes l (step_char l3)" using g3 True at3(3) by (intro goes_step) auto
    have at4: "lx_at (step_char l3) = sg @ q" "lx_at l4 = q" "cur (step_char l3) = hd (sg @ q)" "cur l4 = hd q" "lx_pos l4 = lx_pos l + length ?m + 1 + length sg"
      using at3(1,2) tl_r by (simp_all add: l4_def cur_def step_text)
    have g4: "goes l l4"
    proof -
      have "goes (step_char l3) l4" unfolding l4_def
        by (rule goes_skip_prefix[OF goes_ended[OF g] at4(1)]) (use q(2) in auto)
      with g show ?thesis by (rule goes_trans)
    qed
    have sign: "(if cur (step_char l3) = CHR ''-'' \<or> cur (step_char l3) = CHR ''+'' then adv (step_char l3) else Some (step_char l3)) = Some l4"
      using q(2,3) at4 goes_ended[OF g] by (auto simp: adv_step l4_def step_char_def skip_n_def)
    have peeks: "at0 l3 = Some (hd r)" "adv l3 = Some (step_char l3)" "at0 (step_char l3) = Some (cur (step_char l3))" "at0 l4 = Some (hd q)"
      using goes_ended[OF g3] goes_ended[OF g] goes_ended[OF g4] at3(3) at4(4) by (simp_all only: peek_ended adv_step)
    have eq2: "scan_float l =
        (if \<not> is_dec_digit (hd q) then do {
           l4 \<leftarrow> skip_word_end (error_here l4 (lexer_pos l)
                  (''Unexpected character '' @ quoted [hd q] @ '' after floating point literal'' @ [SQUOTE] @ ''s exponent''));
           Some (\<lparr>tf_kind = FLOAT_F64, tf_value = 0\<rparr>, l4) }
         else do { l4 \<leftarrow> skip_while is_dec_digit l4; float_value l l4 })"
      unfolding eq peeks bind.bind_lunit sign using True by (simp only: if_True bind.bind_lunit peeks)
    have less: "lx_pos l < lx_pos l4" using at4(5) by simp
    show ?thesis
    proof (cases "is_dec_digit (hd q)")
      case False
      have "sat (skip_word_end (error_here l4 s m)) (\<lambda>l'. goes l l' \<and> lx_pos l < lx_pos l')" for s m
        by (rule sat_skip_word_end[of l]) (use g4 less in \<open>auto dest: goes_pos\<close>)
      then show ?thesis using False by (simp add: eq2)
    next
      case digit: True
      let ?ds = "takeWhile is_dec_digit q"
      obtain e where "exponent_part r = Some (e, 1 + length sg + length ?ds)"
        using exponent_digits[OF q(4) digit q(2) True] q(1) by metis
      note dp = decimal_prefix_shape[OF shape this]
      have "sat (skip_while is_dec_digit l4) (\<lambda>l5. sat (float_value l l5) (\<lambda>(_, l'). goes l l' \<and> lx_pos l < lx_pos l'))"
        by (rule sat_mono[OF sat_skip_digits[OF g4]], rule sat_float_value) (use at4 dp in auto)
      then show ?thesis using digit by (simp add: eq2)
    qed
  qed
qed

section \<open>Tokens\<close>

lemma sat_skip_blanks:
  "goes k l \<Longrightarrow> sat (skip_blanks l) (\<lambda>l'. goes k l' \<and> starts_token (cur l') \<and>
     (cur l' = CHR ''/'' \<longrightarrow> cur (step_char l') \<noteq> CHR ''/'' \<and> cur (step_char l') \<noteq> CHR ''*''))"
  (is "_ \<Longrightarrow> sat _ (?Q k)")
proof (induction "length (lx_at l)" arbitrary: l rule: less_induct)
  case less
  have e: "ended (lx_at l)" using less.prems by (rule goes_ended)
  have IH: "sat (skip_blanks l1) (?Q k)" if "goes k l1" "length (lx_at l1) < length (lx_at l)" for l1
    using less.hyps that by blast
  have cur: "hd (lx_at l) = cur l" by (simp add: cur_def)
  have slash: "starts_token CHR ''/''" "\<not> is_space_case CHR ''/''" by (simp_all add: starts_token_def is_op_start_def is_space_case_def)
  consider (space) "is_space_case (cur l)"
    | (line) "cur l = CHR ''/''" "cur (step_char l) = CHR ''/''"
    | (comment) "cur l = CHR ''/''" "cur (step_char l) = CHR ''*''"
    | (token) "\<not> is_space_case (cur l)" "starts_token (cur l)" "cur l = CHR ''/'' \<longrightarrow> cur (step_char l) \<noteq> CHR ''/'' \<and> cur (step_char l) \<noteq> CHR ''*''"
    | (other) "\<not> is_space_case (cur l)" "\<not> starts_token (cur l)" "cur l \<noteq> CHR ''/''"
    using slash by metis
  then show ?case
  proof cases
    case space
    have "sat (skip_spaces l) (\<lambda>l1. sat (skip_blanks l1) (?Q k))"
      by (rule sat_mono[OF sat_skip_spaces[OF less.prems]]) (use IH skip_spaces_less space_case_whitespace[OF space] cur in auto)
    then show ?thesis using space e by (subst skip_blanks.simps) simp
  next
    case line
    have "sat (skip_while (\<lambda>c. c \<noteq> NUL \<and> c \<noteq> NL \<and> c \<noteq> CHR 0x0D) l) (\<lambda>l1. sat (skip_blanks l1) (?Q k))"
      by (rule sat_mono[OF sat_skip_while[OF less.prems]]) (use IH skip_while_less cur line in auto)
    then show ?thesis
      using line e less.prems by (subst skip_blanks.simps) (simp add: sat_state[where k = k] is_space_case_def)
  next
    case comment
    have "sat (skip_c_comment l) (\<lambda>l1. sat (skip_blanks l1) (?Q k))"
      by (rule sat_mono[OF sat_skip_c_comment[OF less.prems comment]]) (use IH skip_c_comment_less in auto)
    then show ?thesis
      using comment e less.prems by (subst skip_blanks.simps) (simp add: sat_state[where k = k] is_space_case_def)
  next
    case token
    then show ?thesis
      using e less.prems by (subst skip_blanks.simps) (auto simp: sat_state[where k = k])
  next
    case other
    have "cur l \<noteq> NUL" "cur l \<noteq> NL" using other by (auto simp: starts_token_def is_space_case_def)
    then have g: "goes k (step_char l)" using less.prems by (intro goes_step) auto
    have "sat (skip_blanks (lexer_on_error (step_char l) s f m)) (?Q k)" for s f m
      using IH[of "lexer_on_error (step_char l) s f m"] g e by simp
    then show ?thesis
      using other e less.prems by (subst skip_blanks.simps) (simp add: sat_state[where k = k])
  qed
qed

lemma sat_op_alt:
  "goes k l \<Longrightarrow> kind \<noteq> TKN_EOF \<Longrightarrow> list_all (\<lambda>(c, k'). c \<noteq> NUL \<and> c \<noteq> NL \<and> k' \<noteq> TKN_EOF) alts \<Longrightarrow>
    sat (op_alt l kind alts) (\<lambda>(k', l'). k' \<noteq> TKN_EOF \<and> goes k l')"
  by (induction alts) (auto simp: sat_state[where k = k])

lemma sat_scan_op:
  assumes "ended (lx_at l)" "cur l = c" "goes k (step_char l)"
  shows "sat (scan_op c l) (\<lambda>(k', l'). k' \<noteq> TKN_EOF \<and> goes k l')"
  using assms unfolding scan_op_def
  by (auto simp: adv_step sat_state[where k = k] split_beta intro!: sat_mono[OF sat_op_alt[of k]] sat_op_alt)

lemma is_dec_digit_set: "c \<in> set ''0123456789'' \<longleftrightarrow> is_dec_digit c"
proof
  assume "is_dec_digit c"
  then have "code c \<in> set [48..<58]" unfolding set_upt by (simp add: is_dec_digit_iff)
  then have "c \<in> set (map char_of [48..<58])" unfolding set_map by (metis char_of_char imageI)
  moreover have "map char_of [48..<58] = ''0123456789''" by code_simp
  ultimately show "c \<in> set ''0123456789''" by metis
qed (auto simp: is_dec_digit_iff)

lemma ident_start_not:
  assumes "is_ident_start c"
  shows "c \<noteq> CHR ''.'' \<and> \<not> is_op_start c \<and> c \<notin> set ''0123456789'' \<and> c \<noteq> SQUOTE \<and> c \<noteq> DQUOTE"
proof -
  have "list_all (\<lambda>c. c \<noteq> CHR ''.'' \<and> \<not> is_op_start c \<and> c \<notin> set ''0123456789'' \<and> c \<noteq> SQUOTE \<and> c \<noteq> DQUOTE)
     ''abcdefghijklmnopqrstuvwxyzABCDEFGHIJKLMNOPQRSTUVWXYZ_#''" by code_simp
  with assms show ?thesis unfolding is_ident_start_def list_all_iff by blast
qed

lemma starts_token_plain: "starts_token c \<Longrightarrow> c \<noteq> NL \<and> c \<noteq> BSLASH"
  by (auto simp: starts_token_def is_op_start_def is_ident_start_def)

text \<open>A token that begins at a character of the text ends after it; at the terminator there is only the end.\<close>

lemma sat_scan_raw:
  assumes e: "ended (lx_at l)" and t: "starts_token (cur l)"
  shows "sat (scan_raw l) (\<lambda>(r, l'). (if cur l = NUL then r = RawOp TKN_EOF \<and> l' = l else r \<noteq> RawOp TKN_EOF \<and> goes (step_char l) l'))"
proof (cases "cur l = NUL")
  case True
  have "scan_raw l = Some (RawOp TKN_EOF, l)"
    using True e by (simp add: scan_raw_def is_op_start_def is_ident_start_def)
  then show ?thesis using True by simp
next
  case False
  let ?k = "step_char l"
  have nl: "cur l \<noteq> NL" "cur l \<noteq> BSLASH" using t starts_token_plain by auto
  have g: "goes l l" using e by (rule goes_refl)
  have s: "goes l ?k" "goes ?k ?k" using goes_step[OF g False nl(1)] goes_refl goes_ended by auto
  have float: "sat (scan_float l) (\<lambda>p. goes ?k (snd p))" if "starts_float (lx_at l)"
    by (rule sat_mono[OF sat_scan_float[OF e that]]) (use nl goes_progress in auto)
  have run: "run is_dec_digit (lx_at l) = Some (takeWhile is_dec_digit (lx_at l), dropWhile is_dec_digit (lx_at l))"
    "ended (dropWhile is_dec_digit (lx_at l))"
    using run_ended[OF e, of is_dec_digit] by simp_all
  have hd_step: "hd (tl (lx_at l)) = cur ?k" by (simp add: cur_def step_text)
  have sat: "sat (scan_raw l) (\<lambda>p. fst p \<noteq> RawOp TKN_EOF \<and> goes ?k (snd p))"
  proof -
    consider (dot) "cur l = CHR ''.''" | (op) "cur l \<noteq> CHR ''.''" "is_op_start (cur l)" | (digit) "is_dec_digit (cur l)"
      | (char) "cur l = SQUOTE" | (str) "cur l = DQUOTE" | (ident) "is_ident_start (cur l)"
      using t False unfolding starts_token_def is_dec_digit_set by blast
    then show ?thesis
    proof cases
      case dot
      have "is_dec_digit (cur ?k) \<Longrightarrow> sat (scan_float l) (\<lambda>p. goes ?k (snd p))"
        using float dot hd_step e unfolding starts_float_def by (auto simp: cur_def)
      then show ?thesis
        using dot e s g unfolding scan_raw_def
        by (auto simp: sat_state[where k = l] sat_state[where k = ?k] elim!: sat_mono)
    next
      case op
      have "sat (scan_op (cur l) l) (\<lambda>p. fst p \<noteq> TKN_EOF \<and> goes ?k (snd p))"
        using sat_scan_op[OF e refl s(2)] by (simp add: split_beta')
      then show ?thesis using op e unfolding scan_raw_def by simp
    next
      case digit
      have "cur l \<noteq> CHR ''.''" "\<not> is_op_start (cur l)" using digit by (auto simp: is_op_start_def is_dec_digit_iff)
      moreover have "sat (scan_int l) (\<lambda>p. goes ?k (snd p))" using sat_scan_int[OF e digit s(2)] by (simp add: split_beta')
      moreover have "sat (scan_float l) (\<lambda>p. goes ?k (snd p))"
        if "hd (dropWhile is_dec_digit (lx_at l)) \<in> {CHR ''.'', CHR ''e'', CHR ''E''}"
        using float that digit unfolding starts_float_def by (simp add: cur_def)
      moreover have "scan_raw l = (if hd (dropWhile is_dec_digit (lx_at l)) \<in> {CHR ''.'', CHR ''e'', CHR ''E''}
          then map_option (apfst RawFloat) (scan_float l) else map_option (apfst RawInt) (scan_int l))"
        unfolding scan_raw_def is_dec_digit_set peek_ended[OF e] bind.bind_lunit run(1) split_conv peek_hd[OF run(2)]
        using calculation(1,2) digit by simp
      ultimately show ?thesis by simp
    next
      case char
      have "sat (scan_char l) (\<lambda>p. goes ?k (snd p))" using sat_scan_char[OF e char s(2)] by (simp add: split_beta')
      then show ?thesis using char e unfolding scan_raw_def by (simp add: is_op_start_def)
    next
      case str
      have "sat (scan_string l) (\<lambda>p. goes ?k (snd p))" using sat_scan_string[OF e str s(2)] by (simp add: split_beta')
      then show ?thesis using str e unfolding scan_raw_def by (simp add: is_op_start_def)
    next
      case ident
      then have "cur l \<noteq> CHR ''.''" "\<not> is_op_start (cur l)" "cur l \<notin> set ''0123456789''" "cur l \<noteq> SQUOTE" "cur l \<noteq> DQUOTE"
        using ident_start_not[OF ident] by (simp_all del: set_simps)
      moreover have "sat (skip_while is_alphanum ?k) (\<lambda>l'. goes ?k l')"
        by (rule sat_mono[OF sat_skip_while[OF s(2)]]) (auto simp: NL_props)
      ultimately show ?thesis using ident e unfolding scan_raw_def by (simp add: adv_step del: set_simps)
    qed
  qed
  show ?thesis by (rule sat_mono[OF sat]) (simp add: False split_beta)
qed

lemma intern_raw_keeps:
  "intern_raw start r l = Some (k, v, l') \<Longrightarrow> ended (lx_at l) \<Longrightarrow> goes m l \<Longrightarrow> goes m l' \<and> lx_at l' = lx_at l \<and> lx_pos l' = lx_pos l \<and> lx_start l' = lx_start l"
  by (auto simp: intern_raw_def Let_def goes_def moved_def split: RawToken.splits bind_splits IdentifierKind.splits if_splits)

lemma intern_raw_kind: "intern_raw start r l = Some (k, v, l') \<Longrightarrow> k = TKN_EOF \<longleftrightarrow> r = RawOp TKN_EOF"
  by (auto simp: intern_raw_def Let_def split: RawToken.splits bind_splits IdentifierKind.splits if_splits)

section \<open>Whole tokens\<close>

lemma scan_token_parts:
  assumes "ended (lx_at l)"
  shows "\<exists>l1 r l2. skip_blanks l = Some l1 \<and> scan_raw l1 = Some (r, l2) \<and> goes l l1 \<and> goes l1 l2 \<and>
    (if r = RawOp TKN_EOF then l2 = l1 \<and> lx_at l1 = [NUL] else lx_pos l1 < lx_pos l2)"
proof -
  from sat_skip_blanks[OF goes_refl[OF assms]] obtain l1 where l1: "skip_blanks l = Some l1" "goes l l1" "starts_token (cur l1)"
    by (auto simp: sat_def)
  note e = goes_ended[OF l1(2)]
  from sat_scan_raw[OF e l1(3)] obtain r l2 where raw: "scan_raw l1 = Some (r, l2)"
      "if cur l1 = NUL then r = RawOp TKN_EOF \<and> l2 = l1 else r \<noteq> RawOp TKN_EOF \<and> goes (step_char l1) l2"
    by (auto simp: sat_def)
  have "lx_at l1 = [NUL]" if "cur l1 = NUL" using that e by (cases "lx_at l1") (auto simp: cur_def)
  moreover have "goes l1 (step_char l1)" if "cur l1 \<noteq> NUL"
    using goes_step[OF goes_refl[OF e] that] starts_token_plain[OF l1(3)] by simp
  ultimately show ?thesis
    using l1 raw e by (intro exI[of _ l1] exI[of _ r] exI[of _ l2]) (auto intro: goes_refl goes_trans dest: goes_pos split: if_splits)
qed

lemma scan_token_step:
  assumes "ended (lx_at l)" "scan_token l = Some (tk, l')"
  shows "goes l l'" "if tk_kind tk = TKN_EOF then lx_at l' = [NUL] else lx_pos l < lx_pos l'"
    "lexer_pos l' = rg_end (tk_range tk)"
proof -
  obtain l1 r l2 where p: "skip_blanks l = Some l1" "scan_raw l1 = Some (r, l2)" "goes l l1" "goes l1 l2"
      "if r = RawOp TKN_EOF then l2 = l1 \<and> lx_at l1 = [NUL] else lx_pos l1 < lx_pos l2"
    using scan_token_parts[OF assms(1)] by blast
  from assms(2) p(1,2) obtain v k where i: "intern_raw (lexer_pos l1) r l2 = Some (k, v, l')" "tk_kind tk = k" "lexer_pos l' = rg_end (tk_range tk)"
    by (auto simp: scan_token_def Let_def split: bind_splits)
  have "goes l l2" using p(3,4) by (rule goes_trans)
  from intern_raw_keeps[OF i(1) goes_ended[OF this] this] show "goes l l'" "lexer_pos l' = rg_end (tk_range tk)" using i(3) by simp_all
  show "if tk_kind tk = TKN_EOF then lx_at l' = [NUL] else lx_pos l < lx_pos l'"
    using intern_raw_keeps[OF i(1) goes_ended[OF \<open>goes l l2\<close>] \<open>goes l l2\<close>] intern_raw_kind[OF i(1)] i(2) p(5) goes_pos[OF p(3)]
    by (auto split: if_splits)
qed

text \<open>A sequence of calls.\<close>

fun scan_tokens :: "nat \<Rightarrow> Lexer \<Rightarrow> (Token list \<times> Lexer) option" where
  "scan_tokens 0 l = Some ([], l)"
| "scan_tokens (Suc n) l = do {
     (tk, l) \<leftarrow> scan_token l;
     (tks, l) \<leftarrow> scan_tokens n l;
     Some (tk # tks, l) }"

lemma scan_tokens_goes:
  "scan_tokens n l = Some (tks, l') \<Longrightarrow> ended (lx_at l) \<Longrightarrow>
   goes l l' \<and> length tks = n \<and> (if TKN_EOF \<in> tk_kind ` set tks then lx_at l' = [NUL] else lx_pos l + n \<le> lx_pos l')"
proof (induction n arbitrary: l tks)
  case (Suc n)
  then obtain tk l1 tks1 where s: "scan_token l = Some (tk, l1)" "scan_tokens n l1 = Some (tks1, l')" "tks = tk # tks1"
    by (auto split: bind_splits)
  note t = scan_token_step[OF Suc.prems(2) s(1)]
  note IH = Suc.IH[OF s(2) goes_ended[OF t(1)]]
  have "lx_at l' = [NUL]" if "lx_at l1 = [NUL]"
    using IH that by (auto simp: goes_def moved_def Cons_eq_append_conv)
  then show ?case using t IH s(3) by (auto intro: goes_trans dest: goes_pos split: if_splits)
qed (simp add: goes_refl)

end
