(* ===== verification/Source_Pos.thy ===== *)
theory Source_Pos
  imports Lexer
begin

text \<open>
  The source files of a compilation (\<open>src/src/compiler.c\<close>, lines 14-172): every file gets the positions after those
  of the file before it; a position is turned back into its file, line and column, and an error is printed with the
  text it is about. The list of files is the list of its elements; the standard error stream is the text written to
  it.
\<close>

record SourceFile =
  sf_range :: ProgRange
  sf_code :: string
  sf_abs_path :: string
  sf_abs_path_len :: nat
  sf_line_pos :: "ProgPos list"

definition get_curr_src_pos :: "SourceFile list \<Rightarrow> ProgPos" where
  "get_curr_src_pos src_files = (if src_files = [] then 0 else rg_end (sf_range (last src_files)))"

definition add_src_file :: "SourceFile list \<Rightarrow> string \<Rightarrow> nat \<Rightarrow> string \<Rightarrow> nat \<Rightarrow> SourceFile \<times> SourceFile list" where
  "add_src_file src_files abs_path abs_path_len code code_len =
     (let src_pos = get_curr_src_pos src_files;
          src_file = \<lparr>sf_range = \<lparr>rg_start = src_pos, rg_end = src_pos + of_nat code_len\<rparr>, sf_code = code,
                      sf_abs_path = abs_path, sf_abs_path_len = abs_path_len, sf_line_pos = []\<rparr>
      in (src_file, src_files @ [src_file]))"

fun get_src_file :: "SourceFile list \<Rightarrow> ProgPos \<Rightarrow> SourceFile option" where
  "get_src_file [] pos = None"
| "get_src_file (src_file # src_files) pos =
     (if pos < rg_end (sf_range src_file) then Some src_file else get_src_file src_files pos)"

record LineCol =
  lc_line :: u32
  lc_col :: u32

text \<open>How many lines end at or before the position, with the assertion on each end that is looked at.\<close>

fun line_index :: "ProgPos list \<Rightarrow> ProgPos \<Rightarrow> ProgPos \<Rightarrow> nat option" where
  "line_index [] file_end pos = Some 0"
| "line_index (line_end # line_pos) file_end pos = do {
     assert_opt (line_end \<le> file_end);
     if pos < line_end then Some 0 else map_option Suc (line_index line_pos file_end pos) }"

definition get_src_linecol :: "SourceFile \<Rightarrow> ProgPos \<Rightarrow> LineCol option" where
  "get_src_linecol src_file pos = do {
     assert_opt (pos \<ge> rg_start (sf_range src_file));
     assert_opt (pos \<le> rg_end (sf_range src_file));
     line_pos_i \<leftarrow> line_index (sf_line_pos src_file) (rg_end (sf_range src_file)) pos;
     let line_start = (if line_pos_i = 0 then rg_start (sf_range src_file) else sf_line_pos src_file ! (line_pos_i - 1));
     Some \<lparr>lc_line = of_nat line_pos_i + 1, lc_col = pos - line_start + 1\<rparr> }"

text \<open>The lexer that \<open>parse_code_recursive\<close> makes for a file.\<close>

definition file_lexer :: "string \<Rightarrow> ProgPos \<Rightarrow> (ProgRange \<times> string) list \<Rightarrow> SourceFile \<Rightarrow> Identifier InternTab \<Rightarrow> StrLit InternTab \<Rightarrow> Lexer" where
  "file_lexer code src_pos errors src_file ident_map str_lit_map =
     \<lparr>lx_at = code, lx_pos = 0, lx_start = src_pos, lx_errors = Some errors, lx_line_pos = Some (sf_line_pos src_file),
      lx_idents = ident_map, lx_strs = str_lit_map\<rparr>"

section \<open>Printing an error\<close>

definition OS_PATH_SEP :: char where "OS_PATH_SEP = CHR ''/''"

text \<open>The start of the base name within the path.\<close>

fun path_basename_ptr :: "string \<Rightarrow> nat \<Rightarrow> nat" where
  "path_basename_ptr path 0 = 0"
| "path_basename_ptr path (Suc n) = (if path ! n = OS_PATH_SEP then Suc n else path_basename_ptr path n)"

abbreviation ESC :: char where "ESC \<equiv> CHR 0x1B"

definition RED_COLOR_CODE :: string where "RED_COLOR_CODE = ESC # ''[31m''"
definition RESET_COLOR_CODE :: string where "RESET_COLOR_CODE = ESC # ''[0m''"

definition ftprint_err :: "string \<Rightarrow> string \<Rightarrow> va_arg list \<Rightarrow> string option" where
  "ftprint_err err fmt args = map_option fst (ftprint_char_array err False (fmt @ [NUL]) args)"

text \<open>A character of the text; past its end there is none.\<close>

definition code_at :: "string \<Rightarrow> nat \<Rightarrow> char option" where
  "code_at code i = (if i < length code then Some (code ! i) else None)"

definition line_mark :: string where "line_mark = NL # '' %5d | ''"

lemma pos_step: "p < e \<Longrightarrow> unat (e - (p + 1)) < unat (e - p)" for p e :: ProgPos
proof -
  assume "p < e"
  then have "e - p \<noteq> 0" by auto
  then have "unat (e - p - 1) < unat (e - p)" by (simp add: unat_minus_one unat_gt_0)
  then show ?thesis by (simp add: algebra_simps)
qed

text \<open>The characters from one position to another, with a mark at every new line.\<close>

function print_range :: "SourceFile \<Rightarrow> string \<Rightarrow> ProgPos \<Rightarrow> ProgPos \<Rightarrow> u32 \<Rightarrow> string \<Rightarrow> (u32 \<times> string) option" where
  "print_range src_file mark p e line err =
     (if p < e then do {
        ch \<leftarrow> code_at (sf_code src_file) (unat (p - rg_start (sf_range src_file)));
        if ch = NL then do {
          err \<leftarrow> ftprint_err err mark [AInt (line + 1)];
          print_range src_file mark (p + 1) e (line + 1) err }
        else do {
          err \<leftarrow> ftprint_err err ''%c'' [AInt (promote ch)];
          print_range src_file mark (p + 1) e line err } }
      else Some (line, err))"
  by pat_completeness auto
termination
  by (relation "measure (\<lambda>(src_file, mark, p, e, line, err). unat (e - p))") (auto simp: pos_step)

declare print_range.simps [simp del]

text \<open>The rest of the line.\<close>

fun print_rest :: "string \<Rightarrow> string \<Rightarrow> string option" where
  "print_rest [] err = None"
| "print_rest (c # cs) err =
     (if c \<noteq> NUL \<and> c \<noteq> NL then do {
        err \<leftarrow> ftprint_err err ''%c'' [AInt (promote c)];
        print_rest cs err }
      else Some err)"

text \<open>The addresses are those of the path and of the message. The length of the path is read as an \<open>int\<close>.\<close>

definition print_error :: "SourceFile list \<Rightarrow> ProgRange \<Rightarrow> string \<Rightarrow> bool \<Rightarrow> bool \<Rightarrow> u64 \<Rightarrow> u64 \<Rightarrow> string \<Rightarrow> string option" where
  "print_error src_files rng msg use_colors test_mode_paths path_addr msg_addr err = do {
     src_file \<leftarrow> get_src_file src_files (rg_start rng);
     linecol_s \<leftarrow> get_src_linecol src_file (rg_start rng);
     let base = (if test_mode_paths then path_basename_ptr (sf_abs_path src_file) (sf_abs_path_len src_file) else 0);
     let src_file_path = drop base (sf_abs_path src_file);
     let src_file_path_len = sf_abs_path_len src_file - base;
     err \<leftarrow> ftprint_err err (''%.*s:%u:%u: [Error]: %s'' @ [NL, NL])
       [AInt (of_nat src_file_path_len), AStr (Some (path_addr + of_nat base, src_file_path)), AInt (lc_line linecol_s),
        AInt (lc_col linecol_s), AStr (Some (msg_addr, msg))];
     let line = lc_line linecol_s;
     err \<leftarrow> ftprint_err err '' %5d | '' [AInt line];
     (line, err) \<leftarrow> print_range src_file line_mark (rg_start rng - (lc_col linecol_s - 1)) (rg_start rng) line err;
     err \<leftarrow> (if use_colors then ftprint_err err RED_COLOR_CODE [] else Some err);
     (line, err) \<leftarrow> print_range src_file (if use_colors then RESET_COLOR_CODE @ line_mark @ RED_COLOR_CODE else line_mark)
       (rg_start rng) (rg_end rng) line err;
     err \<leftarrow> (if use_colors then ftprint_err err RESET_COLOR_CODE [] else Some err);
     err \<leftarrow> print_rest (drop (unat (rg_end rng - rg_start (sf_range src_file))) (sf_code src_file)) err;
     ftprint_err err [NL, NL] [] }"

text \<open>The messages have addresses of their own.\<close>

fun print_error_list :: "SourceFile list \<Rightarrow> (ProgRange \<times> string) list \<Rightarrow> bool \<Rightarrow> bool \<Rightarrow> u64 \<Rightarrow> (ProgRange \<times> string \<Rightarrow> u64) \<Rightarrow> string \<Rightarrow> string option" where
  "print_error_list src_files [] use_colors test_mode_paths path_addr msg_addr err = Some err"
| "print_error_list src_files ((rng, msg) # errors) use_colors test_mode_paths path_addr msg_addr err = do {
     err \<leftarrow> print_error src_files rng msg use_colors test_mode_paths path_addr (msg_addr (rng, msg)) err;
     print_error_list src_files errors use_colors test_mode_paths path_addr msg_addr err }"

definition print_errors :: "SourceFile list \<Rightarrow> (ProgRange \<times> string) list \<Rightarrow> bool \<Rightarrow> bool \<Rightarrow> u64 \<Rightarrow> (ProgRange \<times> string \<Rightarrow> u64) \<Rightarrow> string \<Rightarrow> string option" where
  "print_errors src_files errors stderr_atty test_mode_paths path_addr msg_addr err =
     (if errors \<noteq> [] then do {
        err \<leftarrow> ftprint_err err (NL # ''%u errors:'' @ [NL, NL]) [AInt (of_nat (length errors))];
        print_error_list src_files errors stderr_atty test_mode_paths path_addr msg_addr err }
      else Some err)"

end
