(* ===== verification/Lexer_Tokens.thy ===== *)
theory Lexer_Tokens
  imports Lexer_Correct Source_Pos
begin

text \<open>
  What the lexer promises: it stays in its text and reaches its end, operators are read back, integer literals have
  their value, and the lines it records turn positions into lines and columns.
\<close>

section \<open>Bounds and progress\<close>

text \<open>
  C35. On a text whose only terminator is its last character and is not right after a backslash or a single quote, the
  lexer never reads outside of the text and none of its assertions fails, among them those that \<open>strtod\<close> and
  \<open>strtof\<close> stop at the character where the lexer stopped: \<open>scan_token\<close> skips to a token, reads it, and can only
  fail where it interns the token. It moves forward by at least a character unless it is at the end of the text.
\<close>

theorem scan_token_in_bounds:
  assumes "lx_at l = body @ [NUL]" "NUL \<notin> set body" "body \<noteq> [] \<longrightarrow> last body \<noteq> BSLASH \<and> last body \<noteq> SQUOTE"
  shows "\<exists>l1 r l2 skipped token. skip_blanks l = Some l1 \<and> scan_raw l1 = Some (r, l2) \<and>
     scan_token l = do {
       (kind, v, l3) \<leftarrow> intern_raw (lexer_pos l1) r l2;
       Some (\<lparr>tk_kind = kind, tk_range = \<lparr>rg_start = lexer_pos l1, rg_end = lexer_pos l3\<rparr>, tk_value = v\<rparr>, l3) } \<and>
     lx_at l = skipped @ token @ lx_at l2 \<and> lx_at l2 \<noteq> [] \<and>
     lx_pos l1 = lx_pos l + length skipped \<and> lx_pos l2 = lx_pos l1 + length token \<and>
     (token = [] \<longleftrightarrow> r = RawOp TKN_EOF) \<and> (r = RawOp TKN_EOF \<longrightarrow> lx_at l2 = [NUL])"
proof -
  have "ended (lx_at l)" using assms by (simp add: ended_iff)
  then obtain l1 r l2 where p: "skip_blanks l = Some l1" "scan_raw l1 = Some (r, l2)" "goes l l1" "goes l1 l2"
      "if r = RawOp TKN_EOF then l2 = l1 \<and> lx_at l1 = [NUL] else lx_pos l1 < lx_pos l2"
    using scan_token_parts by blast
  from p(3) obtain cs where cs: "lx_at l = cs @ lx_at l1" "lx_pos l1 = lx_pos l + length cs" by (auto simp: goes_def moved_def)
  from p(4) obtain ds where ds: "lx_at l1 = ds @ lx_at l2" "lx_pos l2 = lx_pos l1 + length ds" "lx_at l2 \<noteq> []"
    by (auto simp: goes_def moved_def)
  have scan: "scan_token l = do {
       (kind, v, l3) \<leftarrow> intern_raw (lexer_pos l1) r l2;
       Some (\<lparr>tk_kind = kind, tk_range = \<lparr>rg_start = lexer_pos l1, rg_end = lexer_pos l3\<rparr>, tk_value = v\<rparr>, l3) }"
    using p(1,2) by (simp add: scan_token_def Let_def)
  have at: "lx_at l = cs @ ds @ lx_at l2" using cs(1) ds(1) by (simp only:)
  have eof: "ds = [] \<longleftrightarrow> r = RawOp TKN_EOF" using p(5) ds(2) by (auto split: if_splits)
  have end_text: "r = RawOp TKN_EOF \<longrightarrow> lx_at l2 = [NUL]" using p(5) by simp
  show ?thesis by (intro exI conjI) (fact p(1) p(2) scan at ds(3) cs(2) ds(2) eof end_text)+
qed

abbreviation test_tab :: "'n InternTab" where
  "test_tab \<equiv> \<lparr>it_map = \<lparr>entries = [], hm_cap = 0, hm_len = 0, hm_mask = 0, hm_alloc = \<lambda>_. False\<rparr>, it_heap = Map.empty, it_count = 0, it_addr = of_nat\<rparr>"

definition test_lexer :: "string \<Rightarrow> Lexer" where
  "test_lexer input = \<lparr>lx_at = input, lx_pos = 0, lx_start = 0, lx_errors = Some [], lx_line_pos = Some [],
     lx_idents = test_tab, lx_strs = test_tab\<rparr>"

lemma test_at: "lx_at (test_lexer s) = s" "lx_pos (test_lexer s) = 0"
  by (simp_all add: test_lexer_def)

theorem scan_token_in_bounds_witness:
  "\<exists>l1 r l2 skipped token. skip_blanks (test_lexer (''1.5e+3 + x'' @ [NUL])) = Some l1 \<and> scan_raw l1 = Some (r, l2) \<and>
     ''1.5e+3 + x'' @ [NUL] = skipped @ token @ lx_at l2 \<and> lx_at l2 \<noteq> []"
proof -
  have "NUL \<notin> set ''1.5e+3 + x''" "''1.5e+3 + x'' \<noteq> [] \<longrightarrow> last ''1.5e+3 + x'' \<noteq> BSLASH \<and> last ''1.5e+3 + x'' \<noteq> SQUOTE" by simp_all
  from scan_token_in_bounds[OF test_at(1) this] show ?thesis unfolding test_at(1) by blast
qed

text \<open>
  C36. A program that keeps asking for tokens of such a text gets the end-of-file token after at most as many tokens as
  the text has characters, and from then on the lexer is at the terminator.
\<close>

theorem scan_tokens_reach_eof:
  assumes "lx_at l = body @ [NUL]" "NUL \<notin> set body" "body \<noteq> [] \<longrightarrow> last body \<noteq> BSLASH \<and> last body \<noteq> SQUOTE"
    and "scan_tokens n l = Some (tks, l')" "length body < n"
  shows "TKN_EOF \<in> tk_kind ` set tks \<and> lx_at l' = [NUL] \<and> lx_pos l' = lx_pos l + length body"
proof -
  have e: "ended (lx_at l)" using assms(1-3) by (simp add: ended_iff)
  note s = scan_tokens_goes[OF assms(4) e]
  then obtain cs where cs: "lx_at l = cs @ lx_at l'" "lx_pos l' = lx_pos l + length cs" "NUL \<notin> set cs" "lx_at l' \<noteq> []"
    by (auto simp: goes_def moved_def)
  have "length cs + length (lx_at l') = length body + 1" using cs(1) assms(1) by (metis length_append length_append_singleton Suc_eq_plus1)
  moreover from this have "length cs \<le> length body" using cs(4) by (cases "lx_at l'") auto
  ultimately show ?thesis using s cs(2) assms(5) by (auto split: if_splits)
qed

theorem scan_tokens_reach_eof_witness:
  "\<exists>tks l'. scan_tokens 4 (test_lexer (''+ 7'' @ [NUL])) = Some (tks, l') \<and> TKN_EOF \<in> tk_kind ` set tks \<and> lx_at l' = [NUL]"
proof -
  let ?l = "test_lexer (''+ 7'' @ [NUL])"
  have "map_option (\<lambda>(tks, l'). map tk_kind tks) (scan_tokens 4 ?l) = Some [TKN_PLUS, TKN_INT, TKN_EOF, TKN_EOF]"
    by code_simp
  then obtain tks l' where s: "scan_tokens 4 ?l = Some (tks, l')" by auto
  have "NUL \<notin> set ''+ 7''" "''+ 7'' \<noteq> [] \<longrightarrow> last ''+ 7'' \<noteq> BSLASH \<and> last ''+ 7'' \<noteq> SQUOTE" "length ''+ 7'' < 4" by simp_all
  from scan_tokens_reach_eof[OF test_at(1) this(1,2) s this(3)] s show ?thesis by blast
qed

section \<open>Operators\<close>

definition named_by_class :: "TokenKind \<Rightarrow> bool" where
  "named_by_class k \<longleftrightarrow> k \<in> {TKN_INVALID, TKN_EOF, TKN_STR, TKN_IDENT, TKN_KW, TKN_INT, TKN_FLOAT}"

abbreviation after_op :: "char \<Rightarrow> bool" where
  "after_op c \<equiv> \<not> is_op_start c \<and> c \<noteq> CHR ''.'' \<and> \<not> is_dec_digit c"

lemma op_starts: "list_all is_op_start ''/()[]{};:,@+-*%!><&|^~?=''"
  by code_simp

lemma operator_raw:
  assumes c: "after_op c"
  shows "list_all (\<lambda>(k, name). named_by_class k \<or>
    scan_raw (l\<lparr>lx_at := name @ c # rest\<rparr>) = Some (RawOp k, l\<lparr>lx_at := c # rest, lx_pos := lx_pos l + length name\<rparr>)) token_kind_names"
proof -
  have ne: "c \<noteq> CHR ''=''" "c \<noteq> CHR ''>''" "c \<noteq> CHR '':''" "c \<noteq> CHR ''-''" "c \<noteq> CHR ''%''" "c \<noteq> CHR ''&''" "c \<noteq> CHR ''|''"
      "c \<noteq> CHR ''<''" "c \<noteq> CHR ''.''" "\<not> is_dec_digit c"
    using c op_starts by auto
  have dot: "\<not> is_op_start CHR ''.''" "\<not> is_dec_digit CHR ''.''" by (simp_all add: is_op_start_def is_dec_digit_iff)
  show ?thesis
    unfolding token_kind_names_def list.pred_inject prod.case
    by (intro conjI)
       (simp_all add: named_by_class_def scan_raw_def scan_op_def adv_def at1_def peek_def ne dot op_starts[simplified])
qed

lemma operator_no_blank:
  assumes c: "after_op c"
  shows "list_all (\<lambda>(k, name). named_by_class k \<or> skip_blanks (l\<lparr>lx_at := name @ c # rest\<rparr>) = Some (l\<lparr>lx_at := name @ c # rest\<rparr>)) token_kind_names"
proof -
  have ne: "c \<noteq> CHR ''/''" "c \<noteq> CHR ''*''" using c op_starts by auto
  have starts: "starts_token CHR ''.''" "\<And>c. is_op_start c \<Longrightarrow> starts_token c" by (simp_all add: starts_token_def)
  show ?thesis
    unfolding token_kind_names_def list.pred_inject prod.case
    by (intro conjI; subst skip_blanks.simps)
       (simp_all add: named_by_class_def is_space_case_def at1_def peek_def ne starts op_starts[simplified])
qed

text \<open>
  C37. Operators and punctuation are read as they are named: when the text goes on with the name that
  \<open>token_kind_names\<close> gives to the kind of a token, and then with a character that cannot continue an operator, the
  next token has this kind and covers exactly the name. In particular the longest operator is taken.
\<close>

theorem operators_read_back:
  assumes "(k, name) \<in> set token_kind_names" "k \<notin> {TKN_INVALID, TKN_EOF, TKN_STR, TKN_IDENT, TKN_KW, TKN_INT, TKN_FLOAT}"
    and "lx_at l = name @ c # rest" "c \<notin> set ''/()[]{};:,@+-*%!><&|^~?=.0123456789''"
  shows "scan_token l =
    Some (\<lparr>tk_kind = k, tk_range = \<lparr>rg_start = lexer_pos l, rg_end = lexer_pos l + of_nat (length name)\<rparr>, tk_value = NoValue\<rparr>,
      l\<lparr>lx_at := c # rest, lx_pos := lx_pos l + length name\<rparr>)"
proof -
  have c: "after_op c" using assms(4) unfolding is_dec_digit_set[symmetric] by (auto simp: is_op_start_def)
  have l: "l = l\<lparr>lx_at := name @ c # rest\<rparr>" using assms(3) by (cases l) simp
  have k: "\<not> named_by_class k" using assms(2) by (simp add: named_by_class_def)
  have "skip_blanks l = Some l" using operator_no_blank[OF c, where l = l and rest = rest] assms(1) k l by (auto simp: list_all_iff)
  moreover have "scan_raw l = Some (RawOp k, l\<lparr>lx_at := c # rest, lx_pos := lx_pos l + length name\<rparr>)"
    using operator_raw[OF c, where l = l and rest = rest] assms(1) k l by (auto simp: list_all_iff)
  ultimately show ?thesis by (simp add: scan_token_def intern_raw_def lexer_pos_def)
qed

theorem operators_read_back_witness:
  "map_option fst (scan_token (test_lexer (''>>= x'' @ [NUL]))) =
     Some \<lparr>tk_kind = TKN_RSHIFT_ASSIGN, tk_range = \<lparr>rg_start = 0, rg_end = 3\<rparr>, tk_value = NoValue\<rparr>"
proof -
  have "(TKN_RSHIFT_ASSIGN, ''>>='') \<in> set token_kind_names" by (simp add: token_kind_names_def)
  moreover have "lx_at (test_lexer (''>>= x'' @ [NUL])) = ''>>='' @ CHR '' '' # (''x'' @ [NUL])" by (simp add: test_at)
  moreover have "CHR '' '' \<notin> set ''/()[]{};:,@+-*%!><&|^~?=.0123456789''" by simp
  ultimately show ?thesis
    using operators_read_back[of TKN_RSHIFT_ASSIGN "''>>=''" "test_lexer (''>>= x'' @ [NUL])" "CHR '' ''" "''x'' @ [NUL]"]
    by (simp add: test_lexer_def lexer_pos_def)
qed

section \<open>Integer literals\<close>

text \<open>Digits, each with whether a separator follows, as the text has them; and their value.\<close>

fun digit_text :: "(char \<times> bool) list \<Rightarrow> string" where
  "digit_text [] = []"
| "digit_text ((d, u) # ds) = d # (if u then ''_'' else []) @ digit_text ds"

definition digits_value :: "nat \<Rightarrow> nat \<Rightarrow> (char \<times> bool) list \<Rightarrow> nat" where
  "digits_value b v ds = foldl (\<lambda>v (d, _). v * b + (biased_digit d - 1)) v ds"

definition digits_in_base :: "nat \<Rightarrow> (char \<times> bool) list \<Rightarrow> bool" where
  "digits_in_base b ds \<longleftrightarrow> list_all (\<lambda>(d, _). 1 \<le> biased_digit d \<and> biased_digit d \<le> b) ds"

lemma digits_value_simps [simp]:
  "digits_value b v [] = v" "digits_value b v ((d, u) # ds) = digits_value b (v * b + (biased_digit d - 1)) ds"
  by (simp_all add: digits_value_def)

lemma digits_value_ge: "0 < b \<Longrightarrow> v \<le> digits_value b v ds"
proof (induction ds arbitrary: v)
  case (Cons x ds)
  obtain d u where x: "x = (d, u)" by (cases x)
  have "v \<le> v * b" using Cons.prems by simp
  then have "v \<le> v * b + (biased_digit d - 1)" by (rule trans_le_add1)
  then show ?case using Cons.IH[OF Cons.prems, of "v * b + (biased_digit d - 1)"] x by simp
qed simp

text \<open>The test for overflow is exact.\<close>

lemma digit_step:
  fixes v :: u64
  assumes "d < b" "2 \<le> b" "b \<le> 16"
  shows "v > (- 1 - of_nat d) div of_nat b \<longleftrightarrow> 2 ^ 64 \<le> unat v * b + d"
    "\<not> 2 ^ 64 \<le> unat v * b + d \<Longrightarrow> unat (v * of_nat b + of_nat d) = unat v * b + d"
proof -
  have small: "unat (of_nat d :: u64) = d" "unat (of_nat b :: u64) = b" using assms by (simp_all add: unat_of_nat)
  have "unat (- 1 - of_nat d :: u64) = 2 ^ 64 - 1 - d"
    using small(1) assms by (simp add: unat_sub word_le_nat_alt unsigned_minus_1_eq_mask mask_eq_exp_minus_1)
  then have "unat ((- 1 - of_nat d) div of_nat b :: u64) = (2 ^ 64 - 1 - d) div b" by (simp add: unat_div small)
  then have "v > (- 1 - of_nat d) div of_nat b \<longleftrightarrow> (2 ^ 64 - 1 - d) div b < unat v" by (simp add: word_less_nat_alt)
  also have "\<dots> \<longleftrightarrow> 2 ^ 64 - 1 - d < unat v * b" using assms(2) by (simp add: div_less_iff_less_mult)
  also have "\<dots> \<longleftrightarrow> 2 ^ 64 \<le> unat v * b + d" using assms by auto
  finally show "v > (- 1 - of_nat d) div of_nat b \<longleftrightarrow> 2 ^ 64 \<le> unat v * b + d" .
  show "unat (v * of_nat b + of_nat d) = unat v * b + d" if "\<not> 2 ^ 64 \<le> unat v * b + d"
    using that by (simp add: unat_word_ariths small)
qed

lemma at_skip_n: "lx_at l = s @ t \<Longrightarrow> lx_at (skip_n (length s) l) = t"
  by simp

lemma scan_digits_loop_correct:
  assumes "2 \<le> b" "b \<le> 16" "biased_digit c = 0" "c \<noteq> CHR ''_''" "digits_in_base b ds" "lx_at l = digit_text ds @ c # rest"
  shows "if digits_value b (unat v) ds < 2 ^ 64
    then scan_digits_loop l (of_nat b) (- 1) v = Some (SCAN_DIGITS_ERR_NONE, of_nat (digits_value b (unat v) ds), skip_n (length (digit_text ds)) l)
    else \<exists>n < length (digit_text ds). scan_digits_loop l (of_nat b) (- 1) v = Some (SCAN_DIGITS_ERR_OVERFLOW, 0, skip_n n l)"
  using assms(5,6)
proof (induction ds arbitrary: l v)
  case Nil
  have "unat v < 2 ^ 64" using unsigned_less[of v] by simp
  with Nil assms(3) show ?case by (subst scan_digits_loop.simps) (simp add: peek_def)
next
  case (Cons x ds)
  obtain d u where x: "x = (d, u)" by (cases x)
  let ?d = "biased_digit d - 1"
  have d: "biased_digit d \<noteq> 0" "?d < b" and ds: "digits_in_base b ds" using Cons.prems(1) assms(1) x by (auto simp: digits_in_base_def)
  have word: "\<not> (of_nat ?d :: u64) \<ge> of_nat b" using d(2) assms(2) by (simp add: not_le word_less_nat_alt unat_of_nat)
  let ?t = "digit_text ds @ c # rest"
  have at: "lx_at l = d # (if u then ''_'' else []) @ ?t" using Cons.prems(2) x by simp
  have sep: "hd ?t \<noteq> CHR ''_''" "?t \<noteq> []"
  proof -
    have "biased_digit CHR ''_'' = 0" by (simp add: biased_digit_iff)
    then show "hd ?t \<noteq> CHR ''_''" using ds assms(4) by (cases ds) (auto simp: digits_in_base_def split: prod.splits)
  qed simp
  define l2 where "l2 = skip_n (length (digit_text [x])) l"
  have at2: "lx_at l2 = ?t" using at x by (simp add: l2_def)
  have adv: "do { l1 \<leftarrow> adv l; a \<leftarrow> at0 l1; if a = CHR ''_'' then adv l1 else Some l1 } = Some l2"
    using at x sep by (cases u; cases "?t") (auto simp: adv_def l2_def skip_n_def peek_def)
  have loop: "scan_digits_loop l (of_nat b) (- 1) v =
    (if v > (- 1 - of_nat ?d) div of_nat b then Some (SCAN_DIGITS_ERR_OVERFLOW, 0, l)
     else scan_digits_loop l2 (of_nat b) (- 1) (v * of_nat b + of_nat ?d))"
  proof -
    obtain l1 a where "adv l = Some l1" "at0 l1 = Some a" "(if a = CHR ''_'' then adv l1 else Some l1) = Some l2"
      using adv by (auto simp only: bind_eq_Some_conv)
    then show ?thesis using at d(1) word by (subst scan_digits_loop.simps) (simp add: Let_def peek_def del: of_nat_diff)
  qed
  show ?case
  proof (cases "2 ^ 64 \<le> unat v * b + ?d")
    case True
    have "2 ^ 64 \<le> digits_value b (unat v) (x # ds)" using digits_value_ge[of b "unat v * b + ?d" ds] True assms(1) x by simp
    moreover have "scan_digits_loop l (of_nat b) (- 1) v = Some (SCAN_DIGITS_ERR_OVERFLOW, 0, skip_n 0 l)"
      using loop digit_step(1)[OF d(2) assms(1,2), of v] True by simp
    ultimately show ?thesis using x by (auto simp del: skip_n_simps intro!: exI[of _ 0])
  next
    case False
    note v = digit_step(2)[OF d(2) assms(1,2) False]
    have eq: "scan_digits_loop l (of_nat b) (- 1) v = scan_digits_loop l2 (of_nat b) (- 1) (v * of_nat b + of_nat ?d)"
      using loop digit_step(1)[OF d(2) assms(1,2), of v] False by simp
    have val: "digits_value b (unat v) (x # ds) = digits_value b (unat (v * of_nat b + of_nat ?d)) ds" using v x by simp
    have skip: "skip_n n l2 = skip_n (n + length (digit_text [x])) l" for n by (simp add: l2_def)
    have len: "length (digit_text (x # ds)) = length (digit_text ds) + length (digit_text [x])" using x by simp
    show ?thesis
      using Cons.IH[OF ds at2, of "v * of_nat b + of_nat ?d"] unfolding eq val skip len
      by (auto split: if_splits) (rule exI, rule conjI[rotated], rule refl, simp)
  qed
qed

definition int_prefixes :: "(string \<times> TokenIntRep \<times> nat) list" where
  "int_prefixes =
     [([], TKN_INT_DEC, 10), (''0'', TKN_INT_OCT, 8), (''0x'', TKN_INT_HEX, 16), (''0X'', TKN_INT_HEX, 16),
      (''0b'', TKN_INT_BIN, 2), (''0B'', TKN_INT_BIN, 2)]"

definition int_suffixes :: "(string \<times> TokenIntSuffix) list" where
  "int_suffixes = [([], TKN_INT_SUFFIX_NONE), (''u'', TKN_INT_SUFFIX_U), (''s'', TKN_INT_SUFFIX_S)]"

lemma digit_text_alnum: "digits_in_base b ds \<Longrightarrow> list_all is_alphanum (digit_text ds)"
proof (induction ds)
  case (Cons x ds)
  obtain d u where x: "x = (d, u)" by (cases x)
  have "is_alphanum d" using Cons.prems x biased_digit_alphanum[of d] by (simp add: digits_in_base_def)
  moreover have "is_alphanum CHR ''_''" by (simp add: is_alphanum_iff)
  ultimately show ?case using Cons x by (simp add: digits_in_base_def)
qed simp

lemma scan_base_prefix:
  assumes "(pre, rep, b) \<in> set int_prefixes" "digits_in_base b ds" "ds \<noteq> []" "b = 10 \<longrightarrow> fst (hd ds) \<noteq> CHR ''0''"
    and "lx_at l = pre @ digit_text ds @ t"
  shows "scan_base l = Some (rep, of_nat b, skip_n (length pre) l)" "is_dec_digit (hd (lx_at l))" "2 \<le> b" "b \<le> 16"
proof -
  obtain d u ds' where ds: "ds = (d, u) # ds'" using assms(3) by (cases ds) auto
  have d: "biased_digit d \<noteq> 0" "biased_digit d \<le> b" using assms(2) ds by (auto simp: digits_in_base_def)
  have dec: "is_dec_digit d" if "b \<le> 10" using d that by (auto simp: biased_digit_iff is_dec_digit_iff split: if_splits)
  have x: "is_dec_digit d \<Longrightarrow> d \<noteq> CHR ''x'' \<and> d \<noteq> CHR ''X'' \<and> d \<noteq> CHR ''b'' \<and> d \<noteq> CHR ''B''" by (auto simp: is_dec_digit_iff)
  have zero: "is_dec_digit CHR ''0''" by (simp add: is_dec_digit_iff)
  show "scan_base l = Some (rep, of_nat b, skip_n (length pre) l)"
    using assms(1,4,5) dec x ds by (auto simp: int_prefixes_def scan_base_def adv_def peek_def skip_n_def)
  show "is_dec_digit (hd (lx_at l))" using assms(1,5) dec zero ds by (auto simp: int_prefixes_def)
  show "2 \<le> b" "b \<le> 16" using assms(1) by (auto simp: int_prefixes_def)
qed

lemma scan_suffix_correct:
  assumes "(suf, suffix) \<in> set int_suffixes" "\<not> is_alphanum c" "lx_at l = suf @ c # rest"
  shows "scan_suffix l = Some (suffix, skip_n (length suf) l)"
proof -
  have "c \<noteq> CHR ''u''" "c \<noteq> CHR ''s''" using assms(2) by (auto simp: is_alphanum_iff)
  then show ?thesis using assms(1,3) by (auto simp: int_suffixes_def scan_suffix_def adv_def peek_def skip_n_def)
qed

lemma scan_base_zero:
  assumes "lx_at l = CHR ''0'' # x # t" "\<not> is_dec_digit x" "x \<notin> set ''xXbB''"
  shows "scan_base l = Some (TKN_INT_DEC, 10, skip_n 1 l)"
  using assms by (simp add: scan_base_def adv_def peek_def skip_n_def)

text \<open>The literal zero in base ten: there is no digit left after the look for a prefix.\<close>

lemma scan_int_zero:
  assumes "(suf, suffix) \<in> set int_suffixes" "\<not> is_alphanum c" "lx_at l = CHR ''0'' # suf @ c # rest"
  shows "\<exists>l'. lx_at l' = c # rest \<and> lx_pos l' = lx_pos l + 1 + length suf \<and>
    scan_int l = Some (\<lparr>ti_value = 0, ti_rep = TKN_INT_DEC, ti_suffix = suffix\<rparr>, l') \<and> lx_errors l' = lx_errors l"
proof -
  obtain e r where er: "suf @ c # rest = e # r" by (cases suf) auto
  have e: "biased_digit e = 0" "\<not> is_dec_digit e" "e \<notin> set ''xXbB''"
    using assms(1,2) er biased_digit_alphanum[of c]
    by (auto simp: int_suffixes_def biased_digit_iff is_alphanum_iff is_dec_digit_iff)
  define l1 where "l1 = skip_n 1 l"
  have at1: "lx_at l1 = suf @ c # rest" "lx_at l1 = e # r" using assms(3) er by (simp_all add: l1_def)
  have base: "scan_base l = Some (TKN_INT_DEC, 10, l1)"
    unfolding l1_def using assms(3) er e(2,3) by (intro scan_base_zero[of l e r]) simp_all
  have digits: "scan_digits l1 10 (- 1) = Some (SCAN_DIGITS_ERR_NONE, 0, l1)"
    unfolding scan_digits_def using at1(2) e(1) by (subst scan_digits_loop.simps) (simp add: peek_def)
  note suffix = scan_suffix_correct[OF assms(1,2) at1(1)]
  define l3 where "l3 = skip_n (length suf) l1"
  have at3: "lx_at l3 = c # rest" unfolding l3_def by (rule at_skip_n[OF at1(1)])
  have first: "at0 l = Some CHR ''0''" "is_dec_digit CHR ''0''" using assms(3) by (simp_all add: peek_def is_dec_digit_iff)
  have at0_1: "at0 l1 = Some e" using at1(2) by (simp add: peek_def)
  have "scan_int l = Some (\<lparr>ti_value = 0, ti_rep = TKN_INT_DEC, ti_suffix = suffix\<rparr>, l3)"
    unfolding scan_int_def using base digits first at0_1 e(1) suffix at3 assms(2)
    by (simp add: Let_def l3_def[symmetric] peek_def)
  then show ?thesis using at3 by (intro exI[of _ l3]) (simp add: l3_def l1_def skip_n_def)
qed

lemma scan_int_digits:
  assumes "(pre, rep, b) \<in> set int_prefixes" "digits_in_base b ds" "ds \<noteq> []" "b = 10 \<longrightarrow> fst (hd ds) \<noteq> CHR ''0''"
    and "(suf, suffix) \<in> set int_suffixes" "\<not> is_alphanum c"
    and "lx_at l = pre @ digit_text ds @ suf @ c # rest" "value_of = digits_value b 0 ds"
  shows "\<exists>l'. lx_at l' = c # rest \<and> lx_pos l' = lx_pos l + length pre + length (digit_text ds) + length suf \<and>
    (if value_of < 2 ^ 64
     then scan_int l = Some (\<lparr>ti_value = of_nat value_of, ti_rep = rep, ti_suffix = suffix\<rparr>, l') \<and> lx_errors l' = lx_errors l
     else scan_int l = Some (\<lparr>ti_value = 0, ti_rep = rep, ti_suffix = TKN_INT_SUFFIX_NONE\<rparr>, l') \<and>
       (\<exists>rng msg. lx_errors l' = error_stream_add (lx_errors l) rng msg))"
proof -
  note base = scan_base_prefix[OF assms(1-4,7)]
  define l1 where "l1 = skip_n (length pre) l"
  have at1: "lx_at l1 = digit_text ds @ suf @ c # rest" using assms(7) by (simp add: l1_def)
  obtain e r where er: "suf @ c # rest = e # r" by (cases suf) auto
  have e: "biased_digit e = 0" "e \<noteq> CHR ''_''"
  proof -
    have "biased_digit c = 0" "c \<noteq> CHR ''_''" using assms(6) biased_digit_alphanum by (auto simp: is_alphanum_iff)
    then show "biased_digit e = 0" "e \<noteq> CHR ''_''" using assms(5) er by (auto simp: int_suffixes_def biased_digit_iff)
  qed
  obtain d u ds' where ds: "ds = (d, u) # ds'" using assms(3) by (cases ds) auto
  have d: "biased_digit d \<noteq> 0" using assms(2) ds by (auto simp: digits_in_base_def)
  have first: "at0 l1 = Some d" using at1 ds by (simp add: peek_def)
  have digits: "if value_of < 2 ^ 64
    then scan_digits l1 (of_nat b) (- 1) = Some (SCAN_DIGITS_ERR_NONE, of_nat value_of, skip_n (length (digit_text ds)) l1)
    else \<exists>n < length (digit_text ds). scan_digits l1 (of_nat b) (- 1) = Some (SCAN_DIGITS_ERR_OVERFLOW, 0, skip_n n l1)"
    using scan_digits_loop_correct[OF base(3,4) e assms(2), of l1 r 0] at1 er assms(8) by (simp add: scan_digits_def)
  have "lx_at l \<noteq> []" using assms(7) by simp
  then have at0_l: "at0 l = Some (hd (lx_at l))" by (cases "lx_at l") (simp_all add: peek_def)
  show ?thesis
  proof (cases "value_of < 2 ^ 64")
    case True
    define l2 where "l2 = skip_n (length (digit_text ds)) l1"
    have at2: "lx_at l2 = suf @ c # rest" using at1 by (simp add: l2_def)
    have at0_2: "\<exists>x. at0 l2 = Some x" using at2 er by (simp add: peek_def)
    note suffix = scan_suffix_correct[OF assms(5,6) at2]
    define l3 where "l3 = skip_n (length suf) l2"
    have at3: "lx_at l3 = c # rest" "lx_pos l3 = lx_pos l + length pre + length (digit_text ds) + length suf"
      unfolding l3_def using at_skip_n[OF at2] by (simp, simp add: l2_def l1_def)
    have "scan_int l = Some (\<lparr>ti_value = of_nat value_of, ti_rep = rep, ti_suffix = suffix\<rparr>, l3)"
      unfolding scan_int_def using True digits at0_l base(1,2) d first at0_2 suffix at3(1) assms(6)
      by (auto simp: Let_def l1_def[symmetric] l2_def[symmetric] l3_def[symmetric] peek_def)
    then show ?thesis using True at3 by (intro exI[of _ l3]) (simp add: l3_def l2_def l1_def skip_n_def)
  next
    case False
    then obtain n where n: "n < length (digit_text ds)" "scan_digits l1 (of_nat b) (- 1) = Some (SCAN_DIGITS_ERR_OVERFLOW, 0, skip_n n l1)"
      using digits by auto
    let ?l2 = "skip_n n l1"
    define msg where "msg = ''Integer literal '' @ take (length (lx_at l) - length (lx_at ?l2)) (lx_at l) @ '' is too large for its type''"
    define l3 where "l3 = error_here ?l2 (lexer_pos l) msg"
    have alnum: "list_all is_alphanum (drop n (digit_text ds) @ suf)"
    proof -
      have "list_all is_alphanum (digit_text ds)" by (rule digit_text_alnum[OF assms(2)])
      moreover have "list_all is_alphanum suf" using assms(5) by (auto simp: int_suffixes_def is_alphanum_iff)
      ultimately show ?thesis by (auto simp: list_all_iff dest: in_set_dropD)
    qed
    have at2: "lx_at ?l2 = drop n (digit_text ds) @ suf @ c # rest" using at1 n(1) by simp
    then have at3: "lx_at l3 = (drop n (digit_text ds) @ suf) @ c # rest" by (simp add: l3_def)
    define l4 where "l4 = skip_n (length (drop n (digit_text ds) @ suf)) l3"
    have "list_all (\<lambda>c. c \<noteq> NUL \<and> is_alphanum c) (drop n (digit_text ds) @ suf)" using alnum by (rule list.pred_mono_strong) auto
    then have skip: "skip_word_end l3 = Some l4"
      unfolding skip_word_end_def l4_def by (intro skip_while_prefix[OF at3]) (use assms(6) in auto)
    obtain x where at0_2: "at0 ?l2 = Some x" using at2 n(1) by (cases "drop n (digit_text ds)") (auto simp: peek_def)
    have "scan_int l = Some (\<lparr>ti_value = 0, ti_rep = rep, ti_suffix = TKN_INT_SUFFIX_NONE\<rparr>, l4)"
      unfolding scan_int_def
      by (simp add: Let_def n(2) at0_l base(1)[folded l1_def] base(2) d first at0_2 skip[unfolded l3_def msg_def] del: peek_Some skip_n_simps append.simps)
    moreover have "lx_at l4 = c # rest" unfolding l4_def by (rule at_skip_n[OF at3])
    moreover have "lx_pos l4 = lx_pos l + length pre + length (digit_text ds) + length suf"
      using n(1) by (simp add: l4_def l3_def l1_def)
    moreover have "\<exists>rng msg. lx_errors l4 = error_stream_add (lx_errors l) rng msg"
      by (auto simp: l4_def l3_def l1_def skip_n_def error_here_def lexer_on_error_def error_stream_add_def split: option.splits)
    ultimately show ?thesis using False by (intro exI[of _ l4]) simp
  qed
qed

text \<open>
  C38. An integer literal has its mathematical value. Its text is a prefix for the base (none for ten), digits of the
  base that may each be followed by a separator, a suffix, and then a character that cannot continue it. In base ten
  it is the digit zero alone, or its first digit is not zero: a zero before other digits is the prefix of base eight.
  When the value fits 64 bits the token has it, with the representation and the suffix, and there is no error;
  otherwise the token has the value zero and one error is reported. In both cases the lexer stops after the literal.
\<close>

theorem scan_int_value:
  assumes "(pre, rep, b) \<in> set int_prefixes" "digits_in_base b ds" "ds \<noteq> []"
    and "b = 10 \<longrightarrow> fst (hd ds) \<noteq> CHR ''0'' \<or> ds = [(CHR ''0'', False)]"
    and "(suf, suffix) \<in> set int_suffixes" "\<not> is_alphanum c"
    and "lx_at l = pre @ digit_text ds @ suf @ c # rest" "value_of = digits_value b 0 ds"
  shows "\<exists>l'. lx_at l' = c # rest \<and> lx_pos l' = lx_pos l + length pre + length (digit_text ds) + length suf \<and>
    (if value_of < 2 ^ 64
     then scan_int l = Some (\<lparr>ti_value = of_nat value_of, ti_rep = rep, ti_suffix = suffix\<rparr>, l') \<and> lx_errors l' = lx_errors l
     else scan_int l = Some (\<lparr>ti_value = 0, ti_rep = rep, ti_suffix = TKN_INT_SUFFIX_NONE\<rparr>, l') \<and>
       (\<exists>rng msg. lx_errors l' = error_stream_add (lx_errors l) rng msg))"
proof (cases "b = 10 \<and> ds = [(CHR ''0'', False)]")
  case True
  have pre: "pre = []" "rep = TKN_INT_DEC" using assms(1) True by (auto simp: int_prefixes_def)
  have v: "value_of = 0" using assms(8) True by (simp add: biased_digit_iff)
  have "lx_at l = CHR ''0'' # suf @ c # rest" using assms(7) True pre by simp
  from scan_int_zero[OF assms(5,6) this] show ?thesis using pre v True by auto
next
  case False
  then have "b = 10 \<longrightarrow> fst (hd ds) \<noteq> CHR ''0''" using assms(4) by blast
  from scan_int_digits[OF assms(1-3) this assms(5-8)] show ?thesis .
qed

theorem scan_int_value_witness:
  "(\<exists>l'. scan_int (test_lexer (''0xF_fu;'' @ [NUL])) = Some (\<lparr>ti_value = 255, ti_rep = TKN_INT_HEX, ti_suffix = TKN_INT_SUFFIX_U\<rparr>, l') \<and>
      lx_at l' = '';'' @ [NUL] \<and> lx_errors l' = Some []) \<and>
   (\<exists>l'. scan_int (test_lexer (''0;'' @ [NUL])) = Some (\<lparr>ti_value = 0, ti_rep = TKN_INT_DEC, ti_suffix = TKN_INT_SUFFIX_NONE\<rparr>, l') \<and>
      lx_at l' = '';'' @ [NUL] \<and> lx_errors l' = Some [])"
proof (rule conjI)
  let ?ds = "[(CHR ''F'', True), (CHR ''f'', False)]"
  have v: "digits_value 16 0 ?ds = 255" by (simp add: biased_digit_def char_to_biased_digit_def)
  have "(''0x'', TKN_INT_HEX, 16) \<in> set int_prefixes" "digits_in_base 16 ?ds" "?ds \<noteq> []"
      "(16 :: nat) = 10 \<longrightarrow> fst (hd ?ds) \<noteq> CHR ''0'' \<or> ?ds = [(CHR ''0'', False)]"
      "(''u'', TKN_INT_SUFFIX_U) \<in> set int_suffixes" "\<not> is_alphanum CHR '';''"
      "lx_at (test_lexer (''0xF_fu;'' @ [NUL])) = ''0x'' @ digit_text ?ds @ ''u'' @ CHR '';'' # [NUL]"
    by (simp_all add: int_prefixes_def int_suffixes_def digits_in_base_def biased_digit_def char_to_biased_digit_def is_alphanum_iff test_at)
  from scan_int_value[OF this v[symmetric]]
  show "\<exists>l'. scan_int (test_lexer (''0xF_fu;'' @ [NUL])) = Some (\<lparr>ti_value = 255, ti_rep = TKN_INT_HEX, ti_suffix = TKN_INT_SUFFIX_U\<rparr>, l') \<and>
      lx_at l' = '';'' @ [NUL] \<and> lx_errors l' = Some []" by (auto simp: test_lexer_def)
next
  let ?ds = "[(CHR ''0'', False)]"
  have v: "digits_value 10 0 ?ds = 0" by (simp add: biased_digit_def char_to_biased_digit_def)
  have "([], TKN_INT_DEC, 10) \<in> set int_prefixes" "digits_in_base 10 ?ds" "?ds \<noteq> []"
      "(10 :: nat) = 10 \<longrightarrow> fst (hd ?ds) \<noteq> CHR ''0'' \<or> ?ds = [(CHR ''0'', False)]"
      "([], TKN_INT_SUFFIX_NONE) \<in> set int_suffixes" "\<not> is_alphanum CHR '';''"
      "lx_at (test_lexer (''0;'' @ [NUL])) = [] @ digit_text ?ds @ [] @ CHR '';'' # [NUL]"
    by (simp_all add: int_prefixes_def int_suffixes_def digits_in_base_def biased_digit_def char_to_biased_digit_def is_alphanum_iff test_at)
  from scan_int_value[OF this v[symmetric]]
  show "\<exists>l'. scan_int (test_lexer (''0;'' @ [NUL])) = Some (\<lparr>ti_value = 0, ti_rep = TKN_INT_DEC, ti_suffix = TKN_INT_SUFFIX_NONE\<rparr>, l') \<and>
      lx_at l' = '';'' @ [NUL] \<and> lx_errors l' = Some []" by (auto simp: test_lexer_def)
qed

section \<open>Lines and columns\<close>

abbreviation lines_in :: "string \<Rightarrow> nat" where
  "lines_in s \<equiv> length (filter (\<lambda>c. c = NL) s)"

abbreviation since_line :: "string \<Rightarrow> nat" where
  "since_line s \<equiv> length (takeWhile (\<lambda>c. c \<noteq> NL) (rev s))"

lemma pos_less:
  fixes p :: ProgPos
  assumes "unat p + n < 2 ^ 32" "i \<le> n"
  shows "unat (p + of_nat i) = unat p + i"
  using assms by (simp add: unat_word_ariths unat_of_nat)

lemma newlines_bounds:
  "unat p + length s < 2 ^ 32 \<Longrightarrow> q \<in> set (newlines p s) \<Longrightarrow> unat p < unat q \<and> unat q \<le> unat p + length s"
proof (induction s arbitrary: p)
  case (Cons c s)
  have "unat (p + 1) = unat p + 1" using Cons.prems(1) by (simp add: unat_word_ariths)
  then show ?case using Cons.IH[of "p + 1"] Cons.prems by (auto split: if_splits)
qed simp

lemma line_index_first: "\<forall>q \<in> set qs. unat pos < unat q \<and> q \<le> fe \<Longrightarrow> line_index qs fe pos = Some 0"
  by (cases qs) (auto simp: word_less_nat_alt)

lemma line_index_newlines:
  "unat p + length s < 2 ^ 32 \<Longrightarrow> unat p + length s \<le> unat fe \<Longrightarrow> i \<le> length s \<Longrightarrow>
   line_index (newlines p s) fe (p + of_nat i) = Some (lines_in (take i s))"
proof (induction s arbitrary: p i)
  case (Cons c s)
  have p1: "unat (p + 1) = unat p + 1" using Cons.prems(1) by (simp add: unat_word_ariths)
  show ?case
  proof (cases i)
    case 0
    have "\<forall>q \<in> set (newlines p (c # s)). unat p < unat q \<and> q \<le> fe"
      using newlines_bounds[OF Cons.prems(1)] Cons.prems(2) by (fastforce simp: word_le_nat_alt)
    with 0 show ?thesis using line_index_first[of "newlines p (c # s)" p fe] by simp
  next
    case (Suc j)
    have IH: "line_index (newlines (p + 1) s) fe (p + 1 + of_nat j) = Some (lines_in (take j s))"
      using Cons.IH[of "p + 1" j] Cons.prems Suc p1 by simp
    have pos: "p + of_nat i = p + 1 + of_nat j" using Suc by (simp add: algebra_simps)
    have "p + 1 \<le> fe" using Cons.prems(2) p1 by (simp add: word_le_nat_alt)
    moreover have "\<not> p + 1 + of_nat j < p + 1"
      using pos_less[of "p + 1" "length s" j] Cons.prems Suc p1 by (simp add: word_less_nat_alt)
    ultimately show ?thesis unfolding pos using IH Suc by simp
  qed
qed simp

lemma line_start_newlines:
  "NL \<in> set (take i s) \<Longrightarrow> newlines p s ! (lines_in (take i s) - 1) + of_nat (since_line (take i s)) = p + of_nat i \<and> i \<le> length s
    \<or> \<not> i \<le> length s"
proof (induction s arbitrary: p i)
  case (Cons c s)
  then obtain j where i: "i = Suc j" by (cases i) auto
  show ?case
  proof (cases "NL \<in> set (take j s)")
    case True
    then have k: "lines_in (take j s) \<noteq> 0" by (auto simp: filter_empty_conv)
    have tw: "since_line (take i (c # s)) = since_line (take j s)"
      using True i by (simp add: takeWhile_append1[where x = NL])
    have nth: "newlines p (c # s) ! (lines_in (take i (c # s)) - 1) = newlines (p + 1) s ! (lines_in (take j s) - 1)"
      using k i by (auto simp: nth_Cons split: nat.splits)
    show ?thesis using Cons.IH[OF True, of "p + 1"] unfolding tw nth using i by (auto simp: algebra_simps)
  next
    case False
    then have c: "c = NL" using Cons.prems i by auto
    have "takeWhile (\<lambda>c. c \<noteq> NL) (rev (take j s) @ [NL]) = rev (take j s)"
      using False by (subst takeWhile_append2) auto
    moreover have "filter (\<lambda>c. c = NL) (take j s) = []" using False by (auto simp: filter_empty_conv)
    ultimately show ?thesis using i c by (auto simp: min_def algebra_simps)
  qed
qed simp

lemma plain_lines_nth: "plain_lines s \<longleftrightarrow> (\<forall>i. Suc i < length s \<longrightarrow> \<not> (s ! i = BSLASH \<and> s ! Suc i = NL))"
proof (induction s rule: plain_lines.induct)
  case (1 c d r)
  show ?case unfolding plain_lines.simps 1 by (auto simp: nth_Cons split: nat.splits) 
qed auto

text \<open>
  C39. Positions are turned back into the right line and column. When a file without escaped newlines is added and all
  of it is scanned, a position that lies \<open>i\<close> characters into the file is reported on the line after as many newlines
  as there are among those characters, and at the column after the characters since the last of them. This holds up
  to and including the end of the file, whatever files were added before it, when its positions fit 32 bits.
\<close>

theorem src_linecol_correct:
  assumes "add_src_file files path path_len (body @ [NUL]) (length body) = (f, files')"
    and "NUL \<notin> set body" "body \<noteq> [] \<longrightarrow> last body \<noteq> BSLASH \<and> last body \<noteq> SQUOTE"
    and "\<forall>i. Suc i < length body \<longrightarrow> \<not> (body ! i = BSLASH \<and> body ! Suc i = NL)"
    and "unat (get_curr_src_pos files) + length body < 2 ^ 32"
    and "scan_tokens n (file_lexer (sf_code f) (rg_start (sf_range f)) errors f idents strs) = Some (tks, l)" "length body < n"
    and "lx_line_pos l = Some line_pos" "i \<le> length body"
  shows "get_src_linecol (f\<lparr>sf_line_pos := line_pos\<rparr>) (rg_start (sf_range f) + of_nat i) =
    Some \<lparr>lc_line = of_nat (lines_in (take i body)) + 1, lc_col = of_nat (since_line (take i body)) + 1\<rparr>"
proof -
  let ?s = "get_curr_src_pos files"
  have f: "sf_code f = body @ [NUL]" "sf_range f = \<lparr>rg_start = ?s, rg_end = ?s + of_nat (length body)\<rparr>" "sf_line_pos f = []"
    using assms(1) by (auto simp: add_src_file_def Let_def)
  let ?l0 = "file_lexer (body @ [NUL]) ?s errors f idents strs"
  have at: "lx_at ?l0 = body @ [NUL]" "lexer_pos ?l0 = ?s" "lx_line_pos ?l0 = Some []" using f(3) by (simp_all add: file_lexer_def lexer_pos_def)
  have run: "scan_tokens n ?l0 = Some (tks, l)" using assms(6) f by simp
  have e: "ended (lx_at ?l0)" using assms(2,3) at(1) by (simp add: ended_iff)
  have plain: "plain_lines (lx_at ?l0)" unfolding at(1) plain_lines_nth using assms(4) by (auto simp: nth_append)
  note g = scan_tokens_goes[OF run e]
  have len: "length (lx_at ?l0) = length body + 1" using at(1) by simp
  have "lx_at l = [NUL]"
  proof (rule ccontr)
    assume "lx_at l \<noteq> [NUL]"
    then have "lx_pos ?l0 + n \<le> lx_pos l" using g by (auto split: if_splits)
    moreover obtain cs where "lx_at ?l0 = cs @ lx_at l" "lx_pos l = lx_pos ?l0 + length cs" using g by (auto simp: goes_def moved_def)
    moreover from this have "length cs \<le> length body + 1" using len by (metis length_append le_add1)
    moreover have "lx_at l \<noteq> []" using g goes_ended by auto
    ultimately show False using assms(7) len by (cases "lx_at l") auto
  qed
  then obtain cs where "lx_at ?l0 = cs @ [NUL]" "lx_line_pos l = Some (newlines ?s cs)"
    using g plain at(2,3) by (auto simp: goes_def moved_def)
  then have lines: "line_pos = newlines ?s body" using at(1) assms(8) by simp
  have pos: "unat (?s + of_nat i) = unat ?s + i" "unat (?s + of_nat (length body)) = unat ?s + length body"
    using assms(5,9) pos_less by blast+
  have index: "line_index line_pos (?s + of_nat (length body)) (?s + of_nat i) = Some (lines_in (take i body))"
    unfolding lines by (rule line_index_newlines) (use assms(5,9) pos in auto)
  have start: "(if lines_in (take i body) = 0 then ?s else line_pos ! (lines_in (take i body) - 1)) + of_nat (since_line (take i body)) = ?s + of_nat i"
  proof (cases "NL \<in> set (take i body)")
    case True
    then have "lines_in (take i body) \<noteq> 0" by (auto simp: filter_empty_conv)
    then show ?thesis using line_start_newlines[OF True, of ?s] assms(9) lines by simp
  next
    case False
    then have "lines_in (take i body) = 0" "takeWhile (\<lambda>c. c \<noteq> NL) (rev (take i body)) = rev (take i body)"
      by (auto simp: filter_empty_conv)
    moreover from this(2) have "since_line (take i body) = i" using assms(9) by (simp only: length_rev length_take min_absorb2)
    ultimately show ?thesis by simp
  qed
  have col: "?s + of_nat i - x + 1 = of_nat (since_line (take i body)) + 1" if "x + of_nat (since_line (take i body)) = ?s + of_nat i" for x
    using that by (metis add_diff_cancel_left')
  show ?thesis
    using index pos col[OF start] f(2) by (auto simp: get_src_linecol_def word_le_nat_alt Let_def assms(9) split: if_splits)
qed

theorem src_linecol_correct_witness:
  "\<exists>line_pos. get_src_linecol \<lparr>sf_range = \<lparr>rg_start = 0, rg_end = 6\<rparr>, sf_code = ''(''  @ NL # NL # ''+ -'' @ [NUL], sf_abs_path = [], sf_abs_path_len = 0,
     sf_line_pos = line_pos\<rparr> 5 = Some \<lparr>lc_line = 3, lc_col = 3\<rparr>"
proof -
  let ?body = "''('' @ NL # NL # ''+ -''"
  let ?f = "\<lparr>sf_range = \<lparr>rg_start = 0, rg_end = 6\<rparr>, sf_code = ?body @ [NUL], sf_abs_path = [], sf_abs_path_len = 0, sf_line_pos = []\<rparr>"
  let ?l = "file_lexer (sf_code ?f) (rg_start (sf_range ?f)) [] ?f test_tab test_tab"
  have add: "add_src_file [] [] 0 (?body @ [NUL]) (length ?body) = (?f, [?f])" by (simp add: add_src_file_def get_curr_src_pos_def Let_def)
  have "map_option (\<lambda>(tks, l). lx_line_pos l) (scan_tokens 7 ?l) = Some (Some [2, 3])" by code_simp
  then obtain tks l where s: "scan_tokens 7 ?l = Some (tks, l)" "lx_line_pos l = Some [2, 3]" by auto
  have "\<forall>i. Suc i < length ?body \<longrightarrow> \<not> (?body ! i = BSLASH \<and> ?body ! Suc i = NL)" by (auto simp: less_Suc_eq nth_Cons split: nat.splits)
  from src_linecol_correct[OF add _ _ this _ s(1) _ s(2), of 5] show ?thesis
    by (intro exI[of _ "[2, 3]"]) (simp add: get_curr_src_pos_def)
qed

text \<open>
  C40. Reporting a string literal that is not closed before the end of its file reads outside of the file's text. The
  error that \<open>scan_string\<close> adds ends one past the terminator; when \<open>print_error\<close> then prints the rest of the line it
  starts there, at the end of the text's buffer, so that no run of it stays in bounds.
\<close>

theorem unterminated_string_report_reads_past_end:
  assumes "sf_code f = pre @ DQUOTE # cs @ [NUL]" "set cs \<inter> {NUL, NL, DQUOTE, BSLASH} = {}" "length (sf_code f) < 2 ^ 32"
    and "lx_at l = DQUOTE # cs @ [NUL]" "lexer_pos l = rg_start (sf_range f) + of_nat (length pre)" "lx_errors l = Some errors"
    and "get_src_file files (lexer_pos l) = Some f"
  shows "\<exists>l' rng msg. scan_string l = Some (cs, l') \<and> lx_errors l' = Some (errors @ [(rng, msg)]) \<and> rg_start rng = lexer_pos l \<and>
    unat (rg_end rng - rg_start (sf_range f)) = length (sf_code f) \<and>
    print_error files rng msg use_colors test_mode_paths path_addr msg_addr err = None"
proof -
  have loop: "string_loop m start tmp = Some (tmp @ cs', skip_n (length cs') m)"
    if "lx_at m = cs' @ [NUL]" "set cs' \<inter> {NUL, NL, DQUOTE, BSLASH} = {}" for m start tmp cs'
    using that
  proof (induction cs' arbitrary: m tmp)
    case (Cons c cs')
    then have "adv m = Some (skip_n 1 m)" by (simp add: adv_def skip_n_def)
    then show ?case using Cons.IH[of "skip_n 1 m" "tmp @ [c]"] Cons.prems by (subst string_loop.simps) (auto simp: peek_def)
  qed (subst string_loop.simps, simp add: peek_def)
  let ?l1 = "skip_n 1 l"
  let ?l2 = "skip_n (length cs) ?l1"
  let ?msg = "''Encountered end-of-file while parsing string literal''"
  have at2: "lx_at ?l2 = [NUL]" using assms(4) by simp
  have "adv l = Some ?l1" using assms(4) by (simp add: adv_def skip_n_def)
  then have scan: "scan_string l = Some (cs, error_here ?l2 (lexer_pos l) ?msg)"
    using assms(4) loop[of ?l1 cs "lexer_pos l" "[]"] assms(2) at2
    by (simp add: scan_string_def Let_def peek_def del: skip_n_simps(2,3)) (simp add: peek_def)
  let ?rng = "\<lparr>rg_start = lexer_pos l, rg_end = lexer_pos ?l2 + 1\<rparr>"
  have "lx_errors ?l2 = Some errors" using assms(6) by (simp add: skip_n_def)
  then have err: "lx_errors (error_here ?l2 (lexer_pos l) ?msg) = Some (errors @ [(?rng, take (MAX_ERROR_LEN - 1) ?msg @ [NUL])])"
    by (simp add: error_here_def lexer_on_error_def error_stream_add_def)
  have "lexer_pos ?l2 = lexer_pos l + of_nat (length cs) + 1" by (simp add: lexer_pos_def)
  then have "rg_end ?rng - rg_start (sf_range f) = of_nat (length (sf_code f))"
    using assms(1,5) by (simp add: algebra_simps)
  then have past: "unat (rg_end ?rng - rg_start (sf_range f)) = length (sf_code f)" using assms(3) by (simp add: unat_of_nat)
  have "print_error files ?rng msg use_colors test_mode_paths path_addr msg_addr err = None" for msg
    unfolding print_error_def using assms(7) past by (auto simp: Let_def split: bind_splits)
  then show ?thesis using scan err past by auto
qed

theorem unterminated_string_report_reads_past_end_witness:
  "\<exists>l' rng msg. scan_string (test_lexer (DQUOTE # ''ab'' @ [NUL])) = Some (''ab'', l') \<and> lx_errors l' = Some [(rng, msg)] \<and>
     print_error [\<lparr>sf_range = \<lparr>rg_start = 0, rg_end = 3\<rparr>, sf_code = DQUOTE # ''ab'' @ [NUL], sf_abs_path = ''f'' @ [NUL],
       sf_abs_path_len = 1, sf_line_pos = []\<rparr>] rng msg False False 0 0 [] = None"
proof -
  let ?f = "\<lparr>sf_range = \<lparr>rg_start = 0, rg_end = 3\<rparr>, sf_code = DQUOTE # ''ab'' @ [NUL], sf_abs_path = ''f'' @ [NUL],
       sf_abs_path_len = 1, sf_line_pos = []\<rparr>"
  let ?l = "test_lexer (DQUOTE # ''ab'' @ [NUL])"
  have "sf_code ?f = [] @ DQUOTE # ''ab'' @ [NUL]" "set ''ab'' \<inter> {NUL, NL, DQUOTE, BSLASH} = {}" "length (sf_code ?f) < 2 ^ 32"
      "lx_at ?l = DQUOTE # ''ab'' @ [NUL]" "lexer_pos ?l = rg_start (sf_range ?f) + of_nat (length [])" "lx_errors ?l = Some []"
      "get_src_file [?f] (lexer_pos ?l) = Some ?f"
    by (simp_all add: test_lexer_def lexer_pos_def)
  from unterminated_string_report_reads_past_end[OF this, of False False 0 0 "[]"] show ?thesis by auto
qed

end
