(* ===== verification/Spec2Isabelle.thy ===== *)
theory Spec2Isabelle
  imports Text_Section Elf_Rela Emit_Instrs Reg_Alloc_Pressure Livevar_Correct Intern_Correct Print_Correct Lexer_Tokens
begin

text \<open>
  Verification of the Nibble compiler (\<open>src/src\<close>, C), back end first.

  \<^bold>\<open>The program.\<close> The compiler lexes, parses and resolves Nibble source, lowers it to a bytecode,
  then to a register-based x64 form (XIR), allocates registers, selects x64 instructions, and either
  prints NASM or encodes machine code into an ELF object.

  \<^bold>\<open>Theories.\<close>
  \<^item> Prelude: machine integers, \<open>basics.h\<close> macros, shared lemmas.
  \<^item> Bits: \<open>u32_set_bit\<close> and the bit arrays of \<open>cstring.c\<close>; a locale for stores of bits.
  \<^item> Regs: \<open>x64_gen/regs.h\<close>, \<open>regs.c\<close>.
  \<^item> X64_Instrs, Machine_Code, Elf_Gen_Instr, Jump_Relax: \<open>x64_instrs.h\<close> and \<open>machine_code.c\<close>. An
    assertion that fails, or \<open>NIBBLE_FATAL_EXIT\<close>, is \<open>None\<close>.
  \<^item> X64_Decode: a decoder written from the instruction set manual, independent of the emitter; it is
    the reference the emitter is compared with. Instr_Meaning says what each instruction means.
  \<^item> Encode_Addr, Encode_Correct, Encode_Mov, Encode_Flt, Encode_Main: emitted bytes decode to the meaning.
  \<^item> Jump_Correct, Proc_Code: the jump-size loop ends (each pass that reports a change makes a jump
    long, and a long jump never becomes short), and the code of a procedure is right.
  \<^item> Text_Section: \<open>x64_gen/text.c\<close>.
  \<^item> Elf_Rela: the relocations of the text section in \<open>x64_gen/elf_writer.c\<close> (lines 546-603), and the address an
    operand relative to the instruction pointer reaches once the linker has resolved them.
  \<^item> Emit_Instrs: \<open>x64_gen/x64_instrs.c\<close>, the linked instruction lists the encoder reads, as a refinement
    of lists of instructions.
  \<^item> Xir_Regs: the virtual registers of \<open>x64_gen/xir.h\<close> and \<open>ir_to_xir.c\<close> (lines 62-240): live ranges,
    allocation controls and the union-find of aliases.
  \<^item> Reg_Alloc: \<open>x64_gen/reg_alloc.c\<close>. Reg_Alloc_Lists has the interval lists as sorted bags (a locale with
    an interpretation for either order), Reg_Alloc_Correct the invariant of the scan, Reg_Alloc_Main what a
    successful run guarantees, Reg_Alloc_Total when the allocator returns, Reg_Alloc_Pressure a run in
    which it does not.
  \<^item> Xir_Instrs: the instructions of \<open>x64_gen/xir.h\<close> and \<open>x64_gen/xir.c\<close>, which emits them. Livevar,
    Livevar_Correct: \<open>x64_gen/livevar.c\<close>, the live intervals of the registers; together with the allocator, values
    in use at the same time stay apart.
  \<^item> Hash_Map, Hash_Map_Correct: \<open>hash_map.c\<close>, a finite map by open addressing; the interface its users rely
    on is a locale, interpreted on it.
  \<^item> Cstring, Cstring_Correct: the string functions and character tables of \<open>cstring.c\<close>.
  \<^item> Intern, Intern_Correct: interning (\<open>nibble.c\<close>) of identifiers, strings and floats over the hash map, and the
    names \<open>compiler.c\<close> interns at the start. A locale of nodes with contents, interpreted three times.
  \<^item> Print_Floats, Print_Floats_Correct: \<open>print_floats.c\<close>, the exact decimal numeral of a double and its rounding.
  \<^item> Print, Print_Correct: \<open>print.c\<close>, the printing into arrays of \<open>array.c\<close> and \<open>cstr_escape\<close>. That the printer
    uses its destination only through the callback is a locale of two destinations, interpreted on the file
    buffer and the array.
  \<^item> Decimal_Float: \<open>strtod\<close> and \<open>strtof\<close> of the C library on decimal numbers, correctly rounded.
  \<^item> Lexer, Lexer_Correct, Lexer_Tokens: \<open>lexer/module.c\<close>; that it stays in its text and reaches its end, reads
    operators and integers back, and records the lines. Lexer_Correct has the rules for outcomes of computations and
    what every scanning function does to the state.
  \<^item> Source_Pos: source files, positions and the printing of errors of \<open>compiler.c\<close> (lines 14-188).

  \<^bold>\<open>Bounds.\<close> Words have the width of the C types. Signed 32-bit sums are done on integers and a result
  outside \<open>s32\<close> is an abort; the theorems on procedures assume less than 2 GiB of code. A new hash table has at most
  2 to the 30 slots (the \<open>int\<close> shift \<open>1 << cap_log2\<close>), and the properties of tables and interning ask for arrays
  of at most 2 to the 56 entries. Loops that may not end are partial functions, or \<open>None\<close> where they never end.

  \<^bold>\<open>Not modelled.\<close> Listed with reasons in the manifest.
\<close>

end
